(* ===== verification/Prelude.thy ===== *)
theory Prelude
  imports Main "HOL-Library.Word" "HOL-Library.AList" "HOL-Library.List_Lexorder"
    "HOL-Library.Char_ord"
begin

text \<open>
  Shared vocabulary of the Backendify development: the fact collections the component
  proofs are run with, the exceptions of the C++ standard library that the program raises or
  catches, 32-bit \<open>int\<close> arithmetic, and the two associative containers of the program:
  \<open>std::unordered_map\<close> (an association list with distinct keys, whose order means nothing)
  and \<open>std::map\<close> (an association list kept in the order of its keys, which the program
  iterates in).
\<close>

named_theorems cstr_simps \<open>evaluation rules of the C++ string and character functions\<close>
named_theorems inv_intros \<open>one preservation rule per operation of a component\<close>

section \<open>Exceptions\<close>

text \<open>The argument is the text that \<open>what()\<close> returns.\<close>

datatype std_exn =
    invalid_argument string
  | out_of_range string
  | runtime_error string

type_synonym 'a exc = "std_exn + 'a"

section \<open>The C++ type int\<close>

text \<open>
  A C++ \<open>int\<close> is a HOL \<open>int\<close> in the range below. Signed overflow has no defined
  value in C++; where the program multiplies an \<open>int\<close> that it has read, the model takes
  the two's complement value the compiled program computes, \<open>wrap32\<close>, and the theorems
  say for which inputs no overflow takes place.
\<close>

definition int_min :: int where
  "int_min = - (2 ^ 31)"

definition int_max :: int where
  "int_max = 2 ^ 31 - 1"

definition in_int_range :: "int \<Rightarrow> bool" where
  "in_int_range i \<longleftrightarrow> int_min \<le> i \<and> i \<le> int_max"

definition wrap32 :: "int \<Rightarrow> int" where
  "wrap32 i = (i + 2 ^ 31) mod 2 ^ 32 - 2 ^ 31"

text \<open>The same for a 64-bit signed integer.\<close>

definition wrap64 :: "int \<Rightarrow> int" where
  "wrap64 i = (i + 2 ^ 63) mod 2 ^ 64 - 2 ^ 63"

text \<open>The conversion of an \<open>int\<close> to \<open>std::size_t\<close> (64 bits, unsigned).\<close>

definition size_of_int :: "int \<Rightarrow> nat" where
  "size_of_int i = nat (i mod 2 ^ 64)"

lemma wrap32_in_range [simp]: "in_int_range (wrap32 i)"
proof -
  have "(i + 2 ^ 31) mod 2 ^ 32 < 2 ^ 32" and "0 \<le> (i + 2 ^ 31) mod (2 ^ 32 :: int)"
    by simp_all
  then show ?thesis by (simp add: wrap32_def in_int_range_def int_min_def int_max_def)
qed

lemma wrap32_id: "in_int_range i \<Longrightarrow> wrap32 i = i"
  by (simp add: wrap32_def in_int_range_def int_min_def int_max_def)

lemma wrap64_id: "- (2 ^ 63) \<le> i \<Longrightarrow> i < 2 ^ 63 \<Longrightarrow> wrap64 i = i"
  by (simp add: wrap64_def)

lemma size_of_int_nonneg: "0 \<le> i \<Longrightarrow> i < 2 ^ 64 \<Longrightarrow> size_of_int i = nat i"
  by (simp add: size_of_int_def)

section \<open>std::unordered\_map\<close>

type_synonym ('k, 'v) umap = "('k \<times> 'v) list"

definition umap_find :: "('k, 'v) umap \<Rightarrow> 'k \<Rightarrow> 'v option" where
  "umap_find m k = map_of m k"

definition umap_put :: "'k \<Rightarrow> 'v \<Rightarrow> ('k, 'v) umap \<Rightarrow> ('k, 'v) umap" where
  "umap_put k v m = AList.update k v m"

definition umap_erase :: "'k \<Rightarrow> ('k, 'v) umap \<Rightarrow> ('k, 'v) umap" where
  "umap_erase k m = AList.delete k m"

definition umap_size :: "('k, 'v) umap \<Rightarrow> nat" where
  "umap_size m = length m"

definition umap_keys :: "('k, 'v) umap \<Rightarrow> 'k set" where
  "umap_keys m = fst ` set m"

definition umap_ok :: "('k, 'v) umap \<Rightarrow> bool" where
  "umap_ok m \<longleftrightarrow> distinct (map fst m)"

lemma umap_find_empty [simp]: "umap_find [] k = None"
  by (simp add: umap_find_def)

lemma umap_find_put [simp]:
  "umap_find (umap_put k v m) k' = (if k' = k then Some v else umap_find m k')"
  by (simp add: umap_find_def umap_put_def update_conv')

lemma umap_find_erase [simp]:
  "umap_find (umap_erase k m) k' = (if k' = k then None else umap_find m k')"
  by (simp add: umap_find_def umap_erase_def delete_conv')

lemma umap_ok_empty [simp]: "umap_ok []"
  by (simp add: umap_ok_def)

lemma umap_ok_put [simp]: "umap_ok m \<Longrightarrow> umap_ok (umap_put k v m)"
  by (simp add: umap_ok_def umap_put_def distinct_update)

lemma umap_ok_erase [simp]: "umap_ok m \<Longrightarrow> umap_ok (umap_erase k m)"
  by (simp add: umap_ok_def umap_erase_def distinct_delete)

lemma umap_keys_empty [simp]: "umap_keys [] = {}"
  by (simp add: umap_keys_def)

lemma umap_keys_put [simp]: "umap_keys (umap_put k v m) = insert k (umap_keys m)"
  using dom_update [of k v m] by (simp add: umap_keys_def umap_put_def dom_map_of_conv_image_fst)

lemma umap_keys_erase [simp]: "umap_keys (umap_erase k m) = umap_keys m - {k}"
  by (simp add: umap_keys_def umap_erase_def delete_keys flip: set_map)

lemma umap_keys_dom: "k \<in> umap_keys m \<longleftrightarrow> umap_find m k \<noteq> None"
  by (metis umap_keys_def umap_find_def map_of_eq_None_iff)

lemma umap_size_keys: "umap_ok m \<Longrightarrow> umap_size m = card (umap_keys m)"
  by (metis umap_ok_def umap_size_def umap_keys_def distinct_card length_map set_map)

lemma umap_erase_absent: "umap_find m k = None \<Longrightarrow> umap_erase k m = m"
  by (simp add: umap_erase_def umap_find_def delete_id map_of_eq_None_iff)

section \<open>std::map\<close>

type_synonym ('k, 'v) smap = "('k \<times> 'v) list"

fun smap_put :: "'k::linorder \<Rightarrow> 'v \<Rightarrow> ('k, 'v) smap \<Rightarrow> ('k, 'v) smap" where
  "smap_put k v [] = [(k, v)]"
| "smap_put k v ((k', v') # m) =
     (if k < k' then (k, v) # (k', v') # m
      else if k = k' then (k, v) # m
      else (k', v') # smap_put k v m)"

definition smap_ok :: "('k::linorder, 'v) smap \<Rightarrow> bool" where
  "smap_ok m \<longleftrightarrow> sorted_wrt (<) (map fst m)"

lemma map_of_smap_put [simp]: "map_of (smap_put k v m) = (map_of m)(k \<mapsto> v)"
  by (induction k v m rule: smap_put.induct) (auto simp: fun_eq_iff)

lemma smap_put_keys [simp]: "fst ` set (smap_put k v m) = insert k (fst ` set m)"
  by (induction k v m rule: smap_put.induct) auto

lemma smap_ok_empty [simp]: "smap_ok []"
  by (simp add: smap_ok_def)

lemma smap_ok_put [simp]: "smap_ok m \<Longrightarrow> smap_ok (smap_put k v m)"
proof (induction k v m rule: smap_put.induct)
  case (2 k v k' v' m)
  have "fst ` set (smap_put k v m) = insert k (fst ` set m)" by simp
  with 2 show ?case
    by (fastforce simp: smap_ok_def dest!: equalityD1 [THEN subsetD])
qed (simp add: smap_ok_def)

lemma smap_ok_distinct: "smap_ok m \<Longrightarrow> distinct (map fst m)"
  by (simp add: smap_ok_def strict_sorted_iff)

lemma smap_mem_put: "(k', v') \<in> set (smap_put k v m) \<Longrightarrow> (k', v') = (k, v) \<or> (k', v') \<in> set m"
  by (induction k v m rule: smap_put.induct) (auto split: if_splits)

section \<open>Branches of a fallible definition\<close>

text \<open>
  Elimination of a conditional that ended normally, without its condition: for facts that hold on
  every branch.
\<close>

lemma if_InrE: "(if c then a else b) = Inr x \<Longrightarrow> (a = Inr x \<Longrightarrow> P) \<Longrightarrow> (b = Inr x \<Longrightarrow> P) \<Longrightarrow> P"
  by (cases c) auto

section \<open>Lists\<close>

lemma filter_key_notin: "k \<notin> f ` set xs \<Longrightarrow> filter (\<lambda>x. f x \<noteq> k) xs = xs"
  by (induction xs) auto

lemma distinct_map_filter_neq:
  "distinct (map f xs) \<Longrightarrow> x \<in> set xs \<Longrightarrow> {y \<in> set xs. f y = f x} = {x}"
  by (auto simp: distinct_map inj_on_def)

lemma filter_last_key:
  assumes "xs \<noteq> []" and "distinct (map f xs)"
  shows "filter (\<lambda>x. f x \<noteq> f (last xs)) xs = butlast xs"
proof -
  obtain ys y where xs: "xs = ys @ [y]" using assms(1) by (metis rev_exhaust)
  then have "f y \<notin> f ` set ys" using assms(2) by auto
  then show ?thesis using xs by (simp add: filter_key_notin)
qed

lemma distinct_map_takeWhile: "distinct (map f xs) \<Longrightarrow> distinct (map f (takeWhile P xs))"
  by (metis distinct_append map_append takeWhile_dropWhile_id)

lemma dropWhile_all: "(\<And>c. c \<in> set s \<Longrightarrow> P c) \<Longrightarrow> dropWhile P s = []"
  by (induction s) auto

lemma takeWhile_append_stop: "(\<And>c. c \<in> set s \<Longrightarrow> P c) \<Longrightarrow> \<not> P d \<Longrightarrow> takeWhile P (s @ d # r) = s"
  by (induction s) auto

lemma dropWhile_append_stop: "(\<And>c. c \<in> set s \<Longrightarrow> P c) \<Longrightarrow> \<not> P d \<Longrightarrow> dropWhile P (s @ d # r) = d # r"
  by (induction s) auto

end
