(* ===== verification/Cpp_Strings.thy ===== *)
theory Cpp_Strings
  imports Prelude
begin

text \<open>
  What the program uses of the C and C++ standard library on characters and strings: the
  character classes of the C locale, \<open>std::string::find\<close>, \<open>std::stoi\<close>,
  \<open>std::to_string\<close> and the C string of a \<open>std::string\<close>. A \<open>std::string\<close> is a
  HOL \<open>string\<close> (a list of bytes).
\<close>

section \<open>Characters (the C locale)\<close>

definition code :: "char \<Rightarrow> nat" where
  "code c = of_char c"

definition c_isspace :: "char \<Rightarrow> bool" where
  "c_isspace c \<longleftrightarrow> code c = 32 \<or> (9 \<le> code c \<and> code c \<le> 13)"

definition c_isdigit :: "char \<Rightarrow> bool" where
  "c_isdigit c \<longleftrightarrow> 48 \<le> code c \<and> code c \<le> 57"

definition c_isupper :: "char \<Rightarrow> bool" where
  "c_isupper c \<longleftrightarrow> 65 \<le> code c \<and> code c \<le> 90"

definition c_islower :: "char \<Rightarrow> bool" where
  "c_islower c \<longleftrightarrow> 97 \<le> code c \<and> code c \<le> 122"

definition c_isalpha :: "char \<Rightarrow> bool" where
  "c_isalpha c \<longleftrightarrow> c_isupper c \<or> c_islower c"

definition c_toupper :: "char \<Rightarrow> char" where
  "c_toupper c = (if c_islower c then char_of (code c - 32) else c)"

definition c_isxdigit :: "char \<Rightarrow> bool" where
  "c_isxdigit c \<longleftrightarrow> c_isdigit c \<or> (65 \<le> code c \<and> code c \<le> 70) \<or> (97 \<le> code c \<and> code c \<le> 102)"

definition digit_val :: "char \<Rightarrow> nat" where
  "digit_val c = code c - 48"

definition xdigit_val :: "char \<Rightarrow> nat" where
  "xdigit_val c =
     (if c_isdigit c then code c - 48
      else if 97 \<le> code c then code c - 87 else code c - 55)"

section \<open>Strings\<close>

text \<open>\<open>s.find(c)\<close>; \<open>None\<close> is \<open>std::string::npos\<close>.\<close>

fun find_char :: "char \<Rightarrow> string \<Rightarrow> nat option" where
  "find_char c [] = None"
| "find_char c (x # s) = (if x = c then Some 0 else map_option Suc (find_char c s))"

text \<open>\<open>s.substr(0, pos)\<close> and \<open>s.substr(pos)\<close> for \<open>pos \<le> s.length()\<close>.\<close>

definition substr_to :: "string \<Rightarrow> nat \<Rightarrow> string" where
  "substr_to s pos = take pos s"

definition substr_from :: "string \<Rightarrow> nat \<Rightarrow> string" where
  "substr_from s pos = drop pos s"

text \<open>\<open>s.rfind(p, 0) == 0\<close>: the string starts with \<open>p\<close>.\<close>

fun starts_with :: "string \<Rightarrow> string \<Rightarrow> bool" where
  "starts_with s [] = True"
| "starts_with [] (p # ps) = False"
| "starts_with (c # s) (p # ps) = (c = p \<and> starts_with s ps)"

text \<open>\<open>s.c_str()\<close> as a callee sees it: it stops at the first NUL byte.\<close>

definition c_str :: "string \<Rightarrow> string" where
  "c_str s = takeWhile (\<lambda>c. c \<noteq> CHR 0x00) s"

text \<open>A text between single quotes, as the program's messages show it.\<close>

definition quoted :: "string \<Rightarrow> string" where
  "quoted s = CHR 0x27 # s @ [CHR 0x27]"

text \<open>\<open>std::transform\<close> of the whole string with \<open>toupper\<close>.\<close>

definition upper :: "string \<Rightarrow> string" where
  "upper s = map c_toupper s"

section \<open>Numbers\<close>

fun string_of_nat :: "nat \<Rightarrow> string" where
  "string_of_nat n =
     (if n < 10 then [char_of (48 + n)]
      else string_of_nat (n div 10) @ [char_of (48 + n mod 10)])"

declare string_of_nat.simps [simp del]

text \<open>\<open>std::to_string\<close> and \<open>operator<<\<close> on an integer.\<close>

definition string_of_int :: "int \<Rightarrow> string" where
  "string_of_int i =
     (if i < 0 then CHR ''-'' # string_of_nat (nat (- i)) else string_of_nat (nat i))"

definition nat_of_digits :: "string \<Rightarrow> nat" where
  "nat_of_digits s = foldl (\<lambda>n c. 10 * n + digit_val c) 0 s"

definition nat_of_xdigits :: "string \<Rightarrow> nat" where
  "nat_of_xdigits s = foldl (\<lambda>n c. 16 * n + xdigit_val c) 0 s"

text \<open>The sign that \<open>strtol\<close> and \<open>num_get\<close> accept: the sign and the text after it.\<close>

definition split_sign :: "string \<Rightarrow> bool \<times> string" where
  "split_sign s =
     (case s of [] \<Rightarrow> (False, [])
      | c # t \<Rightarrow> if c = CHR ''-'' then (True, t)
                else if c = CHR ''+'' then (False, t) else (False, s))"

text \<open>
  \<open>std::stoi(s, &pos)\<close> in base 10: leading white space, a sign, digits. The result is the
  value and \<open>pos\<close>, the number of characters consumed.
\<close>

definition stoi :: "string \<Rightarrow> (int \<times> nat) exc" where
  "stoi s =
     (let r = dropWhile c_isspace s; (neg, t) = split_sign r; ds = takeWhile c_isdigit t;
          v = (if neg then - int (nat_of_digits ds) else int (nat_of_digits ds))
      in if ds = [] then Inl (invalid_argument ''stoi'')
         else if in_int_range v then Inr (v, length s - length t + length ds)
         else Inl (out_of_range ''stoi''))"

section \<open>Lemmas\<close>

lemma code_less [simp]: "code c < 256"
  by (simp add: code_def)

lemma code_inject: "code c = code d \<longleftrightarrow> c = d"
  by (simp add: code_def)

lemma code_char_of [simp]: "n < 256 \<Longrightarrow> code (char_of n) = n"
  by (simp add: code_def)

lemma char_of_code [simp]: "char_of (code c) = c"
  by (simp add: code_def)

lemmas char_class_defs =
  c_isspace_def c_isdigit_def c_isupper_def c_islower_def c_isalpha_def c_isxdigit_def

lemmas char_val_defs = digit_val_def xdigit_val_def c_toupper_def

lemmas [cstr_simps] = char_class_defs char_val_defs code_def char_of_eq_iff

lemmas stoi_eval =
  stoi_def split_sign_def nat_of_digits_def in_int_range_def int_min_def int_max_def cstr_simps

lemma xdigit_val_less: "xdigit_val c < 256"
proof -
  have "xdigit_val c \<le> code c" by (simp add: xdigit_val_def)
  then show ?thesis by (rule le_less_trans) simp
qed

lemma find_char_Some_iff:
  "find_char c s = Some i \<longleftrightarrow> i < length s \<and> s ! i = c \<and> c \<notin> set (take i s)"
proof (induction s arbitrary: i)
  case (Cons x s)
  then show ?case by (cases i) auto
qed simp

lemma find_char_None_iff: "find_char c s = None \<longleftrightarrow> c \<notin> set s"
  by (induction s) auto

lemma find_char_split: "c \<notin> set a \<Longrightarrow> find_char c (a @ c # b) = Some (length a)"
  by (induction a) auto

lemma find_char_Some_split:
  assumes "find_char c s = Some i"
  shows "s = take i s @ c # drop (Suc i) s" and "c \<notin> set (take i s)"
  using assms id_take_nth_drop [of i s] by (auto simp: find_char_Some_iff)

lemma starts_with_iff: "starts_with s p \<longleftrightarrow> (\<exists>r. s = p @ r)"
  by (induction s p rule: starts_with.induct) auto

lemma c_toupper_isupper: "c_isalpha c \<Longrightarrow> c_isupper (c_toupper c)"
  by (auto simp: char_class_defs c_toupper_def)

lemma c_toupper_idem [simp]: "c_toupper (c_toupper c) = c_toupper c"
  by (auto simp: char_class_defs c_toupper_def)

lemma upper_idem [simp]: "upper (upper s) = upper s"
  by (simp add: upper_def)

lemma length_upper [simp]: "length (upper s) = length s"
  by (simp add: upper_def)

lemma upper_eq_Nil [simp]: "upper s = [] \<longleftrightarrow> s = []"
  by (simp add: upper_def)

lemma c_toupper_of_upper: "c_isupper c \<Longrightarrow> c_toupper c = c"
  by (auto simp: char_class_defs c_toupper_def)

lemma c_str_no_nul: "CHR 0x00 \<notin> set s \<Longrightarrow> c_str s = s"
  unfolding c_str_def by (rule takeWhile_eq_all_conv [THEN iffD2]) auto

subsection \<open>Decimal numerals\<close>

lemma nat_of_digits_Nil [simp]: "nat_of_digits [] = 0"
  by (simp add: nat_of_digits_def)

lemma nat_of_digits_snoc: "nat_of_digits (s @ [c]) = 10 * nat_of_digits s + digit_val c"
  by (simp add: nat_of_digits_def)

lemma string_of_nat_nonempty [simp]: "string_of_nat n \<noteq> []"
  by (subst string_of_nat.simps) simp

lemma string_of_nat_digits: "c \<in> set (string_of_nat n) \<Longrightarrow> c_isdigit c"
proof (induction n rule: string_of_nat.induct)
  case (1 n)
  show ?case
  proof (cases "n < 10")
    case True
    with 1(2) show ?thesis by (subst (asm) string_of_nat.simps) (simp add: c_isdigit_def)
  next
    case False
    with 1(2) consider "c \<in> set (string_of_nat (n div 10))" | "c = char_of (48 + n mod 10)"
      by (subst (asm) string_of_nat.simps) auto
    then show ?thesis
    proof cases
      case 1
      with False "1.IH" show ?thesis by simp
    next
      case 2
      have "n mod 10 < 10" by simp
      with 2 show ?thesis by (simp add: c_isdigit_def)
    qed
  qed
qed

lemma nat_of_string_of_nat [simp]: "nat_of_digits (string_of_nat n) = n"
proof (induction n rule: string_of_nat.induct)
  case (1 n)
  show ?case
  proof (cases "n < 10")
    case True
    then show ?thesis
      by (subst string_of_nat.simps) (simp add: nat_of_digits_def digit_val_def)
  next
    case False
    have "48 + n mod 10 < 256" by simp
    with False 1 show ?thesis
      by (subst string_of_nat.simps) (simp add: nat_of_digits_snoc digit_val_def)
  qed
qed

lemma split_sign_digit: "c_isdigit c \<Longrightarrow> split_sign (c # s) = (False, c # s)"
  by (auto simp: split_sign_def cstr_simps)

lemma split_sign_length: "length (snd (split_sign s)) \<le> length s"
  by (auto simp: split_sign_def split: list.splits)

lemma split_sign_suffix: "\<exists>p. s = p @ snd (split_sign s)"
  by (cases s) (auto simp: split_sign_def)

lemma digit_not_space: "c_isdigit c \<Longrightarrow> \<not> c_isspace c"
  by (auto simp: char_class_defs)

text \<open>\<open>std::stoi\<close> reads back what \<open>std::to_string\<close> prints, and consumes it whole.\<close>

lemma stoi_string_of_nat:
  assumes "int n \<le> int_max"
  shows "stoi (string_of_nat n) = Inr (int n, length (string_of_nat n))"
proof -
  obtain c t where ct: "string_of_nat n = c # t"
    by (meson neq_Nil_conv string_of_nat_nonempty)
  have dig: "\<And>d. d \<in> set (c # t) \<Longrightarrow> c_isdigit d"
    unfolding ct [symmetric] by (rule string_of_nat_digits)
  have drop: "dropWhile c_isspace (c # t) = c # t"
    using dig [of c] by (simp add: digit_not_space)
  have take: "takeWhile c_isdigit (c # t) = c # t"
    using dig by (simp add: takeWhile_eq_all_conv)
  have sign: "split_sign (c # t) = (False, c # t)"
    using dig [of c] by (simp add: split_sign_digit)
  have val: "nat_of_digits (c # t) = n"
    unfolding ct [symmetric] by simp
  have range: "in_int_range (int n)"
    using assms by (simp add: in_int_range_def int_min_def)
  show ?thesis
    unfolding ct stoi_def Let_def drop sign case_prod_conv take val using range by simp
qed

lemma stoi_string_of_int:
  assumes "in_int_range i"
  shows "stoi (string_of_int i) = Inr (i, length (string_of_int i))"
proof (cases "i < 0")
  case False
  then have "string_of_int i = string_of_nat (nat i)" and "int (nat i) = i"
    by (simp_all add: string_of_int_def)
  with assms stoi_string_of_nat [of "nat i"] show ?thesis
    by (simp add: in_int_range_def)
next
  case True
  let ?d = "string_of_nat (nat (- i))"
  have drop: "dropWhile c_isspace (CHR ''-'' # ?d) = CHR ''-'' # ?d"
    by (simp add: cstr_simps)
  have take: "takeWhile c_isdigit ?d = ?d"
    using string_of_nat_digits by (auto simp: takeWhile_eq_all_conv)
  have sign: "split_sign (CHR ''-'' # ?d) = (True, ?d)"
    by (simp add: split_sign_def)
  have val: "- int (nat (- i)) = i" using True by simp
  show ?thesis
    using True assms
    unfolding string_of_int_def if_P [OF True] stoi_def Let_def drop sign case_prod_conv take
      nat_of_string_of_nat
    by (simp add: val)
qed

end
