(* ===== verification/Cpp_Streams.thy ===== *)
theory Cpp_Streams
  imports Cpp_Strings
begin

text \<open>
  \<open>std::istringstream\<close> as far as the program reads from one: the characters not yet read and
  the state bits, with the formatted and unformatted input functions the program calls. The
  rules are those of libstdc++ (the Linux toolchain of the repository's \<open>Dockerfile\<close>): every
  input function first builds a \<open>sentry\<close>, which fails on a stream that is not good and
  otherwise skips white space (except for \<open>peek\<close>).
\<close>

section \<open>The stream and its input functions\<close>

record istream =
  sbuf :: string
  eofbit :: bool
  failbit :: bool

definition istringstream :: "string \<Rightarrow> istream" where
  "istringstream s = \<lparr>sbuf = s, eofbit = False, failbit = False\<rparr>"

definition good :: "istream \<Rightarrow> bool" where
  "good st \<longleftrightarrow> \<not> eofbit st \<and> \<not> failbit st"

definition clear_state :: "istream \<Rightarrow> istream" where
  "clear_state st = st\<lparr>eofbit := False, failbit := False\<rparr>"

text \<open>The sentry of a formatted input function: whether it lets the function read, and the stream.\<close>

definition sentry :: "istream \<Rightarrow> bool \<times> istream" where
  "sentry st =
     (if \<not> good st then (False, st\<lparr>failbit := True\<rparr>)
      else let r = dropWhile c_isspace (sbuf st)
           in if r = [] then (False, st\<lparr>sbuf := [], eofbit := True, failbit := True\<rparr>)
              else (True, st\<lparr>sbuf := r\<rparr>))"

definition peek :: "istream \<Rightarrow> char option \<times> istream" where
  "peek st =
     (if \<not> good st then (None, st\<lparr>failbit := True\<rparr>)
      else case sbuf st of [] \<Rightarrow> (None, st\<lparr>eofbit := True\<rparr>) | c # _ \<Rightarrow> (Some c, st))"

text \<open>\<open>st >> c\<close> for a \<open>char\<close>: \<open>None\<close> when nothing was extracted (\<open>c\<close> is unchanged).\<close>

definition get_char :: "istream \<Rightarrow> char option \<times> istream" where
  "get_char st =
     (case sentry st of
        (False, st') \<Rightarrow> (None, st')
      | (True, st') \<Rightarrow>
          (case sbuf st' of [] \<Rightarrow> (None, st'\<lparr>eofbit := True, failbit := True\<rparr>)
           | c # r \<Rightarrow> (Some c, st'\<lparr>sbuf := r\<rparr>)))"

text \<open>\<open>st >> s\<close> for a \<open>std::string\<close>: the next word.\<close>

definition get_word :: "istream \<Rightarrow> string option \<times> istream" where
  "get_word st =
     (case sentry st of
        (False, st') \<Rightarrow> (None, st')
      | (True, st') \<Rightarrow>
          let w = takeWhile (\<lambda>c. \<not> c_isspace c) (sbuf st');
              r = dropWhile (\<lambda>c. \<not> c_isspace c) (sbuf st')
          in (Some w, st'\<lparr>sbuf := r, eofbit := (r = [])\<rparr>))"

text \<open>
  \<open>st >> n\<close> for an \<open>int\<close> in base 10: all digits after the sign are consumed; the result is
  stored only when there is one and it is in range (\<open>failbit\<close> is set otherwise).
\<close>

definition get_int :: "istream \<Rightarrow> int option \<times> istream" where
  "get_int st =
     (case sentry st of
        (False, st') \<Rightarrow> (None, st')
      | (True, st') \<Rightarrow>
          let (neg, t) = split_sign (sbuf st');
              ds = takeWhile c_isdigit t; r = dropWhile c_isdigit t;
              v = (if neg then - int (nat_of_digits ds) else int (nat_of_digits ds));
              ok = (ds \<noteq> [] \<and> in_int_range v)
          in (if ok then Some v else None,
              st'\<lparr>sbuf := r, eofbit := (r = []), failbit := \<not> ok\<rparr>))"

text \<open>
  \<open>st >> std::hex >> n\<close>: white space, a sign, an optional \<open>0x\<close> and hexadecimal digits;
  the value, or \<open>None\<close> when the extraction fails.
\<close>

definition strip_0x :: "string \<Rightarrow> string" where
  "strip_0x s =
     (case s of a # b # r \<Rightarrow>
        if a = CHR ''0'' \<and> (b = CHR ''x'' \<or> b = CHR ''X'') then r else s
      | _ \<Rightarrow> s)"

definition get_hex :: "istream \<Rightarrow> int option" where
  "get_hex st =
     (case sentry st of
        (False, st') \<Rightarrow> None
      | (True, st') \<Rightarrow>
          let (neg, t) = split_sign (sbuf st');
              ds = takeWhile c_isxdigit (strip_0x t);
              v = (if neg then - int (nat_of_xdigits ds) else int (nat_of_xdigits ds))
          in if ds \<noteq> [] \<and> in_int_range v then Some v else None)"

section \<open>Lemmas\<close>

lemma good_istringstream [simp]: "good (istringstream s)"
  by (simp add: good_def istringstream_def)

lemma sbuf_istringstream [simp]: "sbuf (istringstream s) = s"
  by (simp add: istringstream_def)

lemma sentry_good:
  "good st \<Longrightarrow> sentry st =
     (let r = dropWhile c_isspace (sbuf st)
      in if r = [] then (False, st\<lparr>sbuf := [], eofbit := True, failbit := True\<rparr>)
         else (True, st\<lparr>sbuf := r\<rparr>))"
  by (simp add: sentry_def)

lemma sentry_bad: "\<not> good st \<Longrightarrow> sentry st = (False, st\<lparr>failbit := True\<rparr>)"
  by (simp add: sentry_def)

lemma sentry_nonspace:
  assumes "\<not> c_isspace c"
  shows "sentry (istringstream (c # s)) = (True, istringstream (c # s))"
  using assms by (simp add: sentry_good) (simp add: istringstream_def)

lemma get_char_good:
  "good st \<Longrightarrow> get_char st =
     (case dropWhile c_isspace (sbuf st) of
        [] \<Rightarrow> (None, st\<lparr>sbuf := [], eofbit := True, failbit := True\<rparr>)
      | c # r \<Rightarrow> (Some c, st\<lparr>sbuf := r\<rparr>))"
  by (cases "dropWhile c_isspace (sbuf st)")
    (simp_all add: get_char_def sentry_good Let_def del: dropWhile_eq_Nil_conv)

lemma get_char_bad: "\<not> good st \<Longrightarrow> get_char st = (None, st\<lparr>failbit := True\<rparr>)"
  by (simp add: get_char_def sentry_bad)

lemma get_word_None: "fst (get_word st) = None \<longleftrightarrow> \<not> good st \<or> dropWhile c_isspace (sbuf st) = []"
  by (auto simp: get_word_def sentry_def Let_def split: if_splits)

text \<open>Reading an \<open>int\<close> where the next character is a digit consumes exactly the run of digits.\<close>

lemma get_int_at_digit:
  assumes "good st" and "sbuf st = c # s" and "c_isdigit c"
  shows "sbuf (snd (get_int st)) = dropWhile c_isdigit (c # s)"
    and "eofbit (snd (get_int st)) \<longleftrightarrow> dropWhile c_isdigit (c # s) = []"
proof -
  have "dropWhile c_isspace (c # s) = c # s"
    using assms(3) by (simp add: digit_not_space)
  then have "sentry st = (True, st\<lparr>sbuf := c # s\<rparr>)"
    using assms by (simp add: sentry_good)
  then show "sbuf (snd (get_int st)) = dropWhile c_isdigit (c # s)"
    and "eofbit (snd (get_int st)) \<longleftrightarrow> dropWhile c_isdigit (c # s) = []"
    using assms(3) by (simp_all add: get_int_def Let_def split_sign_digit)
qed

end
