(* ===== verification/App_Config.thy ===== *)
theory App_Config
  imports Cpp_Strings "HOL-Library.Signed_Division"
begin

text \<open>
  The configuration of the service: \<open>src/src/config/AppConfig.hpp\<close> (log levels, metric
  names, the class \<open>AppConfig\<close> with its defaults, the values it deduces and its printed
  form) and \<open>src/src/models/BackendUrlInfo.hpp\<close>. The number of hardware threads is what
  \<open>std::thread::hardware_concurrency()\<close> returned, an argument of the model.
\<close>

section \<open>Log levels\<close>

datatype LogLevel = DEBUG | INFO | WARN | CERROR | SETUP

definition level_num :: "LogLevel \<Rightarrow> int" where
  "level_num l = (case l of DEBUG \<Rightarrow> 0 | INFO \<Rightarrow> 1 | WARN \<Rightarrow> 2 | CERROR \<Rightarrow> 3 | SETUP \<Rightarrow> 4)"

definition DEBUG_LOG_PREFIX :: string where "DEBUG_LOG_PREFIX = ''[Debug] ''"
definition INFO_LOG_PREFIX :: string where "INFO_LOG_PREFIX = ''[Info] ''"
definition WARN_LOG_PREFIX :: string where "WARN_LOG_PREFIX = ''[Warning] ''"
definition CERROR_LOG_PREFIX :: string where "CERROR_LOG_PREFIX = ''[Error] ''"
definition SETUP_LOG_PREFIX :: string where "SETUP_LOG_PREFIX = ''[Setup] ''"

text \<open>The enumerators are ordered by their values, as the comparisons of the logger use them.\<close>

instantiation LogLevel :: linorder
begin

definition less_eq_LogLevel :: "LogLevel \<Rightarrow> LogLevel \<Rightarrow> bool" where
  "less_eq_LogLevel a b \<longleftrightarrow> level_num a \<le> level_num b"

definition less_LogLevel :: "LogLevel \<Rightarrow> LogLevel \<Rightarrow> bool" where
  "less_LogLevel a b \<longleftrightarrow> level_num a < level_num b"

instance
  by standard
    (auto simp: less_eq_LogLevel_def less_LogLevel_def level_num_def split: LogLevel.splits)

end

section \<open>Metric names\<close>

definition CODE_EXCEPTION :: string where "CODE_EXCEPTION = ''metric.1''"
definition JSON_ERROR :: string where "JSON_ERROR = ''metric.2''"
definition CIRCUIT_BREAKER_LOGGED :: string where "CIRCUIT_BREAKER_LOGGED = ''metric.3''"
definition REQUEST_TIMED_OUT :: string where "REQUEST_TIMED_OUT = ''metric.5''"

lemmas metric_defs =
  CODE_EXCEPTION_def JSON_ERROR_def CIRCUIT_BREAKER_LOGGED_def REQUEST_TIMED_OUT_def

section \<open>BackendUrlInfo\<close>

record BackendUrlInfo =
  url :: string
  backend_host :: string
  backend_port :: int
  is_https :: bool

text \<open>\<open>operator==\<close> compares the \<open>url\<close> members only.\<close>

definition url_info_eq :: "BackendUrlInfo \<Rightarrow> BackendUrlInfo \<Rightarrow> bool" where
  "url_info_eq a b \<longleftrightarrow> url a = url b"

section \<open>AppConfig\<close>

record AppConfig =
  country_backend_map :: "(string, BackendUrlInfo) smap"
  use_redis :: bool
  redis_host :: string
  redis_port :: int
  redis_ttl :: int
  in_memory_cache_ttl :: int
  in_memory_cache_max_size :: int
  frontend_port :: int
  number_of_threads_per_core :: int
  num_io_threads :: "32 word"
  max_response_queue_size :: int
  queue_multiply_factor :: int
  log_level :: LogLevel
  metrics_batch_size :: int
  metrics_send_interval_in_millis :: int
  server_sla_in_micros :: int
  request_average_processing_time_in_micros :: int
  drop_sla_timeout_requests :: bool
  backend_servers_circuit_breaker_cool_off_duration_in_millis :: int
  connection_timeout_in_microseconds :: int
  read_request_timeout_in_microseconds :: int

text \<open>The constructor \<open>AppConfig()\<close>.\<close>

definition default_config :: AppConfig where
  "default_config =
     \<lparr>country_backend_map = [],
      use_redis = True,
      redis_host = ''localhost'',
      redis_port = 6379,
      redis_ttl = 3600 * 24,
      in_memory_cache_ttl = 3600 * 24,
      in_memory_cache_max_size = 10000,
      frontend_port = 9000,
      number_of_threads_per_core = 2,
      num_io_threads = 2,
      max_response_queue_size = 100000,
      queue_multiply_factor = 4,
      log_level = CERROR,
      metrics_batch_size = 100,
      metrics_send_interval_in_millis = 1000,
      server_sla_in_micros = 1000000,
      request_average_processing_time_in_micros = 1200,
      drop_sla_timeout_requests = True,
      backend_servers_circuit_breaker_cool_off_duration_in_millis = 10,
      connection_timeout_in_microseconds = 25000,
      read_request_timeout_in_microseconds = 50000\<rparr>"

text \<open>
  \<open>updateDeductions\<close>. \<open>num_io_threads\<close> is an \<open>unsigned int\<close>, so both products are
  unsigned 32-bit products, and the second one is converted back to \<open>int\<close>.
\<close>

definition updateDeductions :: "32 word \<Rightarrow> AppConfig \<Rightarrow> AppConfig" where
  "updateDeductions hardware_concurrency cfg =
     (let n = hardware_concurrency * word_of_int (number_of_threads_per_core cfg);
          n = (if n = 0 then 2 else n);
          per_thread = server_sla_in_micros cfg sdiv request_average_processing_time_in_micros cfg
      in cfg\<lparr>num_io_threads := n,
             max_response_queue_size :=
               sint (n * word_of_int per_thread * word_of_int (queue_multiply_factor cfg))\<rparr>)"

definition string_of_bool :: "bool \<Rightarrow> string" where
  "string_of_bool b = (if b then ''true'' else ''false'')"

text \<open>\<open>AppConfig::to_string\<close>: a line per parameter, then a line per configured country.\<close>

definition endl :: string where "endl = [CHR 0x0A]"

fun country_lines :: "(string, BackendUrlInfo) smap \<Rightarrow> string" where
  "country_lines [] = []"
| "country_lines ((country, backend) # m) =
     country @ '' : '' @ url backend @ endl @ country_lines m"

definition config_to_string :: "AppConfig \<Rightarrow> string" where
  "config_to_string cfg =
     ''// --- Configuration Params Start --- //'' @ endl
     @ ''frontend_port: '' @ string_of_int (frontend_port cfg) @ endl
     @ ''number_of_threads_per_core: '' @ string_of_int (number_of_threads_per_core cfg) @ endl
     @ ''total num_io_threads: '' @ string_of_nat (unat (num_io_threads cfg)) @ endl
     @ ''server_sla_in_micros: '' @ string_of_int (server_sla_in_micros cfg) @ endl
     @ ''request_average_processing_time_in_micros: ''
         @ string_of_int (request_average_processing_time_in_micros cfg) @ endl
     @ ''drop_sla_timeout_requests: '' @ string_of_bool (drop_sla_timeout_requests cfg) @ endl
     @ ''max_response_queue_size: '' @ string_of_int (max_response_queue_size cfg) @ endl
     @ ''queue_multiply_factor: '' @ string_of_int (queue_multiply_factor cfg) @ endl
     @ ''// --- Cache Configuration --- //'' @ endl
     @ ''use_redis: '' @ string_of_bool (use_redis cfg) @ endl
     @ ''redis_host: '' @ redis_host cfg @ endl
     @ ''redis_port: '' @ string_of_int (redis_port cfg) @ endl
     @ ''redis_ttl: '' @ string_of_int (redis_ttl cfg) @ endl
     @ ''in_memory_cache_ttl: '' @ string_of_int (in_memory_cache_ttl cfg) @ endl
     @ ''in_memory_cache_max_size: '' @ string_of_int (in_memory_cache_max_size cfg) @ endl
     @ ''// --- Logging & Metrics --- //'' @ endl
     @ ''log_level: '' @ string_of_int (level_num (log_level cfg)) @ endl
     @ ''metrics_batch_size: '' @ string_of_int (metrics_batch_size cfg) @ endl
     @ ''metrics_send_interval_in_millis: ''
         @ string_of_int (metrics_send_interval_in_millis cfg) @ endl
     @ ''--- Backend Servers Network Configurations --- '' @ endl
     @ ''circuit_breaker_cool_off_duration_in_millis: ''
         @ string_of_int (backend_servers_circuit_breaker_cool_off_duration_in_millis cfg) @ endl
     @ ''connection_timeout_in_microseconds: ''
         @ string_of_int (connection_timeout_in_microseconds cfg) @ endl
     @ ''read_request_timeout_in_microseconds: ''
         @ string_of_int (read_request_timeout_in_microseconds cfg) @ endl
     @ ''--- Country_ISO : BackendServer endpoint URL map ---'' @ endl
     @ country_lines (country_backend_map cfg)
     @ ''// --- Configuration Params End --- //'' @ endl"

section \<open>Lemmas\<close>

lemma level_num_inject: "level_num a = level_num b \<longleftrightarrow> a = b"
  by (auto simp: level_num_def split: LogLevel.splits)

lemma LogLevel_le_iff: "(a :: LogLevel) \<le> b \<longleftrightarrow> level_num a \<le> level_num b"
  by (rule less_eq_LogLevel_def)

lemma updateDeductions_keeps [simp]:
  "country_backend_map (updateDeductions hw cfg) = country_backend_map cfg"
  "use_redis (updateDeductions hw cfg) = use_redis cfg"
  "frontend_port (updateDeductions hw cfg) = frontend_port cfg"
  "log_level (updateDeductions hw cfg) = log_level cfg"
  "in_memory_cache_ttl (updateDeductions hw cfg) = in_memory_cache_ttl cfg"
  "in_memory_cache_max_size (updateDeductions hw cfg) = in_memory_cache_max_size cfg"
  by (simp_all add: updateDeductions_def Let_def)

text \<open>The I/O context always gets a thread: the fallback excludes the value 0.\<close>

lemma updateDeductions_threads: "num_io_threads (updateDeductions hw cfg) \<noteq> 0"
  by (simp add: updateDeductions_def Let_def)

text \<open>The number of requests one thread is expected to serve within the SLA, by default.\<close>

lemma default_per_thread:
  "server_sla_in_micros default_config sdiv request_average_processing_time_in_micros default_config
     = 833"
  by (simp add: default_config_def signed_divide_int_def)

lemma unat_mult_no_overflow:
  "unat a * unat b < 2 ^ LENGTH('a) \<Longrightarrow> unat (a * b) = unat a * unat (b :: 'a::len word)"
  by (simp add: unat_word_ariths)

lemma sint_small:
  assumes "unat (w :: 32 word) < 2 ^ 31"
  shows "sint w = int (unat w)"
proof -
  from assms have "int (unat w) < int (2 ^ 31)" by (simp only: of_nat_less_iff)
  then have u: "uint w < 2 ^ 31" by simp
  have "w = word_of_int (uint w)" by simp
  then have "sint w = (uint w + 2 ^ 31) mod 2 ^ 32 - 2 ^ 31"
    using int_word_sint [where 'a = 32, of "uint w"] by simp
  with u show ?thesis by simp
qed

text \<open>
  The parameters the deductions start from are not among those a configuration file can set;
  \<open>base_params\<close> says that they have their default values.
\<close>

definition base_params :: "AppConfig \<Rightarrow> bool" where
  "base_params cfg \<longleftrightarrow>
     number_of_threads_per_core cfg = 2 \<and> queue_multiply_factor cfg = 4
     \<and> server_sla_in_micros cfg = 1000000
     \<and> request_average_processing_time_in_micros cfg = 1200"

lemma base_params_default [simp]: "base_params default_config"
  by (simp add: base_params_def default_config_def)

lemma updateDeductions_queue_size:
  assumes "base_params cfg" and "unat hw \<le> 322251"
  shows "unat (num_io_threads (updateDeductions hw cfg)) = (if hw = 0 then 2 else 2 * unat hw)"
    and "max_response_queue_size (updateDeductions hw cfg)
      = 3332 * int (unat (num_io_threads (updateDeductions hw cfg)))"
proof -
  have sd: "(1000000 :: int) sdiv 1200 = 833" by (simp add: signed_divide_int_def)
  let ?n = "if hw * 2 = 0 then 2 else hw * (2 :: 32 word)"
  have m2: "unat (hw * 2) = 2 * unat hw"
    using unat_mult_no_overflow [of hw 2] assms(2) by simp
  have n: "unat ?n = (if hw = 0 then 2 else 2 * unat hw)"
    using m2 by (auto simp: unat_eq_zero)
  then show "unat (num_io_threads (updateDeductions hw cfg)) = (if hw = 0 then 2 else 2 * unat hw)"
    using assms(1) by (simp add: updateDeductions_def Let_def base_params_def)
  have le: "unat ?n \<le> 644502" using n assms(2) by auto
  have p: "unat (?n * 3332) = 3332 * unat ?n"
    using unat_mult_no_overflow [of ?n 3332] le by simp
  have "unat (?n * 3332) < 2 ^ 31" unfolding p using le by simp
  then have "sint (?n * 3332) = 3332 * int (unat ?n)"
    by (subst sint_small) (simp_all only: p of_nat_mult of_nat_numeral)
  then show "max_response_queue_size (updateDeductions hw cfg)
      = 3332 * int (unat (num_io_threads (updateDeductions hw cfg)))"
    using assms(1)
    by (simp add: updateDeductions_def Let_def base_params_def sd mult.assoc)
qed

end
