(* ===== verification/Url_Utils.thy ===== *)
theory Url_Utils
  imports App_Config Cpp_Streams
begin

text \<open>
  The URL functions of \<open>src/src/utils/Utils.hpp\<close>: \<open>parseUrl\<close> (with the regular
  expression \<open>Constants::url_regex\<close> of \<open>AppConfig.hpp\<close>) for the backend addresses of the
  command line, and \<open>urlDecode\<close> for the query string of a request.
\<close>

section \<open>Definitions\<close>

text \<open>
  \<open>url_regex\<close> is \<^verbatim>\<open>^(https?):\/\/([^:\/?#]+)(?::(\d+))?(?:[\/?#]|$)\<close>, used with
  \<open>std::regex_match\<close>, which accepts a string only as a whole: after the optional port at most one
  of the characters \<open>/ ? #\<close> may follow. The result is the three groups; the third is \<open>None\<close>
  when it did not take part in the match.
\<close>

definition url_delim :: "char \<Rightarrow> bool" where
  "url_delim c \<longleftrightarrow> c = CHR '':'' \<or> c = CHR ''/'' \<or> c = CHR ''?'' \<or> c = CHR ''#''"

definition url_tail_ok :: "string \<Rightarrow> bool" where
  "url_tail_ok r \<longleftrightarrow> r = [] \<or> r = ''/'' \<or> r = ''?'' \<or> r = ''#''"

definition match_authority :: "string \<Rightarrow> (string \<times> string option) option" where
  "match_authority r =
     (let host = takeWhile (\<lambda>c. \<not> url_delim c) r; rest = dropWhile (\<lambda>c. \<not> url_delim c) r
      in if host = [] then None
         else case rest of
             c # t \<Rightarrow>
               if c = CHR '':'' then
                 let ds = takeWhile c_isdigit t
                 in if ds \<noteq> [] \<and> url_tail_ok (dropWhile c_isdigit t) then Some (host, Some ds) else None
               else if url_tail_ok rest then Some (host, None) else None
           | [] \<Rightarrow> Some (host, None))"

definition url_regex_match :: "string \<Rightarrow> (string \<times> string \<times> string option) option" where
  "url_regex_match u =
     (if starts_with u ''http://'' then map_option (Pair ''http'') (match_authority (drop 7 u))
      else if starts_with u ''https://'' then map_option (Pair ''https'') (match_authority (drop 8 u))
      else None)"

text \<open>\<open>parseUrl(url, urlInfo)\<close>: the filled-in structure, or \<open>None\<close> where it returns \<open>false\<close>.\<close>

definition parseUrl :: "string \<Rightarrow> BackendUrlInfo \<Rightarrow> BackendUrlInfo option" where
  "parseUrl u urlInfo =
     (case url_regex_match u of
        None \<Rightarrow> None
      | Some (scheme, host, port_group) \<Rightarrow>
          if scheme = ''https'' then None
          else
            let https = (scheme = ''https'');
                port = (case port_group of
                    Some ds \<Rightarrow>
                      (case stoi ds of
                         Inr (p, _) \<Rightarrow> if p \<le> 0 \<or> p > 65535 then None else Some p
                       | Inl _ \<Rightarrow> None)
                  | None \<Rightarrow> Some (if https then 443 else 80))
            in case port of
                 None \<Rightarrow> None
               | Some p \<Rightarrow>
                   Some (urlInfo\<lparr>backend_host := host, backend_port := p, is_https := https\<rparr>))"

text \<open>\<open>static_cast<char>\<close> of an \<open>int\<close>.\<close>

definition char_of_int :: "int \<Rightarrow> char" where
  "char_of_int v = char_of (nat (v mod 256))"

function urlDecode :: "string \<Rightarrow> string" where
  "urlDecode [] = []"
| "urlDecode (c # s) =
     (if c = CHR ''%'' \<and> 2 \<le> length s then
        (case get_hex (istringstream (take 2 s)) of
           Some v \<Rightarrow> char_of_int v # urlDecode (drop 2 s)
         | None \<Rightarrow> CHR ''%'' # urlDecode s)
      else if c = CHR ''+'' then CHR '' '' # urlDecode s
      else c # urlDecode s)"
  by pat_completeness auto
termination
  by (relation "measure length") auto

section \<open>Percent encoding, as a reference\<close>

text \<open>
  What a client sends for a string: the unreserved characters of RFC 3986 stand for themselves
  and every other byte is written as \<open>%\<close> and two hexadecimal digits.
\<close>

definition unreserved :: "char \<Rightarrow> bool" where
  "unreserved c \<longleftrightarrow> c_isalpha c \<or> c_isdigit c \<or> c \<in> set ''-_.~''"

definition hex_digit :: "nat \<Rightarrow> char" where
  "hex_digit n = (if n < 10 then char_of (48 + n) else char_of (55 + n))"

definition encode_char :: "char \<Rightarrow> string" where
  "encode_char c =
     (if unreserved c then [c]
      else [CHR ''%'', hex_digit (code c div 16), hex_digit (code c mod 16)])"

definition urlEncode :: "string \<Rightarrow> string" where
  "urlEncode s = concat (map encode_char s)"

section \<open>parseUrl\<close>

lemmas parseUrl_eval =
  parseUrl_def url_regex_match_def match_authority_def url_delim_def url_tail_ok_def stoi_eval upper_def

lemma takeWhile_host: "\<forall>c \<in> set host. \<not> url_delim c \<Longrightarrow> r = [] \<or> url_delim (hd r) \<Longrightarrow>
    takeWhile (\<lambda>c. \<not> url_delim c) (host @ r) = host"
  by (induction host) (auto simp: takeWhile_eq_Nil_iff)

lemma dropWhile_host: "\<forall>c \<in> set host. \<not> url_delim c \<Longrightarrow> r = [] \<or> url_delim (hd r) \<Longrightarrow>
    dropWhile (\<lambda>c. \<not> url_delim c) (host @ r) = r"
  by (induction host) (auto simp: dropWhile_eq_self_iff)

lemma url_tail_delim: "url_tail_ok t \<Longrightarrow> t = [] \<or> url_delim (hd t) \<and> \<not> c_isdigit (hd t)"
  by (auto simp: url_tail_ok_def url_delim_def cstr_simps)

text \<open>The matcher accepts exactly the strings of the regular expression, with its groups.\<close>

lemma match_authority_iff:
  "match_authority r = Some (host, port) \<longleftrightarrow>
     host \<noteq> [] \<and> (\<forall>c \<in> set host. \<not> url_delim c) \<and>
     (\<exists>tail. url_tail_ok tail \<and>
        (case port of
           None \<Rightarrow> r = host @ tail
         | Some ds \<Rightarrow> ds \<noteq> [] \<and> (\<forall>c \<in> set ds. c_isdigit c) \<and> r = host @ '':'' @ ds @ tail))"
  (is "?L \<longleftrightarrow> ?R")
proof
  assume L: ?L
  let ?h = "takeWhile (\<lambda>c. \<not> url_delim c) r" and ?t = "dropWhile (\<lambda>c. \<not> url_delim c) r"
  have r: "r = ?h @ ?t" by simp
  have h: "host = ?h" and ne: "?h \<noteq> []"
    using L by (auto simp: match_authority_def Let_def split: list.splits if_splits)
  have nd: "\<forall>c \<in> set ?h. \<not> url_delim c" by (auto dest: set_takeWhileD)
  show ?R
  proof (cases "?t")
    case Nil
    then have "port = None"
      using L ne by (simp add: match_authority_def Let_def del: dropWhile_eq_Nil_conv)
    moreover have "r = host @ []" using r Nil h by simp
    moreover have "url_tail_ok []" by (simp add: url_tail_ok_def)
    ultimately show ?thesis using ne nd h by auto
  next
    case (Cons c t)
    show ?thesis
    proof (cases "c = CHR '':''")
      case True
      let ?ds = "takeWhile c_isdigit t" and ?tl = "dropWhile c_isdigit t"
      have p: "port = Some ?ds" "?ds \<noteq> []" "url_tail_ok ?tl"
        using L ne Cons True by (auto simp: match_authority_def Let_def split: if_splits)
      have "\<forall>x \<in> set ?ds. c_isdigit x" by (auto dest: set_takeWhileD)
      moreover have "r = host @ '':'' @ ?ds @ ?tl"
        using r Cons True h by simp
      ultimately show ?thesis using p ne nd h by auto
    next
      case False
      then have p: "port = None" "url_tail_ok ?t"
        using L ne Cons by (auto simp: match_authority_def Let_def split: if_splits)
      then show ?thesis using ne nd h r by auto
    qed
  qed
next
  assume ?R
  then obtain tail where host: "host \<noteq> []" "\<forall>c \<in> set host. \<not> url_delim c"
    and tail: "url_tail_ok tail"
    and cs: "case port of None \<Rightarrow> r = host @ tail
      | Some ds \<Rightarrow> ds \<noteq> [] \<and> (\<forall>c \<in> set ds. c_isdigit c) \<and> r = host @ '':'' @ ds @ tail"
    by blast
  show ?L
  proof (cases port)
    case None
    with cs have r: "r = host @ tail" by simp
    have td: "tail = [] \<or> url_delim (hd tail)" using url_tail_delim [OF tail] by blast
    have nc: "tail \<noteq> CHR '':'' # x" for x using tail by (auto simp: url_tail_ok_def)
    show ?thesis
      using None host tail nc
      by (auto simp: match_authority_def Let_def r takeWhile_host [OF host(2) td]
          dropWhile_host [OF host(2) td] split: list.splits)
  next
    case (Some ds)
    with cs have ds: "ds \<noteq> []" "\<forall>c \<in> set ds. c_isdigit c" and r: "r = host @ CHR '':'' # ds @ tail"
      by auto
    have td: "(CHR '':'' # ds @ tail) = [] \<or> url_delim (hd (CHR '':'' # ds @ tail))"
      by (simp add: url_delim_def)
    have tk: "takeWhile c_isdigit (ds @ tail) = ds" and dr: "dropWhile c_isdigit (ds @ tail) = tail"
      using url_tail_delim [OF tail] ds(2) by (cases tail; simp add: takeWhile_append dropWhile_append)+
    show ?thesis
      using Some host ds(1) tail
      by (simp add: match_authority_def Let_def r takeWhile_host [OF host(2) td]
          dropWhile_host [OF host(2) td] tk dr)
  qed
qed

lemma http_not_https: "starts_with u ''http://'' \<Longrightarrow> \<not> starts_with u ''https://''"
  by (auto simp: starts_with_iff)

lemma url_regex_match_iff:
  "url_regex_match u = Some (scheme, host, port) \<longleftrightarrow>
     (\<exists>r. (scheme = ''http'' \<or> scheme = ''https'') \<and> u = scheme @ ''://'' @ r
        \<and> match_authority r = Some (host, port))"
proof (cases "starts_with u ''http://''")
  case True
  then obtain r where "u = ''http://'' @ r" by (auto simp: starts_with_iff)
  then show ?thesis by (auto simp: url_regex_match_def)
next
  case False
  show ?thesis
  proof (cases "starts_with u ''https://''")
    case True
    then obtain r where "u = ''https://'' @ r" by (auto simp: starts_with_iff)
    then show ?thesis by (auto simp: url_regex_match_def)
  next
    case F2: False
    with False show ?thesis by (auto simp: url_regex_match_def)
  qed
qed

text \<open>What is known of an address that \<open>parseUrl\<close> has accepted.\<close>

definition url_info_ok :: "BackendUrlInfo \<Rightarrow> bool" where
  "url_info_ok info \<longleftrightarrow>
     backend_host info \<noteq> [] \<and> 0 < backend_port info \<and> backend_port info \<le> 65535
     \<and> \<not> is_https info"

lemma parseUrl_ok: "parseUrl u info = Some info' \<Longrightarrow> url_info_ok info' \<and> url info' = url info"
  by (auto simp: parseUrl_def url_info_ok_def url_regex_match_iff match_authority_iff Let_def
      split: option.splits if_splits sum.splits)

lemma digit_string_port:
  assumes "0 < p" and "p \<le> 65535"
  shows "stoi (string_of_nat p) = Inr (int p, length (string_of_nat p))"
  using assms by (intro stoi_string_of_nat) (simp add: int_max_def)

text \<open>C21: Every address of the documented form \<open>http://host:port\<close>, with a non-empty host free of
  the delimiters \<open>: / ? #\<close> and a port between 1 and 65535, possibly followed by one of
  \<open>/ ? #\<close>, is accepted by \<open>parseUrl\<close>, which stores exactly this host and port and leaves the
  \<open>url\<close> member as it was.\<close>

theorem parseUrl_roundtrip:
  assumes "host \<noteq> []" and "\<forall>c \<in> set host. \<not> url_delim c" and "0 < p" and "p \<le> 65535"
    and "url_tail_ok tail"
  shows "parseUrl (''http://'' @ host @ '':'' @ string_of_nat p @ tail) info =
    Some (info\<lparr>backend_host := host, backend_port := int p, is_https := False\<rparr>)"
proof -
  let ?r = "host @ '':'' @ string_of_nat p @ tail"
  have "match_authority ?r = Some (host, Some (string_of_nat p))"
    using assms string_of_nat_digits by (auto simp: match_authority_iff)
  then have "url_regex_match (''http://'' @ ?r) = Some (''http'', host, Some (string_of_nat p))"
    by (subst url_regex_match_iff) auto
  then show ?thesis
    using assms by (simp add: parseUrl_def digit_string_port)
qed

theorem parseUrl_roundtrip_witness:
  "parseUrl ''http://us-backend:9005/'' \<lparr>url = ''u'', backend_host = [], backend_port = 0, is_https = True\<rparr>
     = Some \<lparr>url = ''u'', backend_host = ''us-backend'', backend_port = 9005, is_https = False\<rparr>"
proof -
  have s: "string_of_nat 9005 = ''9005''"
    by (simp add: string_of_nat.simps cstr_simps)
  show ?thesis
    using parseUrl_roundtrip [of "''us-backend''" 9005 "''/''"
      "\<lparr>url = ''u'', backend_host = [], backend_port = 0, is_https = True\<rparr>"]
    by (simp add: s url_delim_def url_tail_ok_def)
qed

text \<open>\<open>parseUrl\<close> never accepts an \<open>https\<close> address and never accepts one with a path of more
  than a single delimiter: whatever it accepts is \<open>http://\<close>, a host without delimiters, an
  optional decimal port in the range 1 to 65535 (80 when there is none) and at most one final
  delimiter.\<close>

theorem parseUrl_only_http:
  assumes "parseUrl u info = Some info'"
  shows "\<exists>host port tail. u = ''http://'' @ host @ port @ tail \<and> backend_host info' = host
    \<and> host \<noteq> [] \<and> (\<forall>c \<in> set host. \<not> url_delim c) \<and> url_tail_ok tail
    \<and> (port = [] \<and> backend_port info' = 80
       \<or> (\<exists>ds. port = CHR '':'' # ds \<and> ds \<noteq> [] \<and> (\<forall>c \<in> set ds. c_isdigit c)
            \<and> backend_port info' = fst (projr (stoi ds))))
    \<and> 0 < backend_port info' \<and> backend_port info' \<le> 65535 \<and> \<not> is_https info'"
proof -
  from assms obtain scheme host port where
    m: "url_regex_match u = Some (scheme, host, port)" and sch: "scheme \<noteq> ''https''"
    by (auto simp: parseUrl_def split: option.splits if_splits)
  then obtain r where u: "scheme = ''http''" "u = ''http://'' @ r"
      and a: "match_authority r = Some (host, port)"
    by (auto simp: url_regex_match_iff)
  have h: "backend_host info' = host"
    using assms m by (auto simp: parseUrl_def Let_def split: option.splits if_splits sum.splits)
  have ok: "url_info_ok info'" using parseUrl_ok [OF assms] by simp
  have p: "backend_port info' = (case port of None \<Rightarrow> 80 | Some ds \<Rightarrow> fst (projr (stoi ds)))"
    using assms m u(1)
    by (auto simp: parseUrl_def Let_def split: option.splits if_splits sum.splits)
  show ?thesis
  proof (cases port)
    case None
    with a obtain tail where "url_tail_ok tail" "r = host @ tail" "host \<noteq> []"
        "\<forall>c \<in> set host. \<not> url_delim c"
      by (auto simp: match_authority_iff)
    with None u h p ok show ?thesis
      by (intro exI [of _ host] exI [of _ "[]"] exI [of _ tail]) (simp add: url_info_ok_def)
  next
    case (Some ds)
    with a obtain tail where "url_tail_ok tail" "r = host @ '':'' @ ds @ tail" "host \<noteq> []"
        "\<forall>c \<in> set host. \<not> url_delim c" "ds \<noteq> []" "\<forall>c \<in> set ds. c_isdigit c"
      by (auto simp: match_authority_iff)
    with Some u h p ok show ?thesis
      by (intro exI [of _ host] exI [of _ "CHR '':'' # ds"] exI [of _ tail])
        (simp add: url_info_ok_def)
  qed
qed

theorem parseUrl_only_http_witness:
  "\<exists>host port tail. ''http://us:9001/'' = ''http://'' @ host @ port @ tail \<and> host = ''us''
    \<and> url_tail_ok tail"
proof -
  let ?i = "\<lparr>url = [], backend_host = [], backend_port = 0, is_https = False\<rparr>"
  have "parseUrl ''http://us:9001/'' ?i
      = Some (?i\<lparr>backend_host := ''us'', backend_port := 9001, is_https := False\<rparr>)"
    by (simp add: parseUrl_def url_regex_match_def match_authority_def url_delim_def url_tail_ok_def
        stoi_eval Let_def)
  from parseUrl_only_http [OF this] show ?thesis by auto
qed

section \<open>urlDecode\<close>

lemma xdigit_not_space: "c_isxdigit c \<Longrightarrow> \<not> c_isspace c"
  by (auto simp: char_class_defs)

lemma get_hex_two:
  assumes "c_isxdigit a" and "c_isxdigit b"
  shows "get_hex (istringstream [a, b]) = Some (int (16 * xdigit_val a + xdigit_val b))"
proof -
  have sent: "sentry (istringstream [a, b]) = (True, istringstream [a, b])"
    using assms by (simp add: sentry_nonspace xdigit_not_space)
  have sign: "split_sign [a, b] = (False, [a, b])"
    using assms(1) by (auto simp: split_sign_def cstr_simps)
  have pre: "strip_0x [a, b] = [a, b]"
    using assms(2) by (auto simp: strip_0x_def cstr_simps)
  show ?thesis
    using assms xdigit_val_less [of a] xdigit_val_less [of b]
    by (simp add: get_hex_def sent Let_def sign pre nat_of_xdigits_def in_int_range_def
        int_max_def int_min_def)
qed

lemma hex_digit_props:
  assumes "n < 16"
  shows "c_isxdigit (hex_digit n)" and "xdigit_val (hex_digit n) = n"
  using assms by (auto simp: hex_digit_def c_isxdigit_def c_isdigit_def xdigit_val_def)

lemma urlDecode_escape:
  assumes "c_isxdigit a" and "c_isxdigit b"
  shows "urlDecode (CHR ''%'' # a # b # s)
    = char_of (16 * xdigit_val a + xdigit_val b) # urlDecode s"
proof -
  have "nat (int (16 * xdigit_val a + xdigit_val b) mod 256) = (16 * xdigit_val a + xdigit_val b) mod 256"
    by (metis nat_int of_nat_numeral zmod_int)
  then show ?thesis
    by (simp add: get_hex_two [OF assms] char_of_int_def)
qed

lemma urlDecode_encode_char: "urlDecode (encode_char c @ s) = c # urlDecode s"
proof (cases "unreserved c")
  case True
  then have "c \<noteq> CHR ''%''" and "c \<noteq> CHR ''+''"
    by (auto simp: unreserved_def cstr_simps)
  with True show ?thesis by (simp add: encode_char_def)
next
  case False
  have lt: "code c div 16 < 16" "code c mod 16 < 16"
    using div_le_mono [of "code c" 255 16] code_less [of c] by simp_all
  from False show ?thesis
    by (simp add: encode_char_def urlDecode_escape hex_digit_props lt del: urlDecode.simps)
qed

lemma urlDecode_encoded: "urlDecode (urlEncode s) = s"
  by (induction s) (simp_all add: urlEncode_def urlDecode_encode_char)

lemma encode_char_chars: "c \<in> set (encode_char d) \<Longrightarrow> unreserved c \<or> c = CHR ''%'' \<or> c_isxdigit c"
proof -
  have "code d div 16 < 16" using code_less [of d] by (simp add: less_mult_imp_div_less)
  then show "c \<in> set (encode_char d) \<Longrightarrow> unreserved c \<or> c = CHR ''%'' \<or> c_isxdigit c"
    using hex_digit_props(1) [of "code d div 16"] hex_digit_props(1) [of "code d mod 16"]
    by (auto simp: encode_char_def split: if_splits)
qed

lemma encode_char_plain: "c \<in> set (encode_char d) \<Longrightarrow> c \<noteq> CHR ''='' \<and> c \<noteq> CHR ''&'' \<and> c \<noteq> CHR ''?''"
  using encode_char_chars [of c d] by (auto simp: unreserved_def cstr_simps)

lemma urlEncode_plain: "CHR ''='' \<notin> set (urlEncode s) \<and> CHR ''&'' \<notin> set (urlEncode s) \<and> CHR ''?'' \<notin> set (urlEncode s)"
  using encode_char_plain by (fastforce simp: urlEncode_def)

lemma urlEncode_eq_Nil [simp]: "urlEncode s = [] \<longleftrightarrow> s = []"
  by (cases s) (auto simp: urlEncode_def encode_char_def)

text \<open>Percent encoding round trip: \<open>urlDecode\<close> recovers every byte string from its
  percent-encoded form.\<close>

theorem urlDecode_urlEncode: "urlDecode (urlEncode s) = s"
  by (rule urlDecode_encoded)

text \<open>A string without \<open>%\<close> and \<open>+\<close> is left alone, and decoding never makes a string longer.\<close>

lemma urlDecode_plain: "CHR ''%'' \<notin> set s \<Longrightarrow> CHR ''+'' \<notin> set s \<Longrightarrow> urlDecode s = s"
  by (induction s) auto

lemma urlDecode_length: "length (urlDecode s) \<le> length s"
  by (induction s rule: urlDecode.induct) (auto split: option.splits)

text \<open>The decoder reads the two characters after \<open>%\<close> as a stream extraction does, so a single
  hexadecimal digit is enough: the character after it is consumed and lost.\<close>

theorem urlDecode_drops_char:
  assumes "c_isxdigit a" and "a \<noteq> CHR ''0'' \<or> b \<notin> {CHR ''x'', CHR ''X''}" and "\<not> c_isxdigit b"
  shows "urlDecode (CHR ''%'' # a # b # s) = char_of (xdigit_val a) # urlDecode s"
proof -
  have sent: "sentry (istringstream [a, b]) = (True, istringstream [a, b])"
    using assms by (simp add: sentry_nonspace xdigit_not_space)
  have sign: "split_sign [a, b] = (False, [a, b])"
    using assms(1) by (auto simp: split_sign_def cstr_simps)
  have pre: "strip_0x [a, b] = [a, b]"
    using assms(2) by (auto simp: strip_0x_def)
  have va: "xdigit_val a < 256" by (rule xdigit_val_less)
  then have "get_hex (istringstream [a, b]) = Some (int (xdigit_val a))"
    using assms
    by (simp add: get_hex_def sent Let_def sign pre nat_of_xdigits_def in_int_range_def
        int_max_def int_min_def)
  then show ?thesis using va by (simp add: char_of_int_def)
qed

theorem urlDecode_drops_char_witness: "urlDecode ''%4Zoe'' = CHR 0x04 # ''oe''"
proof -
  have "c_isxdigit (CHR ''4'')" "\<not> c_isxdigit (CHR ''Z'')" "char_of (xdigit_val (CHR ''4'')) = CHR 0x04"
    by (simp_all add: cstr_simps)
  then show ?thesis
    using urlDecode_drops_char [of "CHR ''4''" "CHR ''Z''" "''oe''"] by simp
qed

end
