(* ===== verification/Config_Loader.thy ===== *)
theory Config_Loader
  imports Url_Utils
begin

text \<open>
  Start-up configuration, \<open>src/src/utils/Utils.hpp\<close>: \<open>stringToLogLevel\<close>,
  \<open>stringToInt\<close>, \<open>trim\<close>, \<open>parseArguments\<close> and \<open>loadConfiguration\<close>. The file system
  is a function from path names to file contents (\<open>None\<close> where \<open>std::ifstream\<close> does not open
  the file); the warnings printed on the console are not modelled.
\<close>

section \<open>Definitions\<close>

definition stringToLogLevel :: "string \<Rightarrow> LogLevel exc" where
  "stringToLogLevel level =
     (if level = ''DEBUG'' then Inr DEBUG
      else if level = ''INFO'' then Inr INFO
      else if level = ''WARNING'' then Inr WARN
      else if level = ''CERROR'' then Inr CERROR
      else Inl (invalid_argument (''Invalid log level: '' @ level)))"

definition stringToInt :: "string \<Rightarrow> int option" where
  "stringToInt str =
     (case stoi str of
        Inr (val, pos) \<Rightarrow> if pos = length str then Some val else None
      | Inl _ \<Rightarrow> None)"

definition trim_ws :: "char \<Rightarrow> bool" where
  "trim_ws c \<longleftrightarrow> c = CHR '' '' \<or> c = CHR 0x09 \<or> c = CHR 0x0A \<or> c = CHR 0x0D"

text \<open>\<open>trim\<close>: a string of white space only comes back unchanged.\<close>

definition trim :: "string \<Rightarrow> string" where
  "trim str =
     (if list_all trim_ws str then str
      else rev (dropWhile trim_ws (rev (dropWhile trim_ws str))))"

text \<open>\<open>key=value\<close> with a non-empty key; the first \<open>=\<close> separates.\<close>

definition split_key_value :: "string \<Rightarrow> (string \<times> string) option" where
  "split_key_value s =
     (case find_char (CHR ''='') s of
        Some pos \<Rightarrow> if pos > 0 then Some (substr_to s pos, substr_from s (pos + 1)) else None
      | None \<Rightarrow> None)"

fun parseArguments_loop :: "(string, string) smap \<Rightarrow> string list \<Rightarrow> (string, string) smap option" where
  "parseArguments_loop argMap [] = Some argMap"
| "parseArguments_loop argMap (arg # args) =
     (case split_key_value arg of
        Some (key, val) \<Rightarrow> parseArguments_loop (smap_put key val argMap) args
      | None \<Rightarrow> None)"

definition parseArguments :: "string list \<Rightarrow> (string, string) smap option" where
  "parseArguments args = parseArguments_loop [] args"

text \<open>The lines that repeated \<open>std::getline\<close> delivers.\<close>

function getlines :: "string \<Rightarrow> string list" where
  "getlines s =
     (if s = [] then []
      else takeWhile (\<lambda>c. c \<noteq> CHR 0x0A) s # getlines (drop 1 (dropWhile (\<lambda>c. c \<noteq> CHR 0x0A) s)))"
  by pat_completeness auto
termination
proof (relation "measure length")
  fix s :: string
  assume "s \<noteq> []"
  then have "length (drop 1 (dropWhile (\<lambda>c. c \<noteq> CHR 0x0A) s)) < length s"
    using length_dropWhile_le [of "\<lambda>c. c \<noteq> CHR 0x0A" s] by (cases s) auto
  then show "(drop 1 (dropWhile (\<lambda>c. c \<noteq> CHR 0x0A) s), s) \<in> measure length" by simp
qed simp

declare getlines.simps [simp del]

text \<open>An integer parameter: a value that is not an integer is reported and skipped.\<close>

definition set_int :: "(int \<Rightarrow> AppConfig) \<Rightarrow> AppConfig \<Rightarrow> string \<Rightarrow> AppConfig exc" where
  "set_int upd cfg val = Inr (case stringToInt val of Some v \<Rightarrow> upd v | None \<Rightarrow> cfg)"

text \<open>The chain of comparisons that applies one key of the configuration file.\<close>

definition apply_key :: "AppConfig \<Rightarrow> string \<Rightarrow> string \<Rightarrow> AppConfig exc" where
  "apply_key cfg key val =
     (if key = ''frontend_port'' then set_int (\<lambda>v. cfg\<lparr>frontend_port := v\<rparr>) cfg val
      else if key = ''redis_host'' then Inr (cfg\<lparr>redis_host := val\<rparr>)
      else if key = ''redis_port'' then set_int (\<lambda>v. cfg\<lparr>redis_port := v\<rparr>) cfg val
      else if key = ''log_level'' then
        (case stringToLogLevel val of Inl e \<Rightarrow> Inl e | Inr l \<Rightarrow> Inr (cfg\<lparr>log_level := l\<rparr>))
      else if key = ''redis_ttl'' then
        set_int (\<lambda>v. cfg\<lparr>redis_ttl := wrap32 (v * 3600)\<rparr>) cfg val
      else if key = ''metrics_batch_size'' then
        set_int (\<lambda>v. cfg\<lparr>metrics_batch_size := v\<rparr>) cfg val
      else if key = ''metrics_send_interval'' then
        set_int (\<lambda>v. cfg\<lparr>metrics_send_interval_in_millis := v\<rparr>) cfg val
      else if key = ''in_memory_cache_max_size'' then
        set_int (\<lambda>v. cfg\<lparr>in_memory_cache_max_size := v\<rparr>) cfg val
      else if key = ''in_memory_cache_ttl'' then
        set_int (\<lambda>v. cfg\<lparr>in_memory_cache_ttl := wrap32 (v * 3600)\<rparr>) cfg val
      else if key = ''use_redis'' then set_int (\<lambda>v. cfg\<lparr>use_redis := (v = 1)\<rparr>) cfg val
      else Inr cfg)"

definition apply_line :: "AppConfig \<Rightarrow> string \<Rightarrow> AppConfig exc" where
  "apply_line cfg raw =
     (let line = trim raw
      in if line = [] \<or> hd line = CHR ''#'' then Inr cfg
         else case split_key_value line of
             Some (k, v) \<Rightarrow> apply_key cfg (trim k) (trim v)
           | None \<Rightarrow> Inr cfg)"

fun apply_lines :: "AppConfig \<Rightarrow> string list \<Rightarrow> AppConfig exc" where
  "apply_lines cfg [] = Inr cfg"
| "apply_lines cfg (l # ls) =
     (case apply_line cfg l of Inl e \<Rightarrow> Inl e | Inr cfg' \<Rightarrow> apply_lines cfg' ls)"

definition config_paths :: "string list" where
  "config_paths =
     [''backendify.config'', ''../backendify.config'', ''/app/backendify.config'',
      ''../../backendify.config'']"

text \<open>The loop over \<open>config_paths\<close>: the first file that opens is read, the others are not.\<close>

fun read_config :: "(string \<Rightarrow> string option) \<Rightarrow> string list \<Rightarrow> AppConfig \<Rightarrow> AppConfig exc" where
  "read_config fs [] cfg = Inr cfg"
| "read_config fs (p # ps) cfg =
     (case fs p of Some content \<Rightarrow> apply_lines cfg (getlines content) | None \<Rightarrow> read_config fs ps cfg)"

text \<open>One start-up argument as a backend mapping: the country and the parsed address.\<close>

definition country_mapping :: "string \<times> string \<Rightarrow> (string \<times> BackendUrlInfo) option" where
  "country_mapping kv =
     (let key = fst kv; val = snd kv
      in if length key = 2 \<and> list_all c_isalpha key then
           if starts_with val ''http://'' \<or> starts_with val ''https://'' then
             map_option (Pair (upper key))
               (parseUrl val \<lparr>url = val, backend_host = [], backend_port = 0, is_https = False\<rparr>)
           else None
         else None)"

fun add_mappings :: "(string \<times> string) list \<Rightarrow> AppConfig \<Rightarrow> AppConfig" where
  "add_mappings [] cfg = cfg"
| "add_mappings (kv # kvs) cfg =
     add_mappings kvs
       (case country_mapping kv of
          Some (ciso, info) \<Rightarrow>
            cfg\<lparr>country_backend_map := smap_put ciso info (country_backend_map cfg)\<rparr>
        | None \<Rightarrow> cfg)"

definition loadConfiguration ::
    "(string \<Rightarrow> string option) \<Rightarrow> 32 word \<Rightarrow> (string, string) smap \<Rightarrow> AppConfig exc" where
  "loadConfiguration fs hw startupArguments =
     (case read_config fs config_paths default_config of
        Inl e \<Rightarrow> Inl e
      | Inr cfg \<Rightarrow> Inr (updateDeductions hw (add_mappings startupArguments cfg)))"

section \<open>Lemmas\<close>

lemmas split_key_value_eval = split_key_value_def substr_to_def substr_from_def

lemma trim_eq_self: "s = [] \<or> (\<not> trim_ws (hd s) \<and> \<not> trim_ws (last s)) \<Longrightarrow> trim s = s"
  by (cases s) (auto simp: trim_def dropWhile_eq_self_iff hd_append hd_rev)

lemma trim_ends:
  assumes "\<not> list_all trim_ws s"
  shows "trim s \<noteq> []" and "\<not> trim_ws (hd (trim s))" and "\<not> trim_ws (last (trim s))"
proof -
  let ?t = "dropWhile trim_ws s"
  from assms have t: "?t \<noteq> []" by (auto simp: list_all_iff)
  then have h: "\<not> trim_ws (hd ?t)" by (rule hd_dropWhile)
  from t have r: "rev ?t \<noteq> []" by simp
  have d: "dropWhile trim_ws (rev ?t) \<noteq> []"
    using t h by (auto simp del: dropWhile_eq_Nil_conv simp: dropWhile_eq_Nil_conv [of trim_ws "rev _"])
  from assms have tr: "trim s = rev (dropWhile trim_ws (rev ?t))" by (auto simp: trim_def)
  then show "trim s \<noteq> []" using d by simp
  show "\<not> trim_ws (last (trim s))"
    unfolding tr last_rev using hd_dropWhile [OF d] .
  obtain xs where xs: "rev ?t = xs @ dropWhile trim_ws (rev ?t)"
    by (metis takeWhile_dropWhile_id)
  have "last (dropWhile trim_ws (rev ?t)) = last (rev ?t)"
    using d xs by (metis last_appendR)
  then show "\<not> trim_ws (hd (trim s))"
    unfolding tr using h t by (simp add: hd_rev last_rev)
qed

lemma trim_idem: "trim (trim s) = trim s"
  by (cases "list_all trim_ws s") (use trim_ends [of s] in \<open>auto simp: trim_def [of s] intro!: trim_eq_self\<close>)

lemma split_key_value_iff:
  "split_key_value s = Some (k, v) \<longleftrightarrow> s = k @ ''='' @ v \<and> k \<noteq> [] \<and> CHR ''='' \<notin> set k"
proof
  assume L: "split_key_value s = Some (k, v)"
  then obtain pos where pos: "find_char (CHR ''='') s = Some pos" "0 < pos"
      "k = take pos s" "v = drop (Suc pos) s"
    by (auto simp: split_key_value_def substr_to_def substr_from_def split: option.splits if_splits)
  then have "pos < length s" by (simp add: find_char_Some_iff)
  with pos find_char_Some_split [OF pos(1)] show "s = k @ ''='' @ v \<and> k \<noteq> [] \<and> CHR ''='' \<notin> set k"
    by (cases s) auto
next
  assume R: "s = k @ ''='' @ v \<and> k \<noteq> [] \<and> CHR ''='' \<notin> set k"
  then have "find_char (CHR ''='') s = Some (length k)" by (simp add: find_char_split)
  with R show "split_key_value s = Some (k, v)"
    by (simp add: split_key_value_def substr_to_def substr_from_def)
qed

lemma split_key_value_None: "split_key_value s = None \<longleftrightarrow> CHR ''='' \<notin> set s \<or> hd s = CHR ''=''"
proof (cases s)
  case (Cons c t)
  show ?thesis
    by (cases "find_char (CHR ''='') t")
      (auto simp: split_key_value_def Cons find_char_None_iff [symmetric] split: option.splits)
qed (simp add: split_key_value_def)

lemma stringToInt_string_of_int: "in_int_range i \<Longrightarrow> stringToInt (string_of_int i) = Some i"
  by (simp add: stringToInt_def stoi_string_of_int)

lemma parseArguments_loop_iff:
  "parseArguments_loop m args \<noteq> None \<longleftrightarrow> (\<forall>a \<in> set args. split_key_value a \<noteq> None)"
  by (induction m args rule: parseArguments_loop.induct) (auto split: option.splits)

lemma parseArguments_loop_map:
  "parseArguments_loop m args = Some m' \<Longrightarrow> smap_ok m \<Longrightarrow>
     smap_ok m' \<and> map_of m' = map_of m ++ map_of (rev (List.map_filter split_key_value args))"
  by (induction m args rule: parseArguments_loop.induct)
    (auto simp: map_filter_def map_add_def split: option.splits)

lemma set_int_cases: "set_int upd cfg val = Inr cfg' \<Longrightarrow> cfg' = cfg \<or> (\<exists>v. cfg' = upd v)"
  by (auto simp: set_int_def split: option.splits)

lemma apply_key_params:
  "apply_key cfg k v = Inr cfg' \<Longrightarrow>
     base_params cfg' = base_params cfg \<and> country_backend_map cfg' = country_backend_map cfg"
  unfolding apply_key_def
  by (elim if_InrE) (auto simp: base_params_def split: sum.splits dest!: set_int_cases)

lemma apply_line_params:
  "apply_line cfg l = Inr cfg' \<Longrightarrow>
     base_params cfg' = base_params cfg \<and> country_backend_map cfg' = country_backend_map cfg"
  by (auto simp: apply_line_def Let_def dest: apply_key_params split: if_splits option.splits)

lemma apply_lines_params:
  "apply_lines cfg ls = Inr cfg' \<Longrightarrow>
     base_params cfg' = base_params cfg \<and> country_backend_map cfg' = country_backend_map cfg"
  by (induction cfg ls rule: apply_lines.induct) (auto dest: apply_line_params split: sum.splits)

lemma read_config_params:
  "read_config fs ps cfg = Inr cfg' \<Longrightarrow>
     base_params cfg' = base_params cfg \<and> country_backend_map cfg' = country_backend_map cfg"
  by (induction fs ps cfg rule: read_config.induct)
    (auto dest: apply_lines_params split: option.splits)

lemma add_mappings_params: "base_params (add_mappings kvs cfg) = base_params cfg"
  by (induction kvs cfg rule: add_mappings.induct) (auto simp: base_params_def split: option.splits)

lemma add_mappings_map:
  "map_of (country_backend_map (add_mappings kvs cfg)) =
     map_of (country_backend_map cfg) ++ map_of (rev (List.map_filter country_mapping kvs))"
  by (induction kvs cfg rule: add_mappings.induct)
    (auto simp: map_filter_def map_add_def fun_eq_iff split: option.splits)

lemma add_mappings_smap_ok:
  "smap_ok (country_backend_map cfg) \<Longrightarrow> smap_ok (country_backend_map (add_mappings kvs cfg))"
  by (induction kvs cfg rule: add_mappings.induct) (auto split: option.splits)

text \<open>A configured country: two capital letters, an address accepted by \<open>parseUrl\<close>, its text kept.\<close>

definition country_entry_ok :: "string \<times> BackendUrlInfo \<Rightarrow> bool" where
  "country_entry_ok e \<longleftrightarrow>
     length (fst e) = 2 \<and> list_all c_isupper (fst e) \<and> url_info_ok (snd e)
     \<and> parseUrl (url (snd e)) (snd e) = Some (snd e)"

lemma parseUrl_again:
  "parseUrl u info = Some info' \<Longrightarrow> url info = u \<Longrightarrow> parseUrl (url info') info' = Some info'"
  by (auto simp: parseUrl_def Let_def split: option.splits if_splits sum.splits)

lemma country_mapping_ok: "country_mapping kv = Some e \<Longrightarrow> country_entry_ok e"
  by (auto simp: country_mapping_def country_entry_ok_def upper_def list_all_iff c_toupper_isupper
      Let_def dest: parseUrl_ok parseUrl_again split: if_splits)

lemma add_mappings_entries:
  "\<forall>e \<in> set (country_backend_map cfg). country_entry_ok e \<Longrightarrow>
     \<forall>e \<in> set (country_backend_map (add_mappings kvs cfg)). country_entry_ok e"
proof (induction kvs cfg rule: add_mappings.induct)
  case (2 kv kvs cfg)
  show ?case
  proof (cases "country_mapping kv")
    case (Some e)
    then have "country_entry_ok e" by (rule country_mapping_ok)
    with Some 2 show ?thesis by (cases e) (fastforce dest: smap_mem_put)
  qed (use 2 in simp)
qed simp


subsection \<open>One line of the file\<close>

lemma trim_line_prefix:
  assumes "p \<noteq> []" and "\<not> trim_ws (hd p)" and "\<not> trim_ws (last p)"
  shows "trim (p @ v) = p @ rev (dropWhile trim_ws (rev v))"
proof -
  obtain c q where p: "p = c # q" using assms(1) by (cases p) auto
  have na: "\<not> list_all trim_ws (p @ v)" and d: "dropWhile trim_ws (p @ v) = p @ v"
    using assms(2) by (simp_all add: p)
  have l: "dropWhile trim_ws (rev p) = rev p"
    using assms(1,3) by (simp add: dropWhile_eq_self_iff hd_rev)
  have "trim (p @ v) = rev (dropWhile trim_ws (rev v @ rev p))"
    by (simp only: trim_def na if_False d rev_append)
  moreover have "dropWhile trim_ws (rev v @ rev p) = dropWhile trim_ws (rev v) @ rev p"
    using l by (simp add: dropWhile_append)
  ultimately show ?thesis by simp
qed

lemma apply_line_key:
  assumes "k \<noteq> []" and "\<not> trim_ws (hd k)" and "\<not> trim_ws (last k)" and "hd k \<noteq> CHR ''#''"
    and "CHR ''='' \<notin> set k"
  shows "apply_line cfg (k @ ''='' @ v) = apply_key cfg k (trim (rev (dropWhile trim_ws (rev v))))"
proof -
  have hd: "hd (k @ x) = hd k" for x using assms(1) by simp
  have "trim ((k @ ''='') @ v) = (k @ ''='') @ rev (dropWhile trim_ws (rev v))"
    using assms by (intro trim_line_prefix) (auto simp: trim_ws_def)
  then have t: "trim (k @ ''='' @ v) = k @ ''='' @ rev (dropWhile trim_ws (rev v))"
    by simp
  have "split_key_value (k @ ''='' @ rev (dropWhile trim_ws (rev v)))
      = Some (k, rev (dropWhile trim_ws (rev v)))"
    using assms by (simp add: split_key_value_iff)
  moreover have "trim k = k" using assms by (intro trim_eq_self) simp
  ultimately show ?thesis
    using assms unfolding apply_line_def Let_def t hd by simp
qed

lemma no_ws_rstrip: "\<forall>c \<in> set v. \<not> trim_ws c \<Longrightarrow> rev (dropWhile trim_ws (rev v)) = v"
  by (cases "rev v") (auto simp: dropWhile_eq_self_iff hd_append)

lemma no_ws_trim: "\<forall>c \<in> set v. \<not> trim_ws c \<Longrightarrow> trim v = v"
  using last_in_set [of v] hd_in_set [of v] by (intro trim_eq_self) blast

lemma string_of_int_no_ws: "\<forall>c \<in> set (string_of_int i). \<not> trim_ws c"
proof -
  have "c_isdigit c \<Longrightarrow> \<not> trim_ws c" for c
    by (auto simp: trim_ws_def cstr_simps)
  then show ?thesis
    using string_of_nat_digits by (auto simp: string_of_int_def trim_ws_def)
qed

lemma getlines_single: "CHR 0x0A \<notin> set s \<Longrightarrow> s \<noteq> [] \<Longrightarrow> getlines s = [s]"
proof -
  assume s: "CHR 0x0A \<notin> set s" "s \<noteq> []"
  then have "takeWhile (\<lambda>c. c \<noteq> CHR 0x0A) s = s" and "dropWhile (\<lambda>c. c \<noteq> CHR 0x0A) s = []"
    by (auto simp: takeWhile_eq_all_conv)
  with s show ?thesis
    by (simp add: getlines.simps [of s] getlines.simps [of "[]"] del: dropWhile_eq_Nil_conv)
qed

lemma loaded_countries:
  assumes "loadConfiguration fs hw args = Inr cfg"
  shows "map_of (country_backend_map cfg) = map_of (rev (List.map_filter country_mapping args))
    \<and> smap_ok (country_backend_map cfg)
    \<and> (\<forall>e \<in> set (country_backend_map cfg). country_entry_ok e)"
proof -
  from assms obtain c where c: "read_config fs config_paths default_config = Inr c"
    and cfg: "cfg = updateDeductions hw (add_mappings args c)"
    by (auto simp: loadConfiguration_def split: sum.splits)
  have e: "country_backend_map c = []"
    using read_config_params [OF c] by (simp add: default_config_def)
  show ?thesis
    using add_mappings_map [of args c] add_mappings_smap_ok [of c args] add_mappings_entries [of c args]
    by (simp add: cfg e)
qed

section \<open>Properties\<close>

text \<open>\<open>parseArguments\<close> fails exactly when some argument is not of the form \<open>key=value\<close> with
  a non-empty key; otherwise the resulting map is ordered by key and holds, for every key, the
  value of its last occurrence.\<close>

theorem parseArguments_spec:
  "(parseArguments args = None \<longleftrightarrow>
      (\<exists>a \<in> set args. \<nexists>k v. a = k @ ''='' @ v \<and> k \<noteq> [] \<and> CHR ''='' \<notin> set k))
   \<and> (\<forall>m. parseArguments args = Some m \<longrightarrow>
        smap_ok m \<and> map_of m = map_of (rev (List.map_filter split_key_value args)))"
proof -
  have "(parseArguments args = None) \<longleftrightarrow> (\<exists>a \<in> set args. split_key_value a = None)"
    unfolding parseArguments_def using parseArguments_loop_iff [of "[]" args] by metis
  moreover have "split_key_value a = None \<longleftrightarrow> (\<nexists>k v. a = k @ ''='' @ v \<and> k \<noteq> [] \<and> CHR ''='' \<notin> set k)" for a
    by (metis split_key_value_iff option.exhaust prod.exhaust option.distinct(1))
  moreover have "smap_ok m \<and> map_of m = map_of (rev (List.map_filter split_key_value args))"
    if "parseArguments args = Some m" for m
    using parseArguments_loop_map [of "[]" args m] that by (simp add: parseArguments_def)
  ultimately show ?thesis by blast
qed

theorem parseArguments_spec_witness:
  "map_of (the (parseArguments [''US=http://a:1'', ''ru=http://b:2'', ''US=http://c:3''])) ''US''
     = Some ''http://c:3''"
proof -
  let ?args = "[''US=http://a:1'', ''ru=http://b:2'', ''US=http://c:3'']"
  have e: "parseArguments ?args = Some [(''US'', ''http://c:3''), (''ru'', ''http://b:2'')]"
    by (simp add: parseArguments_def split_key_value_eval less_char_def)
  have f: "map_of (rev (List.map_filter split_key_value ?args)) ''US'' = Some ''http://c:3''"
    by (simp add: List.map_filter_simps split_key_value_eval)
  have "map_of [(''US'', ''http://c:3''), (''ru'', ''http://b:2'')]
      = map_of (rev (List.map_filter split_key_value ?args))"
    using parseArguments_spec [of ?args] e by blast
  then show ?thesis using e f by simp
qed

text \<open>C20: Whatever the configuration file says, a loaded configuration maps exactly the countries
  of the command line: a country is configured with the address of the last start-up argument
  (in key order) that is a two-letter code for it and a valid \<open>http\<close> address; the map is
  ordered, every key is two capital letters, and every address has a host, a port between 1 and
  65535 and no HTTPS.\<close>

theorem loadConfiguration_countries:
  assumes "loadConfiguration fs hw args = Inr cfg"
  shows "map_of (country_backend_map cfg) = map_of (rev (List.map_filter country_mapping args))
    \<and> smap_ok (country_backend_map cfg)
    \<and> (\<forall>e \<in> set (country_backend_map cfg). country_entry_ok e)"
  by (rule loaded_countries [OF assms])

theorem loadConfiguration_countries_witness:
  "\<exists>cfg. loadConfiguration (\<lambda>_. None) 4 [(''US'', ''http://a:9001''), (''gb'', ''http://b:9002''), (''port'', ''1'')] = Inr cfg
     \<and> map_of (country_backend_map cfg) ''GB''
       = Some \<lparr>url = ''http://b:9002'', backend_host = ''b'', backend_port = 9002, is_https = False\<rparr>
     \<and> map_of (country_backend_map cfg) ''gb'' = None"
proof -
  let ?args = "[(''US'', ''http://a:9001''), (''gb'', ''http://b:9002''), (''port'', ''1'')]"
  obtain cfg where l: "loadConfiguration (\<lambda>_. None) 4 ?args = Inr cfg"
    by (simp add: loadConfiguration_def config_paths_def)
  have m: "List.map_filter country_mapping ?args =
      [(''US'', \<lparr>url = ''http://a:9001'', backend_host = ''a'', backend_port = 9001, is_https = False\<rparr>),
       (''GB'', \<lparr>url = ''http://b:9002'', backend_host = ''b'', backend_port = 9002, is_https = False\<rparr>)]"
    by (simp add: List.map_filter_simps country_mapping_def parseUrl_eval cstr_simps)
  show ?thesis
    using l loadConfiguration_countries [OF l] unfolding m by (intro exI [of _ cfg]) simp
qed

text \<open>On a machine with up to 322251 hardware threads the deduced values do not overflow: there
  are twice as many I/O threads as hardware threads (2 when the number is unknown) and the
  response queue of a session holds 3332 responses for each of them, which is positive.\<close>

theorem loadConfiguration_deductions:
  assumes "loadConfiguration fs hw args = Inr cfg" and "unat hw \<le> 322251"
  shows "unat (num_io_threads cfg) = (if hw = 0 then 2 else 2 * unat hw)
    \<and> max_response_queue_size cfg = 3332 * int (unat (num_io_threads cfg))
    \<and> 0 < max_response_queue_size cfg"
proof -
  from assms(1) obtain c where c: "read_config fs config_paths default_config = Inr c"
    and cfg: "cfg = updateDeductions hw (add_mappings args c)"
    by (auto simp: loadConfiguration_def split: sum.splits)
  have b: "base_params (add_mappings args c)"
    using read_config_params [OF c] by (simp add: add_mappings_params)
  have q: "unat (num_io_threads cfg) = (if hw = 0 then 2 else 2 * unat hw)"
      "max_response_queue_size cfg = 3332 * int (unat (num_io_threads cfg))"
    using updateDeductions_queue_size [OF b assms(2)] by (simp_all add: cfg)
  have "0 < unat hw" if "hw \<noteq> 0" using that by (simp add: unat_gt_0)
  then have "0 < unat (num_io_threads cfg)" using q(1) by auto
  with q show ?thesis by simp
qed

theorem loadConfiguration_deductions_witness:
  "max_response_queue_size (projr (loadConfiguration (\<lambda>_. None) 8 [])) = 53312"
proof -
  obtain cfg where l: "loadConfiguration (\<lambda>_. None) 8 [] = Inr cfg"
    by (simp add: loadConfiguration_def config_paths_def)
  have h: "unat (8 :: 32 word) \<le> 322251" by simp
  have n: "unat (num_io_threads cfg) = 16"
    using loadConfiguration_deductions [OF l h] by simp
  have q: "max_response_queue_size cfg = 3332 * int (unat (num_io_threads cfg))"
    using loadConfiguration_deductions [OF l h] by blast
  have "max_response_queue_size cfg = 53312" using q unfolding n by simp
  then show ?thesis using l by simp
qed

text \<open>A value that the program itself prints for an integer parameter is read back from the
  configuration file, and nothing else of the configuration changes.\<close>

theorem apply_line_int_roundtrip:
  assumes "in_int_range i"
  shows "apply_line cfg (''frontend_port='' @ string_of_int i) = Inr (cfg\<lparr>frontend_port := i\<rparr>)
    \<and> apply_line cfg (''redis_port='' @ string_of_int i) = Inr (cfg\<lparr>redis_port := i\<rparr>)
    \<and> apply_line cfg (''metrics_batch_size='' @ string_of_int i) = Inr (cfg\<lparr>metrics_batch_size := i\<rparr>)
    \<and> apply_line cfg (''metrics_send_interval='' @ string_of_int i)
        = Inr (cfg\<lparr>metrics_send_interval_in_millis := i\<rparr>)
    \<and> apply_line cfg (''in_memory_cache_max_size='' @ string_of_int i)
        = Inr (cfg\<lparr>in_memory_cache_max_size := i\<rparr>)"
proof -
  have v: "trim (rev (dropWhile trim_ws (rev (string_of_int i)))) = string_of_int i"
    using string_of_int_no_ws by (simp add: no_ws_rstrip no_ws_trim)
  note s = stringToInt_string_of_int [OF assms]
  show ?thesis
    using apply_line_key [of "''frontend_port''" cfg "string_of_int i"]
      apply_line_key [of "''redis_port''" cfg "string_of_int i"]
      apply_line_key [of "''metrics_batch_size''" cfg "string_of_int i"]
      apply_line_key [of "''metrics_send_interval''" cfg "string_of_int i"]
      apply_line_key [of "''in_memory_cache_max_size''" cfg "string_of_int i"]
    unfolding v by (simp add: trim_ws_def apply_key_def set_int_def s)
qed

theorem apply_line_int_roundtrip_witness:
  "apply_line default_config (''frontend_port='' @ string_of_int 8080)
     = Inr (default_config\<lparr>frontend_port := 8080\<rparr>)"
  using apply_line_int_roundtrip [of 8080 default_config]
  by (simp add: in_int_range_def int_min_def int_max_def)

text \<open>The time to live of the in-memory cache, given in hours, is stored in seconds without
  overflow up to 596523 hours; one hour more overflows to a negative number of seconds.\<close>

theorem cache_ttl_hours:
  assumes "stringToInt val = Some h"
  shows "(0 \<le> h \<and> h \<le> 596523 \<longrightarrow>
      apply_key cfg ''in_memory_cache_ttl'' val = Inr (cfg\<lparr>in_memory_cache_ttl := 3600 * h\<rparr>))
    \<and> (h = 596524 \<longrightarrow>
      (\<exists>cfg'. apply_key cfg ''in_memory_cache_ttl'' val = Inr cfg' \<and> in_memory_cache_ttl cfg' < 0))"
proof -
  have "apply_key cfg ''in_memory_cache_ttl'' val
      = Inr (cfg\<lparr>in_memory_cache_ttl := wrap32 (h * 3600)\<rparr>)"
    using assms by (simp add: apply_key_def set_int_def)
  moreover have "wrap32 (h * 3600) = 3600 * h" if "0 \<le> h \<and> h \<le> 596523"
    using that wrap32_id [of "h * 3600"] by (simp add: in_int_range_def int_min_def int_max_def)
  moreover have "wrap32 (596524 * 3600) < 0" by (simp add: wrap32_def)
  ultimately show ?thesis by auto
qed

theorem cache_ttl_hours_witness:
  "stringToInt ''24'' = Some 24
   \<and> apply_key default_config ''in_memory_cache_ttl'' ''24''
     = Inr (default_config\<lparr>in_memory_cache_ttl := 86400\<rparr>)"
proof -
  have h: "stringToInt ''24'' = Some 24" by (simp add: stringToInt_def stoi_eval)
  then show ?thesis using cache_ttl_hours [OF h, of default_config] by simp
qed

text \<open>The key \<open>metrics_send_interval_in_millis\<close> that the shipped \<open>backendify.config\<close> sets is not
  a key of the program: such a line never changes the configuration, whatever its value.\<close>

theorem interval_in_millis_ignored:
  "apply_line cfg (''metrics_send_interval_in_millis='' @ v) = Inr cfg"
  using apply_line_key [of "''metrics_send_interval_in_millis''" cfg v]
  by (simp add: trim_ws_def apply_key_def)

text \<open>A configuration file that sets \<open>log_level\<close> to any other word than \<open>DEBUG\<close>, \<open>INFO\<close>,
  \<open>WARNING\<close> or \<open>CERROR\<close> makes loading fail with \<open>std::invalid_argument\<close>, so the service does not
  start; \<open>SETUP\<close>, which the comment in \<open>backendify.config\<close> lists as available, is such a word.\<close>

theorem unknown_log_level_fails:
  assumes "fs ''backendify.config'' = Some (''log_level='' @ level)"
    and "level \<noteq> []" and "\<forall>c \<in> set level. \<not> trim_ws c"
    and "level \<notin> {''DEBUG'', ''INFO'', ''WARNING'', ''CERROR''}"
  shows "loadConfiguration fs hw args = Inl (invalid_argument (''Invalid log level: '' @ level))"
proof -
  let ?c = "''log_level='' @ level"
  have nl: "CHR 0x0A \<notin> set ?c"
    using assms(3) by (auto simp: trim_ws_def)
  have v: "trim (rev (dropWhile trim_ws (rev level))) = level"
    using assms(3) by (simp add: no_ws_rstrip no_ws_trim)
  have "apply_line default_config ?c = Inl (invalid_argument (''Invalid log level: '' @ level))"
    using apply_line_key [of "''log_level''" default_config level] assms(4)
    unfolding v by (simp add: trim_ws_def apply_key_def stringToLogLevel_def)
  then have "read_config fs config_paths default_config
      = Inl (invalid_argument (''Invalid log level: '' @ level))"
    using assms(1) getlines_single [OF nl] by (simp add: config_paths_def)
  then show ?thesis by (simp add: loadConfiguration_def)
qed

theorem unknown_log_level_fails_witness:
  "loadConfiguration (\<lambda>p. if p = ''backendify.config'' then Some ''log_level=SETUP'' else None) 4 []
     = Inl (invalid_argument ''Invalid log level: SETUP'')"
  using unknown_log_level_fails
    [of "\<lambda>p. if p = ''backendify.config'' then Some ''log_level=SETUP'' else None" "''SETUP''" 4 "[]"]
  by (simp add: trim_ws_def)

end
