(* ===== verification/Utc_Time.thy ===== *)
theory Utc_Time
  imports Cpp_Streams
begin

text \<open>
  The time stamps of the backends, \<open>src/src/utils/Utils.hpp\<close>: \<open>timegm_custom\<close> and
  \<open>isUTCTimeInFuture\<close>. \<open>std::get_time\<close> follows libstdc++ (every numeric field takes
  exactly its number of digits, a year of two digits is taken as 19yy, letters of the format
  match in either case, reaching the end of the text inside the format sets only \<open>eofbit\<close>);
  \<open>timegm\<close> is the proleptic Gregorian calendar, in which a day past the end of its month runs
  into the next month. The present time is a reading of \<open>std::chrono::system_clock\<close> in
  nanoseconds, and the local variable \<open>suffix\<close>, which the code reads before anything is
  stored in it when the text ends early, starts with an arbitrary value \<open>suffix0\<close>.
\<close>

section \<open>Definitions\<close>

record tm =
  tm_sec :: int
  tm_min :: int
  tm_hour :: int
  tm_mday :: int
  tm_mon :: int
  tm_year :: int

definition tm_zero :: tm where
  "tm_zero = \<lparr>tm_sec = 0, tm_min = 0, tm_hour = 0, tm_mday = 0, tm_mon = 0, tm_year = 0\<rparr>"

definition TIME_FORMAT :: string where
  "TIME_FORMAT = ''%Y-%m-%dT%H:%M:%S''"

text \<open>A numeric field of exactly \<open>len\<close> digits with a value between \<open>lo\<close> and \<open>hi\<close>.\<close>

definition extract_num :: "nat \<Rightarrow> nat \<Rightarrow> nat \<Rightarrow> string \<Rightarrow> (int \<times> string) option" where
  "extract_num lo hi len s =
     (let ds = take len s; v = nat_of_digits ds
      in if length ds = len \<and> list_all c_isdigit ds \<and> lo \<le> v \<and> v \<le> hi
         then Some (int v, drop len s) else None)"

definition extract_year :: "string \<Rightarrow> (int \<times> string) option" where
  "extract_year s =
     (case extract_num 0 9999 4 s of
        Some (v, r) \<Rightarrow> Some (v - 1900, r)
      | None \<Rightarrow>
          if length (takeWhile c_isdigit s) = 2 then extract_num 0 99 2 s else None)"

text \<open>One conversion of the format: the changed \<open>tm\<close> and the remaining text.\<close>

definition time_conv :: "char \<Rightarrow> string \<Rightarrow> tm \<Rightarrow> (tm \<times> string) option" where
  "time_conv f s t =
     (if f = CHR ''Y'' then map_option (\<lambda>(v, r). (t\<lparr>tm_year := v\<rparr>, r)) (extract_year s)
      else if f = CHR ''m'' then
        map_option (\<lambda>(v, r). (t\<lparr>tm_mon := v - 1\<rparr>, r)) (extract_num 1 12 2 s)
      else if f = CHR ''d'' then map_option (\<lambda>(v, r). (t\<lparr>tm_mday := v\<rparr>, r)) (extract_num 1 31 2 s)
      else if f = CHR ''H'' then map_option (\<lambda>(v, r). (t\<lparr>tm_hour := v\<rparr>, r)) (extract_num 0 23 2 s)
      else if f = CHR ''M'' then map_option (\<lambda>(v, r). (t\<lparr>tm_min := v\<rparr>, r)) (extract_num 0 59 2 s)
      else if f = CHR ''S'' then map_option (\<lambda>(v, r). (t\<lparr>tm_sec := v\<rparr>, r)) (extract_num 0 60 2 s)
      else None)"

text \<open>
  \<open>std::time_get::get\<close>: runs the format over the text; the result is the \<open>tm\<close>, the remaining
  text and the bits \<open>eofbit\<close> and \<open>failbit\<close>.
\<close>

fun time_get :: "string \<Rightarrow> string \<Rightarrow> tm \<Rightarrow> tm \<times> string \<times> bool \<times> bool" where
  "time_get [] s t = (t, s, False, False)"
| "time_get (c # fmt) [] t = (t, [], True, True)"
| "time_get (c # fmt) (x # s) t =
     (if c = CHR ''%'' then
        (case fmt of
           [] \<Rightarrow> (t, x # s, False, True)
         | f # fmt' \<Rightarrow>
             (case time_conv f (x # s) t of
                None \<Rightarrow> (t, x # s, False, True)
              | Some (t', r) \<Rightarrow> if r = [] then (t', [], True, False) else time_get fmt' r t'))
      else if c_toupper x = c_toupper c then time_get fmt s t
      else (t, x # s, False, True))"

text \<open>\<open>ss >> std::get_time(&tm, Constants::TIME_FORMAT)\<close>\<close>

definition get_time :: "istream \<Rightarrow> tm \<Rightarrow> tm \<times> istream" where
  "get_time st t =
     (case sentry st of
        (False, st') \<Rightarrow> (t, st')
      | (True, st') \<Rightarrow>
          (case time_get TIME_FORMAT (sbuf st') t of
             (t', r, e, f) \<Rightarrow> (t', st'\<lparr>sbuf := r, eofbit := e, failbit := f\<rparr>)))"

definition leap_year :: "int \<Rightarrow> bool" where
  "leap_year y \<longleftrightarrow> y mod 4 = 0 \<and> (y mod 100 \<noteq> 0 \<or> y mod 400 = 0)"

text \<open>Days from 1970-01-01 to January 1 of a year, and days of a year before a month (0 to 11).\<close>

definition days_before_year :: "int \<Rightarrow> int" where
  "days_before_year y = 365 * (y - 1970) + (y - 1) div 4 - (y - 1) div 100 + (y - 1) div 400 - 477"

definition month_length :: "int \<Rightarrow> nat \<Rightarrow> int" where
  "month_length y m =
     (if m = 1 then (if leap_year y then 29 else 28)
      else if m \<in> {3, 5, 8, 10} then 30 else 31)"

fun days_before_month :: "int \<Rightarrow> nat \<Rightarrow> int" where
  "days_before_month y 0 = 0"
| "days_before_month y (Suc m) = days_before_month y m + month_length y m"

definition timegm :: "tm \<Rightarrow> int" where
  "timegm t =
     86400 * (days_before_year (tm_year t + 1900)
              + days_before_month (tm_year t + 1900) (nat (tm_mon t)) + (tm_mday t - 1))
     + 3600 * tm_hour t + 60 * tm_min t + tm_sec t"

text \<open>
  \<open>timegm_custom\<close>, on Unix: the result of \<open>timegm\<close> on a copy, and \<open>errno\<close>, which \<open>timegm\<close>
  leaves at 0 (no year of at most four digits is out of range of a 64-bit \<open>time_t\<close>).
\<close>

definition timegm_custom :: "tm \<Rightarrow> int \<times> int" where
  "timegm_custom t = (timegm t, 0)"

text \<open>
  \<open>system_clock::from_time_t\<close>: seconds to the clock's nanoseconds, a 64-bit product.
\<close>

definition from_time_t :: "int \<Rightarrow> int" where
  "from_time_t t = wrap64 (t * 1000000000)"

text \<open>
  The loop over fractional digits: \<open>while (ss.peek() is a digit) ss >> digit;\<close>. Each round
  removes at least one character, so the length of the text bounds the rounds.
\<close>

fun skip_digits :: "nat \<Rightarrow> istream \<Rightarrow> istream" where
  "skip_digits 0 st = st"
| "skip_digits (Suc n) st =
     (case peek st of
        (Some c, st') \<Rightarrow> if c_isdigit c then skip_digits n (snd (get_int st')) else st'
      | (None, st') \<Rightarrow> st')"

definition skip_fraction :: "istream \<Rightarrow> istream" where
  "skip_fraction st =
     (case peek st of
        (Some c, st1) \<Rightarrow>
          if c = CHR ''.'' then
            let st2 = snd (get_char st1);
                st3 = skip_digits (Suc (length (sbuf st2))) st2
            in if failbit st3 \<and> \<not> eofbit st3 then clear_state st3 else st3
          else st1
      | (None, st1) \<Rightarrow> st1)"

definition isUTCTimeInFuture :: "char \<Rightarrow> int \<Rightarrow> string \<Rightarrow> bool exc" where
  "isUTCTimeInFuture suffix0 now_tp str =
     (let (t, ss) = get_time (istringstream str) tm_zero
      in if failbit ss then Inl (runtime_error (''Failed to parse date/time part: '' @ quoted str))
         else
           let ss = skip_fraction ss;
               (c, ss) = get_char ss;
               suffix = (case c of Some x \<Rightarrow> x | None \<Rightarrow> suffix0);
               bad = (failbit ss \<or> suffix \<noteq> CHR ''Z'')
           in if bad \<and> eofbit ss \<and> suffix \<noteq> CHR ''Z'' \<and> failbit ss then
                Inl (runtime_error (''Timestamp missing required 'Z' (UTC indicator): '' @ quoted str))
              else if bad \<and> suffix \<noteq> CHR ''Z'' then
                Inl (runtime_error (''Unsupported timestamp format or extra characters (expected 'Z'): '' @ quoted str))
              else if bad \<and> failbit ss \<and> \<not> eofbit ss then
                Inl (runtime_error (''Failed reading character after time (expected 'Z'): '' @ quoted str))
              else
                let remaining = fst (get_word ss)
                in if remaining \<noteq> None \<and> the remaining \<noteq> [] then
                  Inl (runtime_error (''Unexpected characters after 'Z': '' @ quoted (the remaining)
                    @ '' in '' @ quoted str))
                else let (tt, errno) = timegm_custom t
                in if tt = - 1 \<and> errno \<noteq> 0 then Inr False
                   else if tt = - 1 \<and> errno = 0 then
                     Inl (runtime_error (''Failed to convert parsed UTC time to time_t ''
                       @ ''(invalid input or missing timegm/mkgmtime?) for: '' @ quoted str))
                   else Inr (from_time_t tt > now_tp))"

section \<open>Printed time stamps, as a reference\<close>

definition digit :: "nat \<Rightarrow> char" where
  "digit n = char_of (48 + n)"

definition two :: "nat \<Rightarrow> string" where
  "two n = [digit (n div 10), digit (n mod 10)]"

definition four :: "nat \<Rightarrow> string" where
  "four n = [digit (n div 1000), digit (n div 100 mod 10), digit (n div 10 mod 10), digit (n mod 10)]"

text \<open>The RFC 3339 form of a date and a time of day; \<open>frac\<close> is \<open>[]\<close> or \<open>.\<close> and digits.\<close>

definition print_utc :: "nat \<Rightarrow> nat \<Rightarrow> nat \<Rightarrow> nat \<Rightarrow> nat \<Rightarrow> nat \<Rightarrow> string" where
  "print_utc y mo d h mi s =
     four y @ ''-'' @ two mo @ ''-'' @ two d @ ''T'' @ two h @ '':'' @ two mi @ '':'' @ two s"

definition fields_ok :: "nat \<Rightarrow> nat \<Rightarrow> nat \<Rightarrow> nat \<Rightarrow> nat \<Rightarrow> nat \<Rightarrow> bool" where
  "fields_ok y mo d h mi s \<longleftrightarrow>
     y \<le> 9999 \<and> 1 \<le> mo \<and> mo \<le> 12 \<and> 1 \<le> d \<and> d \<le> 31 \<and> h \<le> 23 \<and> mi \<le> 59 \<and> s \<le> 60"

definition tm_of :: "nat \<Rightarrow> nat \<Rightarrow> nat \<Rightarrow> nat \<Rightarrow> nat \<Rightarrow> nat \<Rightarrow> tm" where
  "tm_of y mo d h mi s =
     \<lparr>tm_sec = int s, tm_min = int mi, tm_hour = int h, tm_mday = int d, tm_mon = int mo - 1,
      tm_year = int y - 1900\<rparr>"

definition fraction :: "string \<Rightarrow> bool" where
  "fraction f \<longleftrightarrow> f = [] \<or> (\<exists>ds. f = CHR ''.'' # ds \<and> list_all c_isdigit ds)"

section \<open>Reading a printed time stamp\<close>

lemma digit_isdigit: "n < 10 \<Longrightarrow> c_isdigit (digit n)"
  by (simp add: digit_def c_isdigit_def)

lemma digit_val_digit: "n < 10 \<Longrightarrow> digit_val (digit n) = n"
  by (simp add: digit_def digit_val_def)

lemma extract_two:
  assumes "n < 100" and "lo \<le> n" and "n \<le> hi"
  shows "extract_num lo hi 2 (two n @ r) = Some (int n, r)"
proof -
  have "n div 10 < 10" "n mod 10 < 10" using assms(1) by auto
  then have "nat_of_digits (two n) = n" and "list_all c_isdigit (two n)"
    by (simp_all add: two_def nat_of_digits_def digit_val_digit digit_isdigit)
  moreover have "length (two n) = 2" by (simp add: two_def)
  ultimately show ?thesis using assms by (simp add: extract_num_def Let_def)
qed

lemma extract_four:
  assumes "n \<le> 9999"
  shows "extract_year (four n @ r) = Some (int n - 1900, r)"
proof -
  have "n div 1000 < 10" "n div 100 mod 10 < 10" "n div 10 mod 10 < 10" "n mod 10 < 10"
    using assms by auto
  moreover have "10 * (10 * (10 * (n div 1000) + n div 100 mod 10) + n div 10 mod 10) + n mod 10 = n"
  proof -
    have a: "10 * (n div 10) + n mod 10 = n" by simp
    have b: "10 * (n div 100) + n div 10 mod 10 = n div 10"
      using mult_div_mod_eq [of 10 "n div 10"] by (simp add: div_mult2_eq [symmetric])
    have c: "10 * (n div 1000) + n div 100 mod 10 = n div 100"
      using mult_div_mod_eq [of 10 "n div 100"] by (simp add: div_mult2_eq [symmetric])
    show ?thesis by (simp only: a b c)
  qed
  ultimately have "nat_of_digits (four n) = n" and "list_all c_isdigit (four n)"
    by (simp_all add: four_def nat_of_digits_def digit_val_digit digit_isdigit)
  moreover have "length (four n) = 4" by (simp add: four_def)
  ultimately show ?thesis using assms by (simp add: extract_year_def extract_num_def Let_def)
qed


lemma time_get_conv:
  assumes "time_conv f s t = Some (t', r)" and "s \<noteq> []"
  shows "time_get (CHR ''%'' # f # fmt) s t = (if r = [] then (t', [], True, False) else time_get fmt r t')"
  using assms by (cases s) simp_all

lemma time_get_lit: "c \<noteq> CHR ''%'' \<Longrightarrow> time_get (c # fmt) (c # s) t = time_get fmt s t"
  by simp

lemma two_nonempty [simp]: "two n \<noteq> []" "four n \<noteq> []"
  by (simp_all add: two_def four_def)

lemma time_conv_simps:
  "y \<le> 9999 \<Longrightarrow> time_conv (CHR ''Y'') (four y @ r) t = Some (t\<lparr>tm_year := int y - 1900\<rparr>, r)"
  "1 \<le> n \<Longrightarrow> n \<le> 12 \<Longrightarrow> time_conv (CHR ''m'') (two n @ r) t = Some (t\<lparr>tm_mon := int n - 1\<rparr>, r)"
  "1 \<le> n \<Longrightarrow> n \<le> 31 \<Longrightarrow> time_conv (CHR ''d'') (two n @ r) t = Some (t\<lparr>tm_mday := int n\<rparr>, r)"
  "n \<le> 23 \<Longrightarrow> time_conv (CHR ''H'') (two n @ r) t = Some (t\<lparr>tm_hour := int n\<rparr>, r)"
  "n \<le> 59 \<Longrightarrow> time_conv (CHR ''M'') (two n @ r) t = Some (t\<lparr>tm_min := int n\<rparr>, r)"
  "n \<le> 60 \<Longrightarrow> time_conv (CHR ''S'') (two n @ r) t = Some (t\<lparr>tm_sec := int n\<rparr>, r)"
  by (simp_all add: time_conv_def extract_two extract_four)

lemma time_get_print:
  assumes "fields_ok y mo d h mi s"
  shows "time_get TIME_FORMAT (print_utc y mo d h mi s @ r) tm_zero = (tm_of y mo d h mi s, r, r = [], False)"
proof -
  note ok = assms [unfolded fields_ok_def]
  show ?thesis
    using ok
    by (simp add: TIME_FORMAT_def print_utc_def time_get_conv time_conv_simps time_get_lit
        tm_of_def tm_zero_def del: time_get.simps(3))
qed

lemma print_utc_nonspace: "fields_ok y mo d h mi s \<Longrightarrow>
   dropWhile c_isspace (print_utc y mo d h mi s @ r) = print_utc y mo d h mi s @ r"
  by (auto simp: print_utc_def four_def fields_ok_def digit_isdigit digit_not_space)

lemma get_time_print:
  assumes "fields_ok y mo d h mi s"
  shows "get_time (istringstream (print_utc y mo d h mi s @ r)) tm_zero =
    (tm_of y mo d h mi s, \<lparr>sbuf = r, eofbit = (r = []), failbit = False\<rparr>)"
proof -
  have "print_utc y mo d h mi s \<noteq> []" by (simp add: print_utc_def)
  then have "sentry (istringstream (print_utc y mo d h mi s @ r))
      = (True, istringstream (print_utc y mo d h mi s @ r))"
    using print_utc_nonspace [OF assms] by (simp add: sentry_def Let_def)
  then show ?thesis
    by (simp add: get_time_def time_get_print [OF assms] istringstream_def)
qed

text \<open>The fractional digits, however many, are skipped when some text follows them.\<close>

lemma skip_digits_run:
  assumes "list_all c_isdigit ds" and "\<not> c_isdigit z"
  shows "\<exists>f. skip_digits (Suc (length (ds @ z # r))) \<lparr>sbuf = ds @ z # r, eofbit = False, failbit = False\<rparr>
    = \<lparr>sbuf = z # r, eofbit = False, failbit = f\<rparr>"
proof (cases ds)
  case Nil
  with assms(2) show ?thesis by (intro exI [of _ False]) (simp add: peek_def good_def)
next
  case (Cons c cs)
  let ?st = "\<lparr>sbuf = ds @ z # r, eofbit = False, failbit = False\<rparr>"
  have c: "c_isdigit c" and "good ?st" using assms(1) Cons by (simp_all add: good_def)
  then have g: "sbuf (snd (get_int ?st)) = dropWhile c_isdigit (ds @ z # r)"
      "eofbit (snd (get_int ?st)) \<longleftrightarrow> dropWhile c_isdigit (ds @ z # r) = []"
    using get_int_at_digit [of ?st c "cs @ z # r"] Cons by simp_all
  have d: "dropWhile c_isdigit (ds @ z # r) = z # r"
    using assms by (intro dropWhile_append_stop) (auto simp: list_all_iff)
  obtain f where f: "snd (get_int ?st) = \<lparr>sbuf = z # r, eofbit = False, failbit = f\<rparr>"
    using g unfolding d by (cases "snd (get_int ?st)") auto
  have "skip_digits (Suc (length (ds @ z # r))) ?st
      = skip_digits (length (ds @ z # r)) \<lparr>sbuf = z # r, eofbit = False, failbit = f\<rparr>"
    using c f Cons by (simp add: peek_def good_def)
  also have "\<dots> = \<lparr>sbuf = z # r, eofbit = False, failbit = f\<rparr>"
    using assms(2) Cons by (cases f) (simp_all add: peek_def good_def)
  finally show ?thesis by blast
qed

lemma skip_fraction_run:
  assumes "fraction f" and "z \<noteq> CHR ''.''" and "\<not> c_isdigit z"
  shows "skip_fraction \<lparr>sbuf = f @ z # r, eofbit = False, failbit = False\<rparr>
    = \<lparr>sbuf = z # r, eofbit = False, failbit = False\<rparr>"
proof (cases f)
  case Nil
  with assms(2) show ?thesis by (simp add: skip_fraction_def peek_def good_def)
next
  case (Cons c ds)
  with assms(1) have c: "c = CHR ''.''" and ds: "list_all c_isdigit ds" by (auto simp: fraction_def)
  have ns: "\<not> c_isspace (CHR ''.'')" by (simp add: cstr_simps)
  have "snd (get_char \<lparr>sbuf = CHR ''.'' # ds @ z # r, eofbit = False, failbit = False\<rparr>)
      = \<lparr>sbuf = ds @ z # r, eofbit = False, failbit = False\<rparr>"
    using ns by (subst get_char_good) (simp_all add: good_def)
  moreover obtain fb where "skip_digits (Suc (length (ds @ z # r)))
      \<lparr>sbuf = ds @ z # r, eofbit = False, failbit = False\<rparr> = \<lparr>sbuf = z # r, eofbit = False, failbit = fb\<rparr>"
    using skip_digits_run [OF ds assms(3), of r] by blast
  ultimately show ?thesis
    by (simp add: skip_fraction_def peek_def good_def Cons c Let_def clear_state_def del: skip_digits.simps)
qed


section \<open>The calendar\<close>

lemma month_lengths:
  "days_before_month y 12 = (if leap_year y then 366 else 365)"
  by (simp add: eval_nat_numeral month_length_def)

lemma floor_step:
  assumes "0 < (k :: int)"
  shows "y div k = (y - 1) div k + (if y mod k = 0 then 1 else 0)"
proof (cases "y mod k = 0")
  case True
  then obtain q where y: "y = k * q" by auto
  have "(y - 1) div k = q - 1"
    by (rule int_div_pos_eq [where r = "k - 1"]) (use assms in \<open>auto simp: y algebra_simps\<close>)
  with y assms show ?thesis by simp
next
  case False
  have "0 \<le> y mod k" "y mod k < k" using assms by simp_all
  moreover have "y - 1 = k * (y div k) + (y mod k - 1)" by simp
  ultimately have "(y - 1) div k = y div k"
    using False by (intro int_div_pos_eq [where r = "y mod k - 1"]) auto
  with False show ?thesis by simp
qed

lemma leap_year_split:
  "(if leap_year y then 366 else 365 :: int) =
     365 + (if y mod 4 = 0 then 1 else 0) - (if y mod 100 = 0 then 1 else 0) + (if y mod 400 = 0 then 1 else 0)"
proof -
  have "y mod 100 = 0" if "y mod 400 = 0"
    using that mod_mod_cancel [of 100 400 y] by simp
  moreover have "y mod 4 = 0" if "y mod 100 = 0"
    using that mod_mod_cancel [of 4 100 y] by simp
  ultimately show ?thesis
    unfolding leap_year_def
    by (cases "y mod 4 = 0"; cases "y mod 100 = 0"; cases "y mod 400 = 0") simp_all
qed

lemma days_before_year_step:
  "days_before_year (y + 1) = days_before_year y + days_before_month y 12"
proof -
  define A B C where "A = (y - 1) div 4" and "B = (y - 1) div 100" and "C = (y - 1) div 400"
  have "days_before_year (y + 1) = 365 * (y - 1970) + 365 + y div 4 - y div 100 + y div 400 - 477"
    by (simp add: days_before_year_def)
  also have "\<dots> = 365 * (y - 1970) + 365 + (A + (if y mod 4 = 0 then 1 else 0))
      - (B + (if y mod 100 = 0 then 1 else 0)) + (C + (if y mod 400 = 0 then 1 else 0)) - 477"
    unfolding A_def B_def C_def by (subst (1 2 3) floor_step) simp_all
  also have "\<dots> = 365 * (y - 1970) + A - B + C - 477 + (if leap_year y then 366 else 365)"
    unfolding leap_year_split by simp
  finally show ?thesis unfolding A_def B_def C_def days_before_year_def month_lengths .
qed

text \<open>The day after a date of the calendar, as a date (the month counts from 1).\<close>

definition next_day :: "nat \<times> nat \<times> nat \<Rightarrow> nat \<times> nat \<times> nat" where
  "next_day date =
     (case date of (y, mo, d) \<Rightarrow>
        if int d < month_length (int y) (mo - 1) then (y, mo, d + 1)
        else if mo < 12 then (y, mo + 1, 1)
        else (y + 1, 1, 1))"

definition valid_date :: "nat \<times> nat \<times> nat \<Rightarrow> bool" where
  "valid_date date \<longleftrightarrow>
     (case date of (y, mo, d) \<Rightarrow> 1 \<le> mo \<and> mo \<le> 12 \<and> 1 \<le> d \<and> int d \<le> month_length (int y) (mo - 1))"

lemma days_before_month_Suc: "0 < m \<Longrightarrow> days_before_month y m = days_before_month y (m - 1) + month_length y (m - 1)"
  by (cases m) simp_all

lemma timegm_tm_of:
  "1 \<le> mo \<Longrightarrow> timegm (tm_of y mo d h mi s) =
     86400 * (days_before_year (int y) + days_before_month (int y) (mo - 1) + (int d - 1))
     + 3600 * int h + 60 * int mi + int s"
  by (simp add: timegm_def tm_of_def nat_diff_distrib)

text \<open>\<open>timegm_custom\<close> counts seconds along the calendar: the epoch 1970-01-01T00:00:00 is 0,
  and from any valid date to the day after it, at the same time of day, are 86400 seconds.\<close>

theorem timegm_custom_next_day:
  assumes "valid_date (y, mo, d)" and "next_day (y, mo, d) = (y', mo', d')"
  shows "fst (timegm_custom (tm_of y' mo' d' h mi s)) = fst (timegm_custom (tm_of y mo d h mi s)) + 86400
    \<and> fst (timegm_custom (tm_of 1970 1 1 0 0 0)) = 0"
proof -
  have v: "1 \<le> mo" "mo \<le> 12" "1 \<le> d" "int d \<le> month_length (int y) (mo - 1)"
    using assms(1) by (simp_all add: valid_date_def)
  have z: "timegm (tm_of 1970 1 1 0 0 0) = 0"
    by (simp add: timegm_tm_of days_before_year_def)
  show ?thesis
  proof (cases "int d < month_length (int y) (mo - 1)")
    case True
    with assms(2) have "y' = y" "mo' = mo" "d' = d + 1" by (simp_all add: next_day_def)
    with v z show ?thesis by (simp add: timegm_custom_def timegm_tm_of)
  next
    case False
    with v(4) have e: "int d = month_length (int y) (mo - 1)" by simp
    show ?thesis
    proof (cases "mo < 12")
      case True
      with False assms(2) have "y' = y" "mo' = mo + 1" "d' = 1" by (simp_all add: next_day_def)
      with v z e days_before_month_Suc [of mo "int y"] show ?thesis
        by (simp add: timegm_custom_def timegm_tm_of)
    next
      case F12: False
      with False assms(2) v(2) have "mo = 12" "y' = y + 1" "mo' = 1" "d' = 1"
        by (simp_all add: next_day_def)
      with v z e days_before_month_Suc [of 12 "int y"] days_before_year_step [of "int y"]
      show ?thesis by (simp add: timegm_custom_def timegm_tm_of add.commute)
    qed
  qed
qed

theorem timegm_custom_next_day_witness:
  "valid_date (2024, 2, 29) \<and> next_day (2024, 2, 29) = (2024, 3, 1)
   \<and> fst (timegm_custom (tm_of 2024 3 1 6 23 14)) = fst (timegm_custom (tm_of 2024 2 29 6 23 14)) + 86400"
proof -
  have v: "valid_date (2024, 2, 29)" and n: "next_day (2024, 2, 29) = (2024, 3, 1)"
    by (simp_all add: valid_date_def next_day_def month_length_def leap_year_def)
  then show ?thesis using timegm_custom_next_day [OF v n, of 6 23 14] by simp
qed

section \<open>isUTCTimeInFuture\<close>

text \<open>What the function does with a time stamp in RFC 3339 form followed by a \<open>Z\<close>.\<close>

lemma isUTCTimeInFuture_print:
  assumes "fields_ok y mo d h mi s" and "fraction f"
  shows "isUTCTimeInFuture suffix0 now (print_utc y mo d h mi s @ f @ ''Z'') =
    (let tt = timegm (tm_of y mo d h mi s)
     in if tt = - 1 then
          Inl (runtime_error (''Failed to convert parsed UTC time to time_t ''
            @ ''(invalid input or missing timegm/mkgmtime?) for: '' @ quoted (print_utc y mo d h mi s @ f @ ''Z'')))
        else Inr (from_time_t tt > now))"
proof -
  have ns: "\<not> c_isspace (CHR ''Z'')" "\<not> c_isdigit (CHR ''Z'')" by (simp_all add: cstr_simps)
  have g: "get_time (istringstream (print_utc y mo d h mi s @ f @ ''Z'')) tm_zero
      = (tm_of y mo d h mi s, \<lparr>sbuf = f @ ''Z'', eofbit = False, failbit = False\<rparr>)"
    using get_time_print [OF assms(1), of "f @ ''Z''"] by simp
  have k: "skip_fraction \<lparr>sbuf = f @ ''Z'', eofbit = False, failbit = False\<rparr>
      = \<lparr>sbuf = ''Z'', eofbit = False, failbit = False\<rparr>"
    using skip_fraction_run [OF assms(2), of "CHR ''Z''" "[]"] ns by simp
  have c: "get_char \<lparr>sbuf = ''Z'', eofbit = False, failbit = False\<rparr>
      = (Some (CHR ''Z''), \<lparr>sbuf = [], eofbit = False, failbit = False\<rparr>)"
    using ns by (subst get_char_good) (simp_all add: good_def)
  have w: "fst (get_word \<lparr>sbuf = [], eofbit = False, failbit = False\<rparr>) = None"
    by (simp add: get_word_None)
  show ?thesis
    unfolding isUTCTimeInFuture_def g by (simp add: k c w timegm_custom_def Let_def)
qed


lemma days_before_month_bounds:
  "0 \<le> days_before_month y m" "days_before_month y m \<le> 31 * int m"
  by (induction m) (auto simp: month_length_def)

lemma days_before_year_mono: "y \<le> y' \<Longrightarrow> days_before_year y \<le> days_before_year y'"
proof (induction rule: int_ge_induct)
  case (step i)
  then show ?case
    using days_before_year_step [of i] days_before_month_bounds(1) [of i 12] by simp
qed simp

text \<open>A date between the years 1678 and 2261 fits into 64-bit nanoseconds.\<close>

lemma from_time_t_exact:
  assumes "fields_ok y mo d h mi s" and "1678 \<le> y" and "y \<le> 2261"
  shows "from_time_t (timegm (tm_of y mo d h mi s)) = timegm (tm_of y mo d h mi s) * 1000000000"
proof -
  note ok = assms(1) [unfolded fields_ok_def]
  let ?D = "days_before_year (int y) + days_before_month (int y) (mo - 1) + (int d - 1)"
  have "days_before_year 1678 \<le> days_before_year (int y)"
      "days_before_year (int y) \<le> days_before_year 2261"
    using assms by (auto intro: days_before_year_mono)
  then have yr: "- 106650 \<le> days_before_year (int y)" "days_before_year (int y) \<le> 106286"
    by (simp_all add: days_before_year_def)
  have "0 \<le> days_before_month (int y) (mo - 1)" "days_before_month (int y) (mo - 1) \<le> 341"
    using days_before_month_bounds [of "int y" "mo - 1"] ok by auto
  then have "- 106650 \<le> ?D" "?D \<le> 106657" using yr ok by auto
  then have "- 9214560000 \<le> timegm (tm_of y mo d h mi s)"
      "timegm (tm_of y mo d h mi s) \<le> 9215251200"
    using ok by (simp_all add: timegm_tm_of)
  then show ?thesis unfolding from_time_t_def by (intro wrap64_id) auto
qed

section \<open>Properties\<close>

text \<open>C15: A backend time stamp in RFC 3339 UTC form, with or without a fraction of any number of
  digits, whose date lies between the years 1678 and 2261, is compared by whole seconds: the result
  says whether the present is before the beginning of the second it names. The fraction is read and
  has no influence, so within the second that is running a time stamp that lies in the future by
  its fraction counts as past. The one second before the epoch is not compared: it throws.\<close>

theorem isUTCTimeInFuture_correct:
  assumes "fields_ok y mo d h mi s" and "fraction f" and "1678 \<le> y" and "y \<le> 2261"
  shows "isUTCTimeInFuture suffix0 now (print_utc y mo d h mi s @ f @ ''Z'')
    = (if timegm (tm_of y mo d h mi s) = - 1
       then Inl (runtime_error (''Failed to convert parsed UTC time to time_t ''
         @ ''(invalid input or missing timegm/mkgmtime?) for: '' @ quoted (print_utc y mo d h mi s @ f @ ''Z'')))
       else Inr (now < timegm (tm_of y mo d h mi s) * 1000000000))"
  using isUTCTimeInFuture_print [OF assms(1,2), of suffix0 now] from_time_t_exact [OF assms(1,3,4)]
  by (simp add: Let_def)

theorem isUTCTimeInFuture_correct_witness:
  "isUTCTimeInFuture (CHR ''x'') 0 ''2050-06-30T06:23:14.125Z'' = Inr True"
proof -
  have p: "print_utc 2050 6 30 6 23 14 @ ''.125Z'' = ''2050-06-30T06:23:14.125Z''"
    by (simp add: print_utc_def four_def two_def digit_def cstr_simps)
  have t: "timegm (tm_of 2050 6 30 6 23 14) = 2540182994"
    by (simp add: timegm_tm_of days_before_year_def eval_nat_numeral month_length_def leap_year_def)
  have f: "fields_ok 2050 6 30 6 23 14" "fraction ''.125''"
    by (simp_all add: fields_ok_def fraction_def cstr_simps)
  show ?thesis
    using isUTCTimeInFuture_correct [OF f, of "CHR ''x''" 0] by (simp add: p t)
qed

text \<open>The valid time stamp one second before the epoch makes the function throw, because the
  value -1 that \<open>timegm\<close> rightly returns for it is taken as its error indication.\<close>

theorem second_before_epoch_throws:
  "\<exists>e. isUTCTimeInFuture suffix0 now ''1969-12-31T23:59:59Z'' = Inl (runtime_error e)"
proof -
  have p: "print_utc 1969 12 31 23 59 59 @ ''Z'' = ''1969-12-31T23:59:59Z''"
    by (simp add: print_utc_def four_def two_def digit_def cstr_simps)
  have t: "timegm (tm_of 1969 12 31 23 59 59) = - 1"
    by (simp add: timegm_tm_of days_before_year_def eval_nat_numeral month_length_def leap_year_def)
  have f: "fields_ok 1969 12 31 23 59 59" "fraction []"
    by (simp_all add: fields_ok_def fraction_def)
  show ?thesis
    using isUTCTimeInFuture_print [OF f, of suffix0 now] by (simp add: p t)
qed

text \<open>A date beyond the range of 64-bit nanoseconds is misjudged: the end of the year 9999,
  a usual "never", is reported as not in the future at every time since the epoch.\<close>

theorem end_of_9999_not_future:
  assumes "0 \<le> now"
  shows "isUTCTimeInFuture suffix0 now ''9999-12-31T23:59:59Z'' = Inr False"
proof -
  have p: "print_utc 9999 12 31 23 59 59 @ ''Z'' = ''9999-12-31T23:59:59Z''"
    by (simp add: print_utc_def four_def two_def digit_def cstr_simps)
  have t: "timegm (tm_of 9999 12 31 23 59 59) = 253402300799"
    by (simp add: timegm_tm_of days_before_year_def eval_nat_numeral month_length_def leap_year_def)
  have f: "fields_ok 9999 12 31 23 59 59" "fraction []"
    by (simp_all add: fields_ok_def fraction_def)
  have "from_time_t 253402300799 < 0" by (simp add: from_time_t_def wrap64_def)
  with assms show ?thesis
    using isUTCTimeInFuture_print [OF f, of suffix0 now] by (simp add: p t)
qed

theorem end_of_9999_not_future_witness:
  "isUTCTimeInFuture (CHR ''x'') 1750000000000000000 ''9999-12-31T23:59:59Z'' = Inr False"
  using end_of_9999_not_future [of 1750000000000000000 "CHR ''x''"] by simp

text \<open>Without the final \<open>Z\<close> the function throws, unless the uninitialised variable
  \<open>suffix\<close> happens to hold a \<open>Z\<close>: then the time stamp is accepted as if the \<open>Z\<close> were there.\<close>

theorem missing_Z:
  assumes "fields_ok y mo d h mi s"
  shows "isUTCTimeInFuture suffix0 now (print_utc y mo d h mi s) =
    (if suffix0 \<noteq> CHR ''Z'' then
       Inl (runtime_error (''Timestamp missing required 'Z' (UTC indicator): '' @ quoted (print_utc y mo d h mi s)))
     else if timegm (tm_of y mo d h mi s) = - 1 then
       Inl (runtime_error (''Failed to convert parsed UTC time to time_t ''
         @ ''(invalid input or missing timegm/mkgmtime?) for: '' @ quoted (print_utc y mo d h mi s)))
     else Inr (from_time_t (timegm (tm_of y mo d h mi s)) > now))"
proof -
  have g: "get_time (istringstream (print_utc y mo d h mi s)) tm_zero
      = (tm_of y mo d h mi s, \<lparr>sbuf = [], eofbit = True, failbit = False\<rparr>)"
    using get_time_print [OF assms, of "[]"] by simp
  have k: "skip_fraction \<lparr>sbuf = [], eofbit = True, failbit = False\<rparr>
      = \<lparr>sbuf = [], eofbit = True, failbit = True\<rparr>"
    by (simp add: skip_fraction_def peek_def good_def)
  have c: "get_char \<lparr>sbuf = [], eofbit = True, failbit = True\<rparr>
      = (None, \<lparr>sbuf = [], eofbit = True, failbit = True\<rparr>)"
    by (subst get_char_bad) (simp_all add: good_def)
  have w: "fst (get_word \<lparr>sbuf = [], eofbit = True, failbit = True\<rparr>) = None"
    by (simp add: get_word_None)
  show ?thesis
    unfolding isUTCTimeInFuture_def g by (simp add: k c w timegm_custom_def Let_def)
qed

theorem missing_Z_witness:
  "isUTCTimeInFuture (CHR ''x'') 0 ''2025-12-25T12:00:00'' =
     Inl (runtime_error (''Timestamp missing required 'Z' (UTC indicator): '' @ quoted ''2025-12-25T12:00:00''))"
proof -
  have p: "print_utc 2025 12 25 12 0 0 = ''2025-12-25T12:00:00''"
    by (simp add: print_utc_def four_def two_def digit_def cstr_simps)
  have f: "fields_ok 2025 12 25 12 0 0" by (simp add: fields_ok_def)
  show ?thesis using missing_Z [OF f, of "CHR ''x''" 0] by (simp add: p)
qed

end
