(* ===== verification/Cache_Interface.thy ===== *)
theory Cache_Interface
  imports Cpp_Strings
begin

text \<open>
  The contract of \<open>CacheInterface\<close>, which the service relies on: an abstraction \<open>visible t s\<close>, the
  values that a state \<open>s\<close> would show at time \<open>t\<close> (nanoseconds), with the laws of the five virtual
  methods, and what a client may conclude from them about whole runs: nothing a cache returns is
  stale or made up. A cache may forget entries (eviction), so the law of \<open>set\<close> on other keys is
  an inclusion only. \<open>get\<close> and \<open>exists\<close> take the readings of the clock their bodies take: two each.
\<close>

section \<open>Runs of a client\<close>

datatype cache_op =
    OpSet int string string int    \<comment> \<open>clock reading, key, value, ttl in seconds\<close>
  | OpGet int int string           \<comment> \<open>two clock readings, key\<close>
  | OpRemove string
  | OpClear
  | OpExists int int string

definition second :: int where
  "second = 1000000000"

text \<open>The value a run of operations (last operation first) has stored under a key, with the time
  of the operation and its \<open>ttl\<close> argument.\<close>

fun last_stored :: "cache_op list \<Rightarrow> string \<Rightarrow> (int \<times> string \<times> int) option" where
  "last_stored [] k = None"
| "last_stored (OpSet t k' v ttl # ops) k = (if k' = k then Some (t, v, ttl) else last_stored ops k)"
| "last_stored (OpRemove k' # ops) k = (if k' = k then None else last_stored ops k)"
| "last_stored (OpClear # ops) k = None"
| "last_stored (OpGet _ _ _ # ops) k = last_stored ops k"
| "last_stored (OpExists _ _ _ # ops) k = last_stored ops k"

text \<open>The latest reading of the clock, and that the readings of a run never decrease.\<close>

fun clock_after :: "cache_op list \<Rightarrow> int option" where
  "clock_after [] = None"
| "clock_after (OpSet t _ _ _ # ops) = Some t"
| "clock_after (OpGet _ t _ # ops) = Some t"
| "clock_after (OpExists _ t _ # ops) = Some t"
| "clock_after (OpRemove _ # ops) = clock_after ops"
| "clock_after (OpClear # ops) = clock_after ops"

definition not_before :: "cache_op list \<Rightarrow> int \<Rightarrow> bool" where
  "not_before ops t \<longleftrightarrow> (case clock_after ops of None \<Rightarrow> True | Some u \<Rightarrow> u \<le> t)"

fun steady :: "cache_op list \<Rightarrow> bool" where
  "steady [] = True"
| "steady (OpSet t _ _ _ # ops) = (not_before ops t \<and> steady ops)"
| "steady (OpGet t u _ # ops) = (not_before ops t \<and> t \<le> u \<and> steady ops)"
| "steady (OpExists t u _ # ops) = (not_before ops t \<and> t \<le> u \<and> steady ops)"
| "steady (_ # ops) = steady ops"

text \<open>The seconds an entry lives: the argument of \<open>set\<close>, or the default when it is not positive.\<close>

definition effective_ttl :: "int \<Rightarrow> int \<Rightarrow> int" where
  "effective_ttl dflt ttl = (if ttl > 0 then ttl else dflt)"

text \<open>The state after a run, the last operation first.\<close>

fun run_ops :: "('o \<Rightarrow> 's \<Rightarrow> 's) \<Rightarrow> 'o list \<Rightarrow> 's \<Rightarrow> 's" where
  "run_ops step [] s = s"
| "run_ops step (x # ops) s = step x (run_ops step ops s)"

lemma not_before_simps [simp]:
  "not_before [] t"
  "not_before (OpSet u k v ttl # ops) t \<longleftrightarrow> u \<le> t"
  "not_before (OpGet u1 u k # ops) t \<longleftrightarrow> u \<le> t"
  "not_before (OpExists u1 u k # ops) t \<longleftrightarrow> u \<le> t"
  "not_before (OpRemove k # ops) t \<longleftrightarrow> not_before ops t"
  "not_before (OpClear # ops) t \<longleftrightarrow> not_before ops t"
  by (simp_all add: not_before_def)

lemma not_before_trans: "not_before ops t \<Longrightarrow> t \<le> u \<Longrightarrow> not_before ops u"
  by (auto simp: not_before_def split: option.splits)

section \<open>The contract\<close>

locale cache_store =
  fixes inv :: "'s \<Rightarrow> bool"
    and visible :: "int \<Rightarrow> 's \<Rightarrow> string \<Rightarrow> string option"
    and life :: "'s \<Rightarrow> int \<Rightarrow> int"
    and set_op :: "int \<Rightarrow> string \<Rightarrow> string \<Rightarrow> int \<Rightarrow> 's \<Rightarrow> bool \<times> 's"
    and get_op :: "int \<Rightarrow> int \<Rightarrow> string \<Rightarrow> 's \<Rightarrow> string option \<times> 's"
    and remove_op :: "string \<Rightarrow> 's \<Rightarrow> bool \<times> 's"
    and clear_op :: "'s \<Rightarrow> bool \<times> 's"
    and exists_op :: "int \<Rightarrow> int \<Rightarrow> string \<Rightarrow> 's \<Rightarrow> bool \<times> 's"
    and step :: "cache_op \<Rightarrow> 's \<Rightarrow> 's"
  assumes set_inv: "inv s \<Longrightarrow> inv (snd (set_op t k v ttl s))"
    and get_inv: "inv s \<Longrightarrow> inv (snd (get_op t1 t2 k s))"
    and remove_inv: "inv s \<Longrightarrow> inv (snd (remove_op k s))"
    and clear_inv: "inv s \<Longrightarrow> inv (snd (clear_op s))"
    and exists_inv: "inv s \<Longrightarrow> inv (snd (exists_op t1 t2 k s))"
    and set_life: "inv s \<Longrightarrow> life (snd (set_op t k v ttl s)) = life s"
    and get_life: "inv s \<Longrightarrow> life (snd (get_op t1 t2 k s)) = life s"
    and remove_life: "inv s \<Longrightarrow> life (snd (remove_op k s)) = life s"
    and clear_life: "inv s \<Longrightarrow> life (snd (clear_op s)) = life s"
    and exists_life: "inv s \<Longrightarrow> life (snd (exists_op t1 t2 k s)) = life s"
    and set_same: "inv s \<Longrightarrow> t \<le> u \<Longrightarrow>
      visible u (snd (set_op t k v ttl s)) k = (if u < t + second * life s ttl then Some v else None)"
    and set_other: "inv s \<Longrightarrow> k' \<noteq> k \<Longrightarrow> visible u (snd (set_op t k v ttl s)) k' = Some w \<Longrightarrow>
      visible u s k' = Some w"
    and get_result: "inv s \<Longrightarrow> t1 \<le> t2 \<Longrightarrow> fst (get_op t1 t2 k s) = visible t2 s k"
    and get_visible: "inv s \<Longrightarrow> t1 \<le> t2 \<Longrightarrow> t2 \<le> u \<Longrightarrow>
      visible u (snd (get_op t1 t2 k s)) k' = visible u s k'"
    and remove_visible: "inv s \<Longrightarrow>
      visible u (snd (remove_op k s)) k' = (if k' = k then None else visible u s k')"
    and clear_visible: "inv s \<Longrightarrow> visible u (snd (clear_op s)) k = None"
    and exists_result: "inv s \<Longrightarrow> t1 \<le> t2 \<Longrightarrow>
      fst (exists_op t1 t2 k s) = (visible t2 s k \<noteq> None)"
    and exists_visible: "inv s \<Longrightarrow> t1 \<le> t2 \<Longrightarrow> t2 \<le> u \<Longrightarrow>
      visible u (snd (exists_op t1 t2 k s)) k' = visible u s k'"
    and step_set [simp]: "step (OpSet t k v ttl) s = snd (set_op t k v ttl s)"
    and step_get [simp]: "step (OpGet t u k) s = snd (get_op t u k s)"
    and step_remove [simp]: "step (OpRemove k) s = snd (remove_op k s)"
    and step_clear [simp]: "step OpClear s = snd (clear_op s)"
    and step_exists [simp]: "step (OpExists t u k) s = snd (exists_op t u k s)"
begin

lemma run_inv: "inv s \<Longrightarrow> inv (run_ops step ops s)"
proof (induction ops)
  case (Cons x ops)
  then show ?case
    by (cases x) (simp_all add: set_inv get_inv remove_inv clear_inv exists_inv)
qed simp

lemma run_life: "inv s \<Longrightarrow> life (run_ops step ops s) = life s"
proof (induction ops)
  case (Cons x ops)
  then show ?case
    by (cases x) (simp_all add: set_life get_life remove_life clear_life exists_life run_inv)
qed simp

text \<open>What is visible after a run that started with nothing visible was stored by the last
  operation of the run on its key, and its time has not run out.\<close>

lemma run_visible:
  assumes "inv s" and "\<And>u k. visible u s k = None" and "steady ops" and "not_before ops u"
    and "visible u (run_ops step ops s) k = Some v"
  shows "\<exists>t ttl. last_stored ops k = Some (t, v, ttl) \<and> t \<le> u \<and> u < t + second * life s ttl"
  using assms(3-5)
proof (induction ops)
  case Nil
  then show ?case using assms(2) by simp
next
  case (Cons x ops)
  note inv = run_inv [OF assms(1), of ops]
  show ?case
  proof (cases x)
    case (OpSet t k' v' ttl)
    with Cons.prems have c: "not_before ops t" "steady ops" "t \<le> u" by auto
    show ?thesis
    proof (cases "k' = k")
      case True
      then show ?thesis
        using Cons.prems(3) OpSet c(3) set_same [OF inv, of t u k v' ttl]
        by (auto simp: run_life assms(1) split: if_splits)
    next
      case False
      then have "visible u (run_ops step ops s) k = Some v"
        using Cons.prems(3) OpSet set_other [OF inv] by (metis run_ops.simps(2) step_set)
      then show ?thesis using Cons.IH c not_before_trans [OF c(1) c(3)] False OpSet by simp
    qed
  next
    case (OpGet t t' k')
    with Cons.prems have c: "not_before ops t" "t \<le> t'" "steady ops" "t' \<le> u" by auto
    then have "visible u (run_ops step ops s) k = Some v"
      using Cons.prems(3) OpGet get_visible [OF inv] by simp
    then show ?thesis using Cons.IH c not_before_trans [OF c(1), of u] OpGet by simp
  next
    case (OpExists t t' k')
    with Cons.prems have c: "not_before ops t" "t \<le> t'" "steady ops" "t' \<le> u" by auto
    then have "visible u (run_ops step ops s) k = Some v"
      using Cons.prems(3) OpExists exists_visible [OF inv] by simp
    then show ?thesis using Cons.IH c not_before_trans [OF c(1), of u] OpExists by simp
  next
    case (OpRemove k')
    then show ?thesis using Cons remove_visible [OF inv] by (auto split: if_splits)
  next
    case OpClear
    then show ?thesis using Cons.prems(3) clear_visible [OF inv] by simp
  qed
qed

text \<open>So whatever \<open>get\<close> returns at the end of a run is the last value stored under the key.\<close>

lemma get_after_run:
  assumes "inv s" and "\<And>u k. visible u s k = None" and "steady (OpGet t u k # ops)"
    and "fst (get_op t u k (run_ops step ops s)) = Some v"
  shows "\<exists>t0 ttl. last_stored ops k = Some (t0, v, ttl) \<and> t0 \<le> u \<and> u < t0 + second * life s ttl"
  using assms run_visible [OF assms(1,2), of ops u k v] run_inv [OF assms(1), of ops]
  by (auto simp: get_result intro: not_before_trans)

text \<open>A value just stored is returned until its time runs out.\<close>

lemma get_after_set:
  assumes "inv s" and "t \<le> t1" and "t1 \<le> t2" and "t2 < t + second * life s ttl"
  shows "fst (get_op t1 t2 k (snd (set_op t k v ttl s))) = Some v"
  using assms by (simp add: get_result set_inv set_same)

text \<open>\<open>exists\<close> tells whether \<open>get\<close> would return a value.\<close>

lemma exists_iff_get:
  assumes "inv s" and "t1 \<le> t2"
  shows "fst (exists_op t1 t2 k s) \<longleftrightarrow> fst (get_op t1 t2 k s) \<noteq> None"
  using assms by (simp add: exists_result get_result)

end

end
