(* ===== verification/InMemory_Cache.thy ===== *)
theory InMemory_Cache
  imports Cache_Interface
begin

text \<open>
  \<open>InMemoryCache\<close> (src/cache/InMemoryCache.hpp and .cpp): an expiring LRU cache of two hash maps
  and a list. A list node is a pair of its address and its key, so the iterators in \<open>lru_map\<close>
  are addresses: an erase or a splice through an iterator acts on the node with that address. The
  members drop the final underscore of the source (\<open>cache_\<close> is \<open>cache_map\<close>). The clock readings of an operation are its arguments, in nanoseconds; each operation runs under the
  cache's mutex and so is one step. Expiry times are unbounded integers: a \<open>ttl\<close> of at most
  \<open>2 ^ 31\<close> seconds reaches the end of 64 bits only on a host that has been up for over 200 years.

  Shown: iterators never dangle and the three containers agree; the operations refine a list of
  entries in order of use; the size bound; which entry is evicted; and the cache contract.
\<close>

section \<open>State\<close>

record CacheEntry =
  entry_value :: string
  expiry :: int

record InMemoryCache =
  cache_map :: "(string, CacheEntry) umap"
  lru_list :: "(nat \<times> string) list"
  lru_map :: "(string, nat) umap"
  next_node :: nat
  default_ttl_seconds :: int
  max_size :: nat

definition new_cache :: "int \<Rightarrow> nat \<Rightarrow> InMemoryCache" where
  "new_cache ttl n =
     \<lparr>cache_map = [], lru_list = [], lru_map = [], next_node = 0,
      default_ttl_seconds = ttl, max_size = n\<rparr>"

section \<open>List nodes\<close>

definition list_erase :: "nat \<Rightarrow> (nat \<times> string) list \<Rightarrow> (nat \<times> string) list" where
  "list_erase it l = filter (\<lambda>n. fst n \<noteq> it) l"

definition list_splice_front :: "nat \<Rightarrow> (nat \<times> string) list \<Rightarrow> (nat \<times> string) list" where
  "list_splice_front it l = filter (\<lambda>n. fst n = it) l @ filter (\<lambda>n. fst n \<noteq> it) l"

definition push_front :: "string \<Rightarrow> InMemoryCache \<Rightarrow> InMemoryCache" where
  "push_front key c = c\<lparr>lru_list := (next_node c, key) # lru_list c, next_node := Suc (next_node c)\<rparr>"

section \<open>Operations\<close>

text \<open>The loop of \<open>evictIfNeeded\<close>.\<close>

definition evict_oldest :: "InMemoryCache \<Rightarrow> InMemoryCache" where
  "evict_oldest c =
     (let oldest_key = snd (last (lru_list c))
      in c\<lparr>lru_list := butlast (lru_list c),
           lru_map := umap_erase oldest_key (lru_map c),
           cache_map := umap_erase oldest_key (cache_map c)\<rparr>)"

function evictIfNeeded :: "InMemoryCache \<Rightarrow> InMemoryCache" where
  "evictIfNeeded c =
     (if max_size c \<le> umap_size (lru_map c) \<and> lru_list c \<noteq> []
      then evictIfNeeded (evict_oldest c) else c)"
  by auto

termination evictIfNeeded
  by (relation "measure (\<lambda>c. length (lru_list c))") (auto simp: evict_oldest_def Let_def)

declare evictIfNeeded.simps [simp del]

text \<open>The loop of \<open>removeExpired\<close> over the entries of \<open>cache_map\<close>, with the one reading \<open>now\<close>.\<close>

definition drop_expired :: "string \<Rightarrow> InMemoryCache \<Rightarrow> InMemoryCache" where
  "drop_expired key c =
     (let c = (case umap_find (lru_map c) key of
          Some it \<Rightarrow> c\<lparr>lru_list := list_erase it (lru_list c), lru_map := umap_erase key (lru_map c)\<rparr>
        | None \<Rightarrow> c)
      in c\<lparr>cache_map := umap_erase key (cache_map c)\<rparr>)"

fun removeExpired_loop :: "int \<Rightarrow> (string \<times> CacheEntry) list \<Rightarrow> InMemoryCache \<Rightarrow> InMemoryCache" where
  "removeExpired_loop now [] c = c"
| "removeExpired_loop now ((key, e) # es) c =
     removeExpired_loop now es (if expiry e \<le> now then drop_expired key c else c)"

definition removeExpired :: "int \<Rightarrow> InMemoryCache \<Rightarrow> InMemoryCache" where
  "removeExpired now c = removeExpired_loop now (cache_map c) c"

definition mem_set :: "int \<Rightarrow> string \<Rightarrow> string \<Rightarrow> int \<Rightarrow> InMemoryCache \<Rightarrow> bool \<times> InMemoryCache" where
  "mem_set now key v ttl c =
     (let ttl_seconds = (if ttl > 0 then ttl else default_ttl_seconds c);
          entry = \<lparr>entry_value = v, expiry = now + ttl_seconds * second\<rparr>;
          c = (case umap_find (lru_map c) key of
                 Some it \<Rightarrow> c\<lparr>lru_list := list_erase it (lru_list c)\<rparr>
               | None \<Rightarrow> evictIfNeeded c);
          c = c\<lparr>cache_map := umap_put key entry (cache_map c)\<rparr>;
          c = push_front key c
      in (True, c\<lparr>lru_map := umap_put key (fst (hd (lru_list c))) (lru_map c)\<rparr>))"

definition mem_get :: "int \<Rightarrow> int \<Rightarrow> string \<Rightarrow> InMemoryCache \<Rightarrow> string option \<times> InMemoryCache" where
  "mem_get now1 now2 key c =
     (let c = removeExpired now1 c
      in case umap_find (lru_map c) key of
           None \<Rightarrow> (None, c)
         | Some it \<Rightarrow>
             (case umap_find (cache_map c) key of
                Some e \<Rightarrow>
                  if expiry e > now2
                  then (Some (entry_value e), c\<lparr>lru_list := list_splice_front it (lru_list c)\<rparr>)
                  else (None, c\<lparr>cache_map := umap_erase key (cache_map c),
                                lru_list := list_erase it (lru_list c),
                                lru_map := umap_erase key (lru_map c)\<rparr>)
              | None \<Rightarrow> (None, c\<lparr>lru_list := list_erase it (lru_list c),
                                 lru_map := umap_erase key (lru_map c)\<rparr>)))"

definition mem_remove :: "string \<Rightarrow> InMemoryCache \<Rightarrow> bool \<times> InMemoryCache" where
  "mem_remove key c =
     (let (removed, c) = (case umap_find (lru_map c) key of
            Some it \<Rightarrow> (True, c\<lparr>lru_list := list_erase it (lru_list c),
                                lru_map := umap_erase key (lru_map c)\<rparr>)
          | None \<Rightarrow> (False, c))
      in case umap_find (cache_map c) key of
           Some e \<Rightarrow> (True, c\<lparr>cache_map := umap_erase key (cache_map c)\<rparr>)
         | None \<Rightarrow> (removed, c))"

definition mem_clear :: "InMemoryCache \<Rightarrow> bool \<times> InMemoryCache" where
  "mem_clear c = (True, c\<lparr>cache_map := [], lru_list := [], lru_map := []\<rparr>)"

definition mem_exists :: "int \<Rightarrow> int \<Rightarrow> string \<Rightarrow> InMemoryCache \<Rightarrow> bool \<times> InMemoryCache" where
  "mem_exists now1 now2 key c =
     (let c = removeExpired now1 c
      in (case umap_find (cache_map c) key of Some e \<Rightarrow> expiry e > now2 | None \<Rightarrow> False, c))"

text \<open>One operation of a client.\<close>

fun mem_step :: "cache_op \<Rightarrow> InMemoryCache \<Rightarrow> InMemoryCache" where
  "mem_step (OpSet t k v ttl) c = snd (mem_set t k v ttl c)"
| "mem_step (OpGet t u k) c = snd (mem_get t u k c)"
| "mem_step (OpRemove k) c = snd (mem_remove k c)"
| "mem_step OpClear c = snd (mem_clear c)"
| "mem_step (OpExists t u k) c = snd (mem_exists t u k c)"

section \<open>Invariant and abstraction\<close>

text \<open>
  The containers agree: the list has one node for each cached key, the iterator stored for a key
  is the address of its node (so it never dangles), addresses are not reused.
\<close>

definition cache_inv :: "InMemoryCache \<Rightarrow> bool" where
  "cache_inv c \<longleftrightarrow>
     umap_ok (cache_map c) \<and> umap_ok (lru_map c)
     \<and> distinct (map fst (lru_list c)) \<and> distinct (map snd (lru_list c))
     \<and> (\<forall>n \<in> set (lru_list c). fst n < next_node c)
     \<and> umap_keys (cache_map c) = snd ` set (lru_list c)
     \<and> (\<forall>k it. umap_find (lru_map c) k = Some it \<longleftrightarrow> (it, k) \<in> set (lru_list c))"

text \<open>The entries in order of use, most recently used first.\<close>

definition entries :: "InMemoryCache \<Rightarrow> (string \<times> CacheEntry) list" where
  "entries c = map (\<lambda>n. (snd n, the (umap_find (cache_map c) (snd n)))) (lru_list c)"

section \<open>Specification: a list of entries in order of use\<close>

definition lru_drop :: "string \<Rightarrow> (string \<times> 'e) list \<Rightarrow> (string \<times> 'e) list" where
  "lru_drop key l = filter (\<lambda>p. fst p \<noteq> key) l"

definition lru_purge :: "int \<Rightarrow> (string \<times> CacheEntry) list \<Rightarrow> (string \<times> CacheEntry) list" where
  "lru_purge now l = filter (\<lambda>p. now < expiry (snd p)) l"

definition lru_set :: "nat \<Rightarrow> string \<Rightarrow> CacheEntry \<Rightarrow> (string \<times> CacheEntry) list \<Rightarrow> (string \<times> CacheEntry) list" where
  "lru_set n key e l =
     (key, e) # (if key \<in> fst ` set l then lru_drop key l else take (n - 1) l)"

definition lru_get :: "int \<Rightarrow> string \<Rightarrow> (string \<times> CacheEntry) list \<Rightarrow> string option \<times> (string \<times> CacheEntry) list" where
  "lru_get now key l =
     (case map_of l key of
        None \<Rightarrow> (None, l)
      | Some e \<Rightarrow> if now < expiry e then (Some (entry_value e), (key, e) # lru_drop key l)
                 else (None, lru_drop key l))"

section \<open>One key removed from all three containers\<close>

text \<open>Every removal of the code, however it is written, has this effect on a consistent cache.\<close>

definition forget :: "string \<Rightarrow> InMemoryCache \<Rightarrow> InMemoryCache" where
  "forget key c = c\<lparr>lru_list := filter (\<lambda>n. snd n \<noteq> key) (lru_list c),
                    lru_map := umap_erase key (lru_map c),
                    cache_map := umap_erase key (cache_map c)\<rparr>"

lemma node_unique:
  assumes "distinct (map fst l)" and "distinct (map snd l)" and "(it, k) \<in> set l" and "n \<in> set l"
  shows "fst n = it \<longleftrightarrow> snd n = k"
proof
  assume "fst n = it"
  then have "n = (it, k)" using assms(1,3,4) by (metis distinct_map inj_onD fst_conv)
  then show "snd n = k" by simp
next
  assume "snd n = k"
  then have "n = (it, k)" using assms(2,3,4) by (metis distinct_map inj_onD snd_conv)
  then show "fst n = it" by simp
qed

lemma list_erase_node:
  assumes "distinct (map fst l)" and "distinct (map snd l)" and "(it, k) \<in> set l"
  shows "list_erase it l = filter (\<lambda>n. snd n \<noteq> k) l"
  unfolding list_erase_def using node_unique [OF assms] by (intro filter_cong) auto

lemma filter_node:
  assumes "distinct (map fst l)" and "(it, k) \<in> set l"
  shows "filter (\<lambda>n. fst n = it) l = [(it, k)]"
  using assms
proof (induction l)
  case (Cons n l)
  show ?case
  proof (cases "n = (it, k)")
    case True
    then have "it \<notin> fst ` set l" using Cons.prems(1) by auto
    then have "filter (\<lambda>n. fst n = it) l = []" by (auto simp: filter_empty_conv)
    then show ?thesis using True by simp
  next
    case False
    then have "(it, k) \<in> set l" using Cons.prems(2) by simp
    moreover have "fst n \<noteq> it" using Cons.prems(1) calculation by (auto simp: rev_image_eqI)
    ultimately show ?thesis using Cons by simp
  qed
qed simp

lemma cache_inv_lists:
  assumes "cache_inv c"
  shows "distinct (map fst (lru_list c))" and "distinct (map snd (lru_list c))"
    and "umap_find (lru_map c) k = Some it \<Longrightarrow> (it, k) \<in> set (lru_list c)"
    and "(it, k) \<in> set (lru_list c) \<Longrightarrow> umap_find (lru_map c) k = Some it"
    and "umap_keys (cache_map c) = snd ` set (lru_list c)"
    and "umap_find (lru_map c) k = None \<longleftrightarrow> k \<notin> snd ` set (lru_list c)"
    and "umap_ok (cache_map c)" and "umap_ok (lru_map c)"
proof -
  note inv = assms [unfolded cache_inv_def]
  show "distinct (map fst (lru_list c))" "distinct (map snd (lru_list c))"
    "umap_keys (cache_map c) = snd ` set (lru_list c)" "umap_ok (cache_map c)" "umap_ok (lru_map c)"
    using inv by simp_all
  have it: "\<And>k it. umap_find (lru_map c) k = Some it \<longleftrightarrow> (it, k) \<in> set (lru_list c)"
    using inv by simp
  then show "umap_find (lru_map c) k = Some it \<Longrightarrow> (it, k) \<in> set (lru_list c)"
    "(it, k) \<in> set (lru_list c) \<Longrightarrow> umap_find (lru_map c) k = Some it" by simp_all
  show "umap_find (lru_map c) k = None \<longleftrightarrow> k \<notin> snd ` set (lru_list c)"
  proof
    assume "umap_find (lru_map c) k = None"
    then show "k \<notin> snd ` set (lru_list c)" using it by force
  next
    assume "k \<notin> snd ` set (lru_list c)"
    then show "umap_find (lru_map c) k = None" using it by (cases "umap_find (lru_map c) k") force+
  qed
qed

lemma cache_find_None:
  "cache_inv c \<Longrightarrow> umap_find (cache_map c) k = None \<longleftrightarrow> umap_find (lru_map c) k = None"
  using umap_keys_dom [of k "cache_map c"] by (auto simp: cache_inv_lists(5,6))

lemma lru_map_erase_node:
  assumes "cache_inv c" and "umap_find (lru_map c) k = Some it"
  shows "list_erase it (lru_list c) = filter (\<lambda>n. snd n \<noteq> k) (lru_list c)"
    and "list_splice_front it (lru_list c) = (it, k) # filter (\<lambda>n. snd n \<noteq> k) (lru_list c)"
proof -
  note l = cache_inv_lists(1,2,3) [OF assms(1)]
  show e: "list_erase it (lru_list c) = filter (\<lambda>n. snd n \<noteq> k) (lru_list c)"
    by (rule list_erase_node [OF l(1,2) l(3) [OF assms(2)]])
  show "list_splice_front it (lru_list c) = (it, k) # filter (\<lambda>n. snd n \<noteq> k) (lru_list c)"
    using e filter_node [OF l(1) l(3) [OF assms(2)]] by (simp add: list_splice_front_def list_erase_def)
qed

lemma forget_absent: "cache_inv c \<Longrightarrow> umap_find (lru_map c) k = None \<Longrightarrow> forget k c = c"
  using filter_key_notin [of k snd "lru_list c"]
  by (simp add: forget_def umap_erase_absent cache_find_None cache_inv_lists(6))

lemma forget_inv [inv_intros]: "cache_inv c \<Longrightarrow> cache_inv (forget k c)"
  by (auto simp: cache_inv_def forget_def distinct_map_filter)

lemma entries_forget: "entries (forget k c) = lru_drop k (entries c)"
  by (simp add: entries_def forget_def lru_drop_def filter_map o_def cong: map_cong)

lemma forget_fields [simp]:
  "max_size (forget k c) = max_size c" "default_ttl_seconds (forget k c) = default_ttl_seconds c"
  by (simp_all add: forget_def)

lemma drop_expired_forget:
  assumes "cache_inv c"
  shows "drop_expired k c = forget k c"
proof (cases "umap_find (lru_map c) k")
  case None
  then show ?thesis
    using assms forget_absent [OF assms None]
    by (simp add: drop_expired_def umap_erase_absent cache_find_None)
next
  case (Some it)
  then show ?thesis
    using assms by (simp add: drop_expired_def lru_map_erase_node forget_def)
qed

lemma mem_remove_forget:
  assumes "cache_inv c"
  shows "mem_remove k c = (umap_find (lru_map c) k \<noteq> None, forget k c)"
proof (cases "umap_find (lru_map c) k")
  case None
  then show ?thesis
    using assms forget_absent [OF assms None] cache_find_None [OF assms, of k]
    by (simp add: mem_remove_def)
next
  case (Some it)
  moreover obtain e where "umap_find (cache_map c) k = Some e"
    using Some cache_find_None [OF assms, of k] by auto
  ultimately show ?thesis
    using assms by (simp add: mem_remove_def lru_map_erase_node forget_def)
qed

lemma evict_oldest_forget:
  assumes "cache_inv c" and "lru_list c \<noteq> []"
  shows "evict_oldest c = forget (snd (last (lru_list c))) c"
proof -
  have "filter (\<lambda>n. snd n \<noteq> snd (last (lru_list c))) (lru_list c) = butlast (lru_list c)"
    using assms(2) cache_inv_lists(2) [OF assms(1)] by (rule filter_last_key)
  then show ?thesis by (simp add: evict_oldest_def forget_def Let_def)
qed

section \<open>The operations refine the specification\<close>

lemma entries_keys: "map fst (entries c) = map snd (lru_list c)"
  by (simp add: entries_def o_def)

lemma entries_key_set: "fst ` set (entries c) = snd ` set (lru_list c)"
  by (metis entries_keys list.set_map)

lemma length_entries [simp]: "length (entries c) = length (lru_list c)"
  by (simp add: entries_def)

lemma entries_distinct: "cache_inv c \<Longrightarrow> distinct (map fst (entries c))"
  by (simp add: entries_keys cache_inv_lists)

lemma entries_find:
  assumes "cache_inv c"
  shows "map_of (entries c) k = umap_find (cache_map c) k"
proof (cases "k \<in> snd ` set (lru_list c)")
  case True
  then obtain e where e: "umap_find (cache_map c) k = Some e"
    using umap_keys_dom [of k "cache_map c"] cache_inv_lists(5) [OF assms] by auto
  with True have "(k, e) \<in> set (entries c)" by (force simp: entries_def)
  with e show ?thesis using entries_distinct [OF assms] by simp
next
  case False
  then have "map_of (entries c) k = None" by (simp add: map_of_eq_None_iff entries_key_set)
  then show ?thesis
    using False umap_keys_dom [of k "cache_map c"] cache_inv_lists(5) [OF assms] by auto
qed

lemma lru_map_find_None:
  "cache_inv c \<Longrightarrow> umap_find (lru_map c) k = None \<longleftrightarrow> k \<notin> fst ` set (entries c)"
  by (simp add: cache_inv_lists(6) entries_key_set)

lemma lru_map_size:
  assumes "cache_inv c"
  shows "umap_size (lru_map c) = length (lru_list c)"
proof -
  have "umap_keys (lru_map c) = snd ` set (lru_list c)"
    using umap_keys_dom [of _ "lru_map c"] cache_inv_lists(6) [OF assms] by blast
  then show ?thesis
    using cache_inv_lists(2,8) [OF assms] by (metis umap_size_keys distinct_card length_map set_map)
qed

lemma lru_drop_last: "l \<noteq> [] \<Longrightarrow> distinct (map fst l) \<Longrightarrow> lru_drop (fst (last l)) l = butlast l"
  unfolding lru_drop_def by (rule filter_last_key)

lemma evictIfNeeded_refines [inv_intros]:
  assumes "cache_inv c"
  shows "cache_inv (evictIfNeeded c)" and "entries (evictIfNeeded c) = take (max_size c - 1) (entries c)"
    and "max_size (evictIfNeeded c) = max_size c"
    and "default_ttl_seconds (evictIfNeeded c) = default_ttl_seconds c"
  using assms
proof (induction c rule: evictIfNeeded.induct)
  case (1 c)
  let ?go = "max_size c \<le> umap_size (lru_map c) \<and> lru_list c \<noteq> []"
  {
    case 1
    then show ?case using "1.IH"(1) by (subst evictIfNeeded.simps) (simp add: evict_oldest_forget forget_inv)
  next
    case 2
    show ?case
    proof (cases ?go)
      case True
      have ne: "entries c \<noteq> []" using True by (simp add: entries_def)
      have last: "snd (last (lru_list c)) = fst (last (entries c))"
        using True by (simp add: entries_def last_map)
      have "entries (forget (snd (last (lru_list c))) c) = butlast (entries c)"
        using lru_drop_last [OF ne entries_distinct [OF 2]] by (simp add: entries_forget last)
      moreover have "max_size c - 1 < length (entries c)"
        using True lru_map_size [OF 2] by (cases "lru_list c") auto
      ultimately show ?thesis
        using True 2 "1.IH"(2) take_butlast [of "max_size c - 1" "entries c"]
        by (subst evictIfNeeded.simps) (simp add: evict_oldest_forget forget_inv)
    next
      case False
      then show ?thesis
        using lru_map_size [OF 2] by (subst evictIfNeeded.simps) (auto simp: entries_def)
    qed
  next
    case 3
    then show ?case using "1.IH"(3) by (subst evictIfNeeded.simps) (simp add: evict_oldest_forget forget_inv)
  next
    case 4
    then show ?case using "1.IH"(4) by (subst evictIfNeeded.simps) (simp add: evict_oldest_forget forget_inv)
  }
qed

lemma removeExpired_loop_refines:
  assumes "cache_inv c"
  shows "cache_inv (removeExpired_loop now es c)
    \<and> entries (removeExpired_loop now es c)
        = filter (\<lambda>p. \<forall>e. (fst p, e) \<in> set es \<longrightarrow> now < expiry e) (entries c)
    \<and> max_size (removeExpired_loop now es c) = max_size c
    \<and> default_ttl_seconds (removeExpired_loop now es c) = default_ttl_seconds c"
  using assms
proof (induction now es c rule: removeExpired_loop.induct)
  case (2 now key e es c)
  then show ?case
    by (auto simp: drop_expired_forget forget_inv entries_forget lru_drop_def intro!: filter_cong)
qed simp

lemma removeExpired_refines [inv_intros]:
  assumes "cache_inv c"
  shows "cache_inv (removeExpired now c)" and "entries (removeExpired now c) = lru_purge now (entries c)"
    and "max_size (removeExpired now c) = max_size c"
    and "default_ttl_seconds (removeExpired now c) = default_ttl_seconds c"
proof -
  have "(\<forall>e. (fst p, e) \<in> set (cache_map c) \<longrightarrow> now < expiry e) \<longleftrightarrow> now < expiry (snd p)"
    if "p \<in> set (entries c)" for p
  proof -
    have "umap_find (cache_map c) (fst p) = Some (snd p)"
      using that entries_find [OF assms, of "fst p"] entries_distinct [OF assms]
      by (metis map_of_eq_Some_iff prod.collapse)
    moreover have "e = snd p" if "(fst p, e) \<in> set (cache_map c)" for e
      using that calculation cache_inv_lists(7) [OF assms]
      by (metis map_of_is_SomeI option.inject umap_find_def umap_ok_def)
    ultimately show ?thesis
      by (metis map_of_SomeD umap_find_def)
  qed
  then have "filter (\<lambda>p. \<forall>e. (fst p, e) \<in> set (cache_map c) \<longrightarrow> now < expiry e) (entries c)
      = lru_purge now (entries c)"
    unfolding lru_purge_def by (intro filter_cong) auto
  then show "cache_inv (removeExpired now c)" "entries (removeExpired now c) = lru_purge now (entries c)"
    "max_size (removeExpired now c) = max_size c"
    "default_ttl_seconds (removeExpired now c) = default_ttl_seconds c"
    using removeExpired_loop_refines [OF assms, of now "cache_map c"] by (simp_all add: removeExpired_def)
qed

text \<open>A new node at the front, recorded in both maps.\<close>

lemma insert_front:
  assumes "cache_inv c" and "k \<notin> snd ` set (lru_list c)"
    and "lru_list r = (next_node c, k) # lru_list c" and "next_node r = Suc (next_node c)"
    and "umap_ok (cache_map r)" and "umap_ok (lru_map r)"
    and "\<And>k'. umap_find (lru_map r) k' = (if k' = k then Some (next_node c) else umap_find (lru_map c) k')"
    and "\<And>k'. umap_find (cache_map r) k' = (if k' = k then Some e else umap_find (cache_map c) k')"
  shows "cache_inv r" and "entries r = (k, e) # entries c"
proof -
  have keys: "umap_keys (cache_map r) = insert k (umap_keys (cache_map c))"
    using assms(8) by (auto simp: umap_keys_dom split: if_splits)
  have new: "\<And>it. (it, k) \<notin> set (lru_list c)" using assms(2) by force
  show "cache_inv r"
    using assms(1-7) keys new by (auto simp: cache_inv_def)
  show "entries r = (k, e) # entries c"
    using assms(2,3,8) by (auto simp: entries_def)
qed

definition entry_at :: "int \<Rightarrow> string \<Rightarrow> int \<Rightarrow> InMemoryCache \<Rightarrow> CacheEntry" where
  "entry_at now v ttl c =
     \<lparr>entry_value = v, expiry = now + second * effective_ttl (default_ttl_seconds c) ttl\<rparr>"

lemma mem_set_refines [inv_intros]:
  assumes "cache_inv c"
  shows "cache_inv (snd (mem_set now k v ttl c))"
    and "entries (snd (mem_set now k v ttl c)) = lru_set (max_size c) k (entry_at now v ttl c) (entries c)"
proof -
  have "cache_inv (snd (mem_set now k v ttl c))
    \<and> entries (snd (mem_set now k v ttl c)) = lru_set (max_size c) k (entry_at now v ttl c) (entries c)"
  proof (cases "umap_find (lru_map c) k")
    case None
    let ?c = "evictIfNeeded c"
    have inv: "cache_inv ?c" using assms by (rule evictIfNeeded_refines)
    have "fst ` set (entries ?c) \<subseteq> fst ` set (entries c)"
      using set_take_subset by (fastforce simp: evictIfNeeded_refines [OF assms])
    then have new: "k \<notin> snd ` set (lru_list ?c)"
      using None lru_map_find_None [OF assms] by (auto simp: entries_key_set)
    show ?thesis
      using insert_front [OF inv new, of "snd (mem_set now k v ttl c)" "entry_at now v ttl c"]
        None inv lru_map_find_None [OF assms, of k]
      by (simp add: mem_set_def Let_def push_front_def entry_at_def effective_ttl_def lru_set_def
          cache_inv_lists evictIfNeeded_refines [OF assms] mult.commute)
  next
    case (Some it)
    have new: "k \<notin> snd ` set (lru_list (forget k c))" by (auto simp: forget_def)
    show ?thesis
      using insert_front [OF forget_inv [OF assms] new, of "snd (mem_set now k v ttl c)" "entry_at now v ttl c"]
        Some assms lru_map_find_None [OF assms, of k]
      by (simp add: mem_set_def Let_def push_front_def entry_at_def effective_ttl_def lru_set_def
          lru_map_erase_node forget_def entries_forget [unfolded forget_def] cache_inv_lists(7,8) mult.commute)
  qed
  then show "cache_inv (snd (mem_set now k v ttl c))"
    "entries (snd (mem_set now k v ttl c)) = lru_set (max_size c) k (entry_at now v ttl c) (entries c)"
    by simp_all
qed

lemma mem_set_fields:
  assumes "cache_inv c"
  shows "max_size (snd (mem_set now k v ttl c)) = max_size c"
    and "default_ttl_seconds (snd (mem_set now k v ttl c)) = default_ttl_seconds c"
    and "fst (mem_set now k v ttl c)"
  using evictIfNeeded_refines(3,4) [OF assms]
  by (simp_all add: mem_set_def Let_def push_front_def split: option.splits)

lemma cache_inv_splice:
  assumes "cache_inv c" and "umap_find (lru_map c) k = Some it"
  shows "cache_inv (c\<lparr>lru_list := list_splice_front it (lru_list c)\<rparr>)"
    and "entries (c\<lparr>lru_list := list_splice_front it (lru_list c)\<rparr>)
      = (k, the (umap_find (cache_map c) k)) # lru_drop k (entries c)"
proof -
  note l = cache_inv_lists(1-3) [OF assms(1)]
  have sp: "list_splice_front it (lru_list c) = (it, k) # filter (\<lambda>n. snd n \<noteq> k) (lru_list c)"
    by (rule lru_map_erase_node(2) [OF assms])
  have f1: "filter (\<lambda>n. snd n \<noteq> k) (lru_list c) = filter (\<lambda>n. fst n \<noteq> it) (lru_list c)"
    using lru_map_erase_node(1) [OF assms] by (simp add: list_erase_def)
  have "set ((it, k) # filter (\<lambda>n. snd n \<noteq> k) (lru_list c)) = set (lru_list c)"
    using l(3) [OF assms(2)] node_unique [OF l(1,2) l(3) [OF assms(2)]] by (auto simp: prod_eq_iff)
  moreover have "distinct (map fst ((it, k) # filter (\<lambda>n. snd n \<noteq> k) (lru_list c)))"
    using l(1) f1 by (auto simp: distinct_map_filter)
  moreover have "distinct (map snd ((it, k) # filter (\<lambda>n. snd n \<noteq> k) (lru_list c)))"
    using l(2) by (auto simp: distinct_map_filter)
  ultimately show "cache_inv (c\<lparr>lru_list := list_splice_front it (lru_list c)\<rparr>)"
    using assms(1) unfolding cache_inv_def sp by simp
  show "entries (c\<lparr>lru_list := list_splice_front it (lru_list c)\<rparr>)
      = (k, the (umap_find (cache_map c) k)) # lru_drop k (entries c)"
    unfolding sp by (simp add: entries_def lru_drop_def filter_map o_def)
qed

lemma mem_get_refines [inv_intros]:
  assumes "cache_inv c"
  shows "cache_inv (snd (mem_get now1 now2 k c))"
    and "(fst (mem_get now1 now2 k c), entries (snd (mem_get now1 now2 k c)))
      = lru_get now2 k (lru_purge now1 (entries c))"
    and "max_size (snd (mem_get now1 now2 k c)) = max_size c"
    and "default_ttl_seconds (snd (mem_get now1 now2 k c)) = default_ttl_seconds c"
proof -
  let ?c = "removeExpired now1 c"
  note inv = removeExpired_refines(1) [OF assms, of now1]
  note fields = removeExpired_refines(3,4) [OF assms, of now1]
  have ent: "entries ?c = lru_purge now1 (entries c)" by (rule removeExpired_refines(2) [OF assms])
  have find: "map_of (lru_purge now1 (entries c)) k = umap_find (cache_map ?c) k"
    using entries_find [OF inv, of k] ent by simp
  have "cache_inv (snd (mem_get now1 now2 k c))
    \<and> (fst (mem_get now1 now2 k c), entries (snd (mem_get now1 now2 k c)))
      = lru_get now2 k (lru_purge now1 (entries c))
    \<and> max_size (snd (mem_get now1 now2 k c)) = max_size c
    \<and> default_ttl_seconds (snd (mem_get now1 now2 k c)) = default_ttl_seconds c"
  proof (cases "umap_find (lru_map ?c) k")
    case None
    then show ?thesis
      using inv ent find fields cache_find_None [OF inv, of k] by (simp add: mem_get_def lru_get_def)
  next
    case (Some it)
    then obtain e where e: "umap_find (cache_map ?c) k = Some e"
      using cache_find_None [OF inv, of k] by auto
    have "?c\<lparr>cache_map := umap_erase k (cache_map ?c), lru_list := list_erase it (lru_list ?c),
        lru_map := umap_erase k (lru_map ?c)\<rparr> = forget k ?c"
      by (simp add: forget_def lru_map_erase_node [OF inv Some])
    then show ?thesis
      using Some e find fields cache_inv_splice [OF inv Some] forget_inv [OF inv, of k] entries_forget [of k ?c] ent
      by (simp add: mem_get_def lru_get_def Let_def)
  qed
  then show "cache_inv (snd (mem_get now1 now2 k c))"
    "(fst (mem_get now1 now2 k c), entries (snd (mem_get now1 now2 k c)))
      = lru_get now2 k (lru_purge now1 (entries c))"
    "max_size (snd (mem_get now1 now2 k c)) = max_size c"
    "default_ttl_seconds (snd (mem_get now1 now2 k c)) = default_ttl_seconds c"
    by simp_all
qed

lemma mem_remove_refines [inv_intros]:
  assumes "cache_inv c"
  shows "cache_inv (snd (mem_remove k c))" and "entries (snd (mem_remove k c)) = lru_drop k (entries c)"
    and "fst (mem_remove k c) \<longleftrightarrow> k \<in> fst ` set (entries c)"
  using assms lru_map_find_None [OF assms, of k]
  by (simp_all add: mem_remove_forget forget_inv entries_forget)

lemma mem_clear_refines [inv_intros]:
  assumes "cache_inv c"
  shows "cache_inv (snd (mem_clear c))" and "entries (snd (mem_clear c)) = []"
  using assms by (simp_all add: mem_clear_def cache_inv_def entries_def)

lemma mem_exists_refines [inv_intros]:
  assumes "cache_inv c"
  shows "cache_inv (snd (mem_exists now1 now2 k c))"
    and "entries (snd (mem_exists now1 now2 k c)) = lru_purge now1 (entries c)"
    and "fst (mem_exists now1 now2 k c)
      \<longleftrightarrow> (\<exists>e. map_of (lru_purge now1 (entries c)) k = Some e \<and> now2 < expiry e)"
  using removeExpired_refines [OF assms, of now1] entries_find [OF removeExpired_refines(1) [OF assms, of now1], of k]
  by (auto simp: mem_exists_def Let_def split: option.splits)

lemma new_cache_inv [inv_intros]: "cache_inv (new_cache ttl n)" "entries (new_cache ttl n) = []"
  by (simp_all add: new_cache_def cache_inv_def entries_def)

section \<open>The cache contract\<close>

definition mem_visible :: "int \<Rightarrow> InMemoryCache \<Rightarrow> string \<Rightarrow> string option" where
  "mem_visible t c k =
     (case umap_find (cache_map c) k of
        Some e \<Rightarrow> if t < expiry e then Some (entry_value e) else None
      | None \<Rightarrow> None)"

definition mem_life :: "InMemoryCache \<Rightarrow> int \<Rightarrow> int" where
  "mem_life c ttl = effective_ttl (default_ttl_seconds c) ttl"

definition alive :: "int \<Rightarrow> (string \<times> CacheEntry) list \<Rightarrow> string \<Rightarrow> string option" where
  "alive t l k = (case map_of l k of
        Some e \<Rightarrow> if t < expiry e then Some (entry_value e) else None
      | None \<Rightarrow> None)"

lemma mem_visible_alive: "cache_inv c \<Longrightarrow> mem_visible t c k = alive t (entries c) k"
  by (simp add: mem_visible_def alive_def entries_find)

lemma map_of_filter_distinct:
  "distinct (map fst l) \<Longrightarrow>
    map_of (filter P l) k = (case map_of l k of Some e \<Rightarrow> if P (k, e) then Some e else None | None \<Rightarrow> None)"
proof (induction l)
  case (Cons p l)
  have "map_of l (fst p) = None" using Cons.prems by (simp add: map_of_eq_None_iff)
  with Cons show ?case by (cases p) (auto split: option.splits)
qed simp

lemma alive_drop: "alive t (lru_drop k l) k' = (if k' = k then None else alive t l k')"
  unfolding lru_drop_def alive_def by (induction l) auto

lemma alive_purge: "distinct (map fst l) \<Longrightarrow> now \<le> t \<Longrightarrow> alive t (lru_purge now l) k = alive t l k"
  by (auto simp: lru_purge_def alive_def map_of_filter_distinct split: option.splits)

lemma alive_Cons: "alive t ((k, e) # l) k' = (if k' = k then (if t < expiry e then Some (entry_value e) else None) else alive t l k')"
  by (simp add: alive_def)

lemma alive_take: "distinct (map fst l) \<Longrightarrow> alive t (take n l) k = Some v \<Longrightarrow> alive t l k = Some v"
  by (auto simp: alive_def split: option.splits if_splits)
    (metis in_set_takeD map_of_SomeD map_of_is_SomeI option.distinct(1) option.inject)+

lemma lru_get_result: "fst (lru_get t k l) = alive t l k"
  by (simp add: lru_get_def alive_def split: option.splits)

lemma alive_lru_get:
  assumes "distinct (map fst l)" and "t \<le> u"
  shows "alive u (snd (lru_get t k l)) k' = alive u l k'"
proof (cases "map_of l k")
  case (Some e)
  with assms(2) show ?thesis
    by (auto simp: lru_get_def alive_Cons alive_drop) (auto simp: alive_def)
qed (simp add: lru_get_def)

lemma purge_distinct: "distinct (map fst l) \<Longrightarrow> distinct (map fst (lru_purge now l))"
  by (simp add: lru_purge_def distinct_map_filter)

interpretation mem: cache_store cache_inv mem_visible mem_life mem_set mem_get mem_remove mem_clear
  mem_exists mem_step
proof
  fix c :: InMemoryCache and t u t1 t2 :: int and k k' v w :: string and ttl :: int
  show "mem_step (OpSet t k v ttl) c = snd (mem_set t k v ttl c)"
    "mem_step (OpGet t u k) c = snd (mem_get t u k c)"
    "mem_step (OpRemove k) c = snd (mem_remove k c)"
    "mem_step OpClear c = snd (mem_clear c)"
    "mem_step (OpExists t u k) c = snd (mem_exists t u k c)" by simp_all
  assume inv: "cache_inv c"
  note dist = entries_distinct [OF inv]
  show "cache_inv (snd (mem_set t k v ttl c))" "cache_inv (snd (mem_get t1 t2 k c))"
    "cache_inv (snd (mem_remove k c))" "cache_inv (snd (mem_clear c))"
    "cache_inv (snd (mem_exists t1 t2 k c))"
    using inv by (simp_all add: inv_intros)
  show "mem_life (snd (mem_set t k v ttl c)) = mem_life c"
    "mem_life (snd (mem_get t1 t2 k c)) = mem_life c"
    "mem_life (snd (mem_remove k c)) = mem_life c"
    "mem_life (snd (mem_clear c)) = mem_life c"
    "mem_life (snd (mem_exists t1 t2 k c)) = mem_life c"
    using mem_set_fields [OF inv] mem_get_refines(4) [OF inv] removeExpired_refines(4) [OF inv]
    by (simp_all add: mem_life_def fun_eq_iff mem_remove_forget inv mem_clear_def mem_exists_def Let_def)
  show "mem_visible u (snd (mem_set t k v ttl c)) k
      = (if u < t + second * mem_life c ttl then Some v else None)" if "t \<le> u"
    using inv by (simp add: mem_visible_alive mem_set_refines lru_set_def alive_Cons entry_at_def mem_life_def)
  show "mem_visible u c k' = Some w"
    if "k' \<noteq> k" and "mem_visible u (snd (mem_set t k v ttl c)) k' = Some w"
    using that inv alive_take [OF dist]
    by (auto simp: mem_visible_alive mem_set_refines lru_set_def alive_Cons alive_drop split: if_splits)
  show "fst (mem_get t1 t2 k c) = mem_visible t2 c k" if "t1 \<le> t2"
    using that inv mem_get_refines(2) [OF inv, of t1 t2 k] lru_get_result [of t2 k "lru_purge t1 (entries c)"]
    by (metis fst_conv mem_visible_alive alive_purge [OF dist])
  show "mem_visible u (snd (mem_get t1 t2 k c)) k' = mem_visible u c k'" if "t1 \<le> t2" "t2 \<le> u"
    using that inv mem_get_refines(1,2) [OF inv, of t1 t2 k] purge_distinct [OF dist, of t1]
    by (metis snd_conv mem_visible_alive alive_purge [OF dist] alive_lru_get order_trans)
  show "mem_visible u (snd (mem_remove k c)) k' = (if k' = k then None else mem_visible u c k')"
    using inv by (simp add: mem_visible_alive mem_remove_refines alive_drop)
  show "mem_visible u (snd (mem_clear c)) k = None"
    using inv by (simp add: mem_visible_alive mem_clear_refines alive_def)
  show "fst (mem_exists t1 t2 k c) = (mem_visible t2 c k \<noteq> None)" if "t1 \<le> t2"
    using that inv alive_purge [OF dist that, of k]
    by (auto simp: mem_visible_alive mem_exists_refines alive_def split: option.splits if_splits)
  show "mem_visible u (snd (mem_exists t1 t2 k c)) k' = mem_visible u c k'" if "t1 \<le> t2" "t2 \<le> u"
    using that inv by (simp add: mem_visible_alive mem_exists_refines alive_purge [OF dist])
qed

section \<open>Reachable states\<close>

lemma run_max_size: "cache_inv c \<Longrightarrow> max_size (run_ops mem_step ops c) = max_size c"
proof (induction ops)
  case (Cons x ops)
  then have "cache_inv (run_ops mem_step ops c)" by (simp add: mem.run_inv)
  then show ?case
    using Cons by (cases x) (simp_all add: mem_set_fields mem_get_refines mem_remove_forget
        mem_clear_def mem_exists_def Let_def removeExpired_refines)
qed simp

lemma length_lru_drop: "length (lru_drop k l) \<le> length l"
  by (simp add: lru_drop_def)

lemma length_lru_drop_member: "k \<in> fst ` set l \<Longrightarrow> length (lru_drop k l) < length l"
  unfolding lru_drop_def by (erule imageE) (rule length_filter_less, auto)

lemma length_lru_set: "length l \<le> max 1 n \<Longrightarrow> length (lru_set n k e l) \<le> max 1 n"
  using length_lru_drop_member [of k l] by (cases "k \<in> fst ` set l") (auto simp: lru_set_def)

lemma length_lru_get: "length (snd (lru_get t k l)) \<le> length l"
  using length_lru_drop [of k l] length_lru_drop_member [of k l]
  by (auto simp: lru_get_def split: option.splits dest!: map_of_SomeD intro!: Suc_leI)
     (force dest!: map_of_SomeD)

lemma length_lru_purge: "length (lru_purge t l) \<le> length l"
  by (simp add: lru_purge_def)

lemma step_length:
  assumes "cache_inv c" and "length (entries c) \<le> max 1 (max_size c)"
  shows "length (entries (mem_step x c)) \<le> max 1 (max_size c)"
proof (cases x)
  case (OpSet t k v ttl)
  then show ?thesis
    using assms length_lru_set [OF assms(2)] by (simp add: mem_set_refines del: length_entries)
next
  case (OpGet t u k)
  have "entries (snd (mem_get t u k c)) = snd (lru_get u k (lru_purge t (entries c)))"
    using mem_get_refines(2) [OF assms(1), of t u k] by (metis snd_conv)
  then show ?thesis
    using assms OpGet length_lru_get [of u k "lru_purge t (entries c)"] length_lru_purge [of t "entries c"]
    by (simp del: length_entries)
next
  case (OpRemove k)
  then show ?thesis
    using assms length_lru_drop [of k "entries c"] by (simp add: mem_remove_refines del: length_entries)
next
  case (OpExists t u k)
  then show ?thesis
    using assms length_lru_purge [of t "entries c"] by (simp add: mem_exists_refines del: length_entries)
qed (use assms in \<open>simp add: mem_clear_refines del: length_entries\<close>)

lemma reachable_inv:
  "cache_inv (run_ops mem_step ops (new_cache ttl n))
   \<and> umap_size (cache_map (run_ops mem_step ops (new_cache ttl n))) \<le> max 1 n"
proof -
  let ?c = "new_cache ttl n"
  have inv: "cache_inv (run_ops mem_step ops ?c)" for ops
    by (simp add: mem.run_inv new_cache_inv)
  have "length (entries (run_ops mem_step ops ?c)) \<le> max 1 n"
  proof (induction ops)
    case (Cons x ops)
    then show ?case
      using step_length [OF inv, of ops x] run_max_size [OF new_cache_inv(1), of ops ttl n]
      by (simp add: new_cache_def)
  qed (simp add: new_cache_inv del: length_entries)
  moreover have "umap_size (cache_map c) = length (entries c)" if "cache_inv c" for c
    using that cache_inv_lists(2,5,7) [OF that]
    by (metis umap_size_keys distinct_card length_map set_map length_entries)
  ultimately show ?thesis using inv by simp
qed

section \<open>Properties\<close>

text \<open>C2: In every state that any sequence of calls reaches from a new cache, the hash map, the use
  list and the iterator map agree on the keys, every stored iterator points to the node of its key,
  and no more than \<open>max_size\<close> entries are kept (one, when \<open>max_size\<close> is 0).\<close>

theorem mem_reachable_inv:
  "cache_inv (run_ops mem_step ops (new_cache ttl n))
   \<and> umap_size (cache_map (run_ops mem_step ops (new_cache ttl n))) \<le> max 1 n"
  by (rule reachable_inv)

text \<open>C1: Refinement: on the list of entries in order of use, \<open>set\<close> moves or inserts the key at the
  front and on insertion keeps the \<open>max_size - 1\<close> most recently used others; \<open>get\<close> drops what has
  expired, answers from the rest and moves the key to the front; \<open>remove\<close> drops the key and tells
  whether it was stored; \<open>clear\<close> drops everything; \<open>exists\<close> drops what has expired and tells
  whether the key is among the rest, with time left at its second reading of the clock, without
  moving it. \<open>set\<close> and \<open>clear\<close> always report success.\<close>

theorem mem_refines_lru:
  assumes "cache_inv c"
  shows "fst (mem_set now k v ttl c)
    \<and> entries (snd (mem_set now k v ttl c)) = lru_set (max_size c) k (entry_at now v ttl c) (entries c)
    \<and> (fst (mem_get now1 now2 k c), entries (snd (mem_get now1 now2 k c)))
        = lru_get now2 k (lru_purge now1 (entries c))
    \<and> entries (snd (mem_remove k c)) = lru_drop k (entries c)
    \<and> (fst (mem_remove k c) \<longleftrightarrow> k \<in> fst ` set (entries c))
    \<and> fst (mem_clear c) \<and> entries (snd (mem_clear c)) = []
    \<and> (fst (mem_exists now1 now2 k c)
        \<longleftrightarrow> (\<exists>e. map_of (lru_purge now1 (entries c)) k = Some e \<and> now2 < expiry e))
    \<and> entries (snd (mem_exists now1 now2 k c)) = lru_purge now1 (entries c)"
  using assms by (simp add: mem_set_refines mem_get_refines(2) mem_remove_refines mem_clear_refines
      mem_exists_refines) (simp add: mem_clear_def mem_set_def Let_def)

theorem mem_refines_lru_witness:
  "entries (snd (mem_remove ''US'' (snd (mem_set 0 ''US'' ''x'' 1 (new_cache 60 2))))) = []"
proof -
  have "cache_inv (snd (mem_set 0 ''US'' ''x'' 1 (new_cache 60 2)))"
    by (simp add: mem_set_refines new_cache_inv)
  from mem_refines_lru [OF this, of _ "''US''"] show ?thesis
    by (simp add: mem_set_refines new_cache_inv lru_set_def lru_drop_def)
qed

text \<open>C3: A value that \<open>get\<close> returns after any sequence of calls on a new cache, with a clock that
  never goes back, is the value of the last \<open>set\<close> of that key, which no \<open>remove\<close> or \<open>clear\<close>
  followed and whose time to live (the argument, or the default when it is not positive) has not
  run out.\<close>

theorem mem_get_not_stale:
  assumes "steady (OpGet t u k # ops)"
    and "fst (mem_get t u k (run_ops mem_step ops (new_cache dflt n))) = Some v"
  shows "\<exists>t0 ttl. last_stored ops k = Some (t0, v, ttl) \<and> t0 \<le> u
    \<and> u < t0 + second * (if ttl > 0 then ttl else dflt)"
  using mem.get_after_run [OF new_cache_inv(1), of dflt n t u k ops v] assms
  by (simp add: mem_visible_def new_cache_def mem_life_def effective_ttl_def)

theorem mem_get_not_stale_witness:
  "fst (mem_get 5 6 ''US'' (run_ops mem_step [OpSet 0 ''US'' ''x'' 1] (new_cache 60 2))) = Some ''x''
   \<and> (\<exists>t0 ttl. last_stored [OpSet 0 ''US'' ''x'' 1] ''US'' = Some (t0, ''x'', ttl) \<and> t0 \<le> 6
        \<and> 6 < t0 + second * (if ttl > 0 then ttl else 60))"
proof -
  have g: "fst (mem_get 5 6 ''US'' (run_ops mem_step [OpSet 0 ''US'' ''x'' 1] (new_cache 60 2))) = Some ''x''"
    using mem.get_after_set [OF new_cache_inv(1), of 0 5 6 60 2 1 "''US''" "''x''"]
    by (simp add: mem_life_def effective_ttl_def second_def)
  show ?thesis using g mem_get_not_stale [OF _ g] by simp
qed

text \<open>When a new key enters a full cache, exactly the least recently used entry goes; the others
  stay, in their order, behind the new one.\<close>

theorem mem_evicts_lru:
  assumes "cache_inv c" and "k \<notin> fst ` set (entries c)"
    and "length (entries c) = max_size c" and "0 < max_size c"
  shows "entries (snd (mem_set now k v ttl c)) = (k, entry_at now v ttl c) # butlast (entries c)"
  using assms by (simp add: mem_set_refines lru_set_def butlast_conv_take del: length_entries)

theorem mem_evicts_lru_witness:
  "entries (snd (mem_set 1 ''DE'' ''y'' 1 (snd (mem_set 0 ''US'' ''x'' 1 (new_cache 60 1)))))
     = [(''DE'', \<lparr>entry_value = ''y'', expiry = 1000000001\<rparr>)]"
proof -
  let ?c = "snd (mem_set 0 ''US'' ''x'' 1 (new_cache 60 1))"
  have c: "cache_inv ?c" "map fst (entries ?c) = [''US'']" "max_size ?c = 1"
    by (simp_all add: mem_set_refines new_cache_inv lru_set_def mem_set_fields) (simp add: new_cache_def)
  then have "fst ` set (entries ?c) = {''US''}" "length (entries ?c) = 1"
    by (metis list.set_map set_simps empty_set, metis One_nat_def length_map list.size(3,4) add_0)
  then show ?thesis
    using mem_evicts_lru [OF c(1), of "''DE''" 1 "''y''" 1] c
    by (simp add: entry_at_def effective_ttl_def second_def butlast_conv_take del: length_entries)
qed

section \<open>How long an entry stays\<close>

text \<open>The keys that operations use, other than by removing.\<close>

fun used_keys :: "cache_op list \<Rightarrow> string set" where
  "used_keys [] = {}"
| "used_keys (OpSet _ k _ _ # ops) = insert k (used_keys ops)"
| "used_keys (OpGet _ _ k # ops) = insert k (used_keys ops)"
| "used_keys (_ # ops) = used_keys ops"

text \<open>The keys in front of a key in order of use.\<close>

fun ahead :: "string \<Rightarrow> (string \<times> 'e) list \<Rightarrow> string set" where
  "ahead k [] = {}"
| "ahead k (p # l) = (if fst p = k then {} else insert (fst p) (ahead k l))"

fun keeps :: "string \<Rightarrow> cache_op \<Rightarrow> bool" where
  "keeps k (OpSet _ k' _ _) = (k' \<noteq> k)"
| "keeps k (OpRemove k') = (k' \<noteq> k)"
| "keeps k OpClear = False"
| "keeps k _ = True"

lemma ahead_filter:
  "(\<And>p. p \<in> set l \<Longrightarrow> fst p = k \<Longrightarrow> P p) \<Longrightarrow> ahead k (filter P l) \<subseteq> ahead k l"
  by (induction l) (auto split: if_splits)

lemma ahead_keys: "ahead k l \<subseteq> fst ` set l - {k}"
  by (induction l) auto

lemma ahead_take: "ahead k (take n l) \<subseteq> ahead k l"
  by (induction l arbitrary: n) (auto simp: take_Cons' split: if_splits)

lemma finite_ahead [simp]: "finite (ahead k l)"
  by (induction l) auto

lemma finite_used_keys [simp]: "finite (used_keys ops)"
  by (induction ops rule: used_keys.induct) auto

lemma map_of_take_ahead:
  "distinct (map fst l) \<Longrightarrow> card (ahead k l) < n \<Longrightarrow> map_of (take n l) k = map_of l k"
proof (induction l arbitrary: n)
  case (Cons p l)
  show ?case
  proof (cases "fst p = k")
    case True
    then show ?thesis using Cons.prems(2) by (cases n) auto
  next
    case False
    moreover have "fst p \<notin> ahead k l" using Cons.prems(1) ahead_keys [of k l] by auto
    ultimately show ?thesis using Cons by (cases n) auto
  qed
qed simp

lemma map_of_lru_drop: "k \<noteq> k' \<Longrightarrow> map_of (lru_drop k' l) k = map_of l k"
  unfolding lru_drop_def by (induction l) auto

lemma ahead_lru_drop: "k \<noteq> k' \<Longrightarrow> ahead k (lru_drop k' l) \<subseteq> ahead k l"
  unfolding lru_drop_def by (rule ahead_filter) auto

lemma lru_set_keeps:
  assumes "distinct (map fst l)" and "map_of l k = Some e" and "k' \<noteq> k"
    and "insert k' (ahead k l) \<subseteq> T" and "finite T" and "card T < n"
  shows "map_of (lru_set n k' e' l) k = Some e" and "ahead k (lru_set n k' e' l) \<subseteq> T"
proof -
  have "map_of (take (n - 1) l) k = Some e" if "k' \<notin> fst ` set l"
  proof -
    have "k' \<notin> ahead k l" using that ahead_keys [of k l] by auto
    then have "Suc (card (ahead k l)) \<le> card T"
      using card_mono [OF assms(5,4)] by simp
    then show ?thesis using assms map_of_take_ahead [OF assms(1), of k "n - 1"] by simp
  qed
  then show "map_of (lru_set n k' e' l) k = Some e"
    using assms by (auto simp: lru_set_def map_of_lru_drop)
  show "ahead k (lru_set n k' e' l) \<subseteq> T"
    using assms(3,4) ahead_lru_drop [of k k' l] ahead_take [of k "n - 1" l]
    by (auto simp: lru_set_def)
qed

lemma lru_purge_keeps:
  assumes "distinct (map fst l)" and "map_of l k = Some e" and "t < expiry e"
  shows "map_of (lru_purge t l) k = Some e" and "ahead k (lru_purge t l) \<subseteq> ahead k l"
proof -
  show "map_of (lru_purge t l) k = Some e"
    using assms by (simp add: lru_purge_def map_of_filter_distinct)
  have "snd p = e" if "p \<in> set l" "fst p = k" for p
    using that assms(1,2) by (metis map_of_is_SomeI option.inject prod.collapse)
  then show "ahead k (lru_purge t l) \<subseteq> ahead k l"
    unfolding lru_purge_def using assms(3) by (intro ahead_filter) auto
qed

lemma lru_get_keeps:
  assumes "map_of l k = Some e" and "t < expiry e"
  shows "map_of (snd (lru_get t k' l)) k = Some e"
    and "ahead k (snd (lru_get t k' l)) \<subseteq> insert k' (ahead k l) - {k}"
  using assms ahead_lru_drop [of k k' l] ahead_keys [of k l]
  by (auto simp: lru_get_def map_of_lru_drop split: option.splits)

lemma entry_stays:
  assumes "cache_inv c" and "map_of (entries c) k = Some e" and "ahead k (entries c) = {}"
    and "u < expiry e"
    and "\<forall>x \<in> set ops. keeps k x" and "steady ops" and "not_before ops u"
    and "card (used_keys ops - {k}) < max_size c"
  shows "map_of (entries (run_ops mem_step ops c)) k = Some e
    \<and> ahead k (entries (run_ops mem_step ops c)) \<subseteq> used_keys ops - {k}"
  using assms(5-8)
proof (induction ops)
  case Nil
  then show ?case using assms(2,3) by simp
next
  case (Cons x ops)
  let ?c = "run_ops mem_step ops c"
  have inv: "cache_inv ?c" using assms(1) by (rule mem.run_inv)
  note dist = entries_distinct [OF inv]
  have ms: "max_size ?c = max_size c" by (rule run_max_size [OF assms(1)])
  have mono: "card (used_keys ops - {k}) \<le> card (used_keys (x # ops) - {k})"
    by (rule card_mono) (cases x; auto)+
  have IH: "map_of (entries ?c) k = Some e" "ahead k (entries ?c) \<subseteq> used_keys ops - {k}"
    if "not_before ops u" "steady ops"
    using that Cons.IH Cons.prems(1,4) mono by auto
  show ?case
  proof (cases x)
    case (OpSet t k' v ttl)
    with Cons.prems have c: "k' \<noteq> k" "steady ops" "not_before ops u"
      by (auto intro: not_before_trans)
    note ih = IH [OF c(3,2)]
    have "insert k' (ahead k (entries ?c)) \<subseteq> used_keys (x # ops) - {k}" using ih(2) c(1) OpSet by auto
    from lru_set_keeps [OF dist ih(1) c(1) this _ Cons.prems(4)] show ?thesis
      using OpSet by (simp add: mem_set_refines inv ms)
  next
    case (OpGet t1 t2 k')
    with Cons.prems have c: "t1 \<le> t2" "t2 \<le> u" "steady ops" "not_before ops u"
      by (auto intro: not_before_trans)
    note ih = IH [OF c(4,3)]
    have g: "entries (snd (mem_get t1 t2 k' ?c)) = snd (lru_get t2 k' (lru_purge t1 (entries ?c)))"
      using mem_get_refines(2) [OF inv, of t1 t2 k'] by (metis snd_conv)
    have p: "map_of (lru_purge t1 (entries ?c)) k = Some e" "ahead k (lru_purge t1 (entries ?c)) \<subseteq> ahead k (entries ?c)"
      using lru_purge_keeps [OF dist ih(1), of t1] c assms(4) by auto
    have "t2 < expiry e" using c assms(4) by simp
    from lru_get_keeps [OF p(1) this, of k'] show ?thesis
      using OpGet g p(2) ih(2) by (auto simp: g)
  next
    case (OpRemove k')
    with Cons.prems have c: "k' \<noteq> k" "steady ops" "not_before ops u" by auto
    then show ?thesis
      using IH [OF c(3,2)] OpRemove ahead_lru_drop [of k k' "entries ?c"]
      by (auto simp: mem_remove_refines inv map_of_lru_drop)
  next
    case (OpExists t1 t2 k')
    with Cons.prems have c: "t1 \<le> t2" "t2 \<le> u" "steady ops" "not_before ops u"
      by (auto intro: not_before_trans)
    note ih = IH [OF c(4,3)]
    show ?thesis
      using OpExists ih(2) lru_purge_keeps [OF dist ih(1), of t1] c assms(4)
      by (auto simp: mem_exists_refines inv)
  next
    case OpClear
    then show ?thesis using Cons.prems(1) by simp
  qed
qed

lemma recent_entry_stays:
  assumes "cache_inv c" and "\<forall>x \<in> set ops. keeps k x"
    and "steady (OpGet t u k # ops)" and "u < t0 + second * (if ttl > 0 then ttl else default_ttl_seconds c)"
    and "card (used_keys ops - {k}) < max_size c"
  shows "fst (mem_get t u k (run_ops mem_step ops (snd (mem_set t0 k v ttl c)))) = Some v"
proof -
  let ?c = "snd (mem_set t0 k v ttl c)"
  have inv: "cache_inv ?c" by (rule mem_set_refines(1) [OF assms(1)])
  have ent: "entries ?c = (k, entry_at t0 v ttl c) # tl (entries ?c)"
    by (simp add: mem_set_refines assms(1) lru_set_def)
  have c: "steady ops" "not_before ops u" "t \<le> u"
    using assms(3) by (auto intro: not_before_trans)
  have e: "u < expiry (entry_at t0 v ttl c)"
    using assms(4) by (simp add: entry_at_def effective_ttl_def)
  have "map_of (entries (run_ops mem_step ops ?c)) k = Some (entry_at t0 v ttl c)"
    using entry_stays [OF inv _ _ e assms(2) c(1,2)] ent assms(1,5)
    by (metis ahead.simps(2) fst_conv map_of_Cons_code(2) mem_set_fields(1))
  then show ?thesis
    using mem.run_inv [OF inv, of ops] c(3) e
    by (simp add: mem.get_result mem_visible_alive alive_def) (simp add: entry_at_def)
qed

text \<open>C4: A stored value stays available: as long as it is not set again, removed or cleared, its time
  has not run out, and fewer than \<open>max_size\<close> other keys are set or looked up meanwhile, \<open>get\<close>
  returns it, whatever else is called.\<close>

theorem mem_recent_entry_stays:
  assumes "cache_inv c" and "\<forall>x \<in> set ops. keeps k x"
    and "steady (OpGet t u k # ops)" and "u < t0 + second * (if ttl > 0 then ttl else default_ttl_seconds c)"
    and "card (used_keys ops - {k}) < max_size c"
  shows "fst (mem_get t u k (run_ops mem_step ops (snd (mem_set t0 k v ttl c)))) = Some v"
  by (rule recent_entry_stays [OF assms])

theorem mem_recent_entry_stays_witness:
  "fst (mem_get 7 8 ''US'' (run_ops mem_step [OpGet 6 6 ''FR'', OpSet 5 ''DE'' ''y'' 1]
     (snd (mem_set 1 ''US'' ''x'' 1 (new_cache 60 3))))) = Some ''x''"
proof -
  have "card (used_keys [OpGet 6 6 ''FR'', OpSet 5 ''DE'' ''y'' 1] - {''US''}) < max_size (new_cache 60 3)"
    by (simp add: new_cache_def)
  then show ?thesis
    using mem_recent_entry_stays [OF new_cache_inv(1), of "[OpGet 6 6 ''FR'', OpSet 5 ''DE'' ''y'' 1]"
      "''US''" 7 8 1 1 60 3 "''x''"]
    by (simp add: second_def)
qed

end
