(* ===== verification/Redis_Cache.thy ===== *)
theory Redis_Cache
  imports App_Config
begin

text \<open>
  \<open>RedisCache\<close> (src/cache/RedisCache.hpp and .cpp). The client library hiredis and the server
  behind it are parameters: \<open>redisConnect\<close> (\<open>None\<close> is a null context), the error a context
  carries, and \<open>redisCommand\<close> on the argument vector that the format string and its arguments
  make, with \<open>None\<close> for a null reply. Every \<open>%s\<close> argument is a C string, so it ends at the first
  NUL byte. A context stands for the connection and the server's data. What the theorems need of
  the server is stated as \<open>redis_laws\<close>, the documented effect of the five commands.
\<close>

section \<open>Replies and the connection\<close>

datatype redisReply =
    REDIS_REPLY_STRING string
  | REDIS_REPLY_INTEGER int
  | REDIS_REPLY_NIL
  | REDIS_REPLY_STATUS string
  | REDIS_REPLY_ERROR string
  | REDIS_REPLY_ARRAY

type_synonym 'c command = "string list \<Rightarrow> 'c \<Rightarrow> redisReply option \<times> 'c"

record 'c RedisCache =
  redis_context :: "'c option"

text \<open>\<open>connect\<close>, called by the constructor only.\<close>

definition redis_connect ::
    "(string \<Rightarrow> int \<Rightarrow> 'c option) \<Rightarrow> ('c \<Rightarrow> string option) \<Rightarrow> AppConfig \<Rightarrow> 'c RedisCache \<Rightarrow> 'c RedisCache" where
  "redis_connect redisConnect errstr config r =
     (case redisConnect (c_str (redis_host config)) (redis_port config) of
        None \<Rightarrow> r\<lparr>redis_context := None\<rparr>
      | Some ctx \<Rightarrow> (case errstr ctx of
                      Some err \<Rightarrow> r\<lparr>redis_context := None\<rparr>
                    | None \<Rightarrow> r\<lparr>redis_context := Some ctx\<rparr>))"

definition new_redis_cache ::
    "(string \<Rightarrow> int \<Rightarrow> 'c option) \<Rightarrow> ('c \<Rightarrow> string option) \<Rightarrow> AppConfig \<Rightarrow> 'c RedisCache" where
  "new_redis_cache redisConnect errstr config =
     redis_connect redisConnect errstr config \<lparr>redis_context = None\<rparr>"

definition isConnected :: "'c RedisCache \<Rightarrow> bool" where
  "isConnected r \<longleftrightarrow> redis_context r \<noteq> None"

section \<open>Operations\<close>

text \<open>A command on the open connection; \<open>k\<close> reads the reply, and without a connection or a reply
  the result is \<open>dflt\<close>.\<close>

definition with_reply ::
    "'c command \<Rightarrow> string list \<Rightarrow> 'a \<Rightarrow> (redisReply \<Rightarrow> 'a) \<Rightarrow> 'c RedisCache \<Rightarrow> 'a \<times> 'c RedisCache" where
  "with_reply redisCommand argv dflt k r =
     (case redis_context r of
        None \<Rightarrow> (dflt, r)
      | Some ctx \<Rightarrow>
          (case redisCommand argv ctx of
             (None, ctx') \<Rightarrow> (dflt, r\<lparr>redis_context := Some ctx'\<rparr>)
           | (Some reply, ctx') \<Rightarrow> (k reply, r\<lparr>redis_context := Some ctx'\<rparr>)))"

fun reply_is_error :: "redisReply \<Rightarrow> bool" where
  "reply_is_error (REDIS_REPLY_ERROR _) = True"
| "reply_is_error _ = False"

fun reply_positive :: "redisReply \<Rightarrow> bool" where
  "reply_positive (REDIS_REPLY_INTEGER n) = (n > 0)"
| "reply_positive _ = False"

fun reply_string :: "redisReply \<Rightarrow> string option" where
  "reply_string (REDIS_REPLY_STRING s) = Some s"
| "reply_string _ = None"

definition redis_set :: "'c command \<Rightarrow> string \<Rightarrow> string \<Rightarrow> int \<Rightarrow> 'c RedisCache \<Rightarrow> bool \<times> 'c RedisCache" where
  "redis_set cmd key v ttl r =
     with_reply cmd
       (if ttl > 0 then [''SETEX'', c_str key, string_of_int ttl, c_str v]
        else [''SET'', c_str key, c_str v])
       False (\<lambda>reply. \<not> reply_is_error reply) r"

definition redis_get :: "'c command \<Rightarrow> string \<Rightarrow> 'c RedisCache \<Rightarrow> string option \<times> 'c RedisCache" where
  "redis_get cmd key r = with_reply cmd [''GET'', c_str key] None reply_string r"

definition redis_remove :: "'c command \<Rightarrow> string \<Rightarrow> 'c RedisCache \<Rightarrow> bool \<times> 'c RedisCache" where
  "redis_remove cmd key r = with_reply cmd [''DEL'', c_str key] False reply_positive r"

definition redis_clear :: "'c command \<Rightarrow> 'c RedisCache \<Rightarrow> bool \<times> 'c RedisCache" where
  "redis_clear cmd r = with_reply cmd [''FLUSHALL''] False (\<lambda>reply. \<not> reply_is_error reply) r"

definition redis_exists :: "'c command \<Rightarrow> string \<Rightarrow> 'c RedisCache \<Rightarrow> bool \<times> 'c RedisCache" where
  "redis_exists cmd key r = with_reply cmd [''EXISTS'', c_str key] False reply_positive r"

text \<open>The JSON methods; \<open>dump\<close> and \<open>parse\<close> are the JSON library's, with \<open>None\<close> for a throw. Both
  catch the library's exceptions.\<close>

definition redis_set_json ::
    "'c command \<Rightarrow> ('j \<Rightarrow> string option) \<Rightarrow> AppConfig \<Rightarrow> string \<Rightarrow> 'j \<Rightarrow> 'c RedisCache \<Rightarrow> 'c RedisCache" where
  "redis_set_json cmd dump config key j r =
     (case dump j of None \<Rightarrow> r | Some s \<Rightarrow> snd (redis_set cmd key s (redis_ttl config) r))"

definition redis_get_json ::
    "'c command \<Rightarrow> (string \<Rightarrow> 'j option) \<Rightarrow> string \<Rightarrow> 'c RedisCache \<Rightarrow> 'j option \<times> 'c RedisCache" where
  "redis_get_json cmd parse key r =
     (case redis_get cmd key r of
        (None, r') \<Rightarrow> (None, r')
      | (Some s, r') \<Rightarrow> (parse s, r'))"

section \<open>The documented behaviour of the server\<close>

text \<open>\<open>db c k\<close> is the string stored under \<open>k\<close> at the moment; \<open>SETEX\<close> stores like \<open>SET\<close>.\<close>

definition redis_laws :: "'c command \<Rightarrow> ('c \<Rightarrow> string \<Rightarrow> string option) \<Rightarrow> bool" where
  "redis_laws cmd db \<longleftrightarrow>
     (\<forall>c k v. fst (cmd [''SET'', k, v] c) = Some (REDIS_REPLY_STATUS ''OK'')
        \<and> db (snd (cmd [''SET'', k, v] c)) = (db c)(k \<mapsto> v))
     \<and> (\<forall>c k v n. 0 < n \<longrightarrow> fst (cmd [''SETEX'', k, string_of_int n, v] c) = Some (REDIS_REPLY_STATUS ''OK'')
        \<and> db (snd (cmd [''SETEX'', k, string_of_int n, v] c)) = (db c)(k \<mapsto> v))
     \<and> (\<forall>c k. fst (cmd [''GET'', k] c)
          = Some (case db c k of Some v \<Rightarrow> REDIS_REPLY_STRING v | None \<Rightarrow> REDIS_REPLY_NIL)
        \<and> db (snd (cmd [''GET'', k] c)) = db c)
     \<and> (\<forall>c k. fst (cmd [''DEL'', k] c)
          = Some (REDIS_REPLY_INTEGER (if db c k = None then 0 else 1))
        \<and> db (snd (cmd [''DEL'', k] c)) = (db c)(k := None))
     \<and> (\<forall>c k. fst (cmd [''EXISTS'', k] c)
          = Some (REDIS_REPLY_INTEGER (if db c k = None then 0 else 1))
        \<and> db (snd (cmd [''EXISTS'', k] c)) = db c)
     \<and> (\<forall>c. fst (cmd [''FLUSHALL''] c) = Some (REDIS_REPLY_STATUS ''OK'')
        \<and> db (snd (cmd [''FLUSHALL''] c)) = Map.empty)"

text \<open>A server that keeps its data in an association list has this behaviour.\<close>

fun ref_redis :: "(string, string) umap command" where
  "ref_redis [a, k, v] c =
     (if a = ''SET'' then (Some (REDIS_REPLY_STATUS ''OK''), umap_put k v c) else (None, c))"
| "ref_redis [a, k, n, v] c =
     (if a = ''SETEX'' then (Some (REDIS_REPLY_STATUS ''OK''), umap_put k v c) else (None, c))"
| "ref_redis [a, k] c =
     (let n = REDIS_REPLY_INTEGER (if umap_find c k = None then 0 else 1)
      in if a = ''GET'' then
           (Some (case umap_find c k of Some v \<Rightarrow> REDIS_REPLY_STRING v | None \<Rightarrow> REDIS_REPLY_NIL), c)
         else if a = ''DEL'' then (Some n, umap_erase k c)
         else if a = ''EXISTS'' then (Some n, c)
         else (None, c))"
| "ref_redis [a] c =
     (if a = ''FLUSHALL'' then (Some (REDIS_REPLY_STATUS ''OK''), []) else (None, c))"
| "ref_redis _ c = (None, c)"

lemma ref_redis_laws: "redis_laws ref_redis umap_find"
  by (simp add: redis_laws_def fun_eq_iff)

section \<open>Properties\<close>

definition redis_content :: "('c \<Rightarrow> string \<Rightarrow> string option) \<Rightarrow> 'c RedisCache \<Rightarrow> string \<Rightarrow> string option" where
  "redis_content db r k = (case redis_context r of None \<Rightarrow> None | Some ctx \<Rightarrow> db ctx (c_str k))"

lemma with_reply_connected:
  "redis_context r = Some ctx \<Longrightarrow> fst (cmd argv ctx) = Some rep \<Longrightarrow>
    with_reply cmd argv d k r = (k rep, r\<lparr>redis_context := Some (snd (cmd argv ctx))\<rparr>)"
  by (cases "cmd argv ctx") (simp add: with_reply_def)

definition set_argv :: "string \<Rightarrow> string \<Rightarrow> int \<Rightarrow> string list" where
  "set_argv k v ttl = (if ttl > 0 then [''SETEX'', c_str k, string_of_int ttl, c_str v]
     else [''SET'', c_str k, c_str v])"

lemma redis_run:
  assumes "redis_laws cmd db" and "redis_context r = Some ctx"
  shows "redis_set cmd k v ttl r = (True, r\<lparr>redis_context := Some (snd (cmd (set_argv k v ttl) ctx))\<rparr>)"
    and "redis_get cmd k r = (db ctx (c_str k), r\<lparr>redis_context := Some (snd (cmd [''GET'', c_str k] ctx))\<rparr>)"
    and "redis_remove cmd k r =
      (db ctx (c_str k) \<noteq> None, r\<lparr>redis_context := Some (snd (cmd [''DEL'', c_str k] ctx))\<rparr>)"
    and "redis_exists cmd k r =
      (db ctx (c_str k) \<noteq> None, r\<lparr>redis_context := Some (snd (cmd [''EXISTS'', c_str k] ctx))\<rparr>)"
    and "redis_clear cmd r = (True, r\<lparr>redis_context := Some (snd (cmd [''FLUSHALL''] ctx))\<rparr>)"
proof -
  note laws = assms(1) [unfolded redis_laws_def]
  note conn = with_reply_connected [OF assms(2), of cmd]
  have "fst (cmd (set_argv k v ttl) ctx) = Some (REDIS_REPLY_STATUS ''OK'')"
    using laws by (simp add: set_argv_def)
  then show "redis_set cmd k v ttl r = (True, r\<lparr>redis_context := Some (snd (cmd (set_argv k v ttl) ctx))\<rparr>)"
    unfolding redis_set_def set_argv_def [symmetric] by (simp add: conn)
  have "fst (cmd [''GET'', c_str k] ctx)
      = Some (case db ctx (c_str k) of Some v \<Rightarrow> REDIS_REPLY_STRING v | None \<Rightarrow> REDIS_REPLY_NIL)"
    using laws by blast
  then show "redis_get cmd k r = (db ctx (c_str k), r\<lparr>redis_context := Some (snd (cmd [''GET'', c_str k] ctx))\<rparr>)"
    unfolding redis_get_def by (simp add: conn split: option.split)
  have "fst (cmd [''DEL'', c_str k] ctx)
      = Some (REDIS_REPLY_INTEGER (if db ctx (c_str k) = None then 0 else 1))"
    using laws by blast
  then show "redis_remove cmd k r =
      (db ctx (c_str k) \<noteq> None, r\<lparr>redis_context := Some (snd (cmd [''DEL'', c_str k] ctx))\<rparr>)"
    unfolding redis_remove_def by (simp add: conn)
  have "fst (cmd [''EXISTS'', c_str k] ctx)
      = Some (REDIS_REPLY_INTEGER (if db ctx (c_str k) = None then 0 else 1))"
    using laws by blast
  then show "redis_exists cmd k r =
      (db ctx (c_str k) \<noteq> None, r\<lparr>redis_context := Some (snd (cmd [''EXISTS'', c_str k] ctx))\<rparr>)"
    unfolding redis_exists_def by (simp add: conn)
  have "fst (cmd [''FLUSHALL''] ctx) = Some (REDIS_REPLY_STATUS ''OK'')"
    using laws by blast
  then show "redis_clear cmd r = (True, r\<lparr>redis_context := Some (snd (cmd [''FLUSHALL''] ctx))\<rparr>)"
    unfolding redis_clear_def by (simp add: conn)
qed

lemma redis_db:
  assumes "redis_laws cmd db"
  shows "db (snd (cmd (set_argv k v ttl) ctx)) = (db ctx)(c_str k \<mapsto> c_str v)"
    and "db (snd (cmd [''GET'', k] ctx)) = db ctx"
    and "db (snd (cmd [''EXISTS'', k] ctx)) = db ctx"
    and "db (snd (cmd [''DEL'', k] ctx)) = (db ctx)(k := None)"
    and "db (snd (cmd [''FLUSHALL''] ctx)) = Map.empty"
  using assms [unfolded redis_laws_def] by (simp_all add: set_argv_def)

text \<open>C22: On a connected cache whose server does what Redis documents, every operation succeeds and
  has the effect of its namesake on a map from keys to values, where keys and values count up to
  their first NUL byte only.\<close>

theorem redis_implements_map:
  assumes "redis_laws cmd db" and "isConnected r"
  shows "fst (redis_set cmd k v ttl r)
    \<and> redis_content db (snd (redis_set cmd k v ttl r)) k'
        = (if c_str k' = c_str k then Some (c_str v) else redis_content db r k')
    \<and> fst (redis_get cmd k r) = redis_content db r k
    \<and> redis_content db (snd (redis_get cmd k r)) k' = redis_content db r k'
    \<and> (fst (redis_exists cmd k r) \<longleftrightarrow> redis_content db r k \<noteq> None)
    \<and> (fst (redis_remove cmd k r) \<longleftrightarrow> redis_content db r k \<noteq> None)
    \<and> redis_content db (snd (redis_remove cmd k r)) k'
        = (if c_str k' = c_str k then None else redis_content db r k')
    \<and> fst (redis_clear cmd r) \<and> redis_content db (snd (redis_clear cmd r)) k' = None"
proof -
  obtain ctx where ctx: "redis_context r = Some ctx" using assms(2) by (auto simp: isConnected_def)
  show ?thesis
    using ctx by (simp add: redis_run [OF assms(1) ctx] redis_content_def redis_db [OF assms(1)])
qed

theorem redis_implements_map_witness:
  "fst (redis_get ref_redis ''5:US'' (snd (redis_set ref_redis ''5:US'' ''x'' 60 \<lparr>redis_context = Some []\<rparr>)))
     = Some ''x''"
proof -
  let ?r = "\<lparr>redis_context = Some ([] :: (string, string) umap)\<rparr>"
  have "fst (redis_get ref_redis ''5:US'' (snd (redis_set ref_redis ''5:US'' ''x'' 60 ?r)))
      = redis_content umap_find (snd (redis_set ref_redis ''5:US'' ''x'' 60 ?r)) ''5:US''"
    using redis_implements_map [OF ref_redis_laws, of "snd (redis_set ref_redis ''5:US'' ''x'' 60 ?r)"]
    by (simp add: isConnected_def redis_run [OF ref_redis_laws])
  also have "\<dots> = Some (c_str ''x'')"
    using redis_implements_map [OF ref_redis_laws, of ?r "''5:US''" "''x''" 60 "''5:US''"]
    by (simp add: isConnected_def)
  finally show ?thesis by (simp add: c_str_def)
qed

text \<open>Without a connection (the server could not be reached at start-up) every operation fails
  without effect, for good: nothing in the class connects again.\<close>

theorem redis_unconnected:
  assumes "\<not> isConnected r"
  shows "redis_set cmd k v ttl r = (False, r) \<and> redis_get cmd k r = (None, r)
    \<and> redis_remove cmd k r = (False, r) \<and> redis_clear cmd r = (False, r)
    \<and> redis_exists cmd k r = (False, r) \<and> redis_set_json cmd dump cfg k j r = r
    \<and> redis_get_json cmd parse k r = (None, r)"
  using assms by (simp add: isConnected_def redis_set_def redis_get_def redis_remove_def redis_clear_def
      redis_exists_def redis_set_json_def redis_get_json_def with_reply_def split: option.split)

theorem redis_unconnected_witness:
  "redis_get ref_redis ''5:US'' (new_redis_cache (\<lambda>h p. None) (\<lambda>c. None) default_config)
     = (None, \<lparr>redis_context = None\<rparr>)"
  using redis_unconnected [of "\<lparr>redis_context = None\<rparr>" ref_redis "''5:US''" "[]" 0 "\<lambda>j. Some []"
      default_config "()" "\<lambda>s. Some ()"]
  by (simp add: new_redis_cache_def redis_connect_def isConnected_def)

end
