(* ===== verification/Circuit_Breaker.thy ===== *)
theory Circuit_Breaker
  imports App_Config
begin

text \<open>
  \<open>CircuitBreaker\<close> (src/core/CircuitBreaker.hpp and .cpp): the time until which the circuit of each
  backend address is open. The clock reading of an operation is its argument, in nanoseconds; both
  operations run under the object's mutex. The log lines are left out.
\<close>

record CircuitBreaker =
  tripped_backends :: "(string, int) umap"

text \<open>The constructor; the arguments say whether the logger and the metrics client are non-null.\<close>

definition new_breaker :: "bool \<Rightarrow> bool \<Rightarrow> CircuitBreaker exc" where
  "new_breaker logger statsd_client =
     (if \<not> logger then Inl (invalid_argument ''Logger cannot be null for CircuitBreaker'')
      else if \<not> statsd_client then Inl (invalid_argument ''StatsDClient cannot be null for CircuitBreaker'')
      else Inr \<lparr>tripped_backends = []\<rparr>)"

definition millisecond :: int where
  "millisecond = 1000000"

definition isTripped :: "int \<Rightarrow> string \<Rightarrow> CircuitBreaker \<Rightarrow> bool" where
  "isTripped now backendUrl b =
     (case umap_find (tripped_backends b) backendUrl of
        Some until \<Rightarrow> until > now
      | None \<Rightarrow> False)"

definition trip :: "int \<Rightarrow> string \<Rightarrow> int \<Rightarrow> CircuitBreaker \<Rightarrow> CircuitBreaker" where
  "trip now backendUrl coolDownDuration b =
     b\<lparr>tripped_backends := umap_put backendUrl (now + coolDownDuration * millisecond) (tripped_backends b)\<rparr>"

section \<open>Histories\<close>

text \<open>The failures reported to a breaker (time, address, cool-off in milliseconds), the last one
  first, and the breaker after them.\<close>

type_synonym trip_event = "int \<times> string \<times> int"

fun run_trips :: "trip_event list \<Rightarrow> CircuitBreaker \<Rightarrow> CircuitBreaker" where
  "run_trips [] b = b"
| "run_trips ((t, u, d) # es) b = trip t u d (run_trips es b)"

fun last_trip :: "trip_event list \<Rightarrow> string \<Rightarrow> (int \<times> int) option" where
  "last_trip [] u = None"
| "last_trip ((t, u', d) # es) u = (if u' = u then Some (t, d) else last_trip es u)"

lemma find_run_trips:
  "umap_find (tripped_backends (run_trips es b)) u =
     (case last_trip es u of
        Some (t, d) \<Rightarrow> Some (t + d * millisecond)
      | None \<Rightarrow> umap_find (tripped_backends b) u)"
  by (induction es) (auto simp: trip_def)

lemma keys_run_trips:
  "umap_keys (tripped_backends (run_trips es b)) = (\<lambda>(t, u, d). u) ` set es \<union> umap_keys (tripped_backends b)"
  by (induction es) (auto simp: trip_def rev_image_eqI)

lemma isTripped_other: "u \<noteq> u' \<Longrightarrow> isTripped now u (trip t u' d b) = isTripped now u b"
  by (simp add: isTripped_def trip_def)

lemma isTripped_trip: "isTripped now u (trip t u d b) \<longleftrightarrow> now < t + d * millisecond"
  by (simp add: isTripped_def trip_def)

text \<open>C19: After any history of failures the circuit of an address is open exactly while the cool-off
  period of its own last failure lasts; failures of other addresses have no influence, and the
  breaker remembers no address that has not failed.\<close>

theorem breaker_open_iff:
  assumes "new_breaker True True = Inr b"
  shows "(isTripped now u (run_trips es b) \<longleftrightarrow>
      (\<exists>t d. last_trip es u = Some (t, d) \<and> now < t + d * 1000000))
    \<and> umap_keys (tripped_backends (run_trips es b)) = (\<lambda>(t, u, d). u) ` set es"
proof -
  have b: "tripped_backends b = []" using assms by (auto simp: new_breaker_def)
  then show ?thesis
    by (auto simp: isTripped_def find_run_trips keys_run_trips millisecond_def split: option.splits)
qed

theorem breaker_open_iff_witness:
  "isTripped 9000000 ''http://us:1'' (run_trips [(0, ''http://us:1'', 10)] \<lparr>tripped_backends = []\<rparr>)
   \<and> \<not> isTripped 10000000 ''http://us:1'' (run_trips [(0, ''http://us:1'', 10)] \<lparr>tripped_backends = []\<rparr>)"
proof -
  have b: "new_breaker True True = Inr \<lparr>tripped_backends = []\<rparr>" by (simp add: new_breaker_def)
  show ?thesis
    using breaker_open_iff [OF b, of 9000000 "''http://us:1''" "[(0, ''http://us:1'', 10)]"]
      breaker_open_iff [OF b, of 10000000 "''http://us:1''" "[(0, ''http://us:1'', 10)]"]
    by simp
qed

text \<open>The last report counts, not the longest one: a failure reported later with a shorter
  cool-off period ends the open period earlier than the first report promised.\<close>

theorem later_trip_may_shorten:
  assumes "t1 \<le> t2" and "t2 + d2 * 1000000 \<le> now" and "now < t1 + d1 * 1000000"
  shows "isTripped now u (trip t1 u d1 b) \<and> \<not> isTripped now u (trip t2 u d2 (trip t1 u d1 b))"
  using assms by (simp add: isTripped_trip millisecond_def)

theorem later_trip_may_shorten_witness:
  "\<not> isTripped 5000000 ''u'' (trip 0 ''u'' 1 (trip 0 ''u'' 10 \<lparr>tripped_backends = []\<rparr>))"
  using later_trip_may_shorten [of 0 0 1 5000000 10 "''u''"] by simp

end
