(* ===== verification/Console_Logger.thy ===== *)
theory Console_Logger
  imports App_Config
begin

text \<open>
  \<open>ConsoleLogger\<close> (src/logging/ConsoleLogger.hpp and .cpp): a singleton that filters by level.
  The two output streams are the lines written to them, the last one first. The static members
  \<open>instance\<close> and \<open>init_flag\<close> are one optional value; a line is written under a mutex, so it is
  one step. Also modelled: the number of independent owners of the singleton, because every
  \<open>getInstance\<close> makes a new \<open>shared_ptr\<close> from the raw pointer.
\<close>

record console =
  cout_lines :: "string list"
  cerr_lines :: "string list"

definition put_cout :: "string \<Rightarrow> console \<Rightarrow> console" where
  "put_cout line c = c\<lparr>cout_lines := line # cout_lines c\<rparr>"

definition put_cerr :: "string \<Rightarrow> console \<Rightarrow> console" where
  "put_cerr line c = c\<lparr>cerr_lines := line # cerr_lines c\<rparr>"

text \<open>A logger is its level.\<close>

definition info :: "LogLevel \<Rightarrow> string \<Rightarrow> console \<Rightarrow> console" where
  "info logLevel message c = (if logLevel \<le> INFO then put_cout (INFO_LOG_PREFIX @ message) c else c)"

definition debug :: "LogLevel \<Rightarrow> string \<Rightarrow> console \<Rightarrow> console" where
  "debug logLevel message c = (if logLevel \<le> DEBUG then put_cout (DEBUG_LOG_PREFIX @ message) c else c)"

definition warn :: "LogLevel \<Rightarrow> string \<Rightarrow> console \<Rightarrow> console" where
  "warn logLevel message c = (if logLevel \<le> WARN then put_cout (WARN_LOG_PREFIX @ message) c else c)"

definition error_log :: "LogLevel \<Rightarrow> string \<Rightarrow> console \<Rightarrow> console" where
  "error_log logLevel message c =
     (if logLevel \<le> CERROR then put_cerr (CERROR_LOG_PREFIX @ message) c else c)"

definition setup_log :: "string \<Rightarrow> console \<Rightarrow> console" where
  "setup_log message c = put_cout (SETUP_LOG_PREFIX @ message) c"

definition getLogLevel :: "LogLevel \<Rightarrow> int" where
  "getLogLevel logLevel = level_num logLevel"

section \<open>The singleton\<close>

text \<open>The instance, and the reference counts of its independent control blocks (\<open>instance\<close> is the
  first of them).\<close>

record logger_statics =
  logger_instance :: "LogLevel option"
  control_blocks :: "nat list"

definition no_logger :: logger_statics where
  "no_logger = \<lparr>logger_instance = None, control_blocks = []\<rparr>"

definition logger_getInstance :: "LogLevel \<Rightarrow> logger_statics \<Rightarrow> LogLevel \<times> logger_statics" where
  "logger_getInstance level s =
     (let s = (case logger_instance s of
                 None \<Rightarrow> s\<lparr>logger_instance := Some level, control_blocks := [1]\<rparr>
               | Some _ \<Rightarrow> s)
      in (the (logger_instance s), s\<lparr>control_blocks := control_blocks s @ [1]\<rparr>))"

text \<open>How often the object is deleted once all pointers to it are gone: once for each control block.\<close>

definition deletions :: "logger_statics \<Rightarrow> nat" where
  "deletions s = length (control_blocks s)"

fun get_instances :: "LogLevel list \<Rightarrow> logger_statics \<Rightarrow> logger_statics" where
  "get_instances [] s = s"
| "get_instances (l # ls) s = get_instances ls (snd (logger_getInstance l s))"

section \<open>Properties\<close>

lemma get_instances_first:
  "logger_instance s = Some l \<Longrightarrow>
    logger_instance (get_instances ls s) = Some l
    \<and> length (control_blocks (get_instances ls s)) = length (control_blocks s) + length ls"
  by (induction ls arbitrary: s) (simp_all add: logger_getInstance_def Let_def)

text \<open>A call of the logger, and what a sequence of them writes to the two streams.\<close>

fun log_call :: "LogLevel \<Rightarrow> LogLevel \<times> string \<Rightarrow> console \<Rightarrow> console" where
  "log_call l (DEBUG, m) c = debug l m c"
| "log_call l (INFO, m) c = info l m c"
| "log_call l (WARN, m) c = warn l m c"
| "log_call l (CERROR, m) c = error_log l m c"
| "log_call l (SETUP, m) c = setup_log m c"

definition prefix_of :: "LogLevel \<Rightarrow> string" where
  "prefix_of l = (case l of DEBUG \<Rightarrow> ''[Debug] '' | INFO \<Rightarrow> ''[Info] '' | WARN \<Rightarrow> ''[Warning] ''
     | CERROR \<Rightarrow> ''[Error] '' | SETUP \<Rightarrow> ''[Setup] '')"

definition shown :: "LogLevel \<Rightarrow> (LogLevel \<Rightarrow> bool) \<Rightarrow> (LogLevel \<times> string) list \<Rightarrow> string list" where
  "shown l stream calls =
     map (\<lambda>(k, m). prefix_of k @ m) (filter (\<lambda>(k, m). l \<le> k \<and> stream k) calls)"

lemma log_call_lines:
  "cout_lines (log_call l (k, m) c)
     = (if l \<le> k \<and> k \<noteq> CERROR then [prefix_of k @ m] else []) @ cout_lines c"
  "cerr_lines (log_call l (k, m) c)
     = (if l \<le> k \<and> k = CERROR then [prefix_of k @ m] else []) @ cerr_lines c"
proof -
  have top: "l \<le> SETUP" by (cases l) (simp_all add: less_eq_LogLevel_def level_num_def)
  show "cout_lines (log_call l (k, m) c)
     = (if l \<le> k \<and> k \<noteq> CERROR then [prefix_of k @ m] else []) @ cout_lines c"
    "cerr_lines (log_call l (k, m) c)
     = (if l \<le> k \<and> k = CERROR then [prefix_of k @ m] else []) @ cerr_lines c"
    by (cases k; simp add: top debug_def info_def warn_def error_log_def setup_log_def put_cout_def
        put_cerr_def prefix_of_def DEBUG_LOG_PREFIX_def INFO_LOG_PREFIX_def WARN_LOG_PREFIX_def
        CERROR_LOG_PREFIX_def SETUP_LOG_PREFIX_def)+
qed

text \<open>After any sequence of calls, \<open>cerr\<close> holds exactly the error messages and \<open>cout\<close> exactly the
  other messages whose level is not below the level of the logger, in order, each with the prefix
  of its level; set-up messages are therefore always shown.\<close>

theorem logger_filters:
  "cout_lines (fold (log_call l) calls \<lparr>cout_lines = [], cerr_lines = []\<rparr>) = rev (shown l (\<lambda>k. k \<noteq> CERROR) calls)
   \<and> cerr_lines (fold (log_call l) calls \<lparr>cout_lines = [], cerr_lines = []\<rparr>) = rev (shown l (\<lambda>k. k = CERROR) calls)
   \<and> l \<le> SETUP"
proof -
  have "cout_lines (fold (log_call l) calls c) = rev (shown l (\<lambda>k. k \<noteq> CERROR) calls) @ cout_lines c
    \<and> cerr_lines (fold (log_call l) calls c) = rev (shown l (\<lambda>k. k = CERROR) calls) @ cerr_lines c" for c
  proof (induction calls arbitrary: c)
    case (Cons x calls)
    obtain k m where x: "x = (k, m)" by (cases x)
    show ?case
      using Cons by (auto simp: x log_call_lines shown_def)
  qed (simp add: shown_def)
  moreover have "l \<le> SETUP" by (cases l) (simp_all add: less_eq_LogLevel_def level_num_def)
  ultimately show ?thesis by simp
qed

text \<open>The first caller decides the level of the singleton, whatever later callers ask for; and
  since every call wraps the raw pointer in a fresh \<open>shared_ptr\<close>, the object has one more
  independent owner than there are calls, each of which deletes it.\<close>

theorem logger_singleton:
  "logger_instance (get_instances (l # ls) no_logger) = Some l
   \<and> deletions (get_instances (l # ls) no_logger) = Suc (Suc (length ls))"
  using get_instances_first [of "snd (logger_getInstance l no_logger)" l ls]
  by (simp add: logger_getInstance_def no_logger_def deletions_def)

end
