(* ===== verification/Udp_Sender.thy ===== *)
theory Udp_Sender
  imports Cpp_Strings
begin

text \<open>
  \<open>Statsd::UDPSender\<close> (src/third_party/UDPSender.hpp): messages are collected in batches that a
  thread sends at intervals. The socket interface is a parameter: the result of \<open>socket\<close>, of the
  two address look-ups, and of \<open>sendto\<close>, which may depend on what was sent before. The datagrams
  that were sent are kept in \<open>wire\<close>. The queue is only touched under its mutex, so the swap of the
  batching thread, each of its sends, and a call of \<open>send\<close> are single steps; their interleavings
  are the runs of the step relation below. (Without a thread the code takes no mutex; then nothing else
  touches the queue. Whether \<open>sendto\<close> succeeds, also on a socket that could not be set up, is the
  environment's answer.)
\<close>

section \<open>State\<close>

record UDPSender =
  m_mustExit :: bool
  m_host :: string
  m_port :: "16 word"
  m_server_port :: "16 word"
  m_server_addr :: "32 word"
  m_socket :: int
  m_batchsize :: nat
  m_sendInterval :: nat
  m_batchingMessageQueue :: "string list"
  m_batchingThread :: bool            \<comment> \<open>joinable\<close>
  stagedMessageQueue :: "string list" \<comment> \<open>local to the thread\<close>
  m_errorMessage :: string
  wire :: "string list"

definition k_invalidSocket :: int where
  "k_invalidSocket = - 1"

record sockets =
  sys_socket :: int
  sys_errno :: int
  sys_inet_pton :: "string \<Rightarrow> 32 word option"
  sys_getaddrinfo :: "string \<Rightarrow> int + 32 word"

type_synonym sendto = "string list \<Rightarrow> string \<Rightarrow> int option"   \<comment> \<open>\<open>errno\<close>, or \<open>None\<close>\<close>

section \<open>Operations\<close>

definition initialized :: "UDPSender \<Rightarrow> bool" where
  "initialized s \<longleftrightarrow> m_socket s \<noteq> k_invalidSocket"

definition initialize :: "sockets \<Rightarrow> UDPSender \<Rightarrow> bool \<times> UDPSender" where
  "initialize net s =
     (let s = s\<lparr>m_socket := sys_socket net\<rparr>
      in if m_socket s = k_invalidSocket then
           (False, s\<lparr>m_errorMessage := ''socket creation failed: errno='' @ string_of_int (sys_errno net)\<rparr>)
         else
           let s = s\<lparr>m_server_addr := 0, m_server_port := m_port s\<rparr>
           in case sys_inet_pton net (c_str (m_host s)) of
                Some addr \<Rightarrow> (True, s\<lparr>m_server_addr := addr\<rparr>)
              | None \<Rightarrow>
                  (case sys_getaddrinfo net (c_str (m_host s)) of
                     Inl ret \<Rightarrow>
                       (False, s\<lparr>m_socket := k_invalidSocket,
                          m_errorMessage := ''getaddrinfo failed: error code='' @ string_of_int ret\<rparr>)
                   | Inr addr \<Rightarrow> (True, s\<lparr>m_server_addr := addr\<rparr>)))"

definition new_UDPSender :: "sockets \<Rightarrow> string \<Rightarrow> 16 word \<Rightarrow> nat \<Rightarrow> nat \<Rightarrow> UDPSender" where
  "new_UDPSender net host port batchsize sendInterval =
     (let s = \<lparr>m_mustExit = False, m_host = host, m_port = port, m_server_port = 0, m_server_addr = 0,
               m_socket = k_invalidSocket, m_batchsize = batchsize, m_sendInterval = sendInterval,
               m_batchingMessageQueue = [], m_batchingThread = False, stagedMessageQueue = [],
               m_errorMessage = [], wire = []\<rparr>
      in if m_host s = [] then s
         else let (ok, s) = initialize net s
              in if \<not> ok then s
                 else if m_batchsize s \<noteq> 0 \<and> m_sendInterval s > 0
                 then s\<lparr>m_batchingThread := True\<rparr> else s)"

definition sendToDaemon :: "sendto \<Rightarrow> string \<Rightarrow> UDPSender \<Rightarrow> UDPSender" where
  "sendToDaemon sendto message s =
     (case sendto (wire s) message of
        None \<Rightarrow> s\<lparr>wire := wire s @ [message]\<rparr>
      | Some errno \<Rightarrow> s\<lparr>m_errorMessage := ''sendto server failed: host='' @ m_host s @ '':''
          @ string_of_nat (unat (m_port s)) @ '', err='' @ string_of_int errno\<rparr>)"

definition append_back :: "string \<Rightarrow> string list \<Rightarrow> string list" where
  "append_back x q = butlast q @ [last q @ x]"

definition queueMessage :: "string \<Rightarrow> UDPSender \<Rightarrow> UDPSender" where
  "queueMessage message s =
     (let q = m_batchingMessageQueue s;
          q = (if q = [] \<or> length (last q) > m_batchsize s then q @ [[]]
               else if last q \<noteq> [] then append_back [CHR 0x0A] q
               else q)
      in s\<lparr>m_batchingMessageQueue := append_back message q\<rparr>)"

definition udp_send :: "sendto \<Rightarrow> string \<Rightarrow> UDPSender \<Rightarrow> UDPSender" where
  "udp_send sendto message s =
     (let s = s\<lparr>m_errorMessage := []\<rparr>
      in if m_batchsize s > 0 then queueMessage message s else sendToDaemon sendto message s)"

fun flush_loop :: "sendto \<Rightarrow> string list \<Rightarrow> UDPSender \<Rightarrow> UDPSender" where
  "flush_loop sendto [] s = s\<lparr>m_batchingMessageQueue := []\<rparr>"
| "flush_loop sendto (b # q) s = flush_loop sendto q (sendToDaemon sendto b s)"

definition flush :: "sendto \<Rightarrow> UDPSender \<Rightarrow> UDPSender" where
  "flush sendto s = flush_loop sendto (m_batchingMessageQueue s) s"

text \<open>The batching thread: the swap at the start of a round, and one turn of the sending loop.\<close>

definition thread_swap :: "UDPSender \<Rightarrow> UDPSender" where
  "thread_swap s = s\<lparr>stagedMessageQueue := m_batchingMessageQueue s, m_batchingMessageQueue := []\<rparr>"

definition thread_send :: "sendto \<Rightarrow> UDPSender \<Rightarrow> UDPSender" where
  "thread_send sendto s =
     (sendToDaemon sendto (hd (stagedMessageQueue s)) s)\<lparr>stagedMessageQueue := tl (stagedMessageQueue s)\<rparr>"

text \<open>The destructor: the thread ends its round (it sends what it has staged) and is joined; what is
  still queued is dropped.\<close>

fun thread_finish :: "sendto \<Rightarrow> string list \<Rightarrow> UDPSender \<Rightarrow> UDPSender" where
  "thread_finish sendto [] s = s\<lparr>stagedMessageQueue := [], m_batchingThread := False\<rparr>"
| "thread_finish sendto (b # q) s = thread_finish sendto q (sendToDaemon sendto b s)"

definition delete_UDPSender :: "sendto \<Rightarrow> UDPSender \<Rightarrow> UDPSender" where
  "delete_UDPSender sendto s =
     (if \<not> initialized s then s
      else let s = (if m_batchingThread s
                    then thread_finish sendto (stagedMessageQueue s) (s\<lparr>m_mustExit := True\<rparr>) else s)
           in s\<lparr>m_socket := k_invalidSocket\<rparr>)"

section \<open>Interleavings of the client and the batching thread\<close>

text \<open>The index is the list of messages that were given to \<open>send\<close>, in order.\<close>

inductive udp_run :: "sendto \<Rightarrow> UDPSender \<Rightarrow> string list \<Rightarrow> UDPSender \<Rightarrow> bool"
  for sendto :: sendto and s0 :: UDPSender where
  udp_start: "udp_run sendto s0 [] s0"
| udp_client: "udp_run sendto s0 ms s \<Longrightarrow> udp_run sendto s0 (ms @ [m]) (udp_send sendto m s)"
| udp_swap: "udp_run sendto s0 ms s \<Longrightarrow> m_batchingThread s \<Longrightarrow> stagedMessageQueue s = [] \<Longrightarrow>
    udp_run sendto s0 ms (thread_swap s)"
| udp_thread: "udp_run sendto s0 ms s \<Longrightarrow> m_batchingThread s \<Longrightarrow> stagedMessageQueue s \<noteq> [] \<Longrightarrow>
    udp_run sendto s0 ms (thread_send sendto s)"

inductive_cases udp_runE: "udp_run sendto s0 ms s"

section \<open>What the daemon receives\<close>

text \<open>The daemon splits a datagram at its newlines.\<close>

definition nl :: char where
  "nl = CHR 0x0A"

fun split_nl :: "string \<Rightarrow> string list" where
  "split_nl [] = [[]]"
| "split_nl (c # s) = (if c = nl then [] # split_nl s else (c # hd (split_nl s)) # tl (split_nl s))"

definition received :: "string list \<Rightarrow> string list" where
  "received batches = concat (map split_nl batches)"

definition pending :: "UDPSender \<Rightarrow> string list" where
  "pending s = wire s @ stagedMessageQueue s @ m_batchingMessageQueue s"

lemma split_nl_nonempty [simp]: "split_nl s \<noteq> []"
  by (cases s) auto

lemma split_nl_plain: "nl \<notin> set m \<Longrightarrow> split_nl m = [m]"
  by (induction m) auto

lemma split_nl_append: "nl \<notin> set m \<Longrightarrow> split_nl (b @ nl # m) = split_nl b @ [m]"
  by (induction b) (auto simp: split_nl_plain)

lemma received_append [simp]: "received (a @ b) = received a @ received b" "received [] = []"
  by (simp_all add: received_def)

lemma received_back:
  assumes "q \<noteq> []" and "nl \<notin> set m"
  shows "received (append_back (nl # m) q) = received q @ [m]"
proof -
  have "q = butlast q @ [last q]" using assms(1) by simp
  then have "received q = received (butlast q) @ split_nl (last q)"
    by (metis received_append(1) received_def concat.simps list.map(1,2) append_Nil2)
  then show ?thesis
    using assms(2) by (simp add: append_back_def) (simp add: received_def split_nl_append)
qed

lemma append_back_twice: "append_back y (append_back x q) = append_back (x @ y) q"
  by (simp add: append_back_def)

lemma append_back_new: "append_back x (q @ [[]]) = q @ [x]"
  by (simp add: append_back_def)

text \<open>The queue after \<open>queueMessage\<close>, case by case.\<close>

lemma queueMessage_queue:
  "m_batchingMessageQueue (queueMessage m s) =
     (let q = m_batchingMessageQueue s
      in if q = [] \<or> length (last q) > m_batchsize s then q @ [m]
         else if last q \<noteq> [] then append_back (nl # m) q else append_back m q)"
  by (simp add: queueMessage_def Let_def append_back_twice append_back_new nl_def)

lemma queueMessage_fields [simp]:
  "wire (queueMessage m s) = wire s" "stagedMessageQueue (queueMessage m s) = stagedMessageQueue s"
  "m_batchsize (queueMessage m s) = m_batchsize s" "m_batchingThread (queueMessage m s) = m_batchingThread s"
  by (simp_all add: queueMessage_def Let_def)

lemma sendToDaemon_fields [simp]:
  "m_batchingMessageQueue (sendToDaemon sendto m s) = m_batchingMessageQueue s"
  "stagedMessageQueue (sendToDaemon sendto m s) = stagedMessageQueue s"
  "m_batchsize (sendToDaemon sendto m s) = m_batchsize s"
  "m_batchingThread (sendToDaemon sendto m s) = m_batchingThread s"
  by (simp_all add: sendToDaemon_def split: option.splits)

lemma sendToDaemon_ok: "sendto (wire s) m = None \<Longrightarrow> sendToDaemon sendto m s = s\<lparr>wire := wire s @ [m]\<rparr>"
  by (simp add: sendToDaemon_def)

lemma thread_fields [simp]:
  "m_batchsize (thread_swap s) = m_batchsize s" "m_batchingThread (thread_swap s) = m_batchingThread s"
  "m_batchsize (thread_send sendto s) = m_batchsize s"
  "m_batchingThread (thread_send sendto s) = m_batchingThread s"
  "m_batchsize (udp_send sendto m s) = m_batchsize s"
  "m_batchingThread (udp_send sendto m s) = m_batchingThread s"
  by (simp_all add: thread_swap_def thread_send_def udp_send_def Let_def)

lemma pending_swap: "stagedMessageQueue s = [] \<Longrightarrow> pending (thread_swap s) = pending s"
  by (simp add: pending_def thread_swap_def)

lemma pending_thread:
  "stagedMessageQueue s \<noteq> [] \<Longrightarrow> (\<And>w m. sendto w m = None) \<Longrightarrow> pending (thread_send sendto s) = pending s"
  by (simp add: pending_def thread_send_def sendToDaemon_ok)

text \<open>The two facts every run from a new sender keeps besides the data: nothing is queued when
  batching is off, and no queued batch is empty when no message is.\<close>

definition sender_inv :: "UDPSender \<Rightarrow> bool" where
  "sender_inv s \<longleftrightarrow> (m_batchsize s = 0 \<longrightarrow> m_batchingMessageQueue s = [] \<and> stagedMessageQueue s = [])
     \<and> [] \<notin> set (m_batchingMessageQueue s)"

lemma sender_inv_run:
  "udp_run sendto s0 ms s \<Longrightarrow> sender_inv s0 \<Longrightarrow> [] \<notin> set ms \<Longrightarrow> sender_inv s"
proof (induction rule: udp_run.induct)
  case (udp_client ms s m)
  then show ?case
    by (auto simp: sender_inv_def udp_send_def queueMessage_queue Let_def append_back_def
        dest: in_set_butlastD)
qed (auto simp: sender_inv_def thread_swap_def thread_send_def)

lemma new_sender_fields:
  "m_batchsize (new_UDPSender net host port bs si) = bs"
  "m_batchingMessageQueue (new_UDPSender net host port bs si) = []"
  "stagedMessageQueue (new_UDPSender net host port bs si) = []"
  "wire (new_UDPSender net host port bs si) = []"
  "m_batchingThread (new_UDPSender net host port bs si) \<Longrightarrow>
     initialized (new_UDPSender net host port bs si) \<and> bs \<noteq> 0 \<and> si \<noteq> 0"
  "\<not> m_batchingThread (new_UDPSender net host port 0 si)"
  by (auto simp: new_UDPSender_def initialize_def initialized_def Let_def split: option.splits sum.splits if_splits)

lemma new_sender_inv: "sender_inv (new_UDPSender net host port bs si)"
  by (simp add: sender_inv_def new_sender_fields)

lemma pending_send:
  assumes "sender_inv s" and "nl \<notin> set m" and "\<And>w x. sendto w x = None"
  shows "received (pending (udp_send sendto m s)) = received (pending s) @ [m]"
proof (cases "m_batchsize s = 0")
  case True
  then show ?thesis
    using assms by (simp add: sender_inv_def pending_def udp_send_def sendToDaemon_ok)
      (simp add: received_def split_nl_plain)
next
  case False
  let ?q = "m_batchingMessageQueue s"
  have "received (m_batchingMessageQueue (queueMessage m s)) = received ?q @ [m]"
  proof (cases "?q = [] \<or> length (last ?q) > m_batchsize s")
    case True
    then show ?thesis
      using assms(2) by (simp add: queueMessage_queue Let_def) (simp add: received_def split_nl_plain)
  next
    case False
    then have "last ?q \<noteq> []" using assms(1) last_in_set [of ?q] unfolding sender_inv_def by metis
    with False show ?thesis
      using received_back [OF _ assms(2), of ?q] by (simp add: queueMessage_queue Let_def)
  qed
  with False show ?thesis
    by (simp add: pending_def udp_send_def) (simp add: queueMessage_def Let_def)
qed

lemma run_received:
  assumes "udp_run sendto s0 ms s" and "sender_inv s0" and "received (pending s0) = []"
    and "\<forall>w x. sendto w x = None" and "\<forall>m \<in> set ms. m \<noteq> [] \<and> nl \<notin> set m"
  shows "received (pending s) = ms"
  using assms(1,5)
proof (induction rule: udp_run.induct)
  case (udp_client ms s m)
  then have "sender_inv s"
    using sender_inv_run [OF udp_client.hyps assms(2)] by force
  then show ?case using udp_client assms(4) by (simp add: pending_send)
qed (simp_all add: assms(3,4) pending_swap pending_thread)

lemma wire_unbatched:
  assumes "udp_run sendto s0 ms s" and "m_batchsize s0 = 0" and "\<forall>w x. sendto w x = None"
    and "wire s0 = []" and "\<not> m_batchingThread s0"
  shows "wire s = ms"
proof -
  have "m_batchsize s = 0 \<and> \<not> m_batchingThread s \<and> wire s = ms"
    using assms(1)
    by (induction rule: udp_run.induct) (auto simp: assms udp_send_def sendToDaemon_ok Let_def)
  then show ?thesis by simp
qed

lemma batch_length_send:
  assumes "\<forall>b \<in> set (pending s). length b \<le> m_batchsize s + 1 + n" and "length m \<le> n"
  shows "\<forall>b \<in> set (pending (udp_send sendto m s)). length b \<le> m_batchsize s + 1 + n"
proof -
  let ?q = "m_batchingMessageQueue s"
  let ?t = "s\<lparr>m_errorMessage := []\<rparr>"
  have q: "\<forall>b \<in> set (m_batchingMessageQueue (queueMessage m ?t)). length b \<le> m_batchsize s + 1 + n"
    using assms
    by (auto simp: queueMessage_queue Let_def append_back_def pending_def dest: in_set_butlastD)
  have w: "\<forall>b \<in> set (wire (sendToDaemon sendto m ?t)). length b \<le> m_batchsize s + 1 + n"
    using assms by (auto simp: sendToDaemon_def pending_def split: option.splits)
  show ?thesis
    using assms(1) q w by (auto simp: pending_def udp_send_def Let_def)
qed

text \<open>A sender on a host where look-ups succeed, for the examples.\<close>

definition demo_net :: sockets where
  "demo_net = \<lparr>sys_socket = 3, sys_errno = 0, sys_inet_pton = (\<lambda>h. Some 0x7F000001), sys_getaddrinfo = (\<lambda>h. Inl 1)\<rparr>"

section \<open>Properties\<close>

text \<open>C17: No metric is lost, duplicated or reordered, however the batching thread is interleaved with
  the callers: as long as \<open>sendto\<close> succeeds, the messages in the datagrams sent so far, followed by
  those staged and those queued, are exactly the messages given to \<open>send\<close>, in their order.\<close>

theorem udp_delivers_in_order:
  assumes "udp_run sendto (new_UDPSender net host port batchsize interval) ms s"
    and "\<forall>w x. sendto w x = None" and "\<forall>m \<in> set ms. m \<noteq> [] \<and> nl \<notin> set m"
  shows "received (wire s @ stagedMessageQueue s @ m_batchingMessageQueue s) = ms"
  using run_received [OF assms(1) new_sender_inv _ assms(2,3)]
  by (simp add: pending_def new_sender_fields)

theorem udp_delivers_in_order_witness:
  "received (m_batchingMessageQueue (udp_send (\<lambda>w x. None) ''b:1|c'' (udp_send (\<lambda>w x. None) ''a:1|c''
     (new_UDPSender demo_net ''127.0.0.1'' 8125 100 1000)))) = [''a:1|c'', ''b:1|c'']"
proof -
  let ?s0 = "new_UDPSender demo_net ''127.0.0.1'' 8125 100 1000"
  let ?f = "\<lambda>w x. None :: int option"
  have r: "udp_run ?f ?s0 ([''a:1|c''] @ [''b:1|c'']) (udp_send ?f ''b:1|c'' (udp_send ?f ''a:1|c'' ?s0))"
    using udp_client [OF udp_client [OF udp_start [of ?f ?s0], of "''a:1|c''"], of "''b:1|c''"] by simp
  show ?thesis
    using udp_delivers_in_order [OF r]
    by (simp add: nl_def) (simp add: udp_send_def queueMessage_def Let_def new_sender_fields)
qed

text \<open>A batch is closed once it is longer than the batch size, so no datagram exceeds the batch
  size by more than one message and its separator.\<close>

theorem udp_datagram_bound:
  assumes "udp_run sendto (new_UDPSender net host port batchsize interval) ms s"
    and "\<forall>m \<in> set ms. length m \<le> n" and "b \<in> set (wire s)"
  shows "length b \<le> batchsize + 1 + n"
proof -
  have "m_batchsize s = batchsize \<and> (\<forall>b \<in> set (pending s). length b \<le> batchsize + 1 + n)"
    using assms(1,2)
  proof (induction rule: udp_run.induct)
    case udp_start
    then show ?case by (simp add: pending_def new_sender_fields)
  next
    case (udp_client ms s m)
    then show ?case using batch_length_send [of s n m sendto] by simp
  next
    case (udp_swap ms s)
    then show ?case by (simp add: pending_swap)
  next
    case (udp_thread ms s)
    then have "set (pending (thread_send sendto s)) \<subseteq> set (pending s)"
      by (cases "stagedMessageQueue s")
        (auto simp: pending_def thread_send_def sendToDaemon_def split: option.splits)
    then show ?case using udp_thread by auto
  qed
  then show ?thesis using assms(3) by (simp add: pending_def)
qed

theorem udp_datagram_bound_witness:
  "\<forall>b \<in> set (wire (udp_send (\<lambda>w x. None) ''a:1|c'' (new_UDPSender demo_net ''127.0.0.1'' 8125 0 0))).
     length b \<le> 0 + 1 + 5"
proof
  fix b
  let ?s0 = "new_UDPSender demo_net ''127.0.0.1'' 8125 0 0"
  let ?f = "\<lambda>w x. None :: int option"
  assume b: "b \<in> set (wire (udp_send ?f ''a:1|c'' ?s0))"
  have r: "udp_run ?f ?s0 [''a:1|c''] (udp_send ?f ''a:1|c'' ?s0)"
    using udp_client [OF udp_start [of ?f ?s0], of "''a:1|c''"] by simp
  show "length b \<le> 0 + 1 + 5"
    by (rule udp_datagram_bound [OF r _ b]) simp
qed

text \<open>One round of the batching thread: the swap and one send for each batch.\<close>

definition thread_round :: "sendto \<Rightarrow> UDPSender \<Rightarrow> UDPSender" where
  "thread_round sendto s = (thread_send sendto ^^ length (m_batchingMessageQueue s)) (thread_swap s)"

lemma thread_send_staged: "stagedMessageQueue (thread_send sendto s) = tl (stagedMessageQueue s)"
  by (simp add: thread_send_def)

lemma thread_sends:
  assumes "\<And>w x. sendto w x = None" and "stagedMessageQueue s = q"
  shows "wire ((thread_send sendto ^^ length q) s) = wire s @ q
    \<and> stagedMessageQueue ((thread_send sendto ^^ length q) s) = []
    \<and> m_batchingMessageQueue ((thread_send sendto ^^ length q) s) = m_batchingMessageQueue s"
  using assms(2)
proof (induction q arbitrary: s)
  case (Cons b q)
  have "stagedMessageQueue (thread_send sendto s) = q" "wire (thread_send sendto s) = wire s @ [b]"
    "m_batchingMessageQueue (thread_send sendto s) = m_batchingMessageQueue s"
    using Cons.prems by (simp_all add: thread_send_def sendToDaemon_ok assms(1))
  then show ?case using Cons.IH [of "thread_send sendto s"] by (simp add: funpow_swap1)
qed simp

text \<open>C18: One undisturbed round of the batching thread sends everything that was queued, and the state
  it leaves is one the interleaved runs reach.\<close>

theorem thread_round_drains:
  assumes "udp_run sendto s0 ms s" and "m_batchingThread s" and "stagedMessageQueue s = []"
    and "\<forall>w x. sendto w x = None"
  shows "udp_run sendto s0 ms (thread_round sendto s)
    \<and> wire (thread_round sendto s) = wire s @ m_batchingMessageQueue s
    \<and> m_batchingMessageQueue (thread_round sendto s) = [] \<and> stagedMessageQueue (thread_round sendto s) = []"
proof -
  have sw: "stagedMessageQueue (thread_swap s) = m_batchingMessageQueue s" "wire (thread_swap s) = wire s"
    "m_batchingMessageQueue (thread_swap s) = []"
    by (simp_all add: thread_swap_def)
  have "udp_run sendto s0 ms ((thread_send sendto ^^ n) (thread_swap s))
      \<and> m_batchingThread ((thread_send sendto ^^ n) (thread_swap s))
      \<and> stagedMessageQueue ((thread_send sendto ^^ n) (thread_swap s)) = drop n (m_batchingMessageQueue s)"
    if "n \<le> length (m_batchingMessageQueue s)" for n
    using that
  proof (induction n)
    case 0
    then show ?case using udp_swap [OF assms(1-3)] assms(2) sw by simp
  next
    case (Suc n)
    then show ?case
      using udp_thread [of sendto s0 ms "(thread_send sendto ^^ n) (thread_swap s)"]
      by (simp add: thread_send_staged tl_drop drop_Suc)
  qed
  then show ?thesis
    using thread_sends [OF _ sw(1), of sendto] assms(4) sw by (simp add: thread_round_def)
qed

theorem thread_round_drains_witness:
  "wire (thread_round (\<lambda>w x. None) (udp_send (\<lambda>w x. None) ''a:1|c''
     (new_UDPSender demo_net ''127.0.0.1'' 8125 100 1000))) = [''a:1|c'']"
proof -
  let ?s0 = "new_UDPSender demo_net ''127.0.0.1'' 8125 100 1000"
  let ?f = "\<lambda>w x. None :: int option"
  have r: "udp_run ?f ?s0 [''a:1|c''] (udp_send ?f ''a:1|c'' ?s0)"
    using udp_client [OF udp_start [of ?f ?s0], of "''a:1|c''"] by simp
  have t: "m_batchingThread ?s0"
    by (simp add: new_UDPSender_def initialize_def demo_net_def k_invalidSocket_def Let_def)
  have q: "m_batchingMessageQueue (udp_send ?f ''a:1|c'' ?s0) = [''a:1|c'']"
    "stagedMessageQueue (udp_send ?f ''a:1|c'' ?s0) = []" "wire (udp_send ?f ''a:1|c'' ?s0) = []"
    by (simp_all add: udp_send_def queueMessage_def append_back_def Let_def new_sender_fields)
  show ?thesis
    using thread_round_drains [OF r] t q by simp
qed

text \<open>A sender whose address could not be resolved, or whose interval is 0, has no batching thread
  and yet queues every message when batching is on: nothing is ever sent, and the queue holds the
  text of all messages of the run.\<close>

theorem udp_without_thread_hoards:
  assumes "udp_run sendto (new_UDPSender net host port batchsize interval) ms s"
    and "\<not> initialized (new_UDPSender net host port batchsize interval) \<or> interval = 0"
    and "0 < batchsize"
  shows "wire s = [] \<and> sum_list (map length ms) \<le> sum_list (map length (m_batchingMessageQueue s))"
proof -
  have no: "\<not> m_batchingThread (new_UDPSender net host port batchsize interval)"
    using new_sender_fields(5) assms(2) by blast
  have len: "sum_list (map length (append_back x q)) = sum_list (map length q) + length x" if "q \<noteq> []" for x q
  proof -
    have "sum_list (map length q) = sum_list (map length (butlast q @ [last q]))" using that by simp
    then show ?thesis by (simp only: append_back_def map_append sum_list_append) simp
  qed
  have "m_batchsize s = batchsize \<and> \<not> m_batchingThread s \<and> wire s = []
      \<and> sum_list (map length ms) \<le> sum_list (map length (m_batchingMessageQueue s))"
    using assms(1)
  proof (induction rule: udp_run.induct)
    case udp_start
    then show ?case using no by (simp add: new_sender_fields)
  next
    case (udp_client ms s m)
    then show ?case
      using assms(3) len [of "m_batchingMessageQueue s"]
      by (auto simp: udp_send_def Let_def queueMessage_queue)
  qed auto
  then show ?thesis by simp
qed

theorem udp_without_thread_hoards_witness:
  "5 \<le> sum_list (map length (m_batchingMessageQueue (udp_send (\<lambda>w x. None) ''a:1|c''
     (new_UDPSender (demo_net\<lparr>sys_inet_pton := \<lambda>h. None\<rparr>) ''nowhere'' 8125 100 1000))))"
proof -
  let ?s0 = "new_UDPSender (demo_net\<lparr>sys_inet_pton := \<lambda>h. None\<rparr>) ''nowhere'' 8125 100 1000"
  let ?f = "\<lambda>w x. None :: int option"
  have r: "udp_run ?f ?s0 [''a:1|c''] (udp_send ?f ''a:1|c'' ?s0)"
    using udp_client [OF udp_start [of ?f ?s0], of "''a:1|c''"] by simp
  have i: "\<not> initialized ?s0"
    by (simp add: new_UDPSender_def initialize_def initialized_def demo_net_def k_invalidSocket_def Let_def)
  show ?thesis using udp_without_thread_hoards [OF r] i by simp
qed

end
