(* ===== verification/Statsd_Client.thy ===== *)
theory Statsd_Client
  imports App_Config Udp_Sender
begin

text \<open>
  \<open>StatsDClient\<close> and \<open>DummyStatsDClient\<close> (src/metrics): the constructor that reads
  \<open>host:port\<close>, the five metrics as StatsD lines, and the client that drops them. The text of a
  \<open>double\<close> is a parameter of \<open>gauge\<close>. A client of the interface \<open>IStatsDClient\<close> is a value of
  \<open>statsd_client\<close>, so a virtual call is a case distinction.
\<close>

section \<open>StatsDClient\<close>

text \<open>\<open>udp_sender_\<close> of the code.\<close>

record StatsDClient =
  udp_sender :: "UDPSender option"

definition what :: "std_exn \<Rightarrow> string" where
  "what e = (case e of invalid_argument s \<Rightarrow> s | out_of_range s \<Rightarrow> s | runtime_error s \<Rightarrow> s)"

text \<open>\<open>static_cast<uint16_t>\<close> is \<open>word_of_int\<close>; an \<open>int\<close> batch size becomes a \<open>uint64_t\<close>.\<close>

definition new_StatsDClient :: "sockets \<Rightarrow> AppConfig \<Rightarrow> string \<Rightarrow> StatsDClient exc" where
  "new_StatsDClient net config statsd_address =
     (case find_char (CHR '':'') statsd_address of
        None \<Rightarrow> Inl (runtime_error ''STATSD_SERVER must be in the format <host>:<port>'')
      | Some colon_pos \<Rightarrow>
          let host = substr_to statsd_address colon_pos;
              host = (if host = ''localhost'' then ''127.0.0.1'' else host)
          in case stoi (substr_from statsd_address (colon_pos + 1)) of
               Inl e \<Rightarrow> Inl (runtime_error (''Invalid port in STATSD_SERVER: '' @ what e))
             | Inr (p, _) \<Rightarrow>
                 Inr \<lparr>udp_sender = Some (new_UDPSender net host (word_of_int p)
                       (size_of_int (metrics_batch_size config))
                       (size_of_int (metrics_send_interval_in_millis config)))\<rparr>)"

text \<open>\<open>UDPSender::send\<close> throws nothing.\<close>

definition statsd_send :: "sendto \<Rightarrow> string \<Rightarrow> StatsDClient \<Rightarrow> StatsDClient" where
  "statsd_send sendto message c =
     (case udp_sender c of
        None \<Rightarrow> c
      | Some u \<Rightarrow> c\<lparr>udp_sender := Some (udp_send sendto message u)\<rparr>)"

definition increment :: "sendto \<Rightarrow> string \<Rightarrow> int \<Rightarrow> StatsDClient \<Rightarrow> StatsDClient" where
  "increment sendto key v c = statsd_send sendto (key @ '':'' @ string_of_int v @ ''|c'') c"

definition decrement :: "sendto \<Rightarrow> string \<Rightarrow> int \<Rightarrow> StatsDClient \<Rightarrow> StatsDClient" where
  "decrement sendto key v c = increment sendto key (wrap32 (- v)) c"

definition gauge :: "('d \<Rightarrow> string) \<Rightarrow> sendto \<Rightarrow> string \<Rightarrow> 'd \<Rightarrow> StatsDClient \<Rightarrow> StatsDClient" where
  "gauge show_double sendto key v c = statsd_send sendto (key @ '':'' @ show_double v @ ''|g'') c"

definition timing :: "sendto \<Rightarrow> string \<Rightarrow> int \<Rightarrow> StatsDClient \<Rightarrow> StatsDClient" where
  "timing sendto key v c = statsd_send sendto (key @ '':'' @ string_of_int v @ ''|ms'') c"

definition statsd_set :: "sendto \<Rightarrow> string \<Rightarrow> string \<Rightarrow> StatsDClient \<Rightarrow> StatsDClient" where
  "statsd_set sendto key v c = statsd_send sendto (key @ '':'' @ v @ ''|s'') c"

section \<open>The two implementations of IStatsDClient\<close>

datatype statsd_client = Statsd StatsDClient | Dummy

fun client_increment :: "sendto \<Rightarrow> string \<Rightarrow> int \<Rightarrow> statsd_client \<Rightarrow> statsd_client" where
  "client_increment sendto key v (Statsd c) = Statsd (increment sendto key v c)"
| "client_increment sendto key v Dummy = Dummy"

fun client_decrement :: "sendto \<Rightarrow> string \<Rightarrow> int \<Rightarrow> statsd_client \<Rightarrow> statsd_client" where
  "client_decrement sendto key v (Statsd c) = Statsd (decrement sendto key v c)"
| "client_decrement sendto key v Dummy = Dummy"

fun client_gauge :: "('d \<Rightarrow> string) \<Rightarrow> sendto \<Rightarrow> string \<Rightarrow> 'd \<Rightarrow> statsd_client \<Rightarrow> statsd_client" where
  "client_gauge show_double sendto key v (Statsd c) = Statsd (gauge show_double sendto key v c)"
| "client_gauge show_double sendto key v Dummy = Dummy"

fun client_timing :: "sendto \<Rightarrow> string \<Rightarrow> int \<Rightarrow> statsd_client \<Rightarrow> statsd_client" where
  "client_timing sendto key v (Statsd c) = Statsd (timing sendto key v c)"
| "client_timing sendto key v Dummy = Dummy"

fun client_set :: "sendto \<Rightarrow> string \<Rightarrow> string \<Rightarrow> statsd_client \<Rightarrow> statsd_client" where
  "client_set sendto key v (Statsd c) = Statsd (statsd_set sendto key v c)"
| "client_set sendto key v Dummy = Dummy"

section \<open>The singleton\<close>

text \<open>
  \<open>std::call_once\<close> marks the flag only when the constructor returns, so a failed construction is
  tried again by the next call. As in the logger, every call makes one more independent owner of
  the raw pointer.
\<close>

record statsd_statics =
  statsd_instance :: "StatsDClient option"
  statsd_owners :: nat

definition statsd_getInstance ::
    "sockets \<Rightarrow> AppConfig \<Rightarrow> string \<Rightarrow> statsd_statics \<Rightarrow> StatsDClient exc \<times> statsd_statics" where
  "statsd_getInstance net config endpoint st =
     (case statsd_instance st of
        Some c \<Rightarrow> (Inr c, st\<lparr>statsd_owners := Suc (statsd_owners st)\<rparr>)
      | None \<Rightarrow>
          (case new_StatsDClient net config endpoint of
             Inl e \<Rightarrow> (Inl e, st)
           | Inr c \<Rightarrow> (Inr c, st\<lparr>statsd_instance := Some c, statsd_owners := 2\<rparr>)))"

section \<open>Properties\<close>

text \<open>The constructor accepts every address \<open>host:port\<close> with a decimal port of 16 bits and hands
  host (with \<open>localhost\<close> as \<open>127.0.0.1\<close>), port and the configured batching to the sender; without
  a colon, or with text that is not a number after the first one, it throws.\<close>

theorem new_StatsDClient_spec:
  assumes "CHR '':'' \<notin> set host" and "p < 2 ^ 16" and "CHR '':'' \<notin> set bad"
    and "\<forall>c \<in> set junk. \<not> c_isdigit c"
  shows "new_StatsDClient net cfg (host @ '':'' @ string_of_nat p) =
      Inr \<lparr>udp_sender = Some (new_UDPSender net (if host = ''localhost'' then ''127.0.0.1'' else host)
        (of_nat p) (size_of_int (metrics_batch_size cfg)) (size_of_int (metrics_send_interval_in_millis cfg)))\<rparr>
    \<and> new_StatsDClient net cfg bad = Inl (runtime_error ''STATSD_SERVER must be in the format <host>:<port>'')
    \<and> new_StatsDClient net cfg (host @ '':'' @ junk) = Inl (runtime_error ''Invalid port in STATSD_SERVER: stoi'')"
proof -
  have f: "find_char (CHR '':'') (host @ CHR '':'' # r) = Some (length host)" for r
    by (rule find_char_split [OF assms(1)])
  have n: "find_char (CHR '':'') bad = None" using assms(3) by (simp add: find_char_None_iff)
  have s: "stoi (string_of_nat p) = Inr (int p, length (string_of_nat p))"
    using assms(2) by (intro stoi_string_of_nat) (simp add: int_max_def)
  have j: "stoi junk = Inl (invalid_argument ''stoi'')"
  proof -
    have "set (dropWhile c_isspace junk) \<subseteq> set junk" by (auto dest: set_dropWhileD)
    then have "set (snd (split_sign (dropWhile c_isspace junk))) \<subseteq> set junk"
      by (auto simp: split_sign_def split: list.splits if_splits)
    then have "takeWhile c_isdigit (snd (split_sign (dropWhile c_isspace junk))) = []"
      using assms(4) by (cases "snd (split_sign (dropWhile c_isspace junk))") auto
    then show ?thesis by (auto simp: stoi_def Let_def split: prod.split)
  qed
  show ?thesis
    by (simp add: new_StatsDClient_def f n s j substr_to_def substr_from_def what_def Let_def)
qed

theorem new_StatsDClient_spec_witness:
  "new_StatsDClient demo_net default_config ''localhost'' =
     Inl (runtime_error ''STATSD_SERVER must be in the format <host>:<port>'')
   \<and> new_StatsDClient demo_net default_config ''localhost:udp'' =
     Inl (runtime_error ''Invalid port in STATSD_SERVER: stoi'')"
  using new_StatsDClient_spec [of "''localhost''" 8125 "''localhost''" "''udp''" demo_net default_config]
  by (simp add: cstr_simps)

text \<open>The port is converted to 16 bits without a range check: a number beyond 65535 is accepted
  and stands for another port.\<close>

theorem statsd_port_wraps:
  assumes "CHR '':'' \<notin> set host" and "host \<noteq> []" and "p < 2 ^ 16"
  shows "new_StatsDClient net cfg (host @ '':'' @ string_of_nat (2 ^ 16 + p))
    = new_StatsDClient net cfg (host @ '':'' @ string_of_nat p)"
proof -
  have f: "find_char (CHR '':'') (host @ CHR '':'' # r) = Some (length host)" for r
    by (rule find_char_split [OF assms(1)])
  have s: "stoi (string_of_nat n) = Inr (int n, length (string_of_nat n))" if "n < 2 ^ 17" for n
    using that by (intro stoi_string_of_nat) (simp add: int_max_def)
  have z: "(65536 :: 16 word) = 0" by simp
  show ?thesis
    using s [of p] s [of "2 ^ 16 + p"] assms(3)
    by (simp add: z new_StatsDClient_def f substr_to_def substr_from_def Let_def)
qed

theorem statsd_port_wraps_witness:
  "new_StatsDClient demo_net default_config (''h:'' @ string_of_nat 73661)
     = new_StatsDClient demo_net default_config (''h:'' @ string_of_nat 8125)"
  using statsd_port_wraps [of "''h''" 8125 demo_net default_config] by simp

section \<open>Metrics on the wire\<close>

datatype metric_call =
    Increment string int
  | Decrement string int
  | Timing string int

fun metric_line :: "metric_call \<Rightarrow> string" where
  "metric_line (Increment k v) = k @ '':'' @ string_of_int v @ ''|c''"
| "metric_line (Decrement k v) = k @ '':'' @ string_of_int (- v) @ ''|c''"
| "metric_line (Timing k v) = k @ '':'' @ string_of_int v @ ''|ms''"

fun metric_key :: "metric_call \<Rightarrow> string" where
  "metric_key (Increment k v) = k" | "metric_key (Decrement k v) = k" | "metric_key (Timing k v) = k"

fun metric_value :: "metric_call \<Rightarrow> int" where
  "metric_value (Increment k v) = v" | "metric_value (Decrement k v) = v" | "metric_value (Timing k v) = v"

fun metric_step :: "sendto \<Rightarrow> metric_call \<Rightarrow> StatsDClient \<Rightarrow> StatsDClient" where
  "metric_step sendto (Increment k v) c = increment sendto k v c"
| "metric_step sendto (Decrement k v) c = decrement sendto k v c"
| "metric_step sendto (Timing k v) c = timing sendto k v c"

definition metric_ok :: "metric_call \<Rightarrow> bool" where
  "metric_ok x \<longleftrightarrow> nl \<notin> set (metric_key x) \<and> int_min < metric_value x \<and> metric_value x \<le> int_max"

lemma nl_not_digit: "\<not> c_isdigit nl"
  by (simp add: nl_def cstr_simps)

lemma nl_string_of_int: "nl \<notin> set (string_of_int i)"
  using nl_not_digit string_of_nat_digits [of nl] by (auto simp: string_of_int_def nl_def)

lemma metric_line_ok: "metric_ok x \<Longrightarrow> metric_line x \<noteq> [] \<and> nl \<notin> set (metric_line x)"
  by (cases x) (simp_all add: metric_ok_def nl_string_of_int, simp_all add: nl_def)

lemma metric_step_sends:
  "metric_ok x \<Longrightarrow> metric_step sendto x \<lparr>udp_sender = Some u\<rparr>
     = \<lparr>udp_sender = Some (udp_send sendto (metric_line x) u)\<rparr>"
  by (cases x) (auto simp: increment_def decrement_def timing_def statsd_send_def metric_ok_def
      wrap32_def int_min_def int_max_def)

lemma metric_steps_run:
  assumes "\<forall>x \<in> set calls. metric_ok x"
  shows "\<exists>u'. fold (metric_step sendto) calls \<lparr>udp_sender = Some u\<rparr> = \<lparr>udp_sender = Some u'\<rparr>
    \<and> udp_run sendto u (map metric_line calls) u'"
  using assms
proof (induction calls rule: rev_induct)
  case Nil
  then show ?case by (auto intro: udp_start)
next
  case (snoc x calls)
  then obtain u' where "fold (metric_step sendto) calls \<lparr>udp_sender = Some u\<rparr> = \<lparr>udp_sender = Some u'\<rparr>"
    "udp_run sendto u (map metric_line calls) u'" by auto
  then show ?case
    using snoc.prems udp_client [of sendto u "map metric_line calls" u' "metric_line x"]
    by (simp add: metric_step_sends)
qed

text \<open>A client with batching off sends one StatsD line for every metric, in order: the key, the
  value (negated by \<open>decrement\<close>) and the type. With batching on the same lines wait in the queue.\<close>

theorem metrics_reach_sender:
  assumes "new_StatsDClient net cfg addr = Inr c" and "\<forall>x \<in> set calls. metric_ok x"
    and "\<forall>w y. sendto w y = None"
  shows "\<exists>u. udp_sender (fold (metric_step sendto) calls c) = Some u
    \<and> received (wire u @ stagedMessageQueue u @ m_batchingMessageQueue u) = map metric_line calls
    \<and> (metrics_batch_size cfg = 0 \<longrightarrow> wire u = map metric_line calls)"
proof -
  from assms(1) obtain h p where c: "c = \<lparr>udp_sender = Some (new_UDPSender net h p
      (size_of_int (metrics_batch_size cfg)) (size_of_int (metrics_send_interval_in_millis cfg)))\<rparr>"
    by (auto simp: new_StatsDClient_def Let_def split: option.splits sum.splits)
  let ?u0 = "new_UDPSender net h p (size_of_int (metrics_batch_size cfg))
    (size_of_int (metrics_send_interval_in_millis cfg))"
  obtain u where u: "fold (metric_step sendto) calls c = \<lparr>udp_sender = Some u\<rparr>"
    and r: "udp_run sendto ?u0 (map metric_line calls) u"
    using metric_steps_run [OF assms(2), of sendto ?u0] c by auto
  have ok: "\<forall>m \<in> set (map metric_line calls). m \<noteq> [] \<and> nl \<notin> set m"
    using assms(2) metric_line_ok by auto
  have "received (pending u) = map metric_line calls"
    by (rule run_received [OF r new_sender_inv _ assms(3) ok]) (simp add: pending_def new_sender_fields)
  moreover have "wire u = map metric_line calls" if "metrics_batch_size cfg = 0"
    by (rule wire_unbatched [OF r _ assms(3)]) (simp_all add: that new_sender_fields size_of_int_def)
  ultimately show ?thesis using u by (simp add: pending_def)
qed

theorem metrics_reach_sender_witness:
  "\<exists>c u. new_StatsDClient demo_net (default_config\<lparr>metrics_batch_size := 0\<rparr>) ''localhost:8125'' = Inr c
    \<and> udp_sender (fold (metric_step (\<lambda>w y. None)) [Increment ''metric.1'' 1] c) = Some u
    \<and> wire u = [''metric.1:1|c'']"
proof -
  have a: "string_of_nat 8125 = ''8125''" and b: "string_of_int 1 = ''1''"
    by (simp_all add: string_of_int_def string_of_nat.simps cstr_simps)
  let ?cfg = "default_config\<lparr>metrics_batch_size := 0\<rparr>"
  obtain c where c: "new_StatsDClient demo_net ?cfg ''localhost:8125'' = Inr c"
    using stoi_string_of_nat [of 8125, unfolded a]
    by (simp add: new_StatsDClient_def substr_from_def int_max_def Let_def)
  show ?thesis
    using metrics_reach_sender [OF c, of "[Increment ''metric.1'' 1]" "\<lambda>w y. None"] c b
    by (auto simp: metric_ok_def nl_def int_min_def int_max_def)
qed

end
