(* ===== verification/Http_Types.thy ===== *)
theory Http_Types
  imports Cpp_Strings
begin

text \<open>
  What the program uses of the HTTP messages and error codes of Boost.Beast and Boost.Asio, as data:
  a request and a response with the members the program reads and writes, and the error codes it
  compares. \<open>prepared\<close> tells that \<open>prepare_payload\<close> was called after the last change of the body, so
  that the length in the header is the body's.
\<close>

datatype verb = GET | HEAD | POST | PUT | DELETE | OtherVerb

record request =
  req_method :: verb
  req_target :: string
  req_version :: nat
  req_keep_alive :: bool

record response =
  res_version :: nat
  res_result :: nat
  res_keep_alive :: bool
  res_server :: bool
  res_content_type :: "string option"
  res_body :: string
  prepared :: bool

text \<open>A default constructed message: HTTP/1.1 (which keeps the connection alive), status 200.\<close>

definition empty_response :: response where
  "empty_response = \<lparr>res_version = 11, res_result = 200, res_keep_alive = True, res_server = False,
     res_content_type = None, res_body = [], prepared = False\<rparr>"

definition empty_request :: request where
  "empty_request = \<lparr>req_method = OtherVerb, req_target = [], req_version = 11, req_keep_alive = True\<rparr>"

definition set_body :: "string \<Rightarrow> response \<Rightarrow> response" where
  "set_body b r = r\<lparr>res_body := b, prepared := False\<rparr>"

definition prepare_payload :: "response \<Rightarrow> response" where
  "prepare_payload r = r\<lparr>prepared := True\<rparr>"

text \<open>\<open>no_error\<close> is the code that converts to false.\<close>

datatype error_code =
    no_error
  | end_of_stream
  | operation_aborted
  | connection_refused
  | timed_out
  | not_connected
  | ec_invalid_argument
  | operation_not_supported
  | other_error nat

lemma body_simps [simp]:
  "res_body (set_body b r) = b" "res_result (set_body b r) = res_result r"
  "res_version (set_body b r) = res_version r" "res_keep_alive (set_body b r) = res_keep_alive r"
  "res_content_type (set_body b r) = res_content_type r" "res_server (set_body b r) = res_server r"
  "res_body (prepare_payload r) = res_body r" "res_result (prepare_payload r) = res_result r"
  "res_version (prepare_payload r) = res_version r" "res_keep_alive (prepare_payload r) = res_keep_alive r"
  "res_content_type (prepare_payload r) = res_content_type r" "res_server (prepare_payload r) = res_server r"
  "prepared (prepare_payload r)"
  by (simp_all add: set_body_def prepare_payload_def)

end
