(* ===== verification/Company_Info.thy ===== *)
theory Company_Info
  imports Http_Types Utc_Time Statsd_Client
begin

text \<open>
  \<open>CompanyInfo\<close> (src/models/CompanyInfo.hpp) and the translation of a backend's answer into the
  answer of the service: \<open>parseBackendResponse\<close>, \<open>constructV1Json\<close> and \<open>constructV2Json\<close>
  (src/core/Backendify.cpp). The JSON library is a parameter, the record \<open>json_lib\<close>, with one
  field for each function the code calls; an error is the exception the function throws. The
  answer is an object whose members are strings and truth values, which the library keeps sorted
  by name.
\<close>

section \<open>CompanyInfo\<close>

record CompanyInfo =
  ci_id :: string
  ci_name :: string
  ci_version :: int
  parse_success :: bool
  created_on :: "string option"
  closed_on :: "string option"
  tin :: "string option"
  dissolved_on :: "string option"

definition new_CompanyInfo :: CompanyInfo where
  "new_CompanyInfo = \<lparr>ci_id = [], ci_name = [], ci_version = - 1, parse_success = False,
     created_on = None, closed_on = None, tin = None, dissolved_on = None\<rparr>"

definition opt_line :: "string \<Rightarrow> string option \<Rightarrow> string" where
  "opt_line label v = (case v of None \<Rightarrow> [] | Some s \<Rightarrow> label @ s @ endl)"

definition company_to_string :: "CompanyInfo \<Rightarrow> string" where
  "company_to_string i =
     ''CompanyInfo {'' @ endl
     @ ''  Id: '' @ ci_id i @ endl
     @ ''  Name: '' @ ci_name i @ endl
     @ ''  Version: '' @ string_of_int (ci_version i) @ endl
     @ ''  Parse Success: '' @ string_of_bool (parse_success i) @ endl
     @ opt_line ''  Created On: '' (created_on i)
     @ opt_line ''  Closed On: '' (closed_on i)
     @ opt_line ''  TIN: '' (tin i)
     @ opt_line ''  Dissolved On: '' (dissolved_on i)
     @ ''}''"

section \<open>The JSON library\<close>

datatype json_exn = parse_error string | type_error string | other_exn string

datatype scalar = JString string | JBool bool

record 'j json_lib =
  json_parse :: "string \<Rightarrow> json_exn + 'j"
  json_value :: "'j \<Rightarrow> string \<Rightarrow> string \<Rightarrow> json_exn + string"    \<comment> \<open>\<open>value(key, default)\<close>\<close>
  json_contains :: "'j \<Rightarrow> string \<Rightarrow> bool"
  json_at :: "'j \<Rightarrow> string \<Rightarrow> 'j"                              \<comment> \<open>\<open>operator[]\<close> on a member that exists\<close>
  json_is_string :: "'j \<Rightarrow> bool"
  json_get_string :: "'j \<Rightarrow> string"                          \<comment> \<open>\<open>get<std::string>\<close> on a string\<close>
  json_dump4 :: "(string, scalar) smap option \<Rightarrow> json_exn + string"  \<comment> \<open>\<open>dump(4)\<close>; \<open>None\<close> is \<open>null\<close>\<close>

section \<open>parseBackendResponse\<close>

text \<open>
  The body of the \<open>try\<close> block after parsing: the members are assigned one after the other, so an
  exception leaves what was assigned before it. The result is the object and the exception, if any.
\<close>

definition optional_member :: "'j json_lib \<Rightarrow> 'j \<Rightarrow> string \<Rightarrow> string option \<Rightarrow> string option" where
  "optional_member J j key old =
     (if json_contains J j key \<and> json_is_string J (json_at J j key)
      then Some (json_get_string J (json_at J j key)) else old)"

definition fill_v1 :: "'j json_lib \<Rightarrow> 'j \<Rightarrow> CompanyInfo \<Rightarrow> CompanyInfo \<times> json_exn option" where
  "fill_v1 J bodyJson info =
     (let info = info\<lparr>ci_version := 1, parse_success := True\<rparr>
      in case json_value J bodyJson ''cn'' [] of
           Inl e \<Rightarrow> (info, Some e)
         | Inr n \<Rightarrow>
             let info = info\<lparr>ci_name := n\<rparr>
             in case json_value J bodyJson ''created_on'' [] of
                  Inl e \<Rightarrow> (info, Some e)
                | Inr c \<Rightarrow>
                    let info = info\<lparr>created_on := Some c\<rparr>
                    in (info\<lparr>closed_on := optional_member J bodyJson ''closed_on'' (closed_on info)\<rparr>, None))"

definition fill_v2 :: "'j json_lib \<Rightarrow> 'j \<Rightarrow> CompanyInfo \<Rightarrow> CompanyInfo \<times> json_exn option" where
  "fill_v2 J bodyJson info =
     (let info = info\<lparr>ci_version := 2, parse_success := True\<rparr>
      in case json_value J bodyJson ''company_name'' [] of
           Inl e \<Rightarrow> (info, Some e)
         | Inr n \<Rightarrow>
             let info = info\<lparr>ci_name := n\<rparr>
             in case json_value J bodyJson ''tin'' [] of
                  Inl e \<Rightarrow> (info, Some e)
                | Inr t \<Rightarrow>
                    let info = info\<lparr>tin := Some t\<rparr>
                    in (info\<lparr>dissolved_on := optional_member J bodyJson ''dissolved_on'' (dissolved_on info)\<rparr>, None))"

definition content_type_of :: "response \<Rightarrow> string" where
  "content_type_of r = (case res_content_type r of None \<Rightarrow> [] | Some s \<Rightarrow> s)"

definition read_company :: "'j json_lib \<Rightarrow> response \<Rightarrow> CompanyInfo \<Rightarrow> CompanyInfo \<times> json_exn option" where
  "read_company J r info =
     (if res_body r = [] then (info, None)
      else case json_parse J (res_body r) of
             Inl e \<Rightarrow> (info, Some e)
           | Inr bodyJson \<Rightarrow>
               if content_type_of r = ''application/x-company-v1'' then fill_v1 J bodyJson info
               else if content_type_of r = ''application/x-company-v2'' then fill_v2 J bodyJson info
               else (info, None))"

text \<open>With the three handlers, which count the failure.\<close>

definition parseBackendResponse ::
    "'j json_lib \<Rightarrow> sendto \<Rightarrow> response \<Rightarrow> CompanyInfo \<Rightarrow> statsd_client \<Rightarrow> CompanyInfo \<times> statsd_client" where
  "parseBackendResponse J sendto r info statsd =
     (case read_company J r info of
        (info, None) \<Rightarrow> (info, statsd)
      | (info, Some (parse_error _)) \<Rightarrow> (info, client_increment sendto JSON_ERROR 1 statsd)
      | (info, Some (type_error _)) \<Rightarrow> (info, client_increment sendto JSON_ERROR 1 statsd)
      | (info, Some (other_exn _)) \<Rightarrow> (info, client_increment sendto CODE_EXCEPTION 1 statsd))"

section \<open>constructV1Json and constructV2Json\<close>

text \<open>
  A call of \<open>isUTCTimeInFuture\<close> comes with its clock reading and the initial value of its local
  variable; \<open>created\<close> and \<open>closed\<close> are those of the two calls.
\<close>

type_synonym reading = "char \<times> int"

definition in_future :: "reading \<Rightarrow> string \<Rightarrow> bool exc" where
  "in_future rd s = isUTCTimeInFuture (fst rd) (snd rd) s"

definition base_json :: "CompanyInfo \<Rightarrow> (string, scalar) smap" where
  "base_json i = smap_put ''active'' (JBool True)
     (smap_put ''name'' (JString (ci_name i)) (smap_put ''id'' (JString (ci_id i)) []))"

text \<open>The last part, common to both versions.\<close>

definition add_until :: "reading \<Rightarrow> string option \<Rightarrow> (string, scalar) smap \<Rightarrow> (string, scalar) smap exc" where
  "add_until rd until j =
     (case until of
        None \<Rightarrow> Inr j
      | Some s \<Rightarrow>
          if s = [] then Inr j
          else case in_future rd s of
                 Inl e \<Rightarrow> Inl e
               | Inr True \<Rightarrow> Inr (smap_put ''active_until'' (JString s) j)
               | Inr False \<Rightarrow> Inr (smap_put ''active_until'' (JString s) (smap_put ''active'' (JBool False) j)))"

definition constructV1Json :: "reading \<Rightarrow> reading \<Rightarrow> CompanyInfo \<Rightarrow> (string, scalar) smap exc" where
  "constructV1Json created closed i =
     (let j = base_json i;
          future = (case created_on i of
             None \<Rightarrow> Inr False
           | Some s \<Rightarrow> if s = [] then Inr False else in_future created s)
      in case future of
           Inl e \<Rightarrow> Inl e
         | Inr b \<Rightarrow> add_until closed (closed_on i) (if b then smap_put ''active'' (JBool False) j else j))"

definition constructV2Json :: "reading \<Rightarrow> CompanyInfo \<Rightarrow> (string, scalar) smap exc" where
  "constructV2Json dissolved i = add_until dissolved (dissolved_on i) (base_json i)"

section \<open>Lemmas\<close>

lemma add_until_ok:
  assumes "add_until rd until j = Inr j'" and "smap_ok j"
  shows "smap_ok j'"
    and "map_of j' k = (if k = ''active_until'' \<and> until \<noteq> None \<and> until \<noteq> Some [] then Some (JString (the until))
      else if k = ''active'' \<and> (\<exists>s. until = Some s \<and> s \<noteq> [] \<and> in_future rd s = Inr False) then Some (JBool False)
      else map_of j k)"
  using assms by (auto simp: add_until_def split: option.splits if_splits sum.splits bool.splits)

lemma base_json_ok: "smap_ok (base_json i)"
  unfolding base_json_def by (intro smap_ok_put smap_ok_empty)

lemma base_json_members:
  "map_of (base_json i) = [''id'' \<mapsto> JString (ci_id i), ''name'' \<mapsto> JString (ci_name i), ''active'' \<mapsto> JBool True]"
  by (auto simp: base_json_def fun_eq_iff)

definition future_date :: "reading \<Rightarrow> string option \<Rightarrow> bool" where
  "future_date rd d \<longleftrightarrow> (\<exists>s. d = Some s \<and> s \<noteq> [] \<and> in_future rd s = Inr True)"

definition past_date :: "reading \<Rightarrow> string option \<Rightarrow> bool" where
  "past_date rd d \<longleftrightarrow> (\<exists>s. d = Some s \<and> s \<noteq> [] \<and> in_future rd s = Inr False)"

lemma constructV1_base:
  assumes "constructV1Json created closed i = Inr j"
  shows "add_until closed (closed_on i)
    (if future_date created (created_on i) then smap_put ''active'' (JBool False) (base_json i) else base_json i) = Inr j"
  using assms by (auto simp: constructV1Json_def future_date_def Let_def split: option.splits if_splits sum.splits)

section \<open>Properties\<close>

text \<open>C16: The object built from a version 1 answer has the company's id and name; it is active unless
  the company is created in the future or its closing date has passed; a closing date, past or
  future, is shown as \<open>active_until\<close>, and there is no such member without one. The members are
  sorted by name and there are no others.\<close>

theorem constructV1Json_spec:
  assumes "constructV1Json created closed i = Inr j"
  shows "smap_ok j \<and> map_of j = (\<lambda>k.
      if k = ''id'' then Some (JString (ci_id i))
      else if k = ''name'' then Some (JString (ci_name i))
      else if k = ''active'' then
        Some (JBool (\<not> future_date created (created_on i) \<and> \<not> past_date closed (closed_on i)))
      else if k = ''active_until'' \<and> closed_on i \<noteq> None \<and> closed_on i \<noteq> Some [] then
        Some (JString (the (closed_on i)))
      else None)"
proof -
  let ?j = "if future_date created (created_on i) then smap_put ''active'' (JBool False) (base_json i) else base_json i"
  have b: "add_until closed (closed_on i) ?j = Inr j" by (rule constructV1_base [OF assms])
  have "smap_ok ?j" by (simp add: base_json_ok)
  note a = add_until_ok [OF b this]
  show ?thesis
    by (auto simp: a(1) fun_eq_iff a(2) base_json_members past_date_def)
qed

text \<open>The same for version 2 with the date of dissolution.\<close>

theorem constructV2Json_spec:
  assumes "constructV2Json dissolved i = Inr j"
  shows "smap_ok j \<and> map_of j = (\<lambda>k.
      if k = ''id'' then Some (JString (ci_id i))
      else if k = ''name'' then Some (JString (ci_name i))
      else if k = ''active'' then Some (JBool (\<not> past_date dissolved (dissolved_on i)))
      else if k = ''active_until'' \<and> dissolved_on i \<noteq> None \<and> dissolved_on i \<noteq> Some [] then
        Some (JString (the (dissolved_on i)))
      else None)"
proof -
  note a = add_until_ok [OF assms [unfolded constructV2Json_def] base_json_ok]
  show ?thesis
    by (auto simp: a(1) fun_eq_iff a(2) base_json_members past_date_def)
qed

text \<open>A stand-in for the JSON library on two texts, for the examples: \<open>{}\<close> is the object with no
  members, \<open>cn\<close> the one whose members \<open>cn\<close> and \<open>company_name\<close> are not strings.\<close>

definition demo_json :: "bool json_lib" where
  "demo_json = \<lparr>json_parse = (\<lambda>s. if s = ''{}'' then Inr False else if s = ''cn'' then Inr True
       else Inl (parse_error ''syntax'')),
     json_value = (\<lambda>j k d. if j then Inl (type_error ''not a string'') else Inr d),
     json_contains = (\<lambda>j k. False), json_at = (\<lambda>j k. j), json_is_string = (\<lambda>j. False),
     json_get_string = (\<lambda>j. []), json_dump4 = (\<lambda>j. Inr ''{}'')\<rparr>"

theorem constructV1Json_spec_witness:
  "\<exists>j. constructV1Json (CHR ''x'', 0) (CHR ''x'', 0) (new_CompanyInfo\<lparr>ci_id := ''7''\<rparr>) = Inr j
    \<and> map_of j ''id'' = Some (JString ''7'') \<and> map_of j ''active'' = Some (JBool True)"
proof -
  let ?i = "new_CompanyInfo\<lparr>ci_id := ''7''\<rparr>"
  have c: "constructV1Json (CHR ''x'', 0) (CHR ''x'', 0) ?i = Inr (base_json ?i)"
    by (simp add: constructV1Json_def new_CompanyInfo_def add_until_def)
  show ?thesis
    using constructV1Json_spec [OF c] c
    by (simp add: new_CompanyInfo_def future_date_def past_date_def)
qed

theorem constructV2Json_spec_witness:
  "\<exists>j. constructV2Json (CHR ''x'', 0) (new_CompanyInfo\<lparr>ci_id := ''7''\<rparr>) = Inr j
    \<and> map_of j ''id'' = Some (JString ''7'') \<and> map_of j ''active'' = Some (JBool True)"
proof -
  let ?i = "new_CompanyInfo\<lparr>ci_id := ''7''\<rparr>"
  have c: "constructV2Json (CHR ''x'', 0) ?i = Inr (base_json ?i)"
    by (simp add: constructV2Json_def new_CompanyInfo_def add_until_def)
  show ?thesis
    using constructV2Json_spec [OF c] c
    by (simp add: new_CompanyInfo_def past_date_def)
qed

text \<open>\<open>parseBackendResponse\<close> reports success exactly for a non-empty body that is JSON and comes
  with one of the two content types, whose version it stores; it never changes the id.\<close>

theorem parse_success_iff:
  assumes "parse_success info = False"
  shows "(parse_success (fst (parseBackendResponse J sendto r info statsd)) \<longleftrightarrow>
      res_body r \<noteq> [] \<and> (\<exists>j. json_parse J (res_body r) = Inr j)
      \<and> (res_content_type r = Some ''application/x-company-v1''
         \<or> res_content_type r = Some ''application/x-company-v2''))
    \<and> (parse_success (fst (parseBackendResponse J sendto r info statsd)) \<longrightarrow>
        ci_version (fst (parseBackendResponse J sendto r info statsd))
          = (if res_content_type r = Some ''application/x-company-v1'' then 1 else 2))
    \<and> ci_id (fst (parseBackendResponse J sendto r info statsd)) = ci_id info"
proof -
  have c: "fst (parseBackendResponse J sendto r info statsd) = fst (read_company J r info)"
    by (auto simp: parseBackendResponse_def split: prod.splits option.splits json_exn.splits)
  have f1: "parse_success (fst (fill_v1 J j info))" "ci_version (fst (fill_v1 J j info)) = 1"
      "ci_id (fst (fill_v1 J j info)) = ci_id info"
      and f2: "parse_success (fst (fill_v2 J j info))" "ci_version (fst (fill_v2 J j info)) = 2"
      "ci_id (fst (fill_v2 J j info)) = ci_id info" for j
    by (simp_all add: fill_v1_def fill_v2_def Let_def split: sum.splits)
  show ?thesis
    unfolding c read_company_def
    using assms f1 f2 by (auto simp: content_type_of_def split: sum.splits option.splits)
qed

theorem parse_success_iff_witness:
  "parse_success (fst (parseBackendResponse demo_json (\<lambda>w x. None)
     (empty_response\<lparr>res_body := ''{}'', res_content_type := Some ''application/x-company-v1''\<rparr>)
     new_CompanyInfo Dummy))"
  using parse_success_iff [of new_CompanyInfo demo_json "\<lambda>w x. None"
    "empty_response\<lparr>res_body := ''{}'', res_content_type := Some ''application/x-company-v1''\<rparr>" Dummy]
  by (auto simp: new_CompanyInfo_def demo_json_def empty_response_def)

text \<open>An answer whose company name has the wrong JSON type is counted as a JSON error and yet
  reported as a success, with the name empty and every date missing.\<close>

theorem type_error_is_success:
  assumes "res_body r \<noteq> []" and "json_parse J (res_body r) = Inr j"
    and "res_content_type r = Some ''application/x-company-v1''"
    and "json_value J j ''cn'' [] = Inl (type_error msg)"
  shows "parseBackendResponse J sendto r (new_CompanyInfo\<lparr>ci_id := i\<rparr>) statsd =
    (new_CompanyInfo\<lparr>ci_id := i, ci_version := 1, parse_success := True\<rparr>,
     client_increment sendto JSON_ERROR 1 statsd)"
  using assms by (simp add: parseBackendResponse_def read_company_def content_type_of_def fill_v1_def Let_def)

theorem type_error_is_success_witness:
  "parse_success (fst (parseBackendResponse demo_json (\<lambda>w x. None)
     (empty_response\<lparr>res_body := ''cn'', res_content_type := Some ''application/x-company-v1''\<rparr>)
     (new_CompanyInfo\<lparr>ci_id := ''7''\<rparr>) Dummy))"
  using type_error_is_success [of "empty_response\<lparr>res_body := ''cn'', res_content_type := Some ''application/x-company-v1''\<rparr>"
    demo_json True "''not a string''" "\<lambda>w x. None" "''7''" Dummy]
  by (simp add: demo_json_def empty_response_def)

text \<open>For a well-formed date of dissolution between the years 1678 and 2261 an answer is always
  built, and it calls the company active exactly when that date lies in the future.\<close>

theorem wellformed_date_decides:
  assumes "fields_ok y mo d h mi s" and "fraction f" and "1678 \<le> y" and "y \<le> 2261"
    and "timegm (tm_of y mo d h mi s) \<noteq> - 1"
    and "dissolved_on i = Some (print_utc y mo d h mi s @ f @ ''Z'')"
  shows "\<exists>j. constructV2Json (suffix0, now) i = Inr j
    \<and> map_of j ''active'' = Some (JBool (now < timegm (tm_of y mo d h mi s) * 1000000000))
    \<and> map_of j ''active_until'' = Some (JString (print_utc y mo d h mi s @ f @ ''Z''))"
proof -
  have "in_future (suffix0, now) (print_utc y mo d h mi s @ f @ ''Z'')
      = Inr (now < timegm (tm_of y mo d h mi s) * 1000000000)"
    using isUTCTimeInFuture_print [OF assms(1,2), of suffix0 now] from_time_t_exact [OF assms(1,3,4)] assms(5)
    by (simp add: in_future_def Let_def)
  then show ?thesis
    using assms(6) base_json_members [of i]
    by (auto simp: constructV2Json_def add_until_def split: bool.splits)
qed

theorem wellformed_date_decides_witness:
  "\<exists>j. constructV2Json (CHR ''x'', 0) (new_CompanyInfo\<lparr>dissolved_on := Some ''2025-12-25T12:00:00Z''\<rparr>) = Inr j
    \<and> map_of j ''active'' = Some (JBool True)"
proof -
  have p: "print_utc 2025 12 25 12 0 0 @ [] @ ''Z'' = ''2025-12-25T12:00:00Z''"
    by (simp add: print_utc_def four_def two_def digit_def cstr_simps)
  have f: "fields_ok 2025 12 25 12 0 0" "fraction []" by (simp_all add: fields_ok_def fraction_def)
  have t: "timegm (tm_of 2025 12 25 12 0 0) = 1766664000"
    by (simp add: timegm_tm_of days_before_year_def eval_nat_numeral month_length_def leap_year_def)
  show ?thesis
    using wellformed_date_decides [OF f, of "new_CompanyInfo\<lparr>dissolved_on := Some ''2025-12-25T12:00:00Z''\<rparr>"
      "CHR ''x''" 0] p t
    by auto
qed

text \<open>A date that does not begin with a date and time makes the construction throw.\<close>

theorem malformed_date_throws:
  assumes "dissolved_on i = Some s" and "s \<noteq> []" and "failbit (snd (get_time (istringstream s) tm_zero))"
  shows "constructV2Json rd i = Inl (runtime_error (''Failed to parse date/time part: '' @ quoted s))"
proof -
  obtain t ss where g: "get_time (istringstream s) tm_zero = (t, ss)" by fastforce
  then have "in_future rd s = Inl (runtime_error (''Failed to parse date/time part: '' @ quoted s))"
    using assms(3) by (simp add: in_future_def isUTCTimeInFuture_def)
  then show ?thesis using assms(1,2) by (simp add: constructV2Json_def add_until_def)
qed

theorem malformed_date_throws_witness:
  "constructV2Json (CHR ''x'', 0) (new_CompanyInfo\<lparr>dissolved_on := Some ''soon''\<rparr>)
     = Inl (runtime_error (''Failed to parse date/time part: '' @ quoted ''soon''))"
proof -
  have "failbit (snd (get_time (istringstream ''soon'') tm_zero))"
    by (simp add: get_time_def istringstream_def sentry_def good_def time_get.simps TIME_FORMAT_def time_conv_def
        extract_year_def extract_num_def cstr_simps Let_def)
  then show ?thesis
    using malformed_date_throws [of "new_CompanyInfo\<lparr>dissolved_on := Some ''soon''\<rparr>" "''soon''"] by simp
qed

end
