(* ===== verification/Client_Session.thy ===== *)
theory Client_Session
  imports Http_Types App_Config
begin

text \<open>
  \<open>AsyncHttpClientSession\<close> (src/core/AsyncHttpClientSession.hpp): one request to a backend as a chain
  of asynchronous operations, resolve, connect, write, read, with a timer beside it. The networking
  library is the environment: it completes the pending operation once, with any result, and the
  wait on the timer once, with success when the time is up and with \<open>operation_aborted\<close> when the
  wait is cancelled (a wait whose time was up before it was cancelled may still report success,
  so the model allows both). The calls of the completion function are recorded in \<open>completions\<close>, the last
  one first.
\<close>

section \<open>State and handlers\<close>

datatype async_op = Resolve | Connect | Write | Read

record client_session =
  cs_host :: string
  cs_port :: string
  cs_request :: request
  cs_timeout :: int                  \<comment> \<open>milliseconds\<close>
  cs_pending :: "async_op option"
  timer_waiting :: bool
  timer_cancelled :: bool
  socket_open :: bool
  socket_shut :: bool
  completions :: "(response \<times> error_code) list"

text \<open>The request of the constructor (its header fields are constants and not modelled).\<close>

definition new_client_session :: "BackendUrlInfo \<Rightarrow> string \<Rightarrow> int \<Rightarrow> client_session" where
  "new_client_session info target_path timeout =
     \<lparr>cs_host = backend_host info, cs_port = string_of_int (backend_port info),
      cs_request = \<lparr>req_method = GET, req_target = target_path, req_version = 11, req_keep_alive = True\<rparr>,
      cs_timeout = timeout, cs_pending = None, timer_waiting = False,
      timer_cancelled = False, socket_open = True, socket_shut = False, completions = []\<rparr>"

definition complete :: "response \<Rightarrow> error_code \<Rightarrow> client_session \<Rightarrow> client_session" where
  "complete res ec s = s\<lparr>completions := (res, ec) # completions s\<rparr>"

definition do_resolve :: "client_session \<Rightarrow> client_session" where
  "do_resolve s = s\<lparr>cs_pending := Some Resolve\<rparr>"

definition client_start :: "client_session \<Rightarrow> client_session" where
  "client_start s = do_resolve (s\<lparr>timer_waiting := True\<rparr>)"

definition client_cancel :: "client_session \<Rightarrow> client_session" where
  "client_cancel s = s\<lparr>timer_cancelled := True, socket_open := False\<rparr>"

definition on_timeout :: "error_code \<Rightarrow> client_session \<Rightarrow> client_session" where
  "on_timeout ec s =
     (if ec \<noteq> no_error \<and> ec \<noteq> operation_aborted
      then complete empty_response timed_out (s\<lparr>socket_open := False\<rparr>) else s)"

definition on_resolve :: "error_code \<Rightarrow> client_session \<Rightarrow> client_session" where
  "on_resolve ec s =
     (if ec \<noteq> no_error then complete empty_response ec s else s\<lparr>cs_pending := Some Connect\<rparr>)"

definition on_connect :: "error_code \<Rightarrow> client_session \<Rightarrow> client_session" where
  "on_connect ec s =
     (if ec \<noteq> no_error then complete empty_response ec s else s\<lparr>cs_pending := Some Write\<rparr>)"

definition client_on_write :: "error_code \<Rightarrow> client_session \<Rightarrow> client_session" where
  "client_on_write ec s =
     (if ec \<noteq> no_error then complete empty_response ec s else s\<lparr>cs_pending := Some Read\<rparr>)"

definition client_on_read :: "error_code \<Rightarrow> response \<Rightarrow> client_session \<Rightarrow> client_session" where
  "client_on_read ec res s =
     complete res (if ec = end_of_stream then no_error else ec)
       (s\<lparr>timer_cancelled := True, socket_shut := True\<rparr>)"

text \<open>The end of the pending operation: it is no longer pending when its handler runs.\<close>

definition on_op :: "async_op \<Rightarrow> error_code \<Rightarrow> response \<Rightarrow> client_session \<Rightarrow> client_session" where
  "on_op op ec res s =
     (let s = s\<lparr>cs_pending := None\<rparr>
      in case op of
           Resolve \<Rightarrow> on_resolve ec s
         | Connect \<Rightarrow> on_connect ec s
         | Write \<Rightarrow> client_on_write ec s
         | Read \<Rightarrow> client_on_read ec res s)"

section \<open>Runs\<close>

inductive client_run :: "client_session \<Rightarrow> client_session \<Rightarrow> bool" for s0 :: client_session where
  client_started: "client_run s0 (client_start s0)"
| client_op: "client_run s0 s \<Longrightarrow> cs_pending s = Some op \<Longrightarrow> client_run s0 (on_op op ec res s)"
| client_timer: "client_run s0 s \<Longrightarrow> timer_waiting s \<Longrightarrow> ec \<in> {no_error, operation_aborted} \<Longrightarrow>
    client_run s0 (on_timeout ec (s\<lparr>timer_waiting := False\<rparr>))"
| client_cancelled: "client_run s0 s \<Longrightarrow> client_run s0 (client_cancel s)"

inductive_cases client_runE: "client_run s0 s"

lemmas handler_defs = on_resolve_def on_connect_def client_on_write_def client_on_read_def complete_def Let_def

lemma on_op_completions:
  "completions s = [] \<Longrightarrow>
    (cs_pending (on_op op ec res s) = None \<longleftrightarrow> length (completions (on_op op ec res s)) = 1)
    \<and> length (completions (on_op op ec res s)) \<le> 1"
  by (cases op) (simp_all add: on_op_def handler_defs)

lemma client_run_completions:
  "client_run s0 s \<Longrightarrow> completions s0 = [] \<Longrightarrow>
    length (completions s) \<le> 1 \<and> (cs_pending s = None \<longleftrightarrow> length (completions s) = 1)"
proof (induction rule: client_run.induct)
  case client_started
  then show ?case by (simp add: client_start_def do_resolve_def)
next
  case (client_op s op ec res)
  then have "completions s = []" by (cases "completions s") auto
  then show ?case using on_op_completions [of s op ec res] by simp
next
  case (client_timer s ec)
  then show ?case by (auto simp: on_timeout_def)
next
  case (client_cancelled s)
  then show ?case by (simp add: client_cancel_def)
qed

section \<open>Properties\<close>

text \<open>C12: However the operations and the timer complete, and whether or not the call is cancelled, the
  completion function is called at most once, and it has been called exactly when no operation is
  pending any more: no request is answered twice, and none is left without an answer once the
  network operations have ended.\<close>

theorem client_completes_once:
  assumes "client_run (new_client_session info target t) s"
  shows "length (completions s) \<le> 1 \<and> (cs_pending s = None \<longleftrightarrow> length (completions s) = 1)"
  by (rule client_run_completions [OF assms]) (simp add: new_client_session_def)

theorem client_completes_once_witness:
  "length (completions (on_op Resolve connection_refused empty_response
     (client_start (new_client_session \<lparr>url = [], backend_host = ''h'', backend_port = 80, is_https = False\<rparr> ''/'' 275)))) = 1"
proof -
  let ?s = "new_client_session \<lparr>url = [], backend_host = ''h'', backend_port = 80, is_https = False\<rparr> ''/'' 275"
  have r: "client_run ?s (on_op Resolve connection_refused empty_response (client_start ?s))"
    by (rule client_op [OF client_started]) (simp add: client_start_def do_resolve_def)
  show ?thesis
    using client_completes_once [OF r] by (simp add: on_op_def handler_defs)
qed

text \<open>The steps a session still has before it: four operations at most.\<close>

definition ops_left :: "client_session \<Rightarrow> nat" where
  "ops_left s = (case cs_pending s of None \<Rightarrow> 0 | Some Resolve \<Rightarrow> 4 | Some Connect \<Rightarrow> 3
     | Some Write \<Rightarrow> 2 | Some Read \<Rightarrow> 1)"

text \<open>Every completed operation brings the session closer to its end: after at most four of them
  the completion function has been called, with the response and the result of the last operation
  (the end of the stream after a response counts as success).\<close>

theorem client_progress:
  assumes "cs_pending s = Some op" and "completions s = []"
  shows "ops_left (on_op op ec res s) < ops_left s \<and> ops_left s \<le> 4
    \<and> (ops_left (on_op op ec res s) = 0 \<longrightarrow>
        completions (on_op op ec res s) =
          [(if op = Read then res else empty_response,
            if op = Read \<and> ec = end_of_stream then no_error else ec)])"
  using assms by (cases op) (auto simp: ops_left_def on_op_def handler_defs)

theorem client_progress_witness:
  "completions (on_op Read end_of_stream (set_body ''x'' empty_response)
     ((new_client_session \<lparr>url = [], backend_host = ''h'', backend_port = 80, is_https = False\<rparr> ''/'' 275)
        \<lparr>cs_pending := Some Read\<rparr>)) = [(set_body ''x'' empty_response, no_error)]"
  using client_progress [of "(new_client_session \<lparr>url = [], backend_host = ''h'', backend_port = 80,
      is_https = False\<rparr> ''/'' 275)\<lparr>cs_pending := Some Read\<rparr>" Read end_of_stream "set_body ''x'' empty_response"]
  by (simp add: new_client_session_def ops_left_def on_op_def handler_defs)

text \<open>The time-out has no effect: when the time is up the library calls the handler with success,
  which the handler takes for a cancelled wait. A backend that accepts the connection and stays
  silent keeps the session, its socket and the client's request waiting.\<close>

theorem client_timeout_ineffective:
  assumes "client_run (new_client_session info target t) s" and "cs_pending s = Some Read" and "timer_waiting s"
  shows "client_run (new_client_session info target t) (on_timeout no_error (s\<lparr>timer_waiting := False\<rparr>))
    \<and> cs_pending (on_timeout no_error (s\<lparr>timer_waiting := False\<rparr>)) = Some Read
    \<and> completions (on_timeout no_error (s\<lparr>timer_waiting := False\<rparr>)) = []
    \<and> socket_open (on_timeout no_error (s\<lparr>timer_waiting := False\<rparr>)) = socket_open s"
proof -
  have "length (completions s) \<le> 1 \<and> (cs_pending s = None \<longleftrightarrow> length (completions s) = 1)"
    by (rule client_run_completions [OF assms(1)]) (simp add: new_client_session_def)
  then have "completions s = []" using assms(2) by (cases "completions s") auto
  then show ?thesis
    using client_timer [OF assms(1,3), of no_error] assms(2) by (simp add: on_timeout_def)
qed

theorem client_timeout_ineffective_witness:
  "completions (on_timeout no_error ((on_op Write no_error empty_response (on_op Connect no_error empty_response
     (on_op Resolve no_error empty_response (client_start
       (new_client_session \<lparr>url = [], backend_host = ''h'', backend_port = 80, is_https = False\<rparr> ''/'' 275)))))
     \<lparr>timer_waiting := False\<rparr>)) = []"
proof -
  let ?s0 = "new_client_session \<lparr>url = [], backend_host = ''h'', backend_port = 80, is_https = False\<rparr> ''/'' 275"
  let ?s1 = "on_op Resolve no_error empty_response (client_start ?s0)"
  let ?s2 = "on_op Connect no_error empty_response ?s1"
  let ?s3 = "on_op Write no_error empty_response ?s2"
  note eval = client_start_def do_resolve_def on_op_def handler_defs new_client_session_def
  have "client_run ?s0 ?s1" by (rule client_op [OF client_started]) (simp add: eval)
  then have "client_run ?s0 ?s2" by (rule client_op) (simp add: eval)
  then have "client_run ?s0 ?s3" by (rule client_op) (simp add: eval)
  from client_timeout_ineffective [OF this] show ?thesis by (simp add: eval)
qed

end
