(* ===== verification/Backendify_Service.thy ===== *)
theory Backendify_Service
  imports Company_Info Client_Session Circuit_Breaker InMemory_Cache Redis_Cache Url_Utils
begin

text \<open>
  \<open>Backendify\<close> (src/core/Backendify.hpp and .cpp): the handler of \<open>/company\<close> with all its branches,
  the completion of the call to a backend, and \<open>/status\<close>. A handler returns what it hands to the
  callback of the session (\<open>None\<close> drops the request) or the backend call it starts, together with
  the new state. The readings of the clocks it takes are given in order by \<open>clk\<close> (nanoseconds).
  Virtual calls of the cache are case distinctions; hiredis, the socket and the JSON library are
  parameters, collected in \<open>world\<close>. Log lines are left out, and so is the \<open>catch\<close> clause of the
  \<open>/company\<close> handler: nothing that its \<open>try\<close> block calls throws, apart from running out of memory.
\<close>

section \<open>Query parameters\<close>

record query_state =
  params :: "(string, string) smap"
  current_param :: string
  param_key :: string
  param_value :: string
  parsing_key :: bool

definition query_step :: "char \<Rightarrow> query_state \<Rightarrow> query_state" where
  "query_step c q =
     (if c = CHR ''='' then
        q\<lparr>param_key := urlDecode (current_param q), current_param := [], parsing_key := False\<rparr>
      else if c = CHR ''&'' then
        let v = urlDecode (current_param q)
        in q\<lparr>params := (if param_key q \<noteq> [] then smap_put (param_key q) v (params q) else params q),
             current_param := [], param_key := [], param_value := [], parsing_key := True\<rparr>
      else q\<lparr>current_param := current_param q @ [c]\<rparr>)"

definition query_end :: "query_state \<Rightarrow> (string, string) smap" where
  "query_end q =
     (if current_param q = [] then params q
      else let d = urlDecode (current_param q);
               k = (if parsing_key q then d else param_key q);
               v = (if parsing_key q then param_value q else d)
           in if k \<noteq> [] then smap_put k v (params q) else params q)"

definition parse_query :: "string \<Rightarrow> (string, string) smap" where
  "parse_query s = query_end (fold query_step s
     \<lparr>params = [], current_param = [], param_key = [], param_value = [], parsing_key = True\<rparr>)"

definition query_params :: "string \<Rightarrow> string" where
  "query_params target =
     (case find_char (CHR ''?'') target of None \<Rightarrow> [] | Some p \<Rightarrow> substr_from target (p + 1))"

definition param :: "string \<Rightarrow> (string, string) smap \<Rightarrow> string" where
  "param k m = (case map_of m k of Some v \<Rightarrow> v | None \<Rightarrow> [])"

section \<open>State\<close>

datatype 'c cache = Mem InMemoryCache | Redis "'c RedisCache"

record ('c, 'j) world =
  redisCommand :: "'c command"
  udp_sendto :: sendto
  json :: "'j json_lib"

record 'c Backendify =
  cache :: "'c cache"
  statsd :: statsd_client
  circuit_breaker :: CircuitBreaker
  active_client_sessions :: "nat list"
  next_session :: nat

text \<open>The constructor; the flags tell which pointers are non-null.\<close>

definition new_Backendify :: "bool \<Rightarrow> bool \<Rightarrow> bool \<Rightarrow> 'c cache \<Rightarrow> statsd_client \<Rightarrow> 'c Backendify exc" where
  "new_Backendify has_cache has_statsd has_logger c st =
     (if \<not> has_cache then Inl (invalid_argument ''Cache pointer cannot be null'')
      else if \<not> has_statsd then Inl (invalid_argument ''StatsDClient pointer cannot be null'')
      else if \<not> has_logger then Inl (invalid_argument ''Logger pointer cannot be null'')
      else case new_breaker has_logger has_statsd of
             Inl e \<Rightarrow> Inl e
           | Inr b \<Rightarrow> Inr \<lparr>cache = c, statsd = st, circuit_breaker = b, active_client_sessions = [], next_session = 0\<rparr>)"

fun cache_get :: "'c command \<Rightarrow> int \<Rightarrow> int \<Rightarrow> string \<Rightarrow> 'c cache \<Rightarrow> string option \<times> 'c cache" where
  "cache_get cmd t1 t2 k (Mem c) = (case mem_get t1 t2 k c of (r, c') \<Rightarrow> (r, Mem c'))"
| "cache_get cmd t1 t2 k (Redis c) = (case redis_get cmd k c of (r, c') \<Rightarrow> (r, Redis c'))"

fun cache_set :: "'c command \<Rightarrow> int \<Rightarrow> string \<Rightarrow> string \<Rightarrow> int \<Rightarrow> 'c cache \<Rightarrow> bool \<times> 'c cache" where
  "cache_set cmd t k v ttl (Mem c) = (case mem_set t k v ttl c of (r, c') \<Rightarrow> (r, Mem c'))"
| "cache_set cmd t k v ttl (Redis c) = (case redis_set cmd k v ttl c of (r, c') \<Rightarrow> (r, Redis c'))"

definition count :: "('c, 'j) world \<Rightarrow> string \<Rightarrow> 'c Backendify \<Rightarrow> 'c Backendify" where
  "count W metric b = b\<lparr>statsd := client_increment (udp_sendto W) metric 1 (statsd b)\<rparr>"

section \<open>Helpers\<close>

definition BACKEND_PATH :: string where
  "BACKEND_PATH = ''/companies/''"

definition findBackendInfo :: "AppConfig \<Rightarrow> string \<Rightarrow> BackendUrlInfo option" where
  "findBackendInfo config country_iso = map_of (country_backend_map config) country_iso"

definition handleBackendServerErrorResponse ::
    "('c, 'j) world \<Rightarrow> AppConfig \<Rightarrow> int \<Rightarrow> string \<Rightarrow> 'c Backendify \<Rightarrow> 'c Backendify" where
  "handleBackendServerErrorResponse W config now backendUrl b =
     (let b = count W CIRCUIT_BREAKER_LOGGED b
      in b\<lparr>circuit_breaker := trip now backendUrl
             (backend_servers_circuit_breaker_cool_off_duration_in_millis config) (circuit_breaker b)\<rparr>)"

definition cached_response :: "string \<Rightarrow> response" where
  "cached_response body = prepare_payload (set_body body
     (empty_response\<lparr>res_version := 11, res_keep_alive := True, res_server := True,
        res_content_type := Some ''application/json'', res_result := 200\<rparr>))"

definition checkCacheAndRespond ::
    "('c, 'j) world \<Rightarrow> int \<Rightarrow> int \<Rightarrow> string \<Rightarrow> 'c Backendify \<Rightarrow> response option \<times> 'c Backendify" where
  "checkCacheAndRespond W t1 t2 cache_key b =
     (case cache_get (redisCommand W) t1 t2 cache_key (cache b) of
        (Some s, c) \<Rightarrow> (Some (cached_response s), b\<lparr>cache := c\<rparr>)
      | (None, c) \<Rightarrow> (None, b\<lparr>cache := c\<rparr>))"

text \<open>Division of \<open>int\<close> and \<open>duration_cast\<close> to a coarser unit truncate towards zero.\<close>

definition trunc_div :: "int \<Rightarrow> int \<Rightarrow> int" where
  "trunc_div a n = (if a < 0 then - ((- a) div n) else a div n)"

text \<open>\<open>callBackendApi\<close>: the error posted to the callback, or the number of the session and the session
  it starts. The timeout is computed in 32-bit \<open>int\<close>; only the sum can leave its range.\<close>

definition backend_timeout :: "AppConfig \<Rightarrow> int" where
  "backend_timeout config =
     trunc_div (wrap32 (connection_timeout_in_microseconds config + read_request_timeout_in_microseconds config))
       1000 + 200"

definition callBackendApi ::
    "AppConfig \<Rightarrow> BackendUrlInfo option \<Rightarrow> string \<Rightarrow> 'c Backendify
     \<Rightarrow> (error_code + nat \<times> client_session) \<times> 'c Backendify" where
  "callBackendApi config backendUrlInfo company_id b =
     (case backendUrlInfo of
        None \<Rightarrow> (Inl ec_invalid_argument, b)
      | Some info \<Rightarrow>
          if is_https info then (Inl operation_not_supported, b)
          else
            let target_path = BACKEND_PATH @ company_id;
                session = new_client_session info target_path (backend_timeout config);
                n = next_session b
            in (Inr (n, client_start session),
                b\<lparr>active_client_sessions := n # active_client_sessions b, next_session := Suc n\<rparr>))"

section \<open>The handler of /company\<close>

text \<open>What the completion function of the backend call captures.\<close>

record capture =
  beast_res_cb :: response
  cache_key_copy :: string
  id_copy :: string
  backend_url_copy :: string

datatype outcome =
    Answer "response option"
  | Posted error_code capture
  | Started nat client_session capture

definition error_response :: "nat \<Rightarrow> string \<Rightarrow> response \<Rightarrow> response" where
  "error_response status body r = prepare_payload (set_body body (r\<lparr>res_result := status\<rparr>))"

definition response_for :: "request \<Rightarrow> response" where
  "response_for req = empty_response\<lparr>res_version := req_version req, res_keep_alive := req_keep_alive req,
     res_server := True, res_content_type := Some ''application/json''\<rparr>"

text \<open>The bodies of the error responses, \<open>R"({"error": ...})"\<close>.\<close>

definition json_error :: "string \<Rightarrow> string" where
  \<open>json_error msg = ''{"error": "'' @ msg @ ''"}''\<close>

definition sla_missed :: "AppConfig \<Rightarrow> int \<Rightarrow> int \<Rightarrow> bool" where
  "sla_missed config current_time request_received_time \<longleftrightarrow>
     trunc_div (current_time - request_received_time) 1000
       > wrap32 (server_sla_in_micros config - request_average_processing_time_in_micros config)"

definition processCompanyRequest ::
    "('c, 'j) world \<Rightarrow> AppConfig \<Rightarrow> (nat \<Rightarrow> int) \<Rightarrow> request \<Rightarrow> int \<Rightarrow> 'c Backendify \<Rightarrow> outcome \<times> 'c Backendify" where
  "processCompanyRequest W config clk req request_received_time b =
     (let beast_res = response_for req;
          ps = parse_query (query_params (req_target req));
          cid = param ''id'' ps;
          country_iso = upper (param ''country_iso'' ps)
      in if cid = [] \<or> country_iso = [] then
           (Answer (Some (error_response 400 (json_error ''Missing required parameters'') beast_res)), b)
         else
           let cache_key = cid @ '':'' @ country_iso
           in case checkCacheAndRespond W (clk 0) (clk 1) cache_key b of
                (Some r, b) \<Rightarrow> (Answer (Some r), b)
              | (None, b) \<Rightarrow>
                  if sla_missed config (clk 2) request_received_time then
                    if drop_sla_timeout_requests config then (Answer None, count W REQUEST_TIMED_OUT b)
                    else (Answer (Some (error_response 504 (json_error ''Gateway Timeout - SLA Exceeded'') beast_res)),
                          count W REQUEST_TIMED_OUT b)
                  else
                    case findBackendInfo config country_iso of
                      None \<Rightarrow>
                        (Answer (Some (error_response 404 (json_error ''Unconfigured country_iso'') beast_res)), b)
                    | Some info \<Rightarrow>
                        if isTripped (clk 3) (url info) (circuit_breaker b) then
                          (Answer (Some (error_response 504
                             (json_error ''Gateway Timeout - Circuit Breaker Active'') beast_res)), b)
                        else
                          let cap = \<lparr>beast_res_cb = beast_res, cache_key_copy = cache_key, id_copy = cid,
                                     backend_url_copy = url info\<rparr>
                          in case callBackendApi config (Some info) cid b of
                               (Inl ec, b) \<Rightarrow> (Posted ec cap, b)
                             | (Inr (n, session), b) \<Rightarrow> (Started n session cap, b))"

section \<open>Completion of the backend call\<close>

datatype handler_exn = StdExn std_exn | JsonExn json_exn

text \<open>
  The lambda in \<open>processCompanyRequest\<close>. It has no \<open>try\<close> block: an exception of the JSON
  construction or of \<open>dump\<close> (on text that is not UTF-8) leaves it, and then no response is handed on.
  \<open>rd1\<close> and \<open>rd2\<close> belong to the calls of \<open>isUTCTimeInFuture\<close>.
\<close>

definition company_json :: "reading \<Rightarrow> reading \<Rightarrow> CompanyInfo \<Rightarrow> (string, scalar) smap option exc" where
  "company_json rd1 rd2 info =
     (if ci_version info = 1 then
        (case constructV1Json rd1 rd2 info of Inl e \<Rightarrow> Inl e | Inr j \<Rightarrow> Inr (Some j))
      else if ci_version info = 2 then
        (case constructV2Json rd1 info of Inl e \<Rightarrow> Inl e | Inr j \<Rightarrow> Inr (Some j))
      else Inr None)"

definition company_text ::
    "('c, 'j) world \<Rightarrow> reading \<Rightarrow> reading \<Rightarrow> CompanyInfo \<Rightarrow> handler_exn + string" where
  "company_text W rd1 rd2 info =
     (case company_json rd1 rd2 info of
        Inl e \<Rightarrow> Inl (StdExn e)
      | Inr j \<Rightarrow> (case json_dump4 (json W) j of Inl e \<Rightarrow> Inl (JsonExn e) | Inr s \<Rightarrow> Inr s))"

definition backend_ok ::
    "('c, 'j) world \<Rightarrow> int \<Rightarrow> reading \<Rightarrow> reading \<Rightarrow> capture \<Rightarrow> response \<Rightarrow> 'c Backendify
     \<Rightarrow> (handler_exn + response) \<times> 'c Backendify" where
  "backend_ok W now rd1 rd2 cap backend_response b =
     (case parseBackendResponse (json W) (udp_sendto W) backend_response
             (new_CompanyInfo\<lparr>ci_id := id_copy cap\<rparr>) (statsd b) of
        (info, st) \<Rightarrow>
          let b = b\<lparr>statsd := st\<rparr>
          in if parse_success info then
               (case company_text W rd1 rd2 info of
                  Inl e \<Rightarrow> (Inl e, b)
                | Inr final_json_string \<Rightarrow>
                    (Inr (set_body final_json_string ((beast_res_cb cap)\<lparr>res_result := 200\<rparr>)),
                     b\<lparr>cache := snd (cache_set (redisCommand W) now (cache_key_copy cap) final_json_string
                          (3600 * 24) (cache b))\<rparr>))
             else (Inr (set_body (json_error ''Bad Gateway - Upstream Response Parse Error'')
                     ((beast_res_cb cap)\<lparr>res_result := 502\<rparr>)), b))"

definition backend_completed ::
    "('c, 'j) world \<Rightarrow> AppConfig \<Rightarrow> int \<Rightarrow> reading \<Rightarrow> reading \<Rightarrow> capture \<Rightarrow> response \<Rightarrow> error_code \<Rightarrow> 'c Backendify
     \<Rightarrow> (handler_exn + response) \<times> 'c Backendify" where
  "backend_completed W config now rd1 rd2 cap backend_response ec b =
     (let r = beast_res_cb cap;
          status = res_result backend_response;
          (res, b) =
            (if ec \<noteq> no_error \<and> ec \<noteq> end_of_stream then
               (Inr (set_body (json_error ''Gateway Timeout - Backend Unreachable'') (r\<lparr>res_result := 504\<rparr>)),
                if ec = connection_refused \<or> ec = timed_out
                then handleBackendServerErrorResponse W config now (backend_url_copy cap) b else b)
             else if status = 200 then backend_ok W now rd1 rd2 cap backend_response b
             else if status = 404 then
               (Inr (set_body (json_error ''Not Found from backend'') (r\<lparr>res_result := 404\<rparr>)), b)
             else if 500 \<le> status \<and> status < 600 then
               (Inr (set_body (json_error ''Bad Gateway - Upstream Server Error'') (r\<lparr>res_result := 502\<rparr>)),
                handleBackendServerErrorResponse W config now (backend_url_copy cap) b)
             else
               (Inr (set_body (json_error ''Bad Gateway - Unknown Upstream Status'') (r\<lparr>res_result := 502\<rparr>)),
                count W CODE_EXCEPTION b))
      in case res of
           Inl e \<Rightarrow> (Inl e, b)
         | Inr r \<Rightarrow> (Inr (prepare_payload r), b))"

text \<open>
  The completion function of the session, in \<open>callBackendApi\<close>: it forgets the session when the weak
  pointer it captured can be locked. That pointer is captured empty and never assigned, so
  \<open>weak\<close> is \<open>None\<close> in every call the program makes (\<open>captured_weak_ptr\<close>).
\<close>

definition captured_weak_ptr :: "nat option" where
  "captured_weak_ptr = None"

definition session_completed ::
    "('c, 'j) world \<Rightarrow> AppConfig \<Rightarrow> int \<Rightarrow> reading \<Rightarrow> reading \<Rightarrow> nat option \<Rightarrow> capture \<Rightarrow> response \<Rightarrow> error_code
     \<Rightarrow> 'c Backendify \<Rightarrow> (handler_exn + response) \<times> 'c Backendify" where
  "session_completed W config now rd1 rd2 weak cap backend_response ec b =
     (let b = (case weak of
                 Some n \<Rightarrow> b\<lparr>active_client_sessions := filter (\<lambda>m. m \<noteq> n) (active_client_sessions b)\<rparr>
               | None \<Rightarrow> b)
      in backend_completed W config now rd1 rd2 cap backend_response ec b)"

section \<open>/status and shutdown\<close>

definition processStatusRequest :: "response option" where
  "processStatusRequest = Some (prepare_payload (set_body ''Frontend Server is running (Beast)''
     (empty_response\<lparr>res_content_type := Some ''text/plain'', res_result := 200\<rparr>)))"

text \<open>The sessions that \<open>cancel_active_backend_calls\<close> cancels; the set itself is left as it is.\<close>

definition cancel_active_backend_calls :: "'c Backendify \<Rightarrow> (nat \<Rightarrow> client_session) \<Rightarrow> nat \<Rightarrow> client_session" where
  "cancel_active_backend_calls b sessions n =
     (if n \<in> set (active_client_sessions b) then client_cancel (sessions n) else sessions n)"

section \<open>Requests as a client writes them\<close>

definition enc_param :: "string \<times> string \<Rightarrow> string" where
  "enc_param p = urlEncode (fst p) @ ''='' @ urlEncode (snd p)"

fun enc_query :: "(string \<times> string) list \<Rightarrow> string" where
  "enc_query [] = []"
| "enc_query [p] = enc_param p"
| "enc_query (p # ps) = enc_param p @ ''&'' @ enc_query ps"

lemma fold_plain:
  "CHR ''='' \<notin> set s \<Longrightarrow> CHR ''&'' \<notin> set s \<Longrightarrow>
    fold query_step s q = q\<lparr>current_param := current_param q @ s\<rparr>"
  by (induction s arbitrary: q) (auto simp: query_step_def)

lemma fold_param:
  "fold query_step (enc_param p) (q\<lparr>current_param := []\<rparr>)
    = q\<lparr>current_param := urlEncode (snd p), param_key := fst p, parsing_key := False\<rparr>"
proof -
  have eq: "query_step (CHR ''='') r = r\<lparr>param_key := urlDecode (current_param r), current_param := [], parsing_key := False\<rparr>" for r
    by (simp add: query_step_def)
  show ?thesis
    using urlEncode_plain [of "fst p"] urlEncode_plain [of "snd p"]
    by (simp add: enc_param_def fold_plain eq urlDecode_encoded)
qed

text \<open>The parameters that the parser keeps: those with a name, without the last one when its value is
  empty.\<close>

definition kept_params :: "(string \<times> string) list \<Rightarrow> (string \<times> string) list" where
  "kept_params ps =
     filter (\<lambda>p. fst p \<noteq> []) (if ps \<noteq> [] \<and> snd (last ps) = [] then butlast ps else ps)"

lemma kept_params_Cons: "ps \<noteq> [] \<Longrightarrow> kept_params (p # ps) = (if fst p \<noteq> [] then p # kept_params ps else kept_params ps)"
  by (simp add: kept_params_def)

lemma fold_params:
  "query_end (fold query_step (enc_query ps)
      \<lparr>params = m, current_param = [], param_key = [], param_value = [], parsing_key = True\<rparr>)
    = fold (\<lambda>p. smap_put (fst p) (snd p)) (kept_params ps) m"
proof (induction ps arbitrary: m rule: enc_query.induct)
  case 1
  then show ?case by (simp add: query_end_def kept_params_def)
next
  case (2 p)
  then show ?case
    using fold_param [of p "\<lparr>params = m, current_param = [], param_key = [], param_value = [], parsing_key = True\<rparr>"]
    by (simp add: query_end_def urlDecode_encoded Let_def kept_params_def)
next
  case (3 p p' ps)
  have amp: "query_step (CHR ''&'') r = r\<lparr>params := (if param_key r \<noteq> [] then smap_put (param_key r) (urlDecode (current_param r)) (params r) else params r),
             current_param := [], param_key := [], param_value := [], parsing_key := True\<rparr>" for r
    by (simp add: query_step_def Let_def)
  show ?case
    using 3 fold_param [of p "\<lparr>params = m, current_param = [], param_key = [], param_value = [], parsing_key = True\<rparr>"]
    by (simp add: amp urlDecode_encoded kept_params_Cons)
qed

lemma map_of_fold_put: "map_of (fold (\<lambda>p. smap_put (fst p) (snd p)) ps m) = map_of (rev ps @ m)"
  by (induction ps arbitrary: m) (auto simp: map_add_def fun_eq_iff split: option.splits)

lemma parse_query_encoded: "map_of (parse_query (enc_query ps)) = map_of (rev (kept_params ps))"
  using fold_params [of ps "[]"] map_of_fold_put [of "kept_params ps" "[]"] by (simp add: parse_query_def)

definition company_target :: "string \<Rightarrow> string \<Rightarrow> string" where
  "company_target cid country = ''/company?'' @ enc_query [(''id'', cid), (''country_iso'', country)]"

lemma company_target_params:
  assumes "cid \<noteq> []" and "country \<noteq> []"
  shows "param ''id'' (parse_query (query_params (company_target cid country))) = cid"
    and "param ''country_iso'' (parse_query (query_params (company_target cid country))) = country"
proof -
  let ?ps = "[(''id'', cid), (''country_iso'', country)]"
  have q: "query_params (company_target cid country) = enc_query ?ps"
    by (simp add: query_params_def company_target_def substr_from_def)
  have "map_of (parse_query (enc_query ?ps)) = map_of (rev ?ps)"
    unfolding parse_query_encoded using assms by (simp add: kept_params_def)
  then show "param ''id'' (parse_query (query_params (company_target cid country))) = cid"
    "param ''country_iso'' (parse_query (query_params (company_target cid country))) = country"
    by (simp_all add: q param_def)
qed

text \<open>The handler on such a request, with the parameters read.\<close>

lemma process_company_target:
  assumes "cid \<noteq> []" and "country \<noteq> []" and "req_target req = company_target cid country"
  shows "processCompanyRequest W config clk req t b =
     (case checkCacheAndRespond W (clk 0) (clk 1) (cid @ '':'' @ upper country) b of
        (Some r, b) \<Rightarrow> (Answer (Some r), b)
      | (None, b) \<Rightarrow>
          if sla_missed config (clk 2) t then
            if drop_sla_timeout_requests config then (Answer None, count W REQUEST_TIMED_OUT b)
            else (Answer (Some (error_response 504 (json_error ''Gateway Timeout - SLA Exceeded'') (response_for req))),
                  count W REQUEST_TIMED_OUT b)
          else
            case findBackendInfo config (upper country) of
              None \<Rightarrow> (Answer (Some (error_response 404 (json_error ''Unconfigured country_iso'') (response_for req))), b)
            | Some info \<Rightarrow>
                if isTripped (clk 3) (url info) (circuit_breaker b) then
                  (Answer (Some (error_response 504 (json_error ''Gateway Timeout - Circuit Breaker Active'') (response_for req))), b)
                else
                  case callBackendApi config (Some info) cid b of
                    (Inl ec, b) \<Rightarrow> (Posted ec \<lparr>beast_res_cb = response_for req,
                      cache_key_copy = cid @ '':'' @ upper country, id_copy = cid, backend_url_copy = url info\<rparr>, b)
                  | (Inr (n, session), b) \<Rightarrow> (Started n session \<lparr>beast_res_cb = response_for req,
                      cache_key_copy = cid @ '':'' @ upper country, id_copy = cid, backend_url_copy = url info\<rparr>, b))"
  unfolding processCompanyRequest_def Let_def assms(3) company_target_params [OF assms(1,2)]
  using assms(1,2) by simp

section \<open>A small installation, for the examples\<close>

definition demo_world :: "((string, string) umap, bool) world" where
  "demo_world = \<lparr>redisCommand = ref_redis, udp_sendto = (\<lambda>w x. None), json = demo_json\<rparr>"

definition demo_backend :: BackendUrlInfo where
  "demo_backend = \<lparr>url = ''http://us:9001'', backend_host = ''us'', backend_port = 9001, is_https = False\<rparr>"

definition demo_config :: AppConfig where
  "demo_config = default_config\<lparr>country_backend_map := [(''US'', demo_backend)]\<rparr>"

definition demo_service :: "(string, string) umap Backendify" where
  "demo_service = \<lparr>cache = Mem (new_cache 60 2), statsd = Dummy, circuit_breaker = \<lparr>tripped_backends = []\<rparr>,
     active_client_sessions = [], next_session = 0\<rparr>"

definition demo_request :: request where
  "demo_request = \<lparr>req_method = GET, req_target = company_target ''7'' ''us'', req_version = 11, req_keep_alive = False\<rparr>"

lemma upper_us [simp]: "upper ''us'' = ''US''"
  by (simp add: upper_def cstr_simps)

lemma demo_miss: "fst (cache_get cmd t1 t2 k (cache demo_service)) = None"
proof -
  have "removeExpired t1 (new_cache 60 2) = new_cache 60 2"
    by (simp add: removeExpired_def new_cache_def)
  then have "fst (mem_get t1 t2 k (new_cache 60 2)) = None"
    by (simp add: mem_get_def) (simp add: new_cache_def)
  then show ?thesis by (auto simp: demo_service_def split: prod.split)
qed

lemma demo_in_time: "\<not> sla_missed demo_config 5 0"
  by (simp add: sla_missed_def trunc_div_def wrap32_def demo_config_def default_config_def)

text \<open>A cache miss that reaches the backend.\<close>

lemma company_miss:
  assumes "cid \<noteq> []" and "country \<noteq> []" and "req_target req = company_target cid country"
    and "fst (cache_get (redisCommand W) (clk 0) (clk 1) (cid @ '':'' @ upper country) (cache b)) = None"
    and "\<not> sla_missed config (clk 2) t" and "findBackendInfo config (upper country) = Some info"
    and "\<not> is_https info" and "\<not> isTripped (clk 3) (url info) (circuit_breaker b)"
  shows "\<exists>n session cap b'. processCompanyRequest W config clk req t b = (Started n session cap, b')
    \<and> req_target (cs_request session) = ''/companies/'' @ cid \<and> req_method (cs_request session) = GET
    \<and> cs_host session = backend_host info \<and> cs_port session = string_of_int (backend_port info)
    \<and> cs_pending session = Some Resolve \<and> id_copy cap = cid \<and> cache_key_copy cap = cid @ '':'' @ upper country
    \<and> active_client_sessions b' = n # active_client_sessions b"
proof -
  obtain c where c: "cache_get (redisCommand W) (clk 0) (clk 1) (cid @ '':'' @ upper country) (cache b) = (None, c)"
    using assms(4) by (metis prod.collapse)
  show ?thesis
    unfolding process_company_target [OF assms(1-3)]
    using c assms(5-8) by (simp add: checkCacheAndRespond_def callBackendApi_def Let_def BACKEND_PATH_def
        client_start_def do_resolve_def new_client_session_def)
qed

lemma demo_started:
  "\<exists>n session cap b'. processCompanyRequest demo_world demo_config (\<lambda>_. 5) demo_request 0 demo_service
    = (Started n session cap, b')"
proof -
  have f: "findBackendInfo demo_config (upper ''us'') = Some demo_backend"
    by (simp add: findBackendInfo_def demo_config_def)
  have o: "\<not> is_https demo_backend" "\<not> isTripped 5 (url demo_backend) (circuit_breaker demo_service)"
    by (simp_all add: demo_backend_def demo_service_def isTripped_def)
  have t: "req_target demo_request = company_target ''7'' ''us''" by (simp add: demo_request_def)
  from company_miss [where clk = "\<lambda>_. 5" and b = demo_service and W = demo_world, OF _ _ t demo_miss demo_in_time f o]
  show ?thesis by force
qed

section \<open>Properties of the handler\<close>

text \<open>C14: Query strings round trip, for every list of parameters that a client percent-encodes: the
  handler's parser recovers for every name the value of its last occurrence, except that it drops
  the parameters without a name and the last parameter of the list when its value is empty (then an
  earlier occurrence of its name counts, if there is one).\<close>

theorem query_roundtrip:
  "map_of (parse_query (enc_query ps)) =
    map_of (rev (filter (\<lambda>p. fst p \<noteq> []) (if ps \<noteq> [] \<and> snd (last ps) = [] then butlast ps else ps)))"
  by (rule parse_query_encoded [unfolded kept_params_def])

text \<open>C6: A request for any non-empty id and country that misses the cache, in time, for a configured
  \<open>http\<close> backend whose circuit is closed starts one session that asks this backend for exactly
  \<open>/companies/\<close> and the id the client encoded, and tracks it. The id is not encoded again,
  whatever bytes it holds.\<close>

theorem company_miss_calls_backend:
  assumes "cid \<noteq> []" and "country \<noteq> []" and "req_target req = company_target cid country"
    and "fst (cache_get (redisCommand W) (clk 0) (clk 1) (cid @ '':'' @ upper country) (cache b)) = None"
    and "\<not> sla_missed config (clk 2) t" and "findBackendInfo config (upper country) = Some info"
    and "\<not> is_https info" and "\<not> isTripped (clk 3) (url info) (circuit_breaker b)"
  shows "\<exists>n session cap b'. processCompanyRequest W config clk req t b = (Started n session cap, b')
    \<and> req_target (cs_request session) = ''/companies/'' @ cid \<and> req_method (cs_request session) = GET
    \<and> cs_host session = backend_host info \<and> cs_port session = string_of_int (backend_port info)
    \<and> cs_pending session = Some Resolve \<and> id_copy cap = cid \<and> cache_key_copy cap = cid @ '':'' @ upper country
    \<and> active_client_sessions b' = n # active_client_sessions b"
  by (rule company_miss [OF assms])

theorem company_miss_calls_backend_witness:
  "\<exists>n session cap b'. processCompanyRequest demo_world demo_config (\<lambda>_. 5) demo_request 0 demo_service = (Started n session cap, b')
    \<and> req_target (cs_request session) = ''/companies/7''"
proof -
  have f: "findBackendInfo demo_config (upper ''us'') = Some demo_backend"
    by (simp add: findBackendInfo_def demo_config_def)
  have o: "\<not> is_https demo_backend" "\<not> isTripped 5 (url demo_backend) (circuit_breaker demo_service)"
    by (simp_all add: demo_backend_def demo_service_def isTripped_def)
  have t: "req_target demo_request = company_target ''7'' ''us''" by (simp add: demo_request_def)
  from company_miss_calls_backend [where clk = "\<lambda>_. 5" and b = demo_service and W = demo_world,
      OF _ _ t demo_miss demo_in_time f o]
  show ?thesis by force
qed

text \<open>What the handler answers itself is a complete JSON response with status 200 (from the cache),
  400, 404 or 504; the errors carry the HTTP version and the connection setting of the request.\<close>

theorem company_answer_wellformed:
  assumes "fst (processCompanyRequest W config clk req t b) = Answer (Some r)"
  shows "prepared r \<and> res_content_type r = Some ''application/json'' \<and> res_result r \<in> {200, 400, 404, 504}
    \<and> (res_result r \<noteq> 200 \<longrightarrow> res_version r = req_version req \<and> res_keep_alive r = req_keep_alive req)
    \<and> (res_result r = 200 \<longrightarrow> (\<exists>s. r = cached_response s))"
  using assms
  by (auto simp: processCompanyRequest_def Let_def checkCacheAndRespond_def callBackendApi_def error_response_def
      response_for_def empty_response_def cached_response_def split: if_splits option.splits prod.splits sum.splits)

theorem company_answer_wellformed_witness:
  "\<exists>r. fst (processCompanyRequest demo_world demo_config (\<lambda>_. 5)
     (demo_request\<lparr>req_target := ''/company''\<rparr>) 0 demo_service) = Answer (Some r) \<and> prepared r \<and> \<not> res_keep_alive r"
proof -
  let ?req = "demo_request\<lparr>req_target := ''/company''\<rparr>"
  have "fst (processCompanyRequest demo_world demo_config (\<lambda>_. 5) ?req 0 demo_service)
      = Answer (Some (error_response 400 (json_error ''Missing required parameters'') (response_for ?req)))"
    by (simp add: processCompanyRequest_def query_params_def parse_query_def query_end_def param_def)
  from this company_answer_wellformed [OF this] show ?thesis
    by (auto simp: error_response_def demo_request_def)
qed

text \<open>A request is dropped without an answer exactly when it has both parameters, misses the cache,
  has missed the SLA and dropping is configured; it is rejected with 400, without touching the
  state, exactly when a parameter is missing or empty.\<close>

theorem company_dropped_iff:
  "(fst (processCompanyRequest W config clk req t b) = Answer None \<longleftrightarrow>
      param ''id'' (parse_query (query_params (req_target req))) \<noteq> []
      \<and> param ''country_iso'' (parse_query (query_params (req_target req))) \<noteq> []
      \<and> fst (cache_get (redisCommand W) (clk 0) (clk 1)
          (param ''id'' (parse_query (query_params (req_target req))) @ '':''
           @ upper (param ''country_iso'' (parse_query (query_params (req_target req))))) (cache b)) = None
      \<and> sla_missed config (clk 2) t \<and> drop_sla_timeout_requests config)
   \<and> ((\<exists>r. fst (processCompanyRequest W config clk req t b) = Answer (Some r) \<and> res_result r = 400) \<longleftrightarrow>
      param ''id'' (parse_query (query_params (req_target req))) = []
      \<or> param ''country_iso'' (parse_query (query_params (req_target req))) = [])"
  by (auto simp: processCompanyRequest_def Let_def checkCacheAndRespond_def callBackendApi_def error_response_def
      cached_response_def split: if_splits option.splits prod.splits sum.splits)

section \<open>Properties of the completion\<close>

definition unreachable :: "error_code \<Rightarrow> bool" where
  "unreachable ec \<longleftrightarrow> ec \<noteq> no_error \<and> ec \<noteq> end_of_stream"

text \<open>The outcomes that trip the circuit breaker.\<close>

definition backend_failed :: "response \<Rightarrow> error_code \<Rightarrow> bool" where
  "backend_failed r ec \<longleftrightarrow> ec = connection_refused \<or> ec = timed_out
     \<or> \<not> unreachable ec \<and> 500 \<le> res_result r \<and> res_result r < 600"

lemma backend_ok_total:
  fixes W :: "('c, 'j) world"
  assumes "backend_ok W now rd1 rd2 cap br b = (res, b')"
    and "info = fst (parseBackendResponse (json W) (udp_sendto W) br (new_CompanyInfo\<lparr>ci_id := id_copy cap\<rparr>) (statsd b))"
  shows "(\<forall>e. res = Inl e \<longleftrightarrow> parse_success info \<and> company_text W rd1 rd2 info = Inl e)"
    and "(case res of Inl e \<Rightarrow> cache b' = cache b
      | Inr r \<Rightarrow> res_version r = res_version (beast_res_cb cap) \<and> res_keep_alive r = res_keep_alive (beast_res_cb cap)
        \<and> res_content_type r = res_content_type (beast_res_cb cap)
        \<and> res_result r = (if parse_success info then 200 else 502)
        \<and> (parse_success info \<longrightarrow> company_text W rd1 rd2 info = Inr (res_body r))
        \<and> cache b' = (if parse_success info
            then snd (cache_set (redisCommand W) now (cache_key_copy cap) (res_body r) 86400 (cache b))
            else cache b))"
    and "circuit_breaker b' = circuit_breaker b" and "active_client_sessions b' = active_client_sessions b"
  using assms by (auto simp: backend_ok_def Let_def split: prod.splits sum.splits if_splits)

lemma backend_completed_cases:
  fixes W :: "('c, 'j) world"
  assumes "backend_completed W config now rd1 rd2 cap br ec b = (res, b')"
  shows "\<not> unreachable ec \<and> res_result br = 200 \<Longrightarrow>
      \<exists>res0. backend_ok W now rd1 rd2 cap br b = (res0, b') \<and> res = map_sum id prepare_payload res0"
    and "\<not> (\<not> unreachable ec \<and> res_result br = 200) \<Longrightarrow>
      (\<exists>body. res = Inr (error_response (if unreachable ec then 504 else if res_result br = 404 then 404 else 502)
          body (beast_res_cb cap)))
      \<and> cache b' = cache b \<and> active_client_sessions b' = active_client_sessions b
      \<and> circuit_breaker b' = (if backend_failed br ec then trip now (backend_url_copy cap)
          (backend_servers_circuit_breaker_cool_off_duration_in_millis config) (circuit_breaker b)
        else circuit_breaker b)"
proof -
  show "\<exists>res0. backend_ok W now rd1 rd2 cap br b = (res0, b') \<and> res = map_sum id prepare_payload res0"
    if "\<not> unreachable ec \<and> res_result br = 200"
    using assms that by (auto simp: backend_completed_def unreachable_def Let_def split: prod.splits sum.splits)
  show "(\<exists>body. res = Inr (error_response (if unreachable ec then 504 else if res_result br = 404 then 404 else 502)
          body (beast_res_cb cap)))
      \<and> cache b' = cache b \<and> active_client_sessions b' = active_client_sessions b
      \<and> circuit_breaker b' = (if backend_failed br ec then trip now (backend_url_copy cap)
          (backend_servers_circuit_breaker_cool_off_duration_in_millis config) (circuit_breaker b)
        else circuit_breaker b)"
    if "\<not> (\<not> unreachable ec \<and> res_result br = 200)"
    using assms that by (auto simp: backend_completed_def unreachable_def backend_failed_def Let_def
        error_response_def handleBackendServerErrorResponse_def count_def split: if_splits)
qed

text \<open>C5: For every outcome of a call to a backend. An exception leaves the completion function, and no
  response is handed on, exactly when the backend answered 200 with a document that was read
  successfully but cannot be turned into the text of the answer. In every other case a response is
  handed on: it is complete, keeps the version, connection setting and content type of the request,
  and its status is 504 when the backend was unreachable, 200 with the text built from the document
  when a 200 could be read, 404 for a 404, and 502 for everything else, a 200 that cannot be read
  among them. The circuit is opened exactly when the connection was refused or timed out or the
  backend answered 5xx; the cache changes only with a 200, and then it holds the body under the key
  of the request for a day. The set of tracked sessions stays as it is.\<close>

theorem backend_completed_spec:
  assumes "backend_completed W config now rd1 rd2 cap br ec b = (res, b')"
    and "info = fst (parseBackendResponse (json W) (udp_sendto W) br (new_CompanyInfo\<lparr>ci_id := id_copy cap\<rparr>) (statsd b))"
    and "usable = (\<not> unreachable ec \<and> res_result br = 200 \<and> parse_success info)"
  shows "(\<forall>e. res = Inl e \<longleftrightarrow> usable \<and> company_text W rd1 rd2 info = Inl e)
    \<and> (case res of Inl e \<Rightarrow> cache b' = cache b
      | Inr r \<Rightarrow> prepared r \<and> res_version r = res_version (beast_res_cb cap)
        \<and> res_keep_alive r = res_keep_alive (beast_res_cb cap) \<and> res_content_type r = res_content_type (beast_res_cb cap)
        \<and> res_result r = (if unreachable ec then 504 else if usable then 200 else if res_result br = 404 then 404 else 502)
        \<and> (usable \<longrightarrow> company_text W rd1 rd2 info = Inr (res_body r))
        \<and> cache b' = (if usable
            then snd (cache_set (redisCommand W) now (cache_key_copy cap) (res_body r) 86400 (cache b))
            else cache b))
    \<and> circuit_breaker b' = (if backend_failed br ec then trip now (backend_url_copy cap)
          (backend_servers_circuit_breaker_cool_off_duration_in_millis config) (circuit_breaker b)
        else circuit_breaker b)
    \<and> active_client_sessions b' = active_client_sessions b"
proof (cases "\<not> unreachable ec \<and> res_result br = 200")
  case True
  then obtain res0 where r0: "backend_ok W now rd1 rd2 cap br b = (res0, b')" "res = map_sum id prepare_payload res0"
    using backend_completed_cases(1) [OF assms(1)] by blast
  from True have "\<not> backend_failed br ec" by (auto simp: backend_failed_def unreachable_def)
  then show ?thesis
    using True r0(2) backend_ok_total [OF r0(1) assms(2)] assms(3) by (cases res0) auto
next
  case False
  then show ?thesis
    using backend_completed_cases(2) [OF assms(1)] assms(3) by (auto simp: error_response_def)
qed

text \<open>The answer to the example request, and its completion.\<close>

definition demo_capture :: capture where
  "demo_capture = \<lparr>beast_res_cb = response_for demo_request, cache_key_copy = ''7:US'', id_copy = ''7'',
     backend_url_copy = ''http://us:9001''\<rparr>"

definition demo_answer :: response where
  "demo_answer = empty_response\<lparr>res_body := ''{}'', res_content_type := Some ''application/x-company-v2''\<rparr>"

lemma demo_completed_any:
  assumes "statsd b = Dummy" and "beast_res_cb cap = response_for demo_request"
  shows "\<exists>b'. backend_completed demo_world config now rd1 rd2 cap demo_answer no_error b
    = (Inr (prepare_payload (set_body ''{}'' (response_for demo_request))), b')"
proof -
  let ?i = "new_CompanyInfo\<lparr>ci_id := id_copy cap, ci_version := 2, parse_success := True, tin := Some []\<rparr>"
  have "response_for demo_request\<lparr>res_result := 200\<rparr> = response_for demo_request"
    by (simp add: response_for_def empty_response_def)
  moreover have "parseBackendResponse demo_json (\<lambda>w x. None) demo_answer (new_CompanyInfo\<lparr>ci_id := id_copy cap\<rparr>) Dummy
      = (?i, Dummy)"
    by (simp add: parseBackendResponse_def read_company_def demo_answer_def demo_json_def content_type_of_def
        fill_v2_def optional_member_def new_CompanyInfo_def)
  moreover have "company_text demo_world rd1 rd2 ?i = Inr ''{}''"
    by (simp add: company_text_def company_json_def constructV2Json_def add_until_def new_CompanyInfo_def
        demo_world_def demo_json_def)
  ultimately show ?thesis
    using assms by (simp add: backend_completed_def backend_ok_def Let_def)
      (simp add: demo_world_def demo_answer_def empty_response_def new_CompanyInfo_def)
qed

lemma demo_completed:
  "\<exists>b'. backend_completed demo_world demo_config 1 (CHR ''x'', 0) (CHR ''x'', 0) demo_capture demo_answer no_error demo_service
    = (Inr (prepare_payload (set_body ''{}'' (response_for demo_request))), b')"
  by (rule demo_completed_any) (simp_all add: demo_service_def demo_capture_def)

theorem backend_completed_spec_witness:
  "\<exists>r b'. backend_completed demo_world demo_config 1 (CHR ''x'', 0) (CHR ''x'', 0) demo_capture demo_answer no_error demo_service
    = (Inr r, b') \<and> prepared r \<and> res_keep_alive r = False \<and> active_client_sessions b' = []"
proof -
  obtain b' where b: "backend_completed demo_world demo_config 1 (CHR ''x'', 0) (CHR ''x'', 0) demo_capture demo_answer no_error
      demo_service = (Inr (prepare_payload (set_body ''{}'' (response_for demo_request))), b')"
    using demo_completed by blast
  show ?thesis
    using backend_completed_spec [OF b refl refl] b
    by (auto simp: demo_capture_def response_for_def demo_request_def demo_service_def)
qed

text \<open>The cache after a completion, and what the next request finds in it.\<close>

lemma completed_cache:
  assumes "backend_completed W config now rd1 rd2 cap br ec b = (Inr r, b')" and "res_result r = 200"
  shows "cache b' = snd (cache_set (redisCommand W) now (cache_key_copy cap) (res_body r) 86400 (cache b))"
proof -
  have "\<not> unreachable ec \<and> res_result br = 200"
  proof (rule ccontr)
    assume "\<not> (\<not> unreachable ec \<and> res_result br = 200)"
    from backend_completed_cases(2) [OF assms(1) this] have "res_result r \<noteq> 200"
      by (auto simp: error_response_def split: if_splits)
    then show False using assms(2) by simp
  qed
  from backend_completed_cases(1) [OF assms(1) this] obtain res0 where
    res0: "backend_ok W now rd1 rd2 cap br b = (res0, b')" "Inr r = map_sum id prepare_payload res0" by blast
  then obtain r0 where r0: "backend_ok W now rd1 rd2 cap br b = (Inr r0, b')" "r = prepare_payload r0"
    by (cases res0) auto
  show ?thesis using backend_ok_total(2) [OF r0(1) refl] r0(2) assms(2) by (auto split: if_splits)
qed

lemma completed_cache_kept:
  assumes "backend_completed W config now rd1 rd2 cap br ec b = (res, b')"
    and "\<And>r. res = Inr r \<Longrightarrow> res_result r \<noteq> 200"
  shows "cache b' = cache b"
proof (cases "\<not> unreachable ec \<and> res_result br = 200")
  case True
  then obtain r0 where r0: "backend_ok W now rd1 rd2 cap br b = (r0, b')" "res = map_sum id prepare_payload r0"
    using backend_completed_cases(1) [OF assms(1)] by blast
  then show ?thesis
    using backend_ok_total(2) [OF r0(1) refl] assms(2) by (cases r0) (auto split: if_splits)
next
  case False
  then show ?thesis using backend_completed_cases(2) [OF assms(1)] by blast
qed

lemma cache_hit:
  assumes "cid \<noteq> []" and "country \<noteq> []" and "req_target req = company_target cid country"
    and "fst (cache_get (redisCommand W) (clk 0) (clk 1) (cid @ '':'' @ upper country) (cache b)) = Some v"
  shows "fst (processCompanyRequest W config clk req t b) = Answer (Some (cached_response v))"
proof -
  obtain c where "cache_get (redisCommand W) (clk 0) (clk 1) (cid @ '':'' @ upper country) (cache b) = (Some v, c)"
    using assms(4) by (metis prod.collapse)
  then show ?thesis
    unfolding process_company_target [OF assms(1-3)] by (simp add: checkCacheAndRespond_def)
qed

text \<open>
  What happens at the service: requests are handled and calls to backends complete, in any order and
  with any outcome. The trace holds, last one first, the operations that they make on the cache: a
  request with both parameters looks its key up, a completion with status 200 stores its body.
\<close>

definition request_ops :: "(nat \<Rightarrow> int) \<Rightarrow> request \<Rightarrow> cache_op list" where
  "request_ops clk req =
     (let ps = parse_query (query_params (req_target req))
      in if param ''id'' ps = [] \<or> param ''country_iso'' ps = [] then []
         else [OpGet (clk 0) (clk 1) (param ''id'' ps @ '':'' @ upper (param ''country_iso'' ps))])"

definition completion_ops :: "int \<Rightarrow> capture \<Rightarrow> handler_exn + response \<Rightarrow> cache_op list" where
  "completion_ops now cap res =
     (case res of Inr r \<Rightarrow> if res_result r = 200 then [OpSet now (cache_key_copy cap) (res_body r) 86400] else []
      | Inl _ \<Rightarrow> [])"

inductive service_trace ::
    "('c, 'j) world \<Rightarrow> AppConfig \<Rightarrow> 'c Backendify \<Rightarrow> cache_op list \<Rightarrow> 'c Backendify \<Rightarrow> bool"
  for W config b0 where
  trace_start: "service_trace W config b0 [] b0"
| trace_request: "service_trace W config b0 ops b \<Longrightarrow> processCompanyRequest W config clk req t b = (out, b') \<Longrightarrow>
    service_trace W config b0 (request_ops clk req @ ops) b'"
| trace_completed: "service_trace W config b0 ops b \<Longrightarrow>
    session_completed W config now rd1 rd2 weak cap br ec b = (res, b') \<Longrightarrow>
    service_trace W config b0 (completion_ops now cap res @ ops) b'"

lemma request_cache:
  assumes "cache b = Mem c"
  shows "cache (snd (processCompanyRequest W config clk req t b)) = Mem (run_ops mem_step (request_ops clk req) c)"
proof -
  have chk: "cache (snd (checkCacheAndRespond W t1 t2 k b)) = Mem (snd (mem_get t1 t2 k c))" for t1 t2 k
    using assms by (auto simp: checkCacheAndRespond_def split: prod.splits option.splits)
  let ?ps = "parse_query (query_params (req_target req))"
  let ?k = "param ''id'' ?ps @ '':'' @ upper (param ''country_iso'' ?ps)"
  obtain o1 b1 where o1: "checkCacheAndRespond W (clk 0) (clk 1) ?k b = (o1, b1)" by fastforce
  show ?thesis
    using chk [of "clk 0" "clk 1" ?k] assms
    by (auto simp: processCompanyRequest_def request_ops_def Let_def o1 callBackendApi_def count_def
        split: option.splits prod.splits sum.splits)
qed

lemma session_completedE:
  assumes "session_completed W config now rd1 rd2 weak cap br ec b = (res, b')"
  obtains b1 where "cache b1 = cache b" "backend_completed W config now rd1 rd2 cap br ec b1 = (res, b')"
proof (cases weak)
  case None
  then show ?thesis using that [of b] assms by (simp add: session_completed_def)
next
  case (Some n)
  show ?thesis
    using that [of "b\<lparr>active_client_sessions := filter (\<lambda>m. m \<noteq> n) (active_client_sessions b)\<rparr>"] assms Some
    by (simp add: session_completed_def)
qed

lemma trace_cache:
  assumes "service_trace W config b0 ops b" and "cache b0 = Mem c"
  shows "cache b = Mem (run_ops mem_step ops c)"
  using assms(1)
proof (induction rule: service_trace.induct)
  case trace_start
  then show ?case using assms(2) by simp
next
  case (trace_request ops b clk req t out b')
  have "run_ops mem_step (request_ops clk req @ ops) c = run_ops mem_step (request_ops clk req) (run_ops mem_step ops c)"
    by (simp add: request_ops_def Let_def)
  then show ?case using request_cache [OF trace_request.IH] trace_request.hyps(2) by (metis snd_conv)
next
  case (trace_completed ops b now rd1 rd2 weak cap br ec res b')
  obtain b1 where b1: "cache b1 = cache b" "backend_completed W config now rd1 rd2 cap br ec b1 = (res, b')"
    using session_completedE [OF trace_completed.hyps(2)] by blast
  show ?case
  proof (cases "\<exists>r. res = Inr r \<and> res_result r = 200")
    case True
    then obtain r where r: "res = Inr r" "res_result r = 200" by blast
    have "cache b' = snd (cache_set (redisCommand W) now (cache_key_copy cap) (res_body r) 86400 (cache b1))"
      using completed_cache [OF _ r(2)] b1(2) r(1) by blast
    then show ?thesis
      using b1(1) trace_completed.IH r by (simp add: completion_ops_def split: prod.splits)
  next
    case False
    then have "completion_ops now cap res = []" by (auto simp: completion_ops_def split: sum.splits)
    then show ?thesis using completed_cache_kept [OF b1(2)] False b1(1) trace_completed.IH by auto
  qed
qed

text \<open>C7: An answer with status 200 is served from the in-memory cache for a day: whatever requests are
  handled and calls complete after it, a request for the same id and country (in any letter case)
  gets the same body without a call to the backend, even after the SLA has been missed and while
  the circuit is open, as long as less than a day has passed, no other answer for them has been
  stored, and fewer than \<open>max_size\<close> other ids and countries have been asked for or stored. The clock
  never goes back. The day is fixed in the code; the configured times to live have no influence.\<close>

theorem answer_served_from_cache:
  assumes "session_completed W config now rd1 rd2 weak cap br ec b = (Inr r, b0)" and "res_result r = 200"
    and "cache b = Mem c" and "cache_inv c" and "cache_key_copy cap = cid @ '':'' @ upper country"
    and "cid \<noteq> []" and "country \<noteq> []" and "upper country' = upper country"
    and "req_target req = company_target cid country'"
    and "service_trace W config b0 ops b'" and "\<forall>x \<in> set ops. keeps (cache_key_copy cap) x"
    and "steady (OpGet (clk 0) (clk 1) (cache_key_copy cap) # ops)" and "clk 1 < now + 86400 * 1000000000"
    and "card (used_keys ops - {cache_key_copy cap}) < max_size c"
  shows "fst (processCompanyRequest W config clk req t b') = Answer (Some (cached_response (res_body r)))"
proof -
  let ?k = "cid @ '':'' @ upper country'" and ?c = "snd (mem_set now (cache_key_copy cap) (res_body r) 86400 c)"
  obtain b1 where b1: "cache b1 = cache b" "backend_completed W config now rd1 rd2 cap br ec b1 = (Inr r, b0)"
    using session_completedE [OF assms(1)] by blast
  have "cache b0 = Mem ?c"
    using completed_cache [OF b1(2) assms(2)] b1(1) assms(3) by (simp split: prod.splits)
  from trace_cache [OF assms(10) this] have c: "cache b' = Mem (run_ops mem_step ops ?c)" .
  have "fst (mem_get (clk 0) (clk 1) (cache_key_copy cap) (run_ops mem_step ops ?c)) = Some (res_body r)"
    using assms(13) by (intro recent_entry_stays [OF assms(4,11,12) _ assms(14)]) (simp add: second_def)
  then have "fst (cache_get (redisCommand W) (clk 0) (clk 1) ?k (cache b')) = Some (res_body r)"
    using assms(5,8) by (simp add: c split: prod.split) (metis fst_conv)
  moreover have "country' \<noteq> []" using assms(7,8) by (metis upper_eq_Nil)
  ultimately show ?thesis using cache_hit [OF assms(6) _ assms(9)] by blast
qed

text \<open>Between the answer and the request another company is asked for.\<close>

definition demo_other_request :: request where
  "demo_other_request = demo_request\<lparr>req_target := company_target ''8'' ''us''\<rparr>"

theorem answer_served_from_cache_witness:
  "\<exists>b' b''. snd (session_completed demo_world demo_config 1 (CHR ''x'', 0) (CHR ''x'', 0) captured_weak_ptr demo_capture
      demo_answer no_error demo_service) = b'
    \<and> snd (processCompanyRequest demo_world demo_config (\<lambda>_. 5) demo_other_request 0 b') = b''
    \<and> fst (processCompanyRequest demo_world demo_config (\<lambda>_. 9) demo_request 0 b'') = Answer (Some (cached_response ''{}''))"
proof -
  obtain b' where b: "session_completed demo_world demo_config 1 (CHR ''x'', 0) (CHR ''x'', 0) captured_weak_ptr demo_capture
      demo_answer no_error demo_service = (Inr (prepare_payload (set_body ''{}'' (response_for demo_request))), b')"
    using demo_completed by (auto simp: session_completed_def captured_weak_ptr_def)
  obtain out b'' where b2: "processCompanyRequest demo_world demo_config (\<lambda>_. 5) demo_other_request 0 b' = (out, b'')"
    by fastforce
  let ?ops = "[OpGet 5 5 ''8:US'']"
  have "request_ops (\<lambda>_. 5) demo_other_request = ?ops"
    by (simp add: request_ops_def demo_other_request_def company_target_params Let_def)
  then have tr: "service_trace demo_world demo_config b' ?ops b''"
    using trace_request [OF trace_start b2] by simp
  have ok: "res_result (prepare_payload (set_body ''{}'' (response_for demo_request))) = 200"
    by (simp add: response_for_def empty_response_def)
  have m: "cache demo_service = Mem (new_cache 60 2)" "cache_key_copy demo_capture = ''7'' @ '':'' @ upper ''us''"
    "req_target demo_request = company_target ''7'' ''us''"
    by (simp_all add: demo_service_def demo_capture_def demo_request_def)
  have k: "\<forall>x \<in> set ?ops. keeps (cache_key_copy demo_capture) x"
    "steady (OpGet ((\<lambda>_. 9) 0) ((\<lambda>_. 9) 1) (cache_key_copy demo_capture) # ?ops)"
    "card (used_keys ?ops - {cache_key_copy demo_capture}) < max_size (new_cache 60 2)"
    by (simp_all add: demo_capture_def new_cache_def)
  show ?thesis
    using answer_served_from_cache [where clk = "\<lambda>_. 9" and ops = ?ops and t = 0, OF b ok m(1) new_cache_inv(1) m(2)
        _ _ refl m(3) tr k(1,2) _ k(3)] b b2 by simp
qed

text \<open>C8: A failing backend is left alone for the cool-off period and tried again after it: after a
  refused connection, a time-out or a 5xx answer, a request that misses the cache in time is
  answered with 504 while less than the configured number of milliseconds have passed, and starts
  a new session from then on.\<close>

theorem failed_backend_avoided:
  assumes "backend_completed W config now rd1 rd2 cap br ec b = (Inr r, b')" and "backend_failed br ec"
    and "findBackendInfo config (upper country) = Some info" and "url info = backend_url_copy cap" and "\<not> is_https info"
    and "cid \<noteq> []" and "country \<noteq> []" and "req_target req = company_target cid country"
    and "fst (cache_get (redisCommand W) (clk 0) (clk 1) (cid @ '':'' @ upper country) (cache b')) = None"
    and "\<not> sla_missed config (clk 2) t"
  shows "if clk 3 < now + backend_servers_circuit_breaker_cool_off_duration_in_millis config * 1000000
    then fst (processCompanyRequest W config clk req t b') =
      Answer (Some (error_response 504 (json_error ''Gateway Timeout - Circuit Breaker Active'') (response_for req)))
    else \<exists>n session cap'. fst (processCompanyRequest W config clk req t b') = Started n session cap'"
proof -
  obtain c where c: "cache_get (redisCommand W) (clk 0) (clk 1) (cid @ '':'' @ upper country) (cache b') = (None, c)"
    using assms(9) by (metis prod.collapse)
  have "circuit_breaker b' = trip now (backend_url_copy cap)
      (backend_servers_circuit_breaker_cool_off_duration_in_millis config) (circuit_breaker b)"
    using assms(1,2) by (auto simp: backend_completed_def backend_failed_def unreachable_def Let_def
        handleBackendServerErrorResponse_def count_def split: if_splits)
  then show ?thesis
    unfolding process_company_target [OF assms(6-8)]
    using c assms(3-5,10) by (simp add: checkCacheAndRespond_def isTripped_trip millisecond_def callBackendApi_def Let_def)
qed

theorem failed_backend_avoided_witness:
  "\<exists>b'. snd (backend_completed demo_world demo_config 1 (CHR ''x'', 0) (CHR ''x'', 0) demo_capture empty_response
        connection_refused demo_service) = b'
    \<and> fst (processCompanyRequest demo_world demo_config (\<lambda>_. 5) demo_request 0 b') =
        Answer (Some (error_response 504 (json_error ''Gateway Timeout - Circuit Breaker Active'') (response_for demo_request)))"
proof -
  let ?b' = "handleBackendServerErrorResponse demo_world demo_config 1 (backend_url_copy demo_capture) demo_service"
  let ?r = "prepare_payload (set_body (json_error ''Gateway Timeout - Backend Unreachable'')
    ((beast_res_cb demo_capture)\<lparr>res_result := 504\<rparr>))"
  have c: "backend_completed demo_world demo_config 1 (CHR ''x'', 0) (CHR ''x'', 0) demo_capture empty_response
      connection_refused demo_service = (Inr ?r, ?b')"
    by (simp add: backend_completed_def)
  have "cache ?b' = cache demo_service"
    by (simp add: handleBackendServerErrorResponse_def count_def Let_def)
  then have m: "fst (cache_get (redisCommand demo_world) 5 5 k (cache ?b')) = None" for k
    using demo_miss by metis
  have f: "findBackendInfo demo_config (upper ''us'') = Some demo_backend"
    by (simp add: findBackendInfo_def demo_config_def)
  have t: "req_target demo_request = company_target ''7'' ''us''" by (simp add: demo_request_def)
  have o: "url demo_backend = backend_url_copy demo_capture" "\<not> is_https demo_backend"
    by (simp_all add: demo_backend_def demo_capture_def)
  have "backend_failed empty_response connection_refused" by (simp add: backend_failed_def)
  from failed_backend_avoided [where clk = "\<lambda>_. 5", OF c this f o _ _ t m demo_in_time] c
  show ?thesis by (simp add: demo_config_def default_config_def)
qed

text \<open>A client that asks for the connection to be closed does not get it closed on a cache hit: the
  cached response always announces HTTP/1.1 and a persistent connection.\<close>

theorem cache_hit_ignores_connection:
  assumes "cid \<noteq> []" and "country \<noteq> []" and "req_target req = company_target cid country"
    and "fst (cache_get (redisCommand W) (clk 0) (clk 1) (cid @ '':'' @ upper country) (cache b)) = Some v"
    and "req_keep_alive req = False"
  shows "\<exists>r. fst (processCompanyRequest W config clk req t b) = Answer (Some r)
    \<and> res_keep_alive r \<and> res_version r = 11 \<and> res_body r = v"
  using cache_hit [OF assms(1-4)] by (simp add: cached_response_def)

theorem cache_hit_ignores_connection_witness:
  "\<exists>r. fst (processCompanyRequest demo_world demo_config (\<lambda>_. 9) demo_request 0
      (demo_service\<lparr>cache := Mem (snd (mem_set 1 ''7:US'' ''{}'' 60 (new_cache 60 2)))\<rparr>)) = Answer (Some r)
    \<and> res_keep_alive r \<and> \<not> req_keep_alive demo_request"
proof -
  let ?b = "demo_service\<lparr>cache := Mem (snd (mem_set 1 ''7:US'' ''{}'' 60 (new_cache 60 2)))\<rparr>"
  have "fst (mem_get 9 9 ''7:US'' (snd (mem_set 1 ''7:US'' ''{}'' 60 (new_cache 60 2)))) = Some ''{}''"
    by (rule mem.get_after_set [OF new_cache_inv(1)]) (simp_all add: mem_life_def effective_ttl_def second_def)
  then have "fst (cache_get (redisCommand demo_world) 9 9 (''7'' @ '':'' @ upper ''us'') (cache ?b)) = Some ''{}''"
    by (auto split: prod.split)
  moreover have "req_target demo_request = company_target ''7'' ''us''" by (simp add: demo_request_def)
  ultimately show ?thesis
    using cache_hit_ignores_connection [of "''7''" "''us''" demo_request demo_world "\<lambda>_. 9" ?b "''{}''" demo_config 0]
    by (auto simp: demo_request_def)
qed

text \<open>An answer of version 2 that is fine but for its date of dissolution \<open>s\<close>, which does not begin
  with a date and time.\<close>

definition malformed_answer :: "('c, 'j) world \<Rightarrow> response \<Rightarrow> error_code \<Rightarrow> string \<Rightarrow> bool" where
  "malformed_answer W br ec s \<longleftrightarrow>
     \<not> unreachable ec \<and> res_result br = 200 \<and> res_body br \<noteq> []
     \<and> res_content_type br = Some ''application/x-company-v2''
     \<and> (\<exists>j n tn. json_parse (json W) (res_body br) = Inr j
         \<and> json_value (json W) j ''company_name'' [] = Inr n \<and> json_value (json W) j ''tin'' [] = Inr tn
         \<and> json_contains (json W) j ''dissolved_on'' \<and> json_is_string (json W) (json_at (json W) j ''dissolved_on'')
         \<and> json_get_string (json W) (json_at (json W) j ''dissolved_on'') = s)
     \<and> s \<noteq> [] \<and> failbit (snd (get_time (istringstream s) tm_zero))"

lemma malformed_throws:
  assumes "malformed_answer W br ec s"
  shows "backend_completed W config now rd1 rd2 cap br ec b
    = (Inl (StdExn (runtime_error (''Failed to parse date/time part: '' @ quoted s))), b)"
proof -
  obtain j n tn where m: "\<not> unreachable ec" "res_result br = 200" "res_body br \<noteq> []"
    "res_content_type br = Some ''application/x-company-v2''" "json_parse (json W) (res_body br) = Inr j"
    "json_value (json W) j ''company_name'' [] = Inr n" "json_value (json W) j ''tin'' [] = Inr tn"
    "json_contains (json W) j ''dissolved_on''" "json_is_string (json W) (json_at (json W) j ''dissolved_on'')"
    "json_get_string (json W) (json_at (json W) j ''dissolved_on'') = s"
    "s \<noteq> []" "failbit (snd (get_time (istringstream s) tm_zero))"
    using assms by (auto simp: malformed_answer_def)
  let ?i = "new_CompanyInfo\<lparr>ci_id := id_copy cap, ci_version := 2, parse_success := True, ci_name := n,
    tin := Some tn, dissolved_on := Some s\<rparr>"
  have p: "parseBackendResponse (json W) (udp_sendto W) br (new_CompanyInfo\<lparr>ci_id := id_copy cap\<rparr>) (statsd b)
      = (?i, statsd b)"
    using m by (simp add: parseBackendResponse_def read_company_def content_type_of_def fill_v2_def
        optional_member_def Let_def)
  have "in_future rd s = Inl (runtime_error (''Failed to parse date/time part: '' @ quoted s))" for rd
    using m(12) by (cases "get_time (istringstream s) tm_zero") (simp add: in_future_def isUTCTimeInFuture_def)
  then have "company_text W rd1 rd2 ?i = Inl (StdExn (runtime_error (''Failed to parse date/time part: '' @ quoted s)))"
    using m by (simp add: company_text_def company_json_def constructV2Json_def add_until_def)
  then show ?thesis
    using m p by (simp add: backend_completed_def backend_ok_def unreachable_def Let_def)
qed

text \<open>An answer of a backend with a date of dissolution that cannot be read leaves the completion
  function with an exception: no response is handed to the session, so the client never gets an
  answer, and nothing is cached.\<close>

theorem malformed_date_no_response:
  assumes "malformed_answer W br ec s"
  shows "backend_completed W config now rd1 rd2 cap br ec b
    = (Inl (StdExn (runtime_error (''Failed to parse date/time part: '' @ quoted s))), b)"
  by (rule malformed_throws [OF assms])

text \<open>The example installation with a backend that answers \<open>soon\<close> for every date.\<close>

definition soon_world :: "((string, string) umap, bool) world" where
  "soon_world = demo_world\<lparr>json := demo_json\<lparr>json_contains := \<lambda>j k. True, json_is_string := \<lambda>j. True,
     json_get_string := \<lambda>j. ''soon''\<rparr>\<rparr>"

lemma soon_malformed: "malformed_answer soon_world demo_answer no_error ''soon''"
proof -
  have "failbit (snd (get_time (istringstream ''soon'') tm_zero))"
    by (simp add: get_time_def istringstream_def sentry_def good_def time_get.simps TIME_FORMAT_def time_conv_def
        extract_year_def extract_num_def cstr_simps Let_def)
  moreover have "json_parse demo_json ''{}'' = Inr False" "\<not> unreachable no_error"
    by (simp_all add: demo_json_def unreachable_def)
  ultimately show ?thesis
    by (simp add: malformed_answer_def soon_world_def demo_answer_def empty_response_def)
      (auto simp: demo_json_def)
qed

theorem malformed_date_no_response_witness:
  "\<exists>e. backend_completed soon_world demo_config 1 (CHR ''x'', 0) (CHR ''x'', 0) demo_capture demo_answer no_error demo_service
     = (Inl e, demo_service)"
  using malformed_date_no_response [OF soon_malformed] by blast

section \<open>The set of tracked sessions\<close>

lemma process_sessions:
  "active_client_sessions (snd (processCompanyRequest W config clk req t b)) =
     (case fst (processCompanyRequest W config clk req t b) of
        Started n _ _ \<Rightarrow> n # active_client_sessions b | _ \<Rightarrow> active_client_sessions b)"
  "next_session (snd (processCompanyRequest W config clk req t b)) =
     (case fst (processCompanyRequest W config clk req t b) of
        Started n _ _ \<Rightarrow> Suc (next_session b) | _ \<Rightarrow> next_session b)"
  by (auto simp: processCompanyRequest_def Let_def checkCacheAndRespond_def callBackendApi_def count_def
      split: option.splits prod.splits sum.splits)

lemma completed_sessions:
  "active_client_sessions (snd (backend_completed W config now rd1 rd2 cap br ec b)) = active_client_sessions b"
  "next_session (snd (backend_completed W config now rd1 rd2 cap br ec b)) = next_session b"
  by (auto simp: backend_completed_def backend_ok_def Let_def handleBackendServerErrorResponse_def count_def
      split: prod.splits sum.splits)

text \<open>The life of the service: requests arrive and sessions complete, in any order.\<close>

inductive service_run :: "('c, 'j) world \<Rightarrow> AppConfig \<Rightarrow> 'c Backendify \<Rightarrow> nat \<Rightarrow> 'c Backendify \<Rightarrow> bool"
  for W config b0 where
  service_start: "service_run W config b0 0 b0"
| service_request: "service_run W config b0 n b \<Longrightarrow> processCompanyRequest W config clk req t b = (Started k session cap, b') \<Longrightarrow>
    service_run W config b0 (Suc n) b'"
| service_answer: "service_run W config b0 n b \<Longrightarrow> processCompanyRequest W config clk req t b = (Answer r, b') \<Longrightarrow>
    service_run W config b0 n b'"
| service_complete: "service_run W config b0 n b \<Longrightarrow>
    service_run W config b0 n (snd (session_completed W config now rd1 rd2 captured_weak_ptr cap br ec b))"

inductive_cases service_runE: "service_run W config b0 n b"

text \<open>No finished session is ever forgotten: the completion function cannot find the session it
  should remove, because the weak pointer it captures is never assigned. The set of active sessions
  has one element for each backend call ever made.\<close>

theorem active_sessions_never_shrink:
  assumes "service_run W config b0 n b"
  shows "length (active_client_sessions b) = length (active_client_sessions b0) + n"
  using assms
proof (induction rule: service_run.induct)
  case (service_request n b clk req t k session cap b')
  then show ?case using process_sessions(1) [of W config clk req t b] by simp
next
  case (service_answer n b clk req t r b')
  then show ?case using process_sessions(1) [of W config clk req t b] by simp
next
  case (service_complete n b now rd1 rd2 cap br ec)
  then show ?case by (simp add: session_completed_def captured_weak_ptr_def completed_sessions)
qed simp

theorem active_sessions_never_shrink_witness:
  "\<exists>b b'. service_run demo_world demo_config demo_service 1 b
    \<and> b' = snd (session_completed demo_world demo_config 1 (CHR ''x'', 0) (CHR ''x'', 0) captured_weak_ptr demo_capture
        demo_answer no_error b)
    \<and> length (active_client_sessions b') = 1"
proof -
  obtain n session cap b where
    "processCompanyRequest demo_world demo_config (\<lambda>_. 5) demo_request 0 demo_service = (Started n session cap, b)"
    using demo_started by blast
  from service_request [OF service_start this] have r: "service_run demo_world demo_config demo_service 1 b" by simp
  from active_sessions_never_shrink [OF service_complete [OF r]] r show ?thesis
    by (auto simp: demo_service_def)
qed

end
