(* ===== verification/Server_Session.thy ===== *)
theory Server_Session
  imports Backendify_Service
begin

text \<open>
  \<open>HttpServerSession\<close> (src/core/HttpServerSession.hpp and .cpp): one connection of a client, as a
  machine whose steps are the completion handlers that run on the session's strand. The pending
  operations are part of the state: a read, a write (with the keep-alive flag bound to its
  handler), the diagnostic timer, or an answer the service owes. The networking library completes
  each pending operation once, with any result. What a request that was moved from looks like is
  the library's business: the parameter \<open>moved_from\<close>. Log lines are left out.
\<close>

section \<open>State\<close>

record session =
  response_queue :: "response list"
  write_in_progress :: bool
  current_write_op_completed :: bool
  req :: request
  request_received_time :: int
  on_finish_callback :: bool
  socket_is_open :: bool
  send_shutdown :: bool
  read_pending :: bool
  write_pending :: "bool option"
  timer_pending :: bool
  awaiting :: "capture option"     \<comment> \<open>the answer of a backend call that the service started\<close>
  finish_calls :: nat              \<comment> \<open>dispatched calls of the finish callback\<close>
  requests_read :: nat
  sent :: "response list"          \<comment> \<open>responses written, in order\<close>

definition new_session :: session where
  "new_session = \<lparr>response_queue = [], write_in_progress = False, current_write_op_completed = False,
     req = empty_request, request_received_time = 0, on_finish_callback = True, socket_is_open = True,
     send_shutdown = False, read_pending = False, write_pending = None, timer_pending = False, awaiting = None,
     finish_calls = 0, requests_read = 0, sent = []\<rparr>"

section \<open>Operations\<close>

definition do_close :: "session \<Rightarrow> session" where
  "do_close s =
     (let s = s\<lparr>current_write_op_completed := True\<rparr>;
          s = (if socket_is_open s then s\<lparr>send_shutdown := True\<rparr> else s)
      in if on_finish_callback s
         then s\<lparr>on_finish_callback := False, finish_calls := Suc (finish_calls s)\<rparr> else s)"

definition do_read :: "int \<Rightarrow> session \<Rightarrow> session" where
  "do_read now s = s\<lparr>request_received_time := now, req := empty_request, read_pending := True\<rparr>"

definition session_start :: "int \<Rightarrow> session \<Rightarrow> session" where
  "session_start now s = do_read now s"

definition do_write :: "session \<Rightarrow> session" where
  "do_write s =
     (if response_queue s = [] then s\<lparr>write_in_progress := False\<rparr>
      else
        let s = s\<lparr>write_in_progress := True\<rparr>
        in if \<not> socket_is_open s then do_close (s\<lparr>response_queue := [], write_in_progress := False\<rparr>)
           else s\<lparr>current_write_op_completed := False, timer_pending := True,
                  write_pending := Some (res_keep_alive (hd (response_queue s)))\<rparr>)"

definition on_write :: "int \<Rightarrow> bool \<Rightarrow> error_code \<Rightarrow> session \<Rightarrow> session" where
  "on_write now keep_alive ec s =
     (let timer_already_fired_and_acted = current_write_op_completed s;
          s = s\<lparr>current_write_op_completed := True\<rparr>
      in if timer_already_fired_and_acted then do_close s
         else if ec \<noteq> no_error then do_close (s\<lparr>response_queue := [], write_in_progress := False\<rparr>)
         else
           let s = s\<lparr>response_queue := tl (response_queue s)\<rparr>
           in if response_queue s \<noteq> [] then do_write s
              else
                let s = s\<lparr>write_in_progress := False\<rparr>
                in if \<not> keep_alive then do_close s else do_read now s)"

text \<open>The comparison of the queue's size with the \<open>int\<close> bound converts the bound to \<open>size_t\<close>.\<close>

definition send_response :: "AppConfig \<Rightarrow> int \<Rightarrow> response option \<Rightarrow> session \<Rightarrow> session" where
  "send_response config now opt_res s =
     (case opt_res of
        None \<Rightarrow>
          if write_in_progress s then s
          else if req_keep_alive (req s) then do_read now s
          else do_close s
      | Some res \<Rightarrow>
          let s = (if length (response_queue s) \<ge> size_of_int (max_response_queue_size config)
                   then s\<lparr>response_queue := tl (response_queue s)\<rparr> else s);
              s = s\<lparr>response_queue := response_queue s @ [res]\<rparr>
          in if \<not> write_in_progress s then do_write s else s)"

definition text_response :: "nat \<Rightarrow> request \<Rightarrow> string \<Rightarrow> response" where
  "text_response status r body = prepare_payload (set_body body
     (empty_response\<lparr>res_result := status, res_version := req_version r, res_server := True,
        res_content_type := Some ''text/plain'', res_keep_alive := req_keep_alive r\<rparr>))"

definition target_path :: "string \<Rightarrow> string" where
  "target_path target =
     (case find_char (CHR ''?'') target of None \<Rightarrow> target | Some p \<Rightarrow> substr_to target p)"

text \<open>
  \<open>handle_request\<close>, with the service's state; \<open>has_service\<close> tells that the pointer to it is not
  null. The request is moved into the service, so the member \<open>req_\<close> is moved from when the answer
  is sent. The second result is the backend call that the service has started or posted.
\<close>

definition handle_request ::
    "('c, 'j) world \<Rightarrow> AppConfig \<Rightarrow> (request \<Rightarrow> request) \<Rightarrow> (nat \<Rightarrow> int) \<Rightarrow> bool \<Rightarrow> session \<Rightarrow> 'c Backendify
     \<Rightarrow> session \<times> outcome option \<times> 'c Backendify" where
  "handle_request W config moved_from clk has_service s b =
     (let r = req s; path = target_path (req_target r)
      in if \<not> has_service then
           (send_response config (clk 4) (Some (text_response 500 r ''Internal server error: service not available.'')) s,
            None, b)
         else if req_method r = GET \<and> path = ''/company'' then
           (let s = s\<lparr>req := moved_from r\<rparr>
            in case processCompanyRequest W config clk r (request_received_time s) b of
                 (Answer opt_res, b) \<Rightarrow> (send_response config (clk 4) opt_res s, None, b)
               | (Posted ec cap, b) \<Rightarrow> (s\<lparr>awaiting := Some cap\<rparr>, Some (Posted ec cap), b)
               | (Started n cs cap, b) \<Rightarrow> (s\<lparr>awaiting := Some cap\<rparr>, Some (Started n cs cap), b))
         else if req_method r = GET \<and> path = ''/status'' then
           (send_response config (clk 4) processStatusRequest s, None, b)
         else
           (send_response config (clk 4)
              (Some (text_response 404 r (''The resource '' @ quoted (req_target r) @ '' was not found.''))) s,
            None, b))"

definition on_read ::
    "('c, 'j) world \<Rightarrow> AppConfig \<Rightarrow> (request \<Rightarrow> request) \<Rightarrow> (nat \<Rightarrow> int) \<Rightarrow> bool \<Rightarrow> error_code \<Rightarrow> session \<Rightarrow> 'c Backendify
     \<Rightarrow> session \<times> outcome option \<times> 'c Backendify" where
  "on_read W config moved_from clk has_service ec s b =
     (if ec = end_of_stream then (do_close s, None, b)
      else if ec \<noteq> no_error then (do_close s, None, b)
      else handle_request W config moved_from clk has_service s b)"

text \<open>The handler of the diagnostic timer.\<close>

definition on_diagnostic_timer :: "error_code \<Rightarrow> session \<Rightarrow> session" where
  "on_diagnostic_timer ec s =
     (if current_write_op_completed s then s
      else if ec = operation_aborted then s
      else if ec \<noteq> no_error then s
      else s\<lparr>socket_is_open := False\<rparr>)"

definition stop :: "session \<Rightarrow> session" where
  "stop s = s\<lparr>current_write_op_completed := True, socket_is_open := False,
     send_shutdown := (send_shutdown s \<or> socket_is_open s)\<rparr>"

section \<open>Runs of a session\<close>

text \<open>The other sessions may change the service between two steps of this one, so every step may meet
  any state \<open>b\<close> of it. A read stores the request it has read; a write that succeeds has sent the
  front of the queue.\<close>

inductive session_run ::
    "('c, 'j) world \<Rightarrow> AppConfig \<Rightarrow> (request \<Rightarrow> request) \<Rightarrow> bool \<Rightarrow> session \<Rightarrow> bool"
  for W :: "('c, 'j) world" and config moved_from has_service where
  run_start: "session_run W config moved_from has_service (session_start now new_session)"
| run_read_ok: "session_run W config moved_from has_service s \<Longrightarrow> read_pending s \<Longrightarrow>
    on_read W config moved_from clk has_service no_error
      (s\<lparr>read_pending := False, req := r, requests_read := Suc (requests_read s)\<rparr>) b = (s', out, b') \<Longrightarrow>
    session_run W config moved_from has_service s'"
| run_read_error: "session_run W config moved_from has_service s \<Longrightarrow> read_pending s \<Longrightarrow> ec \<noteq> no_error \<Longrightarrow>
    on_read W config moved_from clk has_service ec (s\<lparr>read_pending := False\<rparr>) b = (s', out, b') \<Longrightarrow>
    session_run W config moved_from has_service s'"
| run_answer: "session_run W config moved_from has_service s \<Longrightarrow> awaiting s \<noteq> None \<Longrightarrow>
    session_run W config moved_from has_service (send_response config now (Some res) (s\<lparr>awaiting := None\<rparr>))"
| run_write_ok: "session_run W config moved_from has_service s \<Longrightarrow> write_pending s = Some ka \<Longrightarrow>
    session_run W config moved_from has_service
      (on_write now ka no_error (s\<lparr>write_pending := None, sent := sent s @ [hd (response_queue s)]\<rparr>))"
| run_write_error: "session_run W config moved_from has_service s \<Longrightarrow> write_pending s = Some ka \<Longrightarrow> ec \<noteq> no_error \<Longrightarrow>
    session_run W config moved_from has_service (on_write now ka ec (s\<lparr>write_pending := None\<rparr>))"
| run_timer: "session_run W config moved_from has_service s \<Longrightarrow> timer_pending s \<Longrightarrow>
    session_run W config moved_from has_service (on_diagnostic_timer ec (s\<lparr>timer_pending := False\<rparr>))"
| run_stop: "session_run W config moved_from has_service s \<Longrightarrow>
    session_run W config moved_from has_service (stop s)"

inductive_cases session_runE: "session_run W config moved_from has_service s"

section \<open>Invariant\<close>

text \<open>The things a session waits for, other than the timer.\<close>

definition activity :: "session \<Rightarrow> nat" where
  "activity s = (if read_pending s then 1 else 0) + (if write_pending s \<noteq> None then 1 else 0)
     + (if awaiting s \<noteq> None then 1 else 0)"

definition session_inv :: "session \<Rightarrow> bool" where
  "session_inv s \<longleftrightarrow>
     activity s \<le> 1
     \<and> (activity s = 1 \<longleftrightarrow> on_finish_callback s)
     \<and> finish_calls s = (if on_finish_callback s then 0 else 1)
     \<and> (read_pending s \<or> awaiting s \<noteq> None \<longrightarrow> \<not> write_in_progress s \<and> response_queue s = [])
     \<and> (\<forall>ka. write_pending s = Some ka \<longrightarrow>
          write_in_progress s \<and> (\<exists>r. response_queue s = [r] \<and> ka = res_keep_alive r))
     \<and> length (sent s) + (if write_pending s \<noteq> None \<or> awaiting s \<noteq> None then 1 else 0) \<le> requests_read s"

text \<open>A session between two operations: inside a handler, before it starts the next one.\<close>

definition idle :: "session \<Rightarrow> bool" where
  "idle s \<longleftrightarrow> \<not> read_pending s \<and> write_pending s = None \<and> awaiting s = None
     \<and> on_finish_callback s \<and> finish_calls s = 0 \<and> \<not> write_in_progress s \<and> response_queue s = []
     \<and> length (sent s) \<le> requests_read s"

lemma do_close_inv:
  assumes "\<not> read_pending s" and "write_pending s = None" and "awaiting s = None"
    and "on_finish_callback s" and "finish_calls s = 0" and "length (sent s) \<le> requests_read s"
  shows "session_inv (do_close s)"
  using assms by (simp add: session_inv_def activity_def do_close_def Let_def)

lemma do_read_inv: "idle s \<Longrightarrow> session_inv (do_read now s)"
  by (simp add: session_inv_def activity_def idle_def do_read_def)

lemma await_inv: "idle s \<Longrightarrow> length (sent s) < requests_read s \<Longrightarrow> session_inv (s\<lparr>awaiting := Some cap\<rparr>)"
  by (simp add: session_inv_def activity_def idle_def)

lemma idle_req: "idle (s\<lparr>req := r\<rparr>) = idle s"
  by (simp add: idle_def)

lemma do_write_inv:
  assumes "idle s" and "length (sent s) < requests_read s"
  shows "session_inv (do_write (s\<lparr>response_queue := [r]\<rparr>))"
proof (cases "socket_is_open s")
  case True
  then show ?thesis
    using assms by (simp add: session_inv_def activity_def idle_def do_write_def)
next
  case False
  then have "do_write (s\<lparr>response_queue := [r]\<rparr>) = do_close (s\<lparr>response_queue := [], write_in_progress := False\<rparr>)"
    by (simp add: do_write_def)
  then show ?thesis using assms by (simp add: idle_def do_close_inv)
qed

lemma send_response_inv:
  assumes "idle s" and "opt = None \<or> length (sent s) < requests_read s"
  shows "session_inv (send_response config now opt s)"
proof (cases opt)
  case None
  then show ?thesis
    using assms(1) do_read_inv [OF assms(1)] do_close_inv [of s]
    by (simp add: send_response_def idle_def)
next
  case (Some r)
  then have "send_response config now opt s = do_write (s\<lparr>response_queue := [r]\<rparr>)"
    using assms(1) by (simp add: send_response_def idle_def Let_def)
  then show ?thesis using do_write_inv [OF assms(1)] assms(2) Some by simp
qed

lemma handle_request_inv:
  assumes "idle s" and "length (sent s) < requests_read s"
    and "handle_request W config moved_from clk has_service s b = (s', out, b')"
  shows "session_inv s'"
proof -
  have send: "session_inv (send_response config now opt (s\<lparr>req := r\<rparr>))" for now opt r
    using assms(1,2) by (intro send_response_inv) (simp_all add: idle_req)
  have wait: "session_inv (s\<lparr>req := r, awaiting := Some cap\<rparr>)" for r cap
    using await_inv [of "s\<lparr>req := r\<rparr>" cap] assms(1,2) by (simp add: idle_req)
  have send0: "session_inv (send_response config now opt s)" for now opt
    using assms(1,2) by (intro send_response_inv) simp_all
  show ?thesis
    using assms(3) send wait send0
    by (auto simp: handle_request_def Let_def split: if_splits prod.splits outcome.splits)
qed

lemma on_write_inv:
  assumes "session_inv s" and "write_pending s = Some ka"
  shows "session_inv (on_write now ka no_error (s\<lparr>write_pending := None, sent := sent s @ [hd (response_queue s)]\<rparr>))"
    and "ec \<noteq> no_error \<Longrightarrow> session_inv (on_write now ka ec (s\<lparr>write_pending := None\<rparr>))"
proof -
  have s: "\<not> read_pending s" "awaiting s = None" "on_finish_callback s" "finish_calls s = 0"
      "write_in_progress s" "length (sent s) < requests_read s"
    using assms by (auto simp: session_inv_def activity_def split: if_splits)
  obtain r where r: "response_queue s = [r]" using assms by (auto simp: session_inv_def)
  have idle: "idle (s\<lparr>write_pending := None, sent := sent s @ [r], current_write_op_completed := True,
      response_queue := [], write_in_progress := False\<rparr>)"
    using s by (simp add: idle_def)
  show "session_inv (on_write now ka no_error (s\<lparr>write_pending := None, sent := sent s @ [hd (response_queue s)]\<rparr>))"
    using s r do_read_inv [OF idle, of now]
    by (simp add: on_write_def Let_def do_close_inv)
  show "session_inv (on_write now ka ec (s\<lparr>write_pending := None\<rparr>))" if "ec \<noteq> no_error"
    using s that by (simp add: on_write_def Let_def do_close_inv)
qed

lemma session_inv_fields:
  "session_inv (s\<lparr>timer_pending := x\<rparr>) = session_inv s"
  "session_inv (s\<lparr>socket_is_open := x\<rparr>) = session_inv s"
  "session_inv (s\<lparr>current_write_op_completed := x\<rparr>) = session_inv s"
  "session_inv (s\<lparr>send_shutdown := x\<rparr>) = session_inv s"
  by (simp_all add: session_inv_def activity_def)

lemma session_run_inv: "session_run W config moved_from has_service s \<Longrightarrow> session_inv s"
proof (induction rule: session_run.induct)
  case (run_start now)
  then show ?case by (simp add: session_start_def do_read_inv new_session_def idle_def)
next
  case (run_read_ok s clk r b s' out b')
  let ?s = "s\<lparr>read_pending := False, req := r, requests_read := Suc (requests_read s)\<rparr>"
  have i: "idle ?s" "length (sent ?s) < requests_read ?s"
    using run_read_ok.IH run_read_ok.hyps(2)
    by (auto simp: session_inv_def activity_def idle_def split: if_splits)
  have "handle_request W config moved_from clk has_service ?s b = (s', out, b')"
    using run_read_ok.hyps(3) by (simp add: on_read_def)
  then show ?case by (rule handle_request_inv [OF i])
next
  case (run_read_error s ec clk b s' out b')
  have "session_inv (do_close (s\<lparr>read_pending := False\<rparr>))"
    using run_read_error.IH run_read_error.hyps(2)
    by (intro do_close_inv) (auto simp: session_inv_def activity_def split: if_splits)
  then show ?case using run_read_error.hyps(3,4) by (auto simp: on_read_def split: if_splits)
next
  case (run_answer s now res)
  have "idle (s\<lparr>awaiting := None\<rparr>)" "length (sent s) < requests_read s"
    using run_answer.IH run_answer.hyps(2)
    by (auto simp: session_inv_def activity_def idle_def split: if_splits)
  then show ?case by (intro send_response_inv) simp_all
next
  case (run_write_ok s ka now)
  then show ?case by (intro on_write_inv(1))
next
  case (run_write_error s ka ec now)
  then show ?case by (intro on_write_inv(2))
next
  case (run_timer s ec)
  then show ?case by (simp add: on_diagnostic_timer_def session_inv_fields)
next
  case (run_stop s)
  then show ?case by (simp add: stop_def session_inv_fields)
qed

section \<open>Properties\<close>

text \<open>C9: A session does one thing at a time: in every reachable state at most one of a read, a write and
  an answer of the service is pending, at most one response is queued, and a response is only
  queued while it is being written or after the session has closed. So when a response can be
  produced the queue is below its bound, if the bound is positive and in the range of \<open>int\<close>, and no
  response is discarded. CODE_DESIGN.md describes a queue that runs ahead of the writes and sheds its
  oldest responses when it is full; the order of reads and writes in the code rules that out.\<close>

theorem session_sequential:
  assumes "session_run W config moved_from has_service s"
  shows "activity s \<le> 1
    \<and> (on_finish_callback s \<longrightarrow> length (response_queue s) \<le> 1)
    \<and> (read_pending s \<or> awaiting s \<noteq> None \<longrightarrow>
        (0 < max_response_queue_size config \<and> in_int_range (max_response_queue_size config) \<longrightarrow>
          length (response_queue s) < size_of_int (max_response_queue_size config)))"
proof -
  have inv: "session_inv s" by (rule session_run_inv [OF assms])
  have "length (response_queue s) \<le> 1" if "on_finish_callback s"
    using inv that by (auto simp: session_inv_def activity_def split: if_splits)
  moreover have "0 < size_of_int m" if "0 < m" "in_int_range m" for m
    using that by (simp add: size_of_int_def in_int_range_def int_max_def)
  ultimately show ?thesis
    using inv by (auto simp: session_inv_def)
qed

text \<open>An example run: a request for an unknown resource.\<close>

definition demo_session :: session where
  "demo_session = fst (on_read demo_world demo_config (\<lambda>r. empty_request) (\<lambda>_. 5) True no_error
     ((session_start 0 new_session)\<lparr>read_pending := False,
        req := demo_request\<lparr>req_target := ''/x'', req_keep_alive := True\<rparr>, requests_read := 1\<rparr>) demo_service)"

lemma size_demo: "size_of_int (max_response_queue_size demo_config) = 100000"
  by (simp add: size_of_int_def demo_config_def default_config_def)

lemma demo_session_run: "session_run demo_world demo_config (\<lambda>r. empty_request) True demo_session"
proof -
  have s: "session_run demo_world demo_config (\<lambda>r. empty_request) True (session_start 0 new_session)"
    by (rule run_start)
  show ?thesis
    unfolding demo_session_def
    by (rule run_read_ok [OF s, where b = demo_service and clk = "\<lambda>_. 5"
          and r = "demo_request\<lparr>req_target := ''/x'', req_keep_alive := True\<rparr>"])
      (simp_all add: session_start_def do_read_def new_session_def prod_eq_iff)
qed

lemma demo_session_write: "write_pending demo_session = Some True \<and> on_finish_callback demo_session"
  by (simp add: demo_session_def on_read_def handle_request_def target_path_def send_response_def do_write_def
      size_demo session_start_def do_read_def new_session_def demo_request_def text_response_def Let_def)

theorem session_sequential_witness: "activity demo_session \<le> 1 \<and> length (response_queue demo_session) \<le> 1"
  using session_sequential [OF demo_session_run] demo_session_write by simp

text \<open>C10: A session ends once: its finish callback is dispatched at most once, it has been dispatched
  exactly when nothing is pending any more, and never while a read, a write or an answer of the
  service is outstanding.\<close>

theorem session_finishes_once:
  assumes "session_run W config moved_from has_service s"
  shows "finish_calls s \<le> 1 \<and> (finish_calls s = 1 \<longleftrightarrow> activity s = 0)"
  using session_run_inv [OF assms] by (auto simp: session_inv_def split: if_splits)

theorem session_finishes_once_witness: "finish_calls demo_session = 0"
  using session_finishes_once [OF demo_session_run] demo_session_write
  by (auto simp: activity_def split: if_splits)

text \<open>C11: No request is answered twice: the responses sent, together with the one being written or
  waited for, are never more than the requests read.\<close>

theorem session_one_response_per_request:
  assumes "session_run W config moved_from has_service s"
  shows "length (sent s) + (if write_pending s \<noteq> None \<or> awaiting s \<noteq> None then 1 else 0) \<le> requests_read s"
  using session_run_inv [OF assms] by (simp add: session_inv_def)

theorem session_one_response_per_request_witness: "length (sent demo_session) + 1 \<le> requests_read demo_session"
  using session_one_response_per_request [OF demo_session_run] demo_session_write by simp

text \<open>Routing: only \<open>GET\<close> requests whose path is \<open>/company\<close> reach the service's company handler, with
  any query; every other request is answered at once with a complete response, 200 for \<open>GET /status\<close>,
  404 otherwise, which names the target and keeps the client's connection setting.\<close>

theorem handle_request_routes:
  assumes "idle s" and "socket_is_open s" and "\<not> (req_method (req s) = GET \<and> target_path (req_target (req s)) = ''/company'')"
  shows "\<exists>r s'. handle_request W config moved_from clk True s b = (s', None, b)
    \<and> write_pending s' = Some (res_keep_alive r) \<and> response_queue s' = [r] \<and> prepared r
    \<and> (if req_method (req s) = GET \<and> target_path (req_target (req s)) = ''/status'' then res_result r = 200
       else res_result r = 404 \<and> res_keep_alive r = req_keep_alive (req s)
         \<and> res_body r = ''The resource '' @ quoted (req_target (req s)) @ '' was not found.'')"
  using assms
  by (auto simp: handle_request_def Let_def send_response_def idle_def do_write_def processStatusRequest_def text_response_def)

theorem handle_request_routes_witness:
  "\<exists>r s'. handle_request demo_world demo_config (\<lambda>r. empty_request) (\<lambda>_. 5) True
      (new_session\<lparr>req := demo_request\<lparr>req_target := ''/status?x=1''\<rparr>\<rparr>) demo_service = (s', None, demo_service)
    \<and> response_queue s' = [r] \<and> res_result r = 200"
  using handle_request_routes [of "new_session\<lparr>req := demo_request\<lparr>req_target := ''/status?x=1''\<rparr>\<rparr>" demo_world
    demo_config "\<lambda>r. empty_request" "\<lambda>_. 5" demo_service]
  by (auto simp: idle_def new_session_def target_path_def substr_to_def demo_request_def)

text \<open>A request that is dropped for a missed SLA loses its wish to close the connection, when a
  request that was moved from reports a persistent connection (as an empty HTTP/1.1 message does):
  the session reads on instead of closing.\<close>

theorem dropped_request_reads_on:
  assumes "idle s" and "req_method (req s) = GET" and "target_path (req_target (req s)) = ''/company''"
    and "fst (processCompanyRequest W config clk (req s) (request_received_time s) b) = Answer None"
    and "req_keep_alive (moved_from (req s))"
  shows "\<exists>s' b'. handle_request W config moved_from clk True s b = (s', None, b')
    \<and> read_pending s' \<and> finish_calls s' = 0"
proof -
  obtain b' where "processCompanyRequest W config clk (req s) (request_received_time s) b = (Answer None, b')"
    using assms(4) by (metis prod.collapse)
  then show ?thesis
    using assms by (simp add: handle_request_def Let_def send_response_def idle_def do_read_def)
qed

theorem dropped_request_reads_on_witness:
  "\<exists>s' b'. handle_request demo_world demo_config (\<lambda>r. empty_request) (\<lambda>_. 5000000000) True
      (new_session\<lparr>req := demo_request\<rparr>) demo_service = (s', None, b')
    \<and> read_pending s' \<and> \<not> req_keep_alive demo_request"
proof -
  have t: "req_target demo_request = company_target ''7'' ''us''" by (simp add: demo_request_def)
  have n: "''7'' \<noteq> []" "''us'' \<noteq> []" by simp_all
  obtain c where c: "cache_get (redisCommand demo_world) 5000000000 5000000000 (''7'' @ '':'' @ upper ''us'')
      (cache demo_service) = (None, c)"
    using demo_miss by (metis prod.collapse)
  have "fst (processCompanyRequest demo_world demo_config (\<lambda>_. 5000000000) demo_request 0 demo_service) = Answer None"
    unfolding process_company_target [OF n t]
    using c by (simp add: checkCacheAndRespond_def sla_missed_def trunc_div_def wrap32_def demo_config_def default_config_def)
  moreover have "target_path (req_target demo_request) = ''/company''"
    by (simp add: target_path_def t company_target_def substr_to_def)
  ultimately show ?thesis
    using dropped_request_reads_on [of "new_session\<lparr>req := demo_request\<rparr>" demo_world demo_config "\<lambda>_. 5000000000"
      demo_service "\<lambda>r. empty_request"]
    by (auto simp: idle_def new_session_def demo_request_def empty_request_def)
qed

end
