(* ===== verification/Http_Server.thy ===== *)
theory Http_Server
  imports Server_Session
begin

text \<open>
  \<open>BeastHttpServer\<close> (src/core/BeastHttpServer.hpp and .cpp): accepting connections and the set of
  their sessions. A session is known by its number; the sessions themselves are a map from numbers
  to states, so that \<open>stop\<close> of the server can stop each of them. The four calls that prepare the
  acceptor give an optional error message each.
\<close>

section \<open>State\<close>

record http_server =
  acceptor_open :: bool
  accept_pending :: bool
  active_sessions :: "nat list"
  next_session_id :: nat
  sessions :: "nat \<Rightarrow> session"

definition new_server :: "string option \<Rightarrow> string option \<Rightarrow> string option \<Rightarrow> string option \<Rightarrow> http_server exc" where
  "new_server open_ec option_ec bind_ec listen_ec =
     (case open_ec of Some m \<Rightarrow> Inl (runtime_error (''Failed to open acceptor: '' @ m)) | None \<Rightarrow>
      case option_ec of Some m \<Rightarrow> Inl (runtime_error (''Failed to set_option: '' @ m)) | None \<Rightarrow>
      case bind_ec of Some m \<Rightarrow> Inl (runtime_error (''Failed to bind: '' @ m)) | None \<Rightarrow>
      case listen_ec of Some m \<Rightarrow> Inl (runtime_error (''Failed to listen: '' @ m)) | None \<Rightarrow>
        Inr \<lparr>acceptor_open = True, accept_pending = False, active_sessions = [], next_session_id = 0,
             sessions = (\<lambda>_. new_session)\<rparr>)"

section \<open>Operations\<close>

definition do_accept :: "http_server \<Rightarrow> http_server" where
  "do_accept v = v\<lparr>accept_pending := True\<rparr>"

definition server_start :: "http_server \<Rightarrow> http_server" where
  "server_start v = do_accept v"

definition on_accept :: "int \<Rightarrow> error_code \<Rightarrow> http_server \<Rightarrow> http_server" where
  "on_accept now ec v =
     (if ec \<noteq> no_error then (if ec \<noteq> operation_aborted then do_accept v else v)
      else
        let n = next_session_id v;
            v = v\<lparr>active_sessions := n # active_sessions v, next_session_id := Suc n,
                  sessions := (sessions v)(n := session_start now new_session)\<rparr>
        in do_accept v)"

definition on_session_finish :: "nat \<Rightarrow> http_server \<Rightarrow> http_server" where
  "on_session_finish n v = v\<lparr>active_sessions := filter (\<lambda>m. m \<noteq> n) (active_sessions v)\<rparr>"

definition server_stop :: "http_server \<Rightarrow> http_server" where
  "server_stop v = v\<lparr>acceptor_open := False,
     sessions := (\<lambda>n. if n \<in> set (active_sessions v) then stop (sessions v n) else sessions v n),
     active_sessions := []\<rparr>"

section \<open>Runs\<close>

text \<open>The index is the set of the numbers of the sessions that have reported their end.\<close>

inductive server_run :: "http_server \<Rightarrow> nat set \<Rightarrow> http_server \<Rightarrow> bool" for v0 where
  server_started: "server_run v0 {} (server_start v0)"
| server_accept: "server_run v0 F v \<Longrightarrow> accept_pending v \<Longrightarrow>
    server_run v0 F (on_accept now ec (v\<lparr>accept_pending := False\<rparr>))"
| server_finish: "server_run v0 F v \<Longrightarrow> n < next_session_id v \<Longrightarrow>
    server_run v0 (insert n F) (on_session_finish n v)"
| server_session: "server_run v0 F v \<Longrightarrow> server_run v0 F (v\<lparr>sessions := f\<rparr>)"

inductive_cases server_runE: "server_run v0 F v"

lemma server_run_inv:
  assumes "server_run v0 F v" and "active_sessions v0 = []" and "next_session_id v0 = 0"
  shows "set (active_sessions v) = {..< next_session_id v} - F \<and> distinct (active_sessions v)
    \<and> F \<subseteq> {..< next_session_id v}"
  using assms(1)
proof (induction rule: server_run.induct)
  case server_started
  then show ?case using assms(2,3) by (simp add: server_start_def do_accept_def)
next
  case (server_accept F v now ec)
  then show ?case by (auto simp: on_accept_def do_accept_def Let_def less_Suc_eq)
next
  case (server_finish F v n)
  then show ?case by (auto simp: on_session_finish_def)
qed simp

section \<open>Properties\<close>

text \<open>C24: While the server runs, its set of active sessions holds exactly the accepted sessions that have
  not reported their end, each once; and it goes on accepting after every connection and after
  every error but the cancellation.\<close>

theorem server_tracks_sessions:
  assumes "new_server None None None None = Inr v0" and "server_run v0 F v"
  shows "set (active_sessions v) = {..< next_session_id v} - F \<and> distinct (active_sessions v)
    \<and> (ec \<noteq> operation_aborted \<longrightarrow> accept_pending (on_accept now ec v))"
proof -
  have "active_sessions v0 = []" "next_session_id v0 = 0" using assms(1) by (auto simp: new_server_def)
  then show ?thesis
    using server_run_inv [OF assms(2)] by (simp add: on_accept_def do_accept_def Let_def)
qed

theorem server_tracks_sessions_witness:
  "\<exists>v0. new_server None None None None = Inr v0
    \<and> set (active_sessions (on_accept 0 no_error ((server_start v0)\<lparr>accept_pending := False\<rparr>))) = {0}"
proof -
  obtain v0 where v: "new_server None None None None = Inr v0" by (simp add: new_server_def)
  have "server_run v0 {} (on_accept 0 no_error ((server_start v0)\<lparr>accept_pending := False\<rparr>))"
    by (rule server_accept [OF server_started]) (simp add: server_start_def do_accept_def)
  from server_tracks_sessions [OF v this] v show ?thesis
    by (auto simp: on_accept_def do_accept_def server_start_def new_server_def Let_def)
qed

text \<open>Stopping the server closes the acceptor and the socket of every active session and forgets them
  all; sessions that had already ended are not touched.\<close>

theorem server_stop_closes_all:
  assumes "new_server None None None None = Inr v0" and "server_run v0 F v" and "n < next_session_id v"
  shows "\<not> acceptor_open (server_stop v) \<and> active_sessions (server_stop v) = []
    \<and> (n \<notin> F \<longrightarrow> \<not> socket_is_open (sessions (server_stop v) n))
    \<and> (n \<in> F \<longrightarrow> sessions (server_stop v) n = sessions v n)"
proof -
  have "active_sessions v0 = []" "next_session_id v0 = 0" using assms(1) by (auto simp: new_server_def)
  then have "set (active_sessions v) = {..< next_session_id v} - F" using server_run_inv [OF assms(2)] by simp
  then show ?thesis using assms(3) by (simp add: server_stop_def stop_def)
qed

theorem server_stop_closes_all_witness:
  "\<exists>v0. new_server None None None None = Inr v0
    \<and> \<not> socket_is_open (sessions (server_stop (on_accept 0 no_error ((server_start v0)\<lparr>accept_pending := False\<rparr>))) 0)"
proof -
  obtain v0 where v: "new_server None None None None = Inr v0" by (simp add: new_server_def)
  have r: "server_run v0 {} (on_accept 0 no_error ((server_start v0)\<lparr>accept_pending := False\<rparr>))"
    by (rule server_accept [OF server_started]) (simp add: server_start_def do_accept_def)
  show ?thesis
    using server_stop_closes_all [OF v r, of 0] v
    by (auto simp: on_accept_def do_accept_def server_start_def new_server_def Let_def)
qed

end
