(* ===== verification/Backend_Api.thy ===== *)
theory Backend_Api
  imports Config_Loader Http_Types
begin

text \<open>
  The test backend (BackendServers/BackendApi.cpp): its settings and its four routes, which the HTTP
  library tries in the order of their registration, each by matching its expression against the
  whole path. The library's listening loop is not modelled.
\<close>

section \<open>Settings\<close>

text \<open>\<open>parseArguments\<close> of this program is a copy of the one in \<open>Utils\<close>.\<close>

fun api_parse_loop :: "(string, string) smap \<Rightarrow> string list \<Rightarrow> (string, string) smap option" where
  "api_parse_loop argMap [] = Some argMap"
| "api_parse_loop argMap (arg # args) =
     (case find_char (CHR ''='') arg of
        Some delimiterPos \<Rightarrow>
          if delimiterPos > 0 then
            api_parse_loop (smap_put (substr_to arg delimiterPos) (substr_from arg (delimiterPos + 1)) argMap) args
          else None
      | None \<Rightarrow> None)"

definition api_parseArguments :: "string list \<Rightarrow> (string, string) smap option" where
  "api_parseArguments args = api_parse_loop [] args"

record api_settings =
  api_port :: int
  defaultCompanyName :: string
  statusMessage :: string

definition api_port_of :: "(string, string) smap \<Rightarrow> int" where
  "api_port_of m =
     (case map_of m ''port'' of
        None \<Rightarrow> 9001
      | Some s \<Rightarrow>
          (case stoi s of
             Inl e \<Rightarrow> 9001
           | Inr (p, _) \<Rightarrow> if p \<le> 0 \<or> p > 65535 then 9001 else p))"

definition api_settings_of :: "(string, string) smap \<Rightarrow> api_settings" where
  "api_settings_of m =
     \<lparr>api_port = api_port_of m,
      defaultCompanyName = (case map_of m ''company_name'' of Some s \<Rightarrow> s | None \<Rightarrow> ''DefaultCompany Inc.''),
      statusMessage = (case map_of m ''status_message'' of Some s \<Rightarrow> s | None \<Rightarrow> ''Server is running (Default)'')\<rparr>"

section \<open>Routes\<close>

definition v1_type :: string where "v1_type = ''application/x-company-v1''"
definition v2_type :: string where "v2_type = ''application/x-company-v2''"

definition company_handler :: "string \<Rightarrow> nat \<times> string \<times> string" where
  \<open>company_handler company_id =
     (if company_id = ''12345'' then
        (200, v1_type, ''{"cn": "ABCDE", "created_on" :"1786-06-30T06:23:14Z"}'')
      else if company_id = ''123456'' then
        (200, v1_type, ''{"cn": "ABCDEF", "created_on" :"1786-06-30T06:23:14Z", "closed_on" :"2002-06-30T06:23:14Z"}'')
      else if company_id = ''1234567'' then
        (200, v1_type, ''{"cn": "ABCDEFG", "created_on" :"2020-06-30T06:23:14Z", "closed_on" :"2050-06-30T06:23:14Z"}'')
      else if company_id = ''2345'' then
        (200, v2_type, ''{"company_name": "BCDE", "tin" :"1786-06-30T06:23:14Z"}'')
      else if company_id = ''23456'' then
        (200, v2_type, ''{"company_name": "BCDEF", "tin" :"1786-06-30T06:23:14Z", "dissolved_on" :"2002-06-30T06:23:14Z"}'')
      else if company_id = ''234567'' then
        (200, v2_type, ''{"company_name": "BCDEFG", "tin" :"1786-06-30T06:23:14Z", "dissolved_on" :"1786-08-30T06:23:14Z"}'')
      else (404, ''application/json'', ''{"status": "not_found"}''))\<close>

text \<open>The expression \<open>/companies/([^/]+)\<close> and its group.\<close>

definition match_company :: "string \<Rightarrow> string option" where
  "match_company path =
     (let rest = drop (length ''/companies/'') path
      in if starts_with path ''/companies/'' \<and> rest \<noteq> [] \<and> CHR ''/'' \<notin> set rest then Some rest else None)"

text \<open>Status, content type and body of the answer to \<open>GET path\<close>.\<close>

definition api_get :: "api_settings \<Rightarrow> string \<Rightarrow> nat \<times> string \<times> string" where
  "api_get cfg path =
     (if path = ''/status'' then (200, ''text/plain'', statusMessage cfg)
      else if path = ''/company'' then (200, ''text/plain'', defaultCompanyName cfg)
      else case match_company path of
             Some i \<Rightarrow> company_handler i
           | None \<Rightarrow> (404, ''text/plain'', ''Not Found''))"

text \<open>The exit code; \<open>listen\<close> tells whether the library could listen on the port.\<close>

definition api_main :: "(int \<Rightarrow> bool) \<Rightarrow> string list \<Rightarrow> int" where
  "api_main listen args =
     (case api_parseArguments args of
        None \<Rightarrow> 1
      | Some m \<Rightarrow> if listen (api_port (api_settings_of m)) then 0 else 1)"

section \<open>Properties\<close>

lemma api_parse_loop_same: "api_parse_loop m args = parseArguments_loop m args"
  by (induction m args rule: api_parse_loop.induct)
    (auto simp: split_key_value_def substr_to_def substr_from_def split: option.splits)

text \<open>The test backend's argument parser agrees with the service's on every list of arguments, and the
  port it listens on is always a valid one.\<close>

theorem api_arguments_agree:
  "api_parseArguments args = parseArguments args
   \<and> 1 \<le> api_port (api_settings_of m) \<and> api_port (api_settings_of m) \<le> 65535"
  by (auto simp: api_parseArguments_def parseArguments_def api_parse_loop_same api_settings_of_def api_port_of_def
      split: option.splits sum.splits)

text \<open>A company is found exactly under the six identifiers of the ReadMe, the first three in
  version 1 and the others in version 2 of the format; a longer path is not a company.\<close>

theorem api_companies:
  "CHR ''/'' \<notin> set i \<and> i \<noteq> [] \<longrightarrow>
     (fst (api_get cfg (''/companies/'' @ i)) = 200 \<longleftrightarrow>
        i \<in> {''12345'', ''123456'', ''1234567'', ''2345'', ''23456'', ''234567''})
     \<and> (fst (snd (api_get cfg (''/companies/'' @ i))) = ''application/x-company-v1'' \<longleftrightarrow>
        i \<in> {''12345'', ''123456'', ''1234567''})
     \<and> (fst (snd (api_get cfg (''/companies/'' @ i))) = ''application/x-company-v2'' \<longleftrightarrow>
        i \<in> {''2345'', ''23456'', ''234567''})
     \<and> fst (api_get cfg (''/companies/'' @ i @ ''/'' @ x)) = 404"
proof
  assume i: "CHR ''/'' \<notin> set i \<and> i \<noteq> []"
  have m: "match_company (''/companies/'' @ i) = Some i" "match_company (''/companies/'' @ i @ ''/'' @ x) = None"
    using i by (simp_all add: match_company_def starts_with_iff)
  have g: "api_get cfg (''/companies/'' @ i) = company_handler i" "fst (api_get cfg (''/companies/'' @ i @ ''/'' @ x)) = 404"
    using m by (simp_all add: api_get_def)
  show "(fst (api_get cfg (''/companies/'' @ i)) = 200 \<longleftrightarrow>
        i \<in> {''12345'', ''123456'', ''1234567'', ''2345'', ''23456'', ''234567''})
     \<and> (fst (snd (api_get cfg (''/companies/'' @ i))) = ''application/x-company-v1'' \<longleftrightarrow>
        i \<in> {''12345'', ''123456'', ''1234567''})
     \<and> (fst (snd (api_get cfg (''/companies/'' @ i))) = ''application/x-company-v2'' \<longleftrightarrow>
        i \<in> {''2345'', ''23456'', ''234567''})
     \<and> fst (api_get cfg (''/companies/'' @ i @ ''/'' @ x)) = 404"
    unfolding g by (auto simp: company_handler_def v1_type_def v2_type_def)
qed

theorem api_companies_witness:
  "fst (api_get (api_settings_of []) (''/companies/'' @ ''2345'')) = 200"
  using api_companies [of "''2345''" "api_settings_of []" "[]"] by simp

end
