(* ===== verification/Main_Program.thy ===== *)
theory Main_Program
  imports Http_Server Config_Loader Console_Logger
begin

text \<open>
  \<open>main\<close> (src/main.cpp): the choice of the cache and of the metrics client, the start-up with its exit
  codes, the shutdown on a signal, and what an exception in a completion handler does to the
  threads that run the event loop. The environment (files, arguments, the variable
  \<open>STATSD_SERVER\<close>, sockets, Redis, the acceptor's error codes) is a record of parameters. Set-up
  messages are left out.
\<close>

section \<open>Start-up\<close>

record 'c env =
  env_files :: "string \<Rightarrow> string option"
  env_cores :: "32 word"
  env_statsd :: "string option"
  env_net :: sockets
  env_redisConnect :: "string \<Rightarrow> int \<Rightarrow> 'c option"
  env_redis_err :: "'c \<Rightarrow> string option"
  env_acceptor :: "string option \<times> string option \<times> string option \<times> string option"

definition initializeCache :: "'c env \<Rightarrow> AppConfig \<Rightarrow> 'c cache" where
  "initializeCache E config =
     (let redis_cache = new_redis_cache (env_redisConnect E) (env_redis_err E) config
      in if use_redis config \<and> isConnected redis_cache then Redis redis_cache
         else Mem (new_cache (in_memory_cache_ttl config) (size_of_int (in_memory_cache_max_size config))))"

definition no_statsd :: statsd_statics where
  "no_statsd = \<lparr>statsd_instance = None, statsd_owners = 0\<rparr>"

definition initializeStatsDClient :: "'c env \<Rightarrow> AppConfig \<Rightarrow> statsd_client" where
  "initializeStatsDClient E config =
     (let endpoint = (case env_statsd E of Some s \<Rightarrow> s | None \<Rightarrow> [])
      in if endpoint \<noteq> [] then
           (case fst (statsd_getInstance (env_net E) config endpoint no_statsd) of
              Inr c \<Rightarrow> Statsd c
            | Inl e \<Rightarrow> Dummy)
         else Dummy)"

record 'c program =
  prog_config :: AppConfig
  prog_service :: "'c Backendify"
  prog_server :: http_server
  prog_port :: "16 word"
  heartbeat_armed :: bool
  work_guard :: bool
  ioc_stopped :: bool
  io_threads :: nat            \<comment> \<open>threads in \<open>ioc.run()\<close>, the main thread included\<close>

text \<open>
  How a start that fails ends: with an exit code, or in \<open>std::terminate\<close>. Until the I/O threads are
  created an exception reaches the \<open>catch\<close> clause of \<open>main\<close>, which returns 1. After that it unwinds
  the vector of the joinable threads first, and the destructor of a joinable \<open>std::thread\<close>
  terminates the program.
\<close>

datatype exit_status = Exit_code int | Terminated

definition unwind_status :: "AppConfig \<Rightarrow> exit_status" where
  "unwind_status config = (if num_io_threads config = 0 then Exit_code 1 else Terminated)"

text \<open>What \<open>main\<close> does before the main thread enters the event loop: its end, or the running program.\<close>

definition main_start :: "'c env \<Rightarrow> string list \<Rightarrow> exit_status + 'c program" where
  "main_start E args =
     (case parseArguments args of
        None \<Rightarrow> Inl (Exit_code 1)
      | Some startupArguments \<Rightarrow>
          (case loadConfiguration (env_files E) (env_cores E) startupArguments of
             Inl e \<Rightarrow> Inl (Exit_code 1)
           | Inr config \<Rightarrow>
               let st = initializeStatsDClient E config;
                   c = initializeCache E config
               in case new_Backendify True True True c st of
                    Inl e \<Rightarrow> Inl (unwind_status config)
                  | Inr b \<Rightarrow>
                      (case env_acceptor E of (a1, a2, a3, a4) \<Rightarrow>
                        (case new_server a1 a2 a3 a4 of
                           Inl e \<Rightarrow> Inl (unwind_status config)
                         | Inr v \<Rightarrow> Inr \<lparr>prog_config = config, prog_service = b, prog_server = server_start v,
                             prog_port = word_of_int (frontend_port config), heartbeat_armed = True,
                             work_guard = True, ioc_stopped = False,
                             io_threads = Suc (unat (num_io_threads config))\<rparr>))))"

section \<open>The event loop\<close>

definition arm_ioc_heartbeat :: "error_code \<Rightarrow> 'c program \<Rightarrow> 'c program" where
  "arm_ioc_heartbeat ec p = (if ec = operation_aborted then p\<lparr>heartbeat_armed := False\<rparr> else p\<lparr>heartbeat_armed := True\<rparr>)"

definition signal_handler :: "'c program \<Rightarrow> 'c program" where
  "signal_handler p = p\<lparr>prog_server := server_stop (prog_server p), heartbeat_armed := False, work_guard := False,
     ioc_stopped := True\<rparr>"

text \<open>
  A handler that throws ends the \<open>ioc.run()\<close> it was called from; the thread catches the exception,
  logs it and ends. \<open>loop_step\<close> runs one completed backend call.
\<close>

definition loop_step :: "(handler_exn + response) \<times> 'c Backendify \<Rightarrow> 'c program \<Rightarrow> 'c program" where
  "loop_step r p =
     (let p = p\<lparr>prog_service := snd r\<rparr>
      in case fst r of Inl e \<Rightarrow> p\<lparr>io_threads := io_threads p - 1\<rparr> | Inr res \<Rightarrow> p)"

text \<open>The program goes on serving as long as a thread runs the loop.\<close>

definition serving :: "'c program \<Rightarrow> bool" where
  "serving p \<longleftrightarrow> 0 < io_threads p \<and> \<not> ioc_stopped p"

fun loop_run :: "('c, 'j) world \<Rightarrow> (int \<times> reading \<times> reading \<times> capture \<times> response \<times> error_code) list \<Rightarrow> 'c program \<Rightarrow> 'c program" where
  "loop_run W [] p = p"
| "loop_run W ((now, rd1, rd2, cap, br, ec) # es) p =
     loop_run W es (loop_step (session_completed W (prog_config p) now rd1 rd2 captured_weak_ptr cap br ec (prog_service p)) p)"

section \<open>Properties\<close>

lemma main_start_Inr:
  assumes "main_start E args = Inr p"
  shows "\<exists>m. parseArguments args = Some m \<and> loadConfiguration (env_files E) (env_cores E) m = Inr (prog_config p)
    \<and> cache (prog_service p) = initializeCache E (prog_config p)
    \<and> statsd (prog_service p) = initializeStatsDClient E (prog_config p)
    \<and> io_threads p = Suc (unat (num_io_threads (prog_config p)))
    \<and> accept_pending (prog_server p) \<and> serving p"
  using assms by (auto simp: main_start_def new_Backendify_def new_breaker_def Let_def server_start_def
      do_accept_def serving_def split: option.splits sum.splits prod.splits)

lemma loaded_threads: "loadConfiguration fs hw m = Inr config \<Longrightarrow> num_io_threads config \<noteq> 0"
  using updateDeductions_threads by (auto simp: loadConfiguration_def split: sum.splits)

lemma new_server_iff:
  "(\<exists>v. new_server a1 a2 a3 a4 = Inr v) \<longleftrightarrow> (a1, a2, a3, a4) = (None, None, None, None)"
  by (auto simp: new_server_def split: option.splits)

lemma main_start_Inl:
  "main_start E args = Inl x \<longleftrightarrow>
     (if \<exists>m config. parseArguments args = Some m \<and> loadConfiguration (env_files E) (env_cores E) m = Inr config
      then env_acceptor E \<noteq> (None, None, None, None) \<and> x = Terminated
      else x = Exit_code 1)"
proof (cases "\<exists>m config. parseArguments args = Some m \<and> loadConfiguration (env_files E) (env_cores E) m = Inr config")
  case True
  then obtain m config where l: "parseArguments args = Some m"
    "loadConfiguration (env_files E) (env_cores E) m = Inr config" by blast
  obtain a1 a2 a3 a4 where a: "env_acceptor E = (a1, a2, a3, a4)" by (metis prod.collapse)
  show ?thesis
    using l loaded_threads [OF l(2)] new_server_iff [of a1 a2 a3 a4]
    by (cases "new_server a1 a2 a3 a4")
      (auto simp: main_start_def unwind_status_def new_Backendify_def new_breaker_def a Let_def)
next
  case False
  then show ?thesis by (auto simp: main_start_def split: option.splits sum.splits)
qed

text \<open>C25: How a start ends, for every environment and all arguments. When an argument is not
  \<open>key=value\<close> or the configuration does not load, it exits with code 1. When the acceptor cannot be
  opened, bound or listened on, it does not exit with code 1 but terminates. Otherwise it leaves a
  serving program that accepts connections, with the configuration loaded from the arguments, and
  with the cache on Redis when the configuration asks for it and the connection to the configured
  host and port was made without an error, and else a new in-memory cache of the configured size
  and time to live.\<close>

theorem main_start_spec:
  "(\<forall>x. main_start E args = Inl x \<longleftrightarrow>
      (if \<exists>m config. parseArguments args = Some m \<and> loadConfiguration (env_files E) (env_cores E) m = Inr config
       then env_acceptor E \<noteq> (None, None, None, None) \<and> x = Terminated
       else x = Exit_code 1))
   \<and> (\<forall>p. main_start E args = Inr p \<longrightarrow>
      serving p \<and> accept_pending (prog_server p) \<and> env_acceptor E = (None, None, None, None)
      \<and> (\<exists>m. parseArguments args = Some m \<and> loadConfiguration (env_files E) (env_cores E) m = Inr (prog_config p))
      \<and> (case env_redisConnect E (c_str (redis_host (prog_config p))) (redis_port (prog_config p)) of
           Some ctx \<Rightarrow> cache (prog_service p) = Redis \<lparr>redis_context = Some ctx\<rparr>
             \<longleftrightarrow> use_redis (prog_config p) \<and> env_redis_err E ctx = None
         | None \<Rightarrow> \<exists>c. cache (prog_service p) = Mem c)
      \<and> ((\<exists>ctx. cache (prog_service p) = Redis \<lparr>redis_context = Some ctx\<rparr>)
         \<or> cache (prog_service p) = Mem (new_cache (in_memory_cache_ttl (prog_config p))
             (size_of_int (in_memory_cache_max_size (prog_config p))))))"
proof (intro conjI allI impI)
  fix p assume p: "main_start E args = Inr p"
  note i = main_start_Inr [OF p]
  have "cache (prog_service p) = initializeCache E (prog_config p)" using i by blast
  then show "case env_redisConnect E (c_str (redis_host (prog_config p))) (redis_port (prog_config p)) of
       Some ctx \<Rightarrow> cache (prog_service p) = Redis \<lparr>redis_context = Some ctx\<rparr>
         \<longleftrightarrow> use_redis (prog_config p) \<and> env_redis_err E ctx = None
     | None \<Rightarrow> \<exists>c. cache (prog_service p) = Mem c"
    and "(\<exists>ctx. cache (prog_service p) = Redis \<lparr>redis_context = Some ctx\<rparr>)
     \<or> cache (prog_service p) = Mem (new_cache (in_memory_cache_ttl (prog_config p))
         (size_of_int (in_memory_cache_max_size (prog_config p))))"
    by (auto simp: initializeCache_def new_redis_cache_def redis_connect_def isConnected_def Let_def
        split: option.splits)
  show "serving p" "accept_pending (prog_server p)"
    "\<exists>m. parseArguments args = Some m \<and> loadConfiguration (env_files E) (env_cores E) m = Inr (prog_config p)"
    using i by blast+
  then show "env_acceptor E = (None, None, None, None)"
    using main_start_Inl [of E args Terminated] p by auto
qed (rule main_start_Inl)

definition demo_env :: "(string, string) umap env" where
  "demo_env = \<lparr>env_files = (\<lambda>_. None), env_cores = 4, env_statsd = None, env_net = demo_net,
     env_redisConnect = (\<lambda>h p. None), env_redis_err = (\<lambda>c. None), env_acceptor = (None, None, None, None)\<rparr>"

lemma demo_main: "\<exists>p. main_start demo_env [] = Inr p"
  by (simp add: main_start_def demo_env_def parseArguments_def loadConfiguration_def config_paths_def
      new_Backendify_def new_breaker_def new_server_def Let_def)

theorem main_start_spec_witness: "\<exists>p. main_start demo_env [] = Inr p \<and> serving p"
  using demo_main main_start_spec [of demo_env "[]"] by blast

text \<open>A failure before the I/O threads are created exits with code 1: an argument that is not
  \<open>key=value\<close>, a configuration that does not load. An address that cannot be bound is found too late:
  the program terminates without the error message and the exit code of \<open>main\<close>.\<close>

theorem main_start_failures:
  "(parseArguments args = None \<longrightarrow> main_start E args = Inl (Exit_code 1))
   \<and> (\<forall>m e. parseArguments args = Some m \<and> loadConfiguration (env_files E) (env_cores E) m = Inl e
        \<longrightarrow> main_start E args = Inl (Exit_code 1))
   \<and> (\<forall>m config msg. parseArguments args = Some m \<and> loadConfiguration (env_files E) (env_cores E) m = Inr config
        \<and> env_acceptor E = (None, None, Some msg, None) \<longrightarrow> main_start E args = Inl Terminated)"
  by (auto simp: main_start_Inl)

theorem main_start_failures_witness:
  "main_start (demo_env\<lparr>env_acceptor := (None, None, Some ''Address already in use'', None)\<rparr>) [] = Inl Terminated"
proof -
  obtain config where l: "parseArguments [] = Some []" "loadConfiguration (\<lambda>_. None) 4 [] = Inr config"
    by (simp add: parseArguments_def loadConfiguration_def config_paths_def)
  then show ?thesis
    using main_start_failures [of "[]" "demo_env\<lparr>env_acceptor := (None, None, Some ''Address already in use'', None)\<rparr>"]
    by (simp add: demo_env_def)
qed

lemma loop_run_malformed:
  assumes "\<forall>(now, rd1, rd2, cap, br, ec) \<in> set es. \<exists>s. malformed_answer W br ec s"
  shows "io_threads (loop_run W es p) = io_threads p - length es"
  using assms
proof (induction W es p rule: loop_run.induct)
  case (2 W now rd1 rd2 cap br ec es p)
  let ?r = "session_completed W (prog_config p) now rd1 rd2 captured_weak_ptr cap br ec (prog_service p)"
  obtain s where "malformed_answer W br ec s" using "2.prems" by auto
  from malformed_throws [OF this] obtain e where "fst ?r = Inl e"
    by (simp add: session_completed_def captured_weak_ptr_def)
  then have "io_threads (loop_step ?r p) = io_threads p - 1" by (simp add: loop_step_def Let_def)
  then show ?case using 2 by simp
qed simp

text \<open>Each answer of a backend with an unreadable date ends one thread of the event loop, because the
  exception leaves the completion handler. As many such answers as there are threads, the main
  thread included, end the service: on a machine with \<open>h\<close> hardware threads, \<open>2 h + 1\<close> of them.\<close>

theorem malformed_answers_end_service:
  assumes "main_start E args = Inr p"
    and "\<forall>(now, rd1, rd2, cap, br, ec) \<in> set es. \<exists>s. malformed_answer W br ec s"
    and "length es = Suc (unat (num_io_threads (prog_config p)))"
  shows "\<not> serving (loop_run W es p)"
proof -
  have "io_threads p = length es" using main_start_Inr [OF assms(1)] assms(3) by auto
  then show ?thesis using loop_run_malformed [OF assms(2)] by (simp add: serving_def)
qed

theorem malformed_answers_end_service_witness:
  "\<exists>p n. main_start demo_env [] = Inr p
    \<and> \<not> serving (loop_run soon_world
        (replicate n (1, (CHR ''x'', 0), (CHR ''x'', 0), demo_capture, demo_answer, no_error)) p)"
proof -
  obtain p where p: "main_start demo_env [] = Inr p" using demo_main by blast
  let ?e = "(1, (CHR ''x'', 0), (CHR ''x'', 0), demo_capture, demo_answer, no_error)
    :: int \<times> reading \<times> reading \<times> capture \<times> response \<times> error_code"
  let ?es = "replicate (Suc (unat (num_io_threads (prog_config p)))) ?e"
  have "\<forall>(now, rd1, rd2, cap, br, ec) \<in> set ?es. \<exists>s. malformed_answer soon_world br ec s"
    using soon_malformed by auto
  from malformed_answers_end_service [OF p this] p show ?thesis by (metis length_replicate)
qed

text \<open>A signal stops the event loop and the work that keeps it alive, closes the acceptor, and leaves
  no active client session.\<close>

theorem signal_handler_stops:
  "\<not> serving (signal_handler p) \<and> \<not> acceptor_open (prog_server (signal_handler p))
   \<and> active_sessions (prog_server (signal_handler p)) = [] \<and> \<not> work_guard (signal_handler p)"
  by (simp add: signal_handler_def serving_def server_stop_def)

end
