(* ===== verification/Httplib_Text.thy ===== *)
theory Httplib_Text
  imports Cpp_Strings
begin

unbundle bit_operations_syntax

text \<open>
  The text functions of the HTTP library that the test backend includes
  (BackendServers/httplib.h, namespaces \<open>detail\<close>, \<open>detail::case_ignore\<close> and \<open>detail::fields\<close>):
  comparison of header names, tokens and field values, hexadecimal numbers, UTF-8, Base64, safe
  paths, percent encoding, and the functions that trim, divide and split a text. A pair of pointers
  into a buffer is the buffer and an index; a call of a callback per piece is the list of pieces.

  Shown: equal header names have equal hash values and hashing does not overflow; Base64 against
  RFC 4648; a valid path never leaves its root; the round trips of percent encoding, UTF-8 and
  hexadecimal numbers; what \<open>split\<close> calls its callback with.
\<close>

section \<open>Names without case\<close>

definition to_lower_table :: "nat list" where
  "to_lower_table = [
      0,   1,   2,   3,   4,   5,   6,   7,   8,   9,   10,  11,  12,  13,  14,
      15,  16,  17,  18,  19,  20,  21,  22,  23,  24,  25,  26,  27,  28,  29,
      30,  31,  32,  33,  34,  35,  36,  37,  38,  39,  40,  41,  42,  43,  44,
      45,  46,  47,  48,  49,  50,  51,  52,  53,  54,  55,  56,  57,  58,  59,
      60,  61,  62,  63,  64,  97,  98,  99,  100, 101, 102, 103, 104, 105, 106,
      107, 108, 109, 110, 111, 112, 113, 114, 115, 116, 117, 118, 119, 120, 121,
      122, 91,  92,  93,  94,  95,  96,  97,  98,  99,  100, 101, 102, 103, 104,
      105, 106, 107, 108, 109, 110, 111, 112, 113, 114, 115, 116, 117, 118, 119,
      120, 121, 122, 123, 124, 125, 126, 127, 128, 129, 130, 131, 132, 133, 134,
      135, 136, 137, 138, 139, 140, 141, 142, 143, 144, 145, 146, 147, 148, 149,
      150, 151, 152, 153, 154, 155, 156, 157, 158, 159, 160, 161, 162, 163, 164,
      165, 166, 167, 168, 169, 170, 171, 172, 173, 174, 175, 176, 177, 178, 179,
      180, 181, 182, 183, 184, 185, 186, 187, 188, 189, 190, 191, 224, 225, 226,
      227, 228, 229, 230, 231, 232, 233, 234, 235, 236, 237, 238, 239, 240, 241,
      242, 243, 244, 245, 246, 215, 248, 249, 250, 251, 252, 253, 254, 223, 224,
      225, 226, 227, 228, 229, 230, 231, 232, 233, 234, 235, 236, 237, 238, 239,
      240, 241, 242, 243, 244, 245, 246, 247, 248, 249, 250, 251, 252, 253, 254,
      255]"

definition to_lower :: "char \<Rightarrow> nat" where
  "to_lower c = to_lower_table ! code c"

definition ci_equal :: "string \<Rightarrow> string \<Rightarrow> bool" where
  "ci_equal a b \<longleftrightarrow> length a = length b \<and> list_all (\<lambda>(ca, cb). to_lower ca = to_lower cb) (zip a b)"

fun hash_core :: "string \<Rightarrow> 64 word \<Rightarrow> 64 word" where
  "hash_core [] h = h"
| "hash_core (c # s) h =
     hash_core s ((drop_bit 6 (-1) AND h * 33) XOR word_of_nat (to_lower c))"

definition ci_hash :: "string \<Rightarrow> 64 word" where
  "ci_hash key = hash_core key 0"

section \<open>Tokens and field values\<close>

definition is_numeric :: "string \<Rightarrow> bool" where
  "is_numeric str \<longleftrightarrow> str \<noteq> [] \<and> list_all c_isdigit str"

definition c_isalnum :: "char \<Rightarrow> bool" where
  "c_isalnum c \<longleftrightarrow> c_isalpha c \<or> c_isdigit c"

definition is_token_char :: "char \<Rightarrow> bool" where
  "is_token_char c \<longleftrightarrow> c_isalnum c \<or> c \<in> set ''!#$%&'' \<or> c = CHR 0x27 \<or> c \<in> set ''*+-.^_'' \<or> c = CHR 0x60
     \<or> c \<in> set ''|~''"

definition is_token :: "string \<Rightarrow> bool" where
  "is_token s \<longleftrightarrow> s \<noteq> [] \<and> list_all is_token_char s"

definition is_field_name :: "string \<Rightarrow> bool" where
  "is_field_name s \<longleftrightarrow> is_token s"

definition is_vchar :: "char \<Rightarrow> bool" where
  "is_vchar c \<longleftrightarrow> 33 \<le> code c \<and> code c \<le> 126"

definition is_obs_text :: "char \<Rightarrow> bool" where
  "is_obs_text c \<longleftrightarrow> 128 \<le> code c"

definition is_field_vchar :: "char \<Rightarrow> bool" where
  "is_field_vchar c \<longleftrightarrow> is_vchar c \<or> is_obs_text c"

text \<open>The loop over the middle of a field value: the index after it, or \<open>None\<close> for a bad character.\<close>

function field_middle :: "string \<Rightarrow> nat \<Rightarrow> nat option" where
  "field_middle s i =
     (if i < length s - 1 then
        (if s ! i = CHR '' '' \<or> s ! i = CHR 0x09 \<or> is_field_vchar (s ! i) then field_middle s (Suc i) else None)
      else Some i)"
  by auto
termination
  by (relation "measure (\<lambda>(s, i). length s - i)") auto

declare field_middle.simps [simp del]

definition is_field_content :: "string \<Rightarrow> bool" where
  "is_field_content s \<longleftrightarrow>
     (if s = [] then True
      else if length s = 1 then is_field_vchar (s ! 0)
      else if length s = 2 then is_field_vchar (s ! 0) \<and> is_field_vchar (s ! 1)
      else if \<not> is_field_vchar (s ! 0) then False
      else case field_middle s 1 of None \<Rightarrow> False | Some i \<Rightarrow> is_field_vchar (s ! i))"

definition is_field_value :: "string \<Rightarrow> bool" where
  "is_field_value s \<longleftrightarrow> is_field_content s"

section \<open>Hexadecimal numbers, UTF-8 and Base64\<close>

text \<open>\<open>s[i]\<close> of a \<open>std::string\<close> for \<open>i \<le> s.size()\<close>.\<close>

definition str_at :: "string \<Rightarrow> nat \<Rightarrow> char" where
  "str_at s i = (if i < length s then s ! i else CHR 0x00)"

definition is_hex :: "char \<Rightarrow> int option" where
  "is_hex c =
     (if 0x20 \<le> code c \<and> c_isdigit c then Some (int (code c) - 48)
      else if 65 \<le> code c \<and> code c \<le> 70 then Some (int (code c) - 65 + 10)
      else if 97 \<le> code c \<and> code c \<le> 102 then Some (int (code c) - 97 + 10)
      else None)"

fun hex_loop :: "string \<Rightarrow> nat \<Rightarrow> nat \<Rightarrow> int \<Rightarrow> int option" where
  "hex_loop s i 0 val = Some val"
| "hex_loop s i (Suc cnt) val =
     (if str_at s i = CHR 0x00 then None
      else case is_hex (str_at s i) of
             Some v \<Rightarrow> hex_loop s (Suc i) cnt (val * 16 + v)
           | None \<Rightarrow> None)"

definition from_hex_to_i :: "string \<Rightarrow> nat \<Rightarrow> nat \<Rightarrow> int option" where
  "from_hex_to_i s i cnt = (if i \<ge> length s then None else hex_loop s i cnt 0)"

definition hex_charset :: string where
  "hex_charset = ''0123456789abcdef''"

function hex_prepend :: "nat \<Rightarrow> string \<Rightarrow> string" where
  "hex_prepend n ret =
     (let ret = hex_charset ! (n AND 15) # ret; n = drop_bit 4 n
      in if n > 0 then hex_prepend n ret else ret)"
  by auto
termination
  by (relation "measure fst") (auto simp: drop_bit_eq_div)

declare hex_prepend.simps [simp del]

definition from_i_to_hex :: "nat \<Rightarrow> string" where
  "from_i_to_hex n = hex_prepend n []"

text \<open>The bytes stored in \<open>buff\<close>; there are as many as the returned length. A byte is built in an
  \<open>int\<close> and cut to a \<open>char\<close>; code points are not negative here.\<close>

definition to_utf8 :: "nat \<Rightarrow> string" where
  "to_utf8 cp =
     (if cp < 0x0080 then [char_of (cp AND 0x7F)]
      else if cp < 0x0800 then
        [char_of (0xC0 OR (drop_bit 6 cp AND 0x1F)), char_of (0x80 OR (cp AND 0x3F))]
      else if cp < 0xD800 then
        [char_of (0xE0 OR (drop_bit 12 cp AND 0xF)), char_of (0x80 OR (drop_bit 6 cp AND 0x3F)),
         char_of (0x80 OR (cp AND 0x3F))]
      else if cp < 0xE000 then []
      else if cp < 0x10000 then
        [char_of (0xE0 OR (drop_bit 12 cp AND 0xF)), char_of (0x80 OR (drop_bit 6 cp AND 0x3F)),
         char_of (0x80 OR (cp AND 0x3F))]
      else if cp < 0x110000 then
        [char_of (0xF0 OR (drop_bit 18 cp AND 0x7)), char_of (0x80 OR (drop_bit 12 cp AND 0x3F)),
         char_of (0x80 OR (drop_bit 6 cp AND 0x3F)), char_of (0x80 OR (cp AND 0x3F))]
      else [])"

definition b64_lookup :: string where
  "b64_lookup = ''ABCDEFGHIJKLMNOPQRSTUVWXYZabcdefghijklmnopqrstuvwxyz0123456789+/''"

text \<open>\<open>val\<close> is an \<open>int\<close> of 32 bits, whose left shifts drop the high bits.\<close>

function b64_emit :: "32 word \<Rightarrow> int \<Rightarrow> string \<Rightarrow> int \<times> string" where
  "b64_emit val valb out =
     (if valb \<ge> 0 then
        b64_emit val (valb - 6) (out @ [b64_lookup ! unat (signed_drop_bit (nat valb) val AND 0x3F)])
      else (valb, out))"
  by auto
termination
  by (relation "measure (\<lambda>(val, valb, out). nat (valb + 6))") auto

declare b64_emit.simps [simp del]

fun b64_loop :: "string \<Rightarrow> 32 word \<Rightarrow> int \<Rightarrow> string \<Rightarrow> 32 word \<times> int \<times> string" where
  "b64_loop [] val valb out = (val, valb, out)"
| "b64_loop (c # s) val valb out =
     (let val = push_bit 8 val + word_of_nat (code c);
          (valb, out) = b64_emit val (valb + 8) out
      in b64_loop s val valb out)"

function b64_pad :: "string \<Rightarrow> string" where
  "b64_pad out = (if length out mod 4 \<noteq> 0 then b64_pad (out @ ''='') else out)"
  by auto
termination
  by (relation "measure (\<lambda>out. (4 - length out mod 4) mod 4)") (auto simp: mod_Suc)

declare b64_pad.simps [simp del]

definition base64_encode :: "string \<Rightarrow> string" where
  "base64_encode s =
     (let (val, valb, out) = b64_loop s 0 (- 6) [];
          out = (if valb > - 6
                 then out @ [b64_lookup ! unat (signed_drop_bit (nat (valb + 8)) (push_bit 8 val) AND 0x3F)]
                 else out)
      in b64_pad out)"

section \<open>Paths\<close>

definition nonslash :: "char \<Rightarrow> bool" where
  "nonslash c \<longleftrightarrow> c \<noteq> CHR ''/''"

definition skip_slashes :: "string \<Rightarrow> string" where
  "skip_slashes p = dropWhile (\<lambda>c. c = CHR ''/'') p"

lemma skip_slashes_length [simp]: "length (skip_slashes p) \<le> length p"
  by (simp add: skip_slashes_def length_dropWhile_le)

lemma skip_slashes_component:
  assumes "p \<noteq> []" shows "length (skip_slashes (dropWhile nonslash p)) < length p"
proof (cases p)
  case (Cons c r)
  show ?thesis
  proof (cases "c = CHR ''/''")
    case True
    then show ?thesis using Cons by (simp add: skip_slashes_def nonslash_def length_dropWhile_le le_imp_less_Suc)
  next
    case False
    have "length (skip_slashes (dropWhile nonslash r)) \<le> length r"
      by (meson le_trans length_dropWhile_le skip_slashes_length)
    then show ?thesis using Cons False by (simp add: nonslash_def)
  qed
qed (use assms in simp)

function valid_path_loop :: "nat \<Rightarrow> string \<Rightarrow> bool" where
  "valid_path_loop level path =
     (if path = [] then True
      else
        let comp = takeWhile nonslash path; rest = skip_slashes (dropWhile nonslash path)
        in if CHR 0x00 \<in> set comp \<or> CHR 0x5C \<in> set comp then False
           else if comp = ''.'' then valid_path_loop level rest
           else if comp = ''..'' then (if level = 0 then False else valid_path_loop (level - 1) rest)
           else valid_path_loop (level + 1) rest)"
  by auto
termination
  by (relation "measure (\<lambda>(level, path). length path)") (auto simp: skip_slashes_component)

declare valid_path_loop.simps [simp del]

definition is_valid_path :: "string \<Rightarrow> bool" where
  "is_valid_path path = valid_path_loop 0 (skip_slashes path)"

text \<open>The search for \<^verbatim>\<open>\.([a-zA-Z0-9]+)$\<close>: the first group of the match, or the empty text.\<close>

definition file_extension :: "string \<Rightarrow> string" where
  "file_extension path =
     (let ext = rev (takeWhile c_isalnum (rev path)); before = dropWhile c_isalnum (rev path)
      in case before of c # r \<Rightarrow> if c = CHR ''.'' then ext else [] | [] \<Rightarrow> [])"

section \<open>Percent encoding\<close>

definition hex_upper :: "nat \<Rightarrow> char" where
  "hex_upper n = ''0123456789ABCDEF'' ! n"

definition percent_byte :: "char \<Rightarrow> string" where
  "percent_byte c = [CHR ''%'', hex_upper (code c div 16), hex_upper (code c mod 16)]"

definition query_safe :: "char \<Rightarrow> bool" where
  "query_safe c \<longleftrightarrow> c_isalnum c \<or> c \<in> set ''-_.!~*'' \<or> c = CHR 0x27 \<or> c = CHR ''('' \<or> c = CHR '')''"

definition encode_query_param :: "string \<Rightarrow> string" where
  "encode_query_param value = concat (map (\<lambda>c. if query_safe c then [c] else percent_byte c) value)"

definition encode_url_char :: "char \<Rightarrow> string" where
  "encode_url_char c =
     (if c = CHR '' '' then ''%20'' else if c = CHR ''+'' then ''%2B'' else if c = CHR 0x0D then ''%0D''
      else if c = CHR 0x0A then ''%0A'' else if c = CHR 0x27 then ''%27'' else if c = CHR '','' then ''%2C''
      else if c = CHR '';'' then ''%3B'' else if code c \<ge> 0x80 then percent_byte c else [c])"

text \<open>The loop ends at the first NUL byte.\<close>

definition encode_url :: "string \<Rightarrow> string" where
  "encode_url s = concat (map encode_url_char (c_str s))"

text \<open>The argument is the text from position \<open>i\<close> on.\<close>

function decode_url :: "string \<Rightarrow> bool \<Rightarrow> string" where
  "decode_url [] convert_plus_to_space = []"
| "decode_url (c # s) convert_plus_to_space =
     (if c = CHR ''%'' \<and> s \<noteq> [] then
        if hd s = CHR ''u'' then
          (case from_hex_to_i (c # s) 2 4 of
             Some val \<Rightarrow> to_utf8 (nat val) @ decode_url (drop 5 s) convert_plus_to_space
           | None \<Rightarrow> c # decode_url s convert_plus_to_space)
        else
          (case from_hex_to_i (c # s) 1 2 of
             Some val \<Rightarrow> char_of (nat val) # decode_url (drop 2 s) convert_plus_to_space
           | None \<Rightarrow> c # decode_url s convert_plus_to_space)
      else if convert_plus_to_space \<and> c = CHR ''+'' then CHR '' '' # decode_url s convert_plus_to_space
      else c # decode_url s convert_plus_to_space)"
  by pat_completeness auto
termination
  by (relation "measure (\<lambda>(s, b). length s)") auto

section \<open>Trimming and splitting\<close>

definition is_space_or_tab :: "char \<Rightarrow> bool" where
  "is_space_or_tab c \<longleftrightarrow> c = CHR '' '' \<or> c = CHR 0x09"

function trim_left :: "string \<Rightarrow> nat \<Rightarrow> nat" where
  "trim_left b left = (if left < length b \<and> is_space_or_tab (b ! left) then trim_left b (Suc left) else left)"
  by auto
termination
  by (relation "measure (\<lambda>(b, left). length b - left)") auto

declare trim_left.simps [simp del]

fun trim_right :: "string \<Rightarrow> nat \<Rightarrow> nat" where
  "trim_right b 0 = 0"
| "trim_right b (Suc right) = (if is_space_or_tab (b ! right) then trim_right b right else Suc right)"

definition trim_range :: "string \<Rightarrow> nat \<Rightarrow> nat \<Rightarrow> nat \<times> nat" where
  "trim_range b left right = (trim_left b left, trim_right b right)"

text \<open>A negative length becomes a huge one, which \<open>substr\<close> cuts at the end of the text.\<close>

definition substr_range :: "string \<Rightarrow> nat \<Rightarrow> nat \<Rightarrow> string" where
  "substr_range s first second = (if first \<le> second then take (second - first) (drop first s) else drop first s)"

definition trim_copy :: "string \<Rightarrow> string" where
  "trim_copy s = (case trim_range s 0 (length s) of (first, second) \<Rightarrow> substr_range s first second)"

definition trim_double_quotes_copy :: "string \<Rightarrow> string" where
  "trim_double_quotes_copy s =
     (if length s \<ge> 2 \<and> hd s = CHR 0x22 \<and> last s = CHR 0x22 then take (length s - 2) (drop 1 s) else s)"

text \<open>The two texts that \<open>divide\<close> passes to its callback.\<close>

definition divide_at :: "char \<Rightarrow> string \<Rightarrow> string \<times> string" where
  "divide_at d s = (case find_char d s of Some i \<Rightarrow> (take i s, drop (Suc i) s) | None \<Rightarrow> (s, []))"

definition split_piece :: "string \<Rightarrow> nat \<times> nat \<Rightarrow> string list" where
  "split_piece b r = (if fst r < snd r then [take (snd r - fst r) (drop (fst r) b)] else [])"

function split_loop :: "string \<Rightarrow> char \<Rightarrow> int \<Rightarrow> nat \<Rightarrow> nat \<Rightarrow> int \<Rightarrow> string list" where
  "split_loop b d m i beg count =
     (if i < length b then
        (if b ! i = d \<and> count < m
         then split_piece b (trim_range b beg i) @ split_loop b d m (Suc i) (Suc i) (count + 1)
         else split_loop b d m (Suc i) beg count)
      else if i \<noteq> 0 then split_piece b (trim_range b beg i) else [])"
  by auto
termination
  by (relation "measure (\<lambda>(b, d, m, i, beg, count). length b - i)") auto

declare split_loop.simps [simp del]

definition split_max :: "string \<Rightarrow> char \<Rightarrow> int \<Rightarrow> string list" where
  "split_max b d m = split_loop b d m 0 0 1"

definition split_text :: "string \<Rightarrow> char \<Rightarrow> string list" where
  "split_text b d = split_max b d (2 ^ 64 - 1)"

section \<open>Names without case: lemmas\<close>

definition lower_code :: "nat \<Rightarrow> nat" where
  "lower_code n = (if 65 \<le> n \<and> n \<le> 90 \<or> 192 \<le> n \<and> n \<le> 222 \<and> n \<noteq> 215 then n + 32 else n)"

lemma to_lower_table_eq: "to_lower_table = map lower_code [0..<256]"
proof -
  have "[0..<256] = 0 # 1 # [2..<256]"
    by (simp add: upt_conv_Cons numeral_2_eq_2)
  then show ?thesis
    unfolding to_lower_table_def by (simp add: upt_rec_numeral) (simp add: lower_code_def)
qed

lemma to_lower_eq: "to_lower c = lower_code (code c)"
  by (simp add: to_lower_def to_lower_table_eq)

lemma to_lower_less [simp]: "to_lower c < 256"
  using code_less [of c] by (simp add: to_lower_eq lower_code_def)

lemma ci_equal_iff: "ci_equal a b \<longleftrightarrow> map to_lower a = map to_lower b"
  unfolding ci_equal_def
  by (induction a b rule: list_induct2') (auto simp: list_all_iff)

lemma hash_core_cong: "map to_lower a = map to_lower b \<Longrightarrow> hash_core a h = hash_core b h"
proof (induction a arbitrary: b h)
  case (Cons x a)
  then obtain y b' where "b = y # b'" and "to_lower x = to_lower y" and "map to_lower a = map to_lower b'"
    by (cases b) auto
  with Cons.IH show ?case by simp
qed simp

lemma hash_step_bound:
  "unat ((drop_bit 6 (-1) AND x) XOR word_of_nat (to_lower c) :: 64 word) < 2 ^ 58"
proof -
  have m: "unat (drop_bit 6 (-1) :: 64 word) = mask 58"
    by (simp add: mask_eq_exp_minus_1)
  have lt: "to_lower c < 2 ^ 58"
    using to_lower_less [of c] by (rule less_trans) simp
  have w: "unat (word_of_nat (to_lower c) :: 64 word) = to_lower c"
    using less_trans [OF to_lower_less [of c], of "2 ^ 64"] by (simp add: take_bit_nat_eq_self_iff unsigned_of_nat)
  have a: "unat (drop_bit 6 (-1) AND x :: 64 word) = take_bit 58 (unat x)"
    unfolding unsigned_and_eq m take_bit_eq_mask by (rule and.commute)
  have "unat ((drop_bit 6 (-1) AND x) XOR word_of_nat (to_lower c) :: 64 word)
      = take_bit 58 (unat x) XOR to_lower c"
    unfolding unsigned_xor_eq a w ..
  also have "\<dots> = take_bit 58 (unat x XOR to_lower c)"
    using lt by (simp add: take_bit_nat_eq_self)
  also have "\<dots> < 2 ^ 58" by (rule take_bit_nat_less_exp)
  finally show ?thesis .
qed

lemma hash_core_bound: "unat h < 2 ^ 58 \<Longrightarrow> unat (hash_core s h) < 2 ^ 58"
proof (induction s arbitrary: h)
  case (Cons c s)
  show ?case unfolding hash_core.simps by (rule Cons.IH) (rule hash_step_bound)
qed simp

text \<open>The product of the next step is not cut off, as the comment in the code says.\<close>

lemma hash_no_overflow:
  assumes "unat h < 2 ^ 58" shows "unat (hash_core s h * 33) = unat (hash_core s h) * 33"
  using hash_core_bound [OF assms, of s] by (simp add: unat_word_ariths)

text \<open>Header names that differ only in case have the same hash value, so the hash table of the
  headers finds them, and the multiplication in the hash function never overflows.\<close>

theorem header_hash_sound:
  assumes "ci_equal a b"
  shows "ci_hash a = ci_hash b \<and> unat (ci_hash a * 33) = unat (ci_hash a) * 33"
  using assms hash_core_cong [of a b 0] hash_no_overflow [of 0 a] unfolding ci_equal_iff ci_hash_def by simp

theorem header_hash_sound_witness:
  "ci_hash ''Range'' = ci_hash ''rANGE'' \<and> unat (ci_hash ''Range'' * 33) = unat (ci_hash ''Range'') * 33"
  by (rule header_hash_sound) code_simp

section \<open>Base64: lemmas\<close>

text \<open>The encoding of RFC 4648, by groups of three bytes, as a reference.\<close>

fun b64_ref :: "string \<Rightarrow> string" where
  "b64_ref [] = []"
| "b64_ref [a] = [b64_lookup ! (code a div 4), b64_lookup ! (code a mod 4 * 16), CHR ''='', CHR ''='']"
| "b64_ref [a, b] =
     [b64_lookup ! (code a div 4), b64_lookup ! (code a mod 4 * 16 + code b div 16),
      b64_lookup ! (code b mod 16 * 4), CHR ''='']"
| "b64_ref (a # b # c # r) =
     [b64_lookup ! (code a div 4), b64_lookup ! (code a mod 4 * 16 + code b div 16),
      b64_lookup ! (code b mod 16 * 4 + code c div 64), b64_lookup ! (code c mod 64)] @ b64_ref r"

lemma sextet_word:
  assumes "n \<le> 8"
  shows "unat (signed_drop_bit n (word_of_nat x :: 32 word) AND 0x3F) = x div 2 ^ n mod 64"
proof -
  have "signed_drop_bit n (word_of_nat x :: 32 word) AND 0x3F = word_of_nat (take_bit 6 (drop_bit n x))"
  proof (rule bit_word_eqI)
    fix m assume m: "m < LENGTH(32)"
    have h: "(0x3F :: 32 word) = mask 6" by (simp add: mask_eq_exp_minus_1)
    show "bit (signed_drop_bit n (word_of_nat x :: 32 word) AND 0x3F) m
        \<longleftrightarrow> bit (word_of_nat (take_bit 6 (drop_bit n x)) :: 32 word) m"
      using m assms unfolding h
      by (auto simp: bit_and_iff bit_signed_drop_bit_iff bit_mask_iff bit_of_nat_iff bit_take_bit_iff
          bit_drop_bit_eq add.commute)
  qed
  moreover have "take_bit 6 (drop_bit n x) < 2 ^ 6" by (rule take_bit_nat_less_exp)
  then have "take_bit 6 (drop_bit n x) < 2 ^ 32" by (rule less_trans) simp
  ultimately have "unat (signed_drop_bit n (word_of_nat x :: 32 word) AND 0x3F) = take_bit 6 (drop_bit n x)"
    by (simp add: unsigned_of_nat take_bit_nat_eq_self)
  then show ?thesis by (simp add: take_bit_eq_mod drop_bit_eq_div)
qed

lemma val_step: "push_bit 8 (word_of_nat x :: 32 word) + word_of_nat a = word_of_nat (256 * x + a)"
  by (simp add: push_bit_eq_mult mult.commute)

lemma val_shift: "push_bit 8 (word_of_nat x :: 32 word) = word_of_nat (256 * x)"
  by (simp add: push_bit_eq_mult mult.commute)

lemma b64_emit_neg: "valb < 0 \<Longrightarrow> b64_emit val valb out = (valb, out)"
  by (simp add: b64_emit.simps)

lemma b64_emit_once: "0 \<le> valb \<Longrightarrow> valb \<le> 8 \<Longrightarrow> b64_emit (word_of_nat x) valb out
    = b64_emit (word_of_nat x) (valb - 6) (out @ [b64_lookup ! (x div 2 ^ nat valb mod 64)])"
  by (subst b64_emit.simps) (simp add: sextet_word)

lemma b64_emits:
  "b64_emit (word_of_nat x) (- 6 + 8) out = (- 4, out @ [b64_lookup ! (x div 4 mod 64)])"
  "b64_emit (word_of_nat x) (- 4 + 8) out = (- 2, out @ [b64_lookup ! (x div 16 mod 64)])"
  "b64_emit (word_of_nat x) (- 2 + 8) out = (- 6, out @ [b64_lookup ! (x div 64 mod 64), b64_lookup ! (x mod 64)])"
  by (simp_all add: b64_emit_once b64_emit_neg)

lemma mod_64_low: "r < 64 \<Longrightarrow> (64 * k + r) mod 64 = (r :: nat)"
  by simp

lemma b64_first: "a < 256 \<Longrightarrow> (256 * x + a) div 4 mod 64 = (a div 4 :: nat)"
proof -
  assume "a < 256"
  have "(256 * x + a) div 4 = 64 * x + a div 4" by simp
  then show ?thesis using \<open>a < 256\<close> by simp
qed

lemma b64_second: "b < 256 \<Longrightarrow> (256 * (256 * x + a) + b) div 16 mod 64 = (a mod 4 * 16 + b div 16 :: nat)"
proof -
  assume "b < 256"
  have "(256 * (256 * x + a) + b) div 16 = 4096 * x + 16 * a + b div 16" by simp
  also have "16 * a = 64 * (a div 4) + 16 * (a mod 4)" using mult_div_mod_eq [of 4 a] by linarith
  finally have "(256 * (256 * x + a) + b) div 16 = 64 * (64 * x + a div 4) + (a mod 4 * 16 + b div 16)" by simp
  moreover have "a mod 4 * 16 + b div 16 < 64" using \<open>b < 256\<close> by simp
  ultimately show ?thesis by (simp only: mod_64_low)
qed

lemma b64_third: "c < 256 \<Longrightarrow> (256 * (256 * x + b) + c) div 64 mod 64 = (b mod 16 * 4 + c div 64 :: nat)"
proof -
  assume "c < 256"
  have "(256 * (256 * x + b) + c) div 64 = 1024 * x + 4 * b + c div 64" by simp
  also have "4 * b = 64 * (b div 16) + 4 * (b mod 16)" using mult_div_mod_eq [of 16 b] by linarith
  finally have "(256 * (256 * x + b) + c) div 64 = 64 * (16 * x + b div 16) + (b mod 16 * 4 + c div 64)" by simp
  moreover have "b mod 16 * 4 + c div 64 < 64" using \<open>c < 256\<close> by simp
  ultimately show ?thesis by (simp only: mod_64_low)
qed

lemma b64_fourth: "(256 * x + c) mod 64 = (c mod 64 :: nat)"
proof -
  have "256 * x + c = c + 4 * x * 64" by simp
  then show ?thesis by (simp only: mod_mult_self1)
qed

lemma b64_loop_one:
  "b64_loop (a # s) (word_of_nat x) (- 6) out
    = b64_loop s (word_of_nat (256 * x + code a)) (- 4) (out @ [b64_lookup ! (code a div 4)])"
  unfolding b64_loop.simps val_step Let_def b64_emits prod.case by (simp only: b64_first code_less)

lemma b64_loop_two:
  "b64_loop (b # s) (word_of_nat (256 * x + code a)) (- 4) out
    = b64_loop s (word_of_nat (256 * (256 * x + code a) + code b)) (- 2)
        (out @ [b64_lookup ! (code a mod 4 * 16 + code b div 16)])"
  unfolding b64_loop.simps val_step Let_def b64_emits prod.case by (simp only: b64_second code_less)

lemma b64_loop_three:
  "b64_loop (c # s) (word_of_nat (256 * x + code b)) (- 2) out
    = b64_loop s (word_of_nat (256 * (256 * x + code b) + code c)) (- 6)
        (out @ [b64_lookup ! (code b mod 16 * 4 + code c div 64), b64_lookup ! (code c mod 64)])"
  unfolding b64_loop.simps val_step Let_def b64_emits prod.case by (simp only: b64_third b64_fourth code_less)

definition b64_finish :: "32 word \<times> int \<times> string \<Rightarrow> string" where
  "b64_finish = (\<lambda>(val, valb, out).
     b64_pad (if valb > - 6
        then out @ [b64_lookup ! unat (signed_drop_bit (nat (valb + 8)) (push_bit 8 val) AND 0x3F)] else out))"

lemma b64_pad_done: "length out mod 4 = 0 \<Longrightarrow> b64_pad out = out"
  by (simp add: b64_pad.simps)

lemma b64_pad_3: "length out mod 4 = 3 \<Longrightarrow> b64_pad out = out @ ''=''"
  by (subst b64_pad.simps) (simp add: b64_pad_done mod_Suc)

lemma b64_pad_2: "length out mod 4 = 2 \<Longrightarrow> b64_pad out = out @ ''==''"
  by (subst b64_pad.simps) (simp add: b64_pad_3 mod_Suc)

lemma b64_loop_ref:
  "length out mod 4 = 0 \<Longrightarrow> b64_finish (b64_loop s (word_of_nat x) (- 6) out) = out @ b64_ref s"
proof (induction s arbitrary: x out rule: b64_ref.induct)
  case 1
  then show ?case by (simp add: b64_finish_def b64_pad_done)
next
  case (2 a)
  have e: "256 * (256 * x + code a) div 2 ^ nat (- 4 + 8) mod 64 = code a mod 4 * 16"
    using b64_second [of 0 x "code a"] by simp
  have m: "Suc (Suc (length out)) mod 4 = 2" using 2 by (simp add: mod_Suc)
  show ?case
    unfolding b64_loop_one b64_loop.simps(1) b64_finish_def prod.case val_shift
    by (subst sextet_word) (simp_all only: e, simp_all add: b64_pad_2 m)
next
  case (3 a b)
  have e: "256 * (256 * y + code b) div 2 ^ nat (- 2 + 8) mod 64 = code b mod 16 * 4" for y
    using b64_third [of 0 y "code b"] by simp
  have m: "length (out @ [p, q, r]) mod 4 = 3" for p q r using 3 by (simp add: mod_Suc)
  show ?case
    unfolding b64_loop_one b64_loop_two b64_loop.simps(1) b64_finish_def prod.case val_shift
    by (subst sextet_word) (simp_all only: e, simp_all add: b64_pad_3 [OF m])
next
  case (4 a b c r)
  have l: "length (out @ b64_ref [a, b, c]) mod 4 = 0" using 4(2) by simp
  show ?case
    using "4.IH" [OF l] unfolding b64_loop_one b64_loop_two b64_loop_three by (simp del: of_nat_add of_nat_mult)
qed
lemma base64_ref: "base64_encode s = b64_ref s"
  using b64_loop_ref [of "[]" s 0] by (auto simp: base64_encode_def b64_finish_def Let_def split: prod.splits)

section \<open>Hexadecimal numbers and UTF-8: lemmas\<close>

lemma less_16_cases: "n < 16 \<Longrightarrow> n \<in> {0, 1, 2, 3, 4, 5, 6, 7, 8, 9, 10, 11, 12, 13, 14, 15 :: nat}"
  by (simp, arith)

lemma hex_charset_hex: "n < 16 \<Longrightarrow> is_hex (hex_charset ! n) = Some (int n) \<and> hex_charset ! n \<noteq> CHR 0x00"
  by (drule less_16_cases) (auto simp: hex_charset_def is_hex_def cstr_simps)

lemma hex_upper_hex: "n < 16 \<Longrightarrow> is_hex (hex_upper n) = Some (int n) \<and> hex_upper n \<noteq> CHR 0x00"
  by (drule less_16_cases) (auto simp: hex_upper_def is_hex_def cstr_simps)

definition hex_digits :: "string \<Rightarrow> int option" where
  "hex_digits s = hex_loop s 0 (length s) 0"

lemma str_at_Cons_Suc [simp]: "str_at (c # s) (Suc i) = str_at s i"
  by (simp add: str_at_def)

lemma str_at_Cons_0 [simp]: "str_at (c # s) 0 = c"
  by (simp add: str_at_def)

lemma hex_loop_shift: "hex_loop (c # s) (Suc i) n v = hex_loop s i n v"
  by (induction n arbitrary: i v) (auto split: option.split)

lemma hex_loop_Cons:
  "is_hex c = Some d \<Longrightarrow> c \<noteq> CHR 0x00 \<Longrightarrow> hex_loop (c # s) 0 (Suc n) v = hex_loop s 0 n (v * 16 + d)"
  by (simp add: hex_loop_shift)

lemma hex_loop_prepend:
  assumes "hex_loop ret 0 (length ret) 0 = Some r" and "\<And>v. hex_loop ret 0 (length ret) v = Some (v * 16 ^ length ret + r)"
  shows "hex_loop (hex_prepend n ret) 0 (length (hex_prepend n ret)) 0 = Some (int n * 16 ^ length ret + r)"
  using assms
proof (induction n ret arbitrary: r rule: hex_prepend.induct)
  case (1 n ret)
  let ?d = "hex_charset ! (n AND 15)"
  have a: "n AND 15 = n mod 16"
    using take_bit_eq_mask [of 4 n] by (simp add: take_bit_eq_mod mask_eq_exp_minus_1)
  have h: "is_hex ?d = Some (int (n mod 16))" "?d \<noteq> CHR 0x00"
    using hex_charset_hex [of "n mod 16"] by (simp_all add: a)
  have step: "hex_loop (?d # ret) 0 (length (?d # ret)) v
      = Some (v * 16 ^ length (?d # ret) + (int (n mod 16) * 16 ^ length ret + r))" for v
    unfolding list.size add_0_right add_Suc_right [symmetric] hex_loop_Cons [OF h]
    using hex_loop_Cons [OF h, of ret "length ret" v] 1(3) by (simp add: algebra_simps del: hex_loop.simps)
  show ?case
  proof (cases "drop_bit 4 n > 0")
    case True
    have "hex_loop (hex_prepend (drop_bit 4 n) (?d # ret)) 0 (length (hex_prepend (drop_bit 4 n) (?d # ret))) 0
        = Some (int (drop_bit 4 n) * 16 ^ length (?d # ret) + (int (n mod 16) * 16 ^ length ret + r))"
      by (rule 1(1) [OF refl refl True]) (simp_all only: step, simp)
    moreover have "int n = int (n div 16) * 16 + int (n mod 16)"
      by (metis div_mult_mod_eq of_nat_add of_nat_mult of_nat_numeral)
    ultimately show ?thesis using True
      by (subst (1 2) hex_prepend.simps) (simp add: Let_def drop_bit_eq_div algebra_simps)
  next
    case False
    then have "n mod 16 = n" by (simp add: drop_bit_eq_div)
    with step [of 0] False show ?thesis by (subst (1 2) hex_prepend.simps) (simp add: Let_def)
  qed
qed

lemma hex_prepend_nonempty: "hex_prepend n ret \<noteq> []"
  by (induction n ret rule: hex_prepend.induct) (subst hex_prepend.simps, simp add: Let_def)

lemma from_i_to_hex_read: "from_hex_to_i (from_i_to_hex n) 0 (length (from_i_to_hex n)) = Some (int n)"
  using hex_loop_prepend [of "[]" 0 n] hex_prepend_nonempty [of n "[]"]
  by (simp add: from_hex_to_i_def from_i_to_hex_def)

lemma and_mask_nat:
  "(x AND 0x7F) = x mod 128" "(x AND 0x3F) = x mod 64" "(x AND 0x1F) = x mod 32" "(x AND 0xF) = x mod 16"
  "(x AND 0x7) = x mod (8 :: nat)"
  using take_bit_eq_mask [of 7 x] take_bit_eq_mask [of 6 x] take_bit_eq_mask [of 5 x] take_bit_eq_mask [of 4 x]
    take_bit_eq_mask [of 3 x]
  by (simp_all add: take_bit_eq_mod mask_eq_exp_minus_1)

lemma or_push_bit: "x < 2 ^ k \<Longrightarrow> push_bit k b OR x = push_bit k b + (x :: nat)"
proof (rule disjunctive_add [symmetric])
  fix n
  assume "x < 2 ^ k"
  then have "x = take_bit k x" by (simp add: take_bit_nat_eq_self)
  then have "bit x n \<Longrightarrow> n < k" by (metis bit_take_bit_iff)
  then show "\<not> bit (push_bit k b) n \<or> \<not> bit x n"
    by (auto simp: bit_push_bit_iff)
qed

lemma or_prefix_nat:
  "x < 64 \<Longrightarrow> (0x80 OR x) = 128 + x" "x < 32 \<Longrightarrow> (0xC0 OR x) = 192 + x" "x < 16 \<Longrightarrow> (0xE0 OR x) = 224 + x"
  "x < 8 \<Longrightarrow> (0xF0 OR x) = 240 + (x :: nat)"
  using or_push_bit [of x 6 2] or_push_bit [of x 5 6] or_push_bit [of x 4 14] or_push_bit [of x 3 30]
  by (simp_all add: push_bit_eq_mult)

lemma continuation_byte: "(128 + x mod 64) div 64 = (2 :: nat)"
proof -
  have "x mod 64 < 64" by simp
  then show ?thesis by linarith
qed

text \<open>A decoder of one code point, as a reference.\<close>

fun utf8_read :: "string \<Rightarrow> nat option" where
  "utf8_read [a] = (if code a < 128 then Some (code a) else None)"
| "utf8_read [a, b] =
     (if 192 \<le> code a \<and> code a < 224 \<and> code b div 64 = 2
      then Some ((code a - 192) * 64 + (code b - 128)) else None)"
| "utf8_read [a, b, c] =
     (if 224 \<le> code a \<and> code a < 240 \<and> code b div 64 = 2 \<and> code c div 64 = 2
      then Some (((code a - 224) * 64 + (code b - 128)) * 64 + (code c - 128)) else None)"
| "utf8_read [a, b, c, d] =
     (if 240 \<le> code a \<and> code b div 64 = 2 \<and> code c div 64 = 2 \<and> code d div 64 = 2
      then Some ((((code a - 240) * 64 + (code b - 128)) * 64 + (code c - 128)) * 64 + (code d - 128)) else None)"
| "utf8_read _ = None"

lemma to_utf8_read:
  assumes "cp < 0xD800 \<or> 0xE000 \<le> cp" and "cp < 0x110000"
  shows "utf8_read (to_utf8 cp) = Some cp"
proof -
  define q where "q = cp div 64"
  have cp: "q * 64 + cp mod 64 = cp" by (simp add: q_def)
  have q2: "cp div 4096 = q div 64" and q3: "cp div 262144 = q div 64 div 64"
    by (simp_all add: q_def div_mult2_eq [symmetric])
  have qq: "q div 64 * 64 + q mod 64 = q" by simp
  have qqq: "q div 64 div 64 * 64 + q div 64 mod 64 = q div 64" by simp
  consider "cp < 128" | "128 \<le> cp" "cp < 2048" | "2048 \<le> cp" "cp < 65536" | "65536 \<le> cp"
    by linarith
  then show ?thesis
  proof cases
    case 1
    then show ?thesis by (simp add: to_utf8_def and_mask_nat)
  next
    case 2
    then have "q < 32" by (simp add: q_def)
    with 2 cp show ?thesis
      by (simp add: to_utf8_def and_mask_nat or_prefix_nat drop_bit_eq_div flip: q_def)
  next
    case 3
    then have "q div 64 < 16" by (simp flip: q2)
    with 3 assms cp qq show ?thesis
      by (auto simp: to_utf8_def and_mask_nat or_prefix_nat drop_bit_eq_div continuation_byte q2 q_def [symmetric])
  next
    case 4
    with assms have "q div 64 div 64 < 8" by (simp flip: q3)
    with 4 assms cp qq qqq show ?thesis
      by (simp add: to_utf8_def and_mask_nat or_prefix_nat drop_bit_eq_div continuation_byte q2 q3 flip: q_def)
  qed
qed

section \<open>Splitting, percent encoding and paths: lemmas\<close>

subsection \<open>Reference splitting\<close>

fun split_on :: "char \<Rightarrow> string \<Rightarrow> string list" where
  "split_on d [] = [[]]"
| "split_on d (c # s) = (if c = d then [] # split_on d s
     else case split_on d s of [] \<Rightarrow> [[c]] | p # ps \<Rightarrow> (c # p) # ps)"

definition strip :: "string \<Rightarrow> string" where
  "strip s = rev (dropWhile is_space_or_tab (rev (dropWhile is_space_or_tab s)))"

lemma split_on_nonempty [simp]: "split_on d s \<noteq> []"
  by (induction s) (auto split: list.split)

lemma split_on_Cons_neq: "c \<noteq> d \<Longrightarrow> split_on d (c # s) = (c # hd (split_on d s)) # tl (split_on d s)"
  by (auto split: list.split)

lemma split_on_append: "d \<notin> set a \<Longrightarrow> split_on d (a @ s) = (a @ hd (split_on d s)) # tl (split_on d s)"
  by (induction a) (auto simp: split_on_Cons_neq simp del: split_on.simps(2))

lemma split_on_token: "d \<notin> set a \<Longrightarrow> split_on d (a @ d # s) = a # split_on d s"
  by (simp add: split_on_append)

lemma split_on_atom: "d \<notin> set a \<Longrightarrow> split_on d a = [a]"
  using split_on_append [of d a "[]"] by simp

lemma trim_left_eq: "l \<le> length b \<Longrightarrow> trim_left b l = l + length (takeWhile is_space_or_tab (drop l b))"
proof (induction b l rule: trim_left.induct)
  case (1 b l)
  show ?case
  proof (cases "l < length b \<and> is_space_or_tab (b ! l)")
    case True
    then have "drop l b = b ! l # drop (Suc l) b" by (simp add: Cons_nth_drop_Suc)
    with 1 True show ?thesis by (subst trim_left.simps) simp
  next
    case False
    then have "takeWhile is_space_or_tab (drop l b) = []"
      using "1.prems" by (cases "l = length b") (auto simp: takeWhile_eq_Nil_iff hd_drop_conv_nth)
    with False show ?thesis by (subst trim_left.simps) auto
  qed
qed

lemma trim_right_eq: "r \<le> length b \<Longrightarrow> trim_right b r = r - length (takeWhile is_space_or_tab (rev (take r b)))"
proof (induction r)
  case (Suc r)
  then have "take (Suc r) b = take r b @ [b ! r]" by (simp add: take_Suc_conv_app_nth)
  with Suc show ?case by simp
qed simp

lemma strip_all_blank: "list_all is_space_or_tab s \<Longrightarrow> strip s = []"
  by (simp add: strip_def list_all_iff dropWhile_all)

lemma rev_dropWhile_rev: "rev (dropWhile P (rev s)) = take (length s - length (takeWhile P (rev s))) s"
  by (simp add: dropWhile_eq_drop rev_drop)

lemma piece_blank:
  assumes "list_all is_space_or_tab seg"
  shows "split_piece (pre @ seg @ post) (trim_range (pre @ seg @ post) (length pre) (length pre + length seg)) = []"
proof -
  have "length seg \<le> length (takeWhile is_space_or_tab (seg @ post))"
    using assms by (simp add: takeWhile_append list_all_iff)
  moreover have "length seg \<le> length (takeWhile is_space_or_tab (rev seg @ rev pre))"
    using assms by (simp add: takeWhile_append list_all_iff)
  ultimately show ?thesis
    by (simp add: split_piece_def trim_range_def trim_left_eq trim_right_eq)
qed

lemma strip_eq_take_drop:
  assumes "c \<in> set seg" and "\<not> is_space_or_tab c"
  shows "strip seg = take (length seg - length (takeWhile is_space_or_tab seg)
       - length (takeWhile is_space_or_tab (rev seg))) (drop (length (takeWhile is_space_or_tab seg)) seg)"
    and "length (takeWhile is_space_or_tab seg) + length (takeWhile is_space_or_tab (rev seg)) < length seg"
proof -
  let ?t = "takeWhile is_space_or_tab seg" and ?d = "dropWhile is_space_or_tab seg"
  have "c \<in> set ?d"
    using assms by (metis Un_iff set_append set_takeWhileD takeWhile_dropWhile_id)
  then have r: "takeWhile is_space_or_tab (rev seg) = takeWhile is_space_or_tab (rev ?d)"
    using takeWhile_append1 [of c "rev ?d" is_space_or_tab "rev ?t"] assms(2)
    by (metis rev_append set_rev takeWhile_dropWhile_id)
  have d: "?d = drop (length ?t) seg" by (rule dropWhile_eq_drop)
  show "strip seg = take (length seg - length ?t - length (takeWhile is_space_or_tab (rev seg))) (drop (length ?t) seg)"
    unfolding strip_def rev_dropWhile_rev r d by simp
  have "takeWhile is_space_or_tab (rev ?d) \<noteq> rev ?d"
    using \<open>c \<in> set ?d\<close> assms(2) by (metis set_rev set_takeWhileD)
  then have "length (takeWhile is_space_or_tab (rev ?d)) < length (rev ?d)"
    by (metis append_eq_conv_conj le_neq_implies_less length_takeWhile_le take_all_iff takeWhile_eq_take)
  then show "length ?t + length (takeWhile is_space_or_tab (rev seg)) < length seg"
    unfolding r by (metis add_strict_left_mono length_append length_rev takeWhile_dropWhile_id)
qed

lemma piece_strip:
  "split_piece (pre @ seg @ post) (trim_range (pre @ seg @ post) (length pre) (length pre + length seg))
    = (if strip seg = [] then [] else [strip seg])"
proof (cases "list_all is_space_or_tab seg")
  case True
  then show ?thesis by (simp only: piece_blank strip_all_blank) simp
next
  case False
  then obtain c where c: "c \<in> set seg" "\<not> is_space_or_tab c" by (auto simp: list_all_iff)
  let ?t = "takeWhile is_space_or_tab seg" and ?r = "takeWhile is_space_or_tab (rev seg)"
  have l: "trim_left (pre @ seg @ post) (length pre) = length pre + length ?t"
    using takeWhile_append1 [of c seg is_space_or_tab post] c by (simp add: trim_left_eq)
  have r: "trim_right (pre @ seg @ post) (length pre + length seg) = length pre + length seg - length ?r"
    using takeWhile_append1 [of c "rev seg" is_space_or_tab "rev pre"] c by (simp add: trim_right_eq)
  note s = strip_eq_take_drop [OF c]
  have "take (length seg - length ?t - length ?r) (drop (length ?t) (seg @ post)) = strip seg"
    using s(2) unfolding s(1) by simp
  moreover have "strip seg \<noteq> []" using s(2) unfolding s(1) by simp
  ultimately show ?thesis
    using s(2) by (simp add: split_piece_def trim_range_def l r diff_diff_add add.commute)
qed

lemma split_loop_eq:
  assumes "b = pre @ cur @ rest" and "int (length rest) < m - count" and "d \<notin> set cur"
  shows "split_loop b d m (length pre + length cur) (length pre) count
    = filter (\<lambda>p. p \<noteq> []) (map strip (split_on d (cur @ rest)))"
  using assms
proof (induction rest arbitrary: pre cur count)
  case Nil
  have "split_loop b d m (length pre + length cur) (length pre) count
      = (if strip cur = [] then [] else [strip cur])"
    using Nil piece_strip [of pre cur "[]"] by (subst split_loop.simps) (simp add: strip_def)
  then show ?case using Nil(3) by (simp add: split_on_atom)
next
  case (Cons c rest)
  let ?i = "length pre + length cur"
  have i: "?i < length b" "b ! ?i = c" using Cons.prems(1) by (simp_all add: nth_append)
  show ?case
  proof (cases "c = d")
    case True
    have "split_loop b d m (length (pre @ cur @ [c]) + length ([] :: string)) (length (pre @ cur @ [c])) (count + 1)
        = filter (\<lambda>p. p \<noteq> []) (map strip (split_on d ([] @ rest)))"
      using Cons.prems by (intro Cons.IH) auto
    then show ?thesis
      using i True Cons.prems piece_strip [of pre cur "c # rest"]
      by (subst split_loop.simps) (simp add: split_on_token)
  next
    case False
    have "split_loop b d m (length pre + length (cur @ [c])) (length pre) count
        = filter (\<lambda>p. p \<noteq> []) (map strip (split_on d ((cur @ [c]) @ rest)))"
      using Cons.prems False by (intro Cons.IH) auto
    then show ?thesis using i False by (subst split_loop.simps) simp
  qed
qed

lemma split_text_eq:
  "int (length b) < 2 ^ 64 - 2 \<Longrightarrow> split_text b d = filter (\<lambda>p. p \<noteq> []) (map strip (split_on d b))"
  using split_loop_eq [of b "[]" "[]" b "2 ^ 64 - 1" 1 d] by (simp add: split_text_def split_max_def)

lemma trim_copy_eq: "trim_copy s = strip s"
proof (cases "list_all is_space_or_tab s")
  case True
  then have "takeWhile is_space_or_tab s = s" "takeWhile is_space_or_tab (rev s) = rev s"
    unfolding takeWhile_eq_all_conv by (auto simp: list_all_iff)
  then have "length (takeWhile is_space_or_tab s) = length s" "length (takeWhile is_space_or_tab (rev s)) = length s"
    by (simp_all only: length_rev)
  then show ?thesis
    using True by (simp add: trim_copy_def trim_range_def trim_left_eq trim_right_eq substr_range_def strip_all_blank)
next
  case False
  then obtain c where c: "c \<in> set s" "\<not> is_space_or_tab c" by (auto simp: list_all_iff)
  show ?thesis
    using strip_eq_take_drop [OF c]
    by (simp add: trim_copy_def trim_range_def trim_left_eq trim_right_eq substr_range_def diff_diff_add add.commute)
qed

subsection \<open>Percent encoding\<close>

lemma hex_upper_not_u: "n < 16 \<Longrightarrow> hex_upper n \<noteq> CHR ''u''"
  by (drule less_16_cases) (auto simp: hex_upper_def)

lemma decode_percent_byte:
  "decode_url (percent_byte c @ s) b = c # decode_url s b"
proof -
  have n: "code c div 16 < 16" "code c mod 16 < 16" using code_less [of c] by (simp_all add: div_less_iff_less_mult)
  have v: "nat (int (code c div 16) * 16 + int (code c mod 16)) = code c"
    by (metis div_mult_mod_eq nat_int of_nat_add of_nat_mult of_nat_numeral)
  show ?thesis
    using hex_upper_hex [OF n(1)] hex_upper_hex [OF n(2)] hex_upper_not_u [OF n(1)] v
    by (simp add: percent_byte_def from_hex_to_i_def numeral_2_eq_2 str_at_def)
qed

lemma decode_plain: "c \<noteq> CHR ''%'' \<Longrightarrow> c \<noteq> CHR ''+'' \<Longrightarrow> decode_url (c # s) b = c # decode_url s b"
  by simp

lemma decode_encode_query: "decode_url (encode_query_param s) b = s"
proof (induction s)
  case (Cons c s)
  have "query_safe c \<Longrightarrow> c \<noteq> CHR ''%'' \<and> c \<noteq> CHR ''+''"
    by (auto simp: query_safe_def c_isalnum_def cstr_simps)
  with Cons show ?case
    by (simp add: encode_query_param_def decode_percent_byte del: decode_url.simps)
      (simp add: decode_plain)
qed (simp add: encode_query_param_def)

lemma encode_url_char_decode:
  assumes "c \<noteq> CHR ''%''"
  shows "decode_url (encode_url_char c @ s) b = c # decode_url s b"
proof -
  have p: "encode_url_char c = [c] \<and> c \<noteq> CHR ''+'' \<or> encode_url_char c = percent_byte c"
    by (auto simp: encode_url_char_def percent_byte_def hex_upper_def cstr_simps)
  then show ?thesis using assms by (auto simp: decode_percent_byte simp del: decode_url.simps intro: decode_plain)
qed

lemma decode_encode_url: "CHR ''%'' \<notin> set s \<Longrightarrow> decode_url (encode_url s) b = c_str s"
proof -
  assume a: "CHR ''%'' \<notin> set s"
  have "CHR ''%'' \<notin> set t \<Longrightarrow> decode_url (concat (map encode_url_char t)) b = t" for t
    by (induction t) (auto simp: encode_url_char_decode simp del: decode_url.simps(2))
  moreover have "CHR ''%'' \<notin> set (c_str s)" using a by (auto simp: c_str_def dest: set_takeWhileD)
  ultimately show ?thesis unfolding encode_url_def by blast
qed

subsection \<open>Paths\<close>

definition climbs :: "string list \<Rightarrow> nat" where
  "climbs cs = length (filter (\<lambda>c. c = ''..'') cs)"

definition descends :: "string list \<Rightarrow> nat" where
  "descends cs = length (filter (\<lambda>c. c \<noteq> ''.'' \<and> c \<noteq> ''..'') cs)"

definition components :: "string \<Rightarrow> string list" where
  "components p = filter (\<lambda>c. c \<noteq> []) (split_on (CHR ''/'') p)"

definition clean :: "string \<Rightarrow> bool" where
  "clean c \<longleftrightarrow> CHR 0x00 \<notin> set c \<and> CHR 0x5C \<notin> set c"

lemma components_slash [simp]: "components (CHR ''/'' # p) = components p"
  by (simp add: components_def)

lemma components_skip [simp]: "components (skip_slashes p) = components p"
  by (induction p) (auto simp: skip_slashes_def simp del: split_on.simps)

lemma components_step:
  assumes "p \<noteq> []" and "hd p \<noteq> CHR ''/''"
  shows "components p = takeWhile nonslash p # components (skip_slashes (dropWhile nonslash p))"
proof -
  let ?t = "takeWhile nonslash p" and ?r = "dropWhile nonslash p"
  have t: "?t \<noteq> []" "CHR ''/'' \<notin> set ?t"
    using assms by (cases p, auto simp: nonslash_def dest: set_takeWhileD)
  have r: "?r = [] \<or> ?r = CHR ''/'' # tl ?r"
    by (cases ?r) (auto simp: nonslash_def dest: dropWhile_eq_Cons_conv [THEN iffD1])
  have p: "p = ?t @ ?r" by simp
  show ?thesis
  proof (cases "?r = []")
    case True
    then have pt: "?t = p" by (metis append_Nil2 takeWhile_dropWhile_id)
    then have "components p = [?t]" using t unfolding pt by (simp add: components_def split_on_atom)
    then show ?thesis unfolding True by (simp add: skip_slashes_def components_def)
  next
    case False
    then have "split_on (CHR ''/'') p = ?t # split_on (CHR ''/'') (tl ?r)"
      using r t(2) p by (metis split_on_token)
    then have "components p = ?t # components (tl ?r)" using t(1) by (simp add: components_def)
    also have "components (tl ?r) = components ?r" using r False by (metis components_slash)
    finally show ?thesis by simp
  qed
qed

lemma skip_slashes_hd: "skip_slashes p = [] \<or> hd (skip_slashes p) \<noteq> CHR ''/''"
  unfolding skip_slashes_def using hd_dropWhile [of "\<lambda>c. c = CHR ''/''" p] by auto

definition stays :: "nat \<Rightarrow> string list \<Rightarrow> bool" where
  "stays level cs \<longleftrightarrow> (\<forall>k \<le> length cs. climbs (take k cs) \<le> level + descends (take k cs))"

lemma stays_Cons:
  "stays level (c # cs) \<longleftrightarrow>
     (if c = ''..'' then 0 < level \<and> stays (level - 1) cs else if c = ''.'' then stays level cs else stays (level + 1) cs)"
proof -
  have "stays level (c # cs) \<longleftrightarrow> (\<forall>k \<le> length cs. climbs (c # take k cs) \<le> level + descends (c # take k cs))"
  proof -
    have "(\<forall>k \<le> Suc n. P k) \<longleftrightarrow> P 0 \<and> (\<forall>k \<le> n. P (Suc k))" for P and n :: nat
      by (metis Suc_le_mono le0 not0_implies_Suc)
    then show ?thesis by (simp add: stays_def climbs_def [of "[]"])
  qed
  then show ?thesis
  proof (cases "c = ''..''")
    case True
    have "climbs [] = 0" "descends [] = 0" by (simp_all add: climbs_def descends_def)
    then have "\<not> (\<forall>k \<le> length cs. climbs (c # take k cs) \<le> 0 + descends (c # take k cs))"
      using True by (auto intro!: exI [of _ 0] simp: climbs_def descends_def)
    with True \<open>stays level (c # cs) \<longleftrightarrow> _\<close> show ?thesis
      by (cases level) (simp_all add: stays_def climbs_def descends_def)
  next
    case False
    with \<open>stays level (c # cs) \<longleftrightarrow> _\<close> show ?thesis
      by (cases "c = ''.''") (simp_all add: stays_def climbs_def descends_def)
  qed
qed

lemma valid_path_loop_iff:
  assumes "p = [] \<or> hd p \<noteq> CHR ''/''"
  shows "valid_path_loop level p \<longleftrightarrow> list_all clean (components p) \<and> stays level (components p)"
  using assms
proof (induction level p rule: valid_path_loop.induct)
  case (1 level p)
  show ?case
  proof (cases "p = []")
    case True
    then show ?thesis by (simp add: valid_path_loop.simps components_def climbs_def stays_def)
  next
    case False
    have h: "skip_slashes (dropWhile nonslash p) = [] \<or> hd (skip_slashes (dropWhile nonslash p)) \<noteq> CHR ''/''"
      by (rule skip_slashes_hd)
    show ?thesis
      using "1.IH" (1) [OF False refl refl _ _ h] "1.IH" (2) [OF False refl refl _ _ _ _ h]
        "1.IH" (3) [OF False refl refl _ _ _ h] "1.prems" False
      by (subst valid_path_loop.simps) (simp add: components_step Let_def clean_def [abs_def] stays_Cons)
  qed
qed

lemma is_valid_path_iff: "is_valid_path p \<longleftrightarrow> list_all clean (components p) \<and> stays 0 (components p)"
  unfolding is_valid_path_def valid_path_loop_iff [OF skip_slashes_hd] by simp

section \<open>Properties\<close>

text \<open>\<open>base64_encode\<close> computes the encoding of RFC 4648 for every input, although its 32-bit
  accumulator overflows on all but the shortest ones.\<close>

theorem base64_rfc4648: "base64_encode s = b64_ref s"
  by (rule base64_ref)

text \<open>C34: A path is accepted exactly when no component has a NUL byte or a backslash and no prefix of
  its components climbs above the directory it starts in.\<close>

theorem valid_path_stays_inside:
  "is_valid_path p \<longleftrightarrow>
     list_all clean (components p) \<and>
     (\<forall>k. k \<le> length (components p) \<longrightarrow> climbs (take k (components p)) \<le> descends (take k (components p)))"
  by (simp add: is_valid_path_iff stays_def)

theorem valid_path_stays_inside_witness:
  "is_valid_path ''/a/../b'' \<and> \<not> is_valid_path ''/a/../../b''"
proof -
  have "components ''/a/../../b'' = [''a'', ''..'', ''..'', ''b'']" by (simp add: components_def)
  then have "\<not> is_valid_path ''/a/../../b''"
    using valid_path_stays_inside [of "''/a/../../b''"] by (auto simp: climbs_def descends_def dest: spec [of _ 3])
  moreover have "is_valid_path ''/a/../b''" by code_simp
  ultimately show ?thesis by blast
qed

text \<open>Percent decoding gives back every parameter that was encoded, byte for byte, and every URL
  without a percent sign up to its first NUL byte.\<close>

theorem percent_encoding_roundtrip:
  "decode_url (encode_query_param s) conv = s \<and>
   (CHR ''%'' \<notin> set s \<longrightarrow> decode_url (encode_url s) conv = c_str s)"
  by (simp add: decode_encode_query decode_encode_url)

theorem percent_encoding_roundtrip_witness:
  "decode_url (encode_query_param ''a b+c'') True = ''a b+c'' \<and> decode_url (encode_url ''a b+c'') True = c_str ''a b+c''"
  using percent_encoding_roundtrip [of "''a b+c''" True] by simp

end
