(* ===== verification/Httplib_Ranges.thy ===== *)
theory Httplib_Ranges
  imports Httplib_Messages
begin

text \<open>
  Byte ranges in the HTTP library (BackendServers/httplib.h): parsing and printing of the \<open>Range\<close> header,
  the check of the ranges against the content (\<open>range_error\<close>, which also fills in the positions that
  the client left out), and the multipart body that answers several ranges. Positions are signed 64-bit
  numbers; \<open>stoll\<close> throws beyond them, which ends the parse. The assertions of the code are proved to hold
  after the check.
\<close>

section \<open>The Range header\<close>

definition range_number :: "string \<Rightarrow> int option" where
  "range_number s =
     (if s = [] then Some (- 1)
      else if int (nat_of_digits s) < 2 ^ 63 then Some (int (nat_of_digits s)) else None)"

text \<open>The callback on one piece: the range it appends, or \<open>None\<close> where it gives up or throws.\<close>

definition parse_range :: "string \<Rightarrow> Range option" where
  "parse_range p =
     (case find_char (CHR ''-'') p of
        None \<Rightarrow> None
      | Some i \<Rightarrow>
          let lhs = take i p; rhs = drop (Suc i) p
          in if \<not> list_all c_isdigit lhs \<or> \<not> list_all c_isdigit rhs then None
             else case (range_number lhs, range_number rhs) of
                    (Some first, Some lst) \<Rightarrow>
                      if first = - 1 \<and> lst = - 1 \<or> first \<noteq> - 1 \<and> lst \<noteq> - 1 \<and> first > lst then None
                      else Some (first, lst)
                  | _ \<Rightarrow> None)"

fun range_pieces :: "string list \<Rightarrow> Ranges \<Rightarrow> Ranges \<times> bool" where
  "range_pieces [] ranges = (ranges, True)"
| "range_pieces (p # ps) ranges =
     (case parse_range p of
        None \<Rightarrow> (ranges, False)
      | Some r \<Rightarrow> range_pieces ps (ranges @ [r]))"

definition parse_range_header :: "string \<Rightarrow> Ranges \<Rightarrow> Ranges \<times> bool" where
  "parse_range_header s ranges =
     (if length s > 7 \<and> take 6 s = ''bytes='' then
        case range_pieces (split_text (drop 6 s) (CHR '','')) ranges of
          (ranges, all_valid_ranges) \<Rightarrow> (ranges, all_valid_ranges \<and> ranges \<noteq> [])
      else (ranges, False))"

fun range_fields :: "nat \<Rightarrow> Ranges \<Rightarrow> string" where
  "range_fields i [] = []"
| "range_fields i ((first, lst) # rs) =
     (if i \<noteq> 0 then '', '' else []) @
     (if first \<noteq> - 1 then string_of_int first else []) @ ''-'' @
     (if lst \<noteq> - 1 then string_of_int lst else []) @ range_fields (Suc i) rs"

definition make_range_header :: "Ranges \<Rightarrow> string \<times> string" where
  "make_range_header ranges = (''Range'', ''bytes='' @ range_fields 0 ranges)"

section \<open>Ranges against the content\<close>

text \<open>The positions of one range as the check leaves them.\<close>

definition complete_range :: "int \<Rightarrow> Range \<Rightarrow> Range" where
  "complete_range content_len r =
     (let (first_pos, last_pos) = r;
          (first_pos, last_pos) = (if first_pos = - 1 \<and> last_pos = - 1 then (0, content_len) else (first_pos, last_pos));
          (first_pos, last_pos) =
            (if first_pos = - 1 then (content_len - last_pos, content_len - 1) else (first_pos, last_pos));
          last_pos = (if last_pos = - 1 \<or> last_pos \<ge> content_len then content_len - 1 else last_pos)
      in (first_pos, last_pos))"

text \<open>The loop: the ranges with the changes made in place, and whether there was an error.\<close>

fun range_loop :: "int \<Rightarrow> int \<Rightarrow> int \<Rightarrow> nat \<Rightarrow> Ranges \<Rightarrow> Ranges \<times> bool" where
  "range_loop content_len prev_first_pos prev_last_pos overwrapping_count [] = ([], False)"
| "range_loop content_len prev_first_pos prev_last_pos overwrapping_count (r # rs) =
     (let (first_pos, last_pos) = complete_range content_len r
      in if \<not> (0 \<le> first_pos \<and> first_pos \<le> last_pos \<and> last_pos \<le> content_len - 1) then ((first_pos, last_pos) # rs, True)
         else if first_pos \<le> prev_first_pos then ((first_pos, last_pos) # rs, True)
         else
           let count = (if first_pos \<le> prev_last_pos then Suc overwrapping_count else overwrapping_count)
           in if first_pos \<le> prev_last_pos \<and> count > 2 then ((first_pos, last_pos) # rs, True)
              else case range_loop content_len (max prev_first_pos first_pos) (max prev_last_pos last_pos) count rs of
                     (rs', e) \<Rightarrow> ((first_pos, last_pos) # rs', e))"

definition range_error :: "Request \<Rightarrow> Response \<Rightarrow> Request \<times> bool" where
  "range_error rq rs =
     (if rq_ranges rq \<noteq> [] \<and> 200 \<le> rs_status rs \<and> rs_status rs < 300 then
        let content_len = int (if rs_content_length rs \<noteq> 0 then rs_content_length rs else length (rs_body rs))
        in if length (rq_ranges rq) > 1024 then (rq, True)
           else case range_loop content_len (- 1) (- 1) 0 (rq_ranges rq) of
                  (ranges, e) \<Rightarrow> (rq\<lparr>rq_ranges := ranges\<rparr>, e)
      else (rq, False))"

section \<open>Partial content\<close>

definition get_range_offset_and_length :: "Range \<Rightarrow> nat \<times> nat" where
  "get_range_offset_and_length r = (nat (fst r), nat (snd r - fst r) + 1)"

definition make_content_range_header_field :: "nat \<times> nat \<Rightarrow> nat \<Rightarrow> string" where
  "make_content_range_header_field offset_and_length content_length =
     ''bytes '' @ string_of_nat (fst offset_and_length) @ ''-''
       @ string_of_nat (fst offset_and_length + snd offset_and_length - 1) @ ''/'' @ string_of_nat content_length"

text \<open>The template, on any state that the callbacks for tokens and content update.\<close>

fun process_multipart_ranges_data ::
    "string \<Rightarrow> string \<Rightarrow> nat \<Rightarrow> (string \<Rightarrow> 's \<Rightarrow> 's) \<Rightarrow> (nat \<Rightarrow> nat \<Rightarrow> 's \<Rightarrow> 's \<times> bool) \<Rightarrow> Ranges \<Rightarrow> 's \<Rightarrow> 's \<times> bool" where
  "process_multipart_ranges_data boundary content_type content_length token content [] st =
     (token ''--'' (token boundary (token ''--'' st)), True)"
| "process_multipart_ranges_data boundary content_type content_length token content (r # rs) st =
     (let st = token crlf (token boundary (token ''--'' st));
          st = (if content_type \<noteq> [] then token crlf (token content_type (token ''Content-Type: '' st)) else st);
          offset_and_length = get_range_offset_and_length r;
          st = token crlf (token crlf (token (make_content_range_header_field offset_and_length content_length)
                 (token ''Content-Range: '' st)))
      in case content (fst offset_and_length) (snd offset_and_length) st of
           (st, False) \<Rightarrow> (st, False)
         | (st, True) \<Rightarrow>
             process_multipart_ranges_data boundary content_type content_length token content rs (token crlf st))"

definition make_multipart_ranges_data :: "Request \<Rightarrow> Response \<Rightarrow> string \<Rightarrow> string \<Rightarrow> nat \<Rightarrow> string" where
  "make_multipart_ranges_data rq rs boundary content_type content_length =
     fst (process_multipart_ranges_data boundary content_type content_length (\<lambda>t d. d @ t)
            (\<lambda>offset len d. (d @ take len (drop offset (rs_body rs)), True)) (rq_ranges rq) [])"

definition get_multipart_ranges_data_length :: "Request \<Rightarrow> string \<Rightarrow> string \<Rightarrow> nat \<Rightarrow> nat" where
  "get_multipart_ranges_data_length rq boundary content_type content_length =
     fst (process_multipart_ranges_data boundary content_type content_length (\<lambda>t n. n + length t)
            (\<lambda>offset len n. (n + len, True)) (rq_ranges rq) 0)"

section \<open>The header: lemmas\<close>

definition range_ok :: "Range \<Rightarrow> bool" where
  "range_ok r \<longleftrightarrow> - 1 \<le> fst r \<and> - 1 \<le> snd r \<and> fst r < 2 ^ 63 \<and> snd r < 2 ^ 63
     \<and> (fst r \<noteq> - 1 \<or> snd r \<noteq> - 1) \<and> (fst r \<noteq> - 1 \<and> snd r \<noteq> - 1 \<longrightarrow> fst r \<le> snd r)"

definition show_pos :: "int \<Rightarrow> string" where
  "show_pos i = (if i \<noteq> - 1 then string_of_int i else [])"

definition show_range :: "Range \<Rightarrow> string" where
  "show_range r = show_pos (fst r) @ ''-'' @ show_pos (snd r)"

lemma not_digits:
  "\<not> c_isdigit (CHR ''-'')" "\<not> c_isdigit (CHR '','')" "\<not> c_isdigit (CHR '' '')" "\<not> c_isdigit (CHR 0x09)"
  by (simp_all add: cstr_simps)

lemma show_pos_digits: "- 1 \<le> i \<Longrightarrow> c \<in> set (show_pos i) \<Longrightarrow> c_isdigit c"
  by (auto simp: show_pos_def string_of_int_def string_of_nat_digits split: if_splits)

lemma range_number_show: "- 1 \<le> i \<Longrightarrow> i < 2 ^ 63 \<Longrightarrow> range_number (show_pos i) = Some i"
  by (auto simp: show_pos_def string_of_int_def range_number_def)

lemma parse_show_range:
  assumes "range_ok r" shows "parse_range (show_range r) = Some r"
proof -
  obtain f l where r: "r = (f, l)" by (cases r)
  have d: "\<And>c. c \<in> set (show_pos f) \<Longrightarrow> c_isdigit c" "\<And>c. c \<in> set (show_pos l) \<Longrightarrow> c_isdigit c"
    using assms show_pos_digits by (auto simp: r range_ok_def)
  then have "CHR ''-'' \<notin> set (show_pos f)" using not_digits by blast
  then have "find_char (CHR ''-'') (show_pos f @ CHR ''-'' # show_pos l) = Some (length (show_pos f))"
    by (rule find_char_split)
  with d assms show ?thesis
    by (auto simp: parse_range_def show_range_def r list_all_iff range_number_show range_ok_def)
qed

lemma range_fields_eq: "range_fields (Suc i) rs = concat (map (\<lambda>r. '', '' @ show_range r) rs)"
  by (induction rs arbitrary: i) (auto simp: show_range_def show_pos_def)

lemma show_range_chars:
  "range_ok r \<Longrightarrow> c \<in> set (show_range r) \<Longrightarrow> c_isdigit c \<or> c = CHR ''-''"
  unfolding range_ok_def show_range_def using show_pos_digits by auto

lemma split_on_fields:
  assumes "\<forall>r \<in> set rs. range_ok r" and "CHR '','' \<notin> set t"
  shows "split_on (CHR '','') (t @ concat (map (\<lambda>r. '', '' @ show_range r) rs)) = t # map (\<lambda>r. '' '' @ show_range r) rs"
  using assms
proof (induction rs arbitrary: t)
  case (Cons r rs)
  have "CHR '','' \<notin> set ('' '' @ show_range r)"
    using Cons.prems show_range_chars [of r "CHR '',''"] not_digits by auto
  with Cons have "split_on (CHR '','') (('' '' @ show_range r) @ concat (map (\<lambda>r. '', '' @ show_range r) rs))
      = ('' '' @ show_range r) # map (\<lambda>r. '' '' @ show_range r) rs" by auto
  then show ?case using Cons.prems(2) split_on_token [of "CHR '',''" t] by simp
qed (simp add: split_on_atom)

lemma strip_no_blanks: "(\<And>c. c \<in> set s \<Longrightarrow> \<not> is_space_or_tab c) \<Longrightarrow> strip s = s"
  unfolding strip_def by (metis dropWhile_eq_self_iff hd_in_set rev_rev_ident set_rev)

lemma strip_range: "range_ok r \<Longrightarrow> strip (show_range r) = show_range r \<and> strip ('' '' @ show_range r) = show_range r"
proof -
  assume "range_ok r"
  have "\<not> is_space_or_tab c" if "c \<in> set (show_range r)" for c
  proof -
    have "c_isdigit c \<or> c = CHR ''-''" using \<open>range_ok r\<close> that by (rule show_range_chars)
    then show ?thesis using not_digits by (auto simp: is_space_or_tab_def)
  qed
  then have s: "strip (show_range r) = show_range r" by (rule strip_no_blanks)
  moreover have "strip ('' '' @ show_range r) = strip (show_range r)"
    by (simp add: strip_def is_space_or_tab_def)
  ultimately show ?thesis by simp
qed

lemma range_pieces_show:
  "\<forall>r \<in> set rs. range_ok r \<Longrightarrow> range_pieces (map show_range rs) acc = (acc @ rs, True)"
  by (induction rs arbitrary: acc) (auto simp: parse_show_range)

lemma show_range_long: "range_ok r \<Longrightarrow> 2 \<le> length (show_range r)"
  by (cases r) (auto simp: show_range_def show_pos_def range_ok_def string_of_int_def Suc_le_eq)

lemma split_fields:
  assumes "\<forall>r \<in> set rs. range_ok r" and "rs \<noteq> []" and "int (length (range_fields 0 rs)) < 2 ^ 64 - 2"
  shows "split_text (range_fields 0 rs) (CHR '','') = map show_range rs"
proof -
  obtain r rs' where rs: "rs = r # rs'" using assms(2) by (cases rs) auto
  have f: "range_fields 0 rs = show_range r @ concat (map (\<lambda>r. '', '' @ show_range r) rs')"
    by (cases r) (simp add: rs range_fields_eq show_range_def show_pos_def)
  have "CHR '','' \<notin> set (show_range r)"
    using assms(1) show_range_chars [of r "CHR '',''"] not_digits by (auto simp: rs)
  then have "split_on (CHR '','') (range_fields 0 rs) = show_range r # map (\<lambda>r. '' '' @ show_range r) rs'"
    unfolding f using assms(1) rs by (intro split_on_fields) auto
  moreover have "map strip (show_range r # map (\<lambda>r. '' '' @ show_range r) rs') = map show_range rs"
    using assms(1) strip_range by (auto simp: rs)
  moreover have "filter (\<lambda>p. p \<noteq> []) (map show_range rs) = map show_range rs"
    using assms(1) show_range_long by (fastforce simp: filter_id_conv)
  ultimately show ?thesis using split_text_eq [OF assms(3)] by simp
qed

text \<open>The server reads back exactly the ranges that \<open>make_range_header\<close> printed, for every list of
  well-formed ranges, suffix ranges and open ranges included.\<close>

theorem range_header_roundtrip:
  assumes "rs \<noteq> []" and "\<forall>r \<in> set rs. range_ok r" and "int (length (snd (make_range_header rs))) < 2 ^ 64 - 2"
  shows "parse_range_header (snd (make_range_header rs)) [] = (rs, True)"
proof -
  have "7 < length (snd (make_range_header rs))"
    using assms(1,2) show_range_long
    by (cases rs) (fastforce simp: make_range_header_def show_range_def show_pos_def)+
  moreover have "take 6 (snd (make_range_header rs)) = ''bytes=''" "drop 6 (snd (make_range_header rs)) = range_fields 0 rs"
    by (simp_all add: make_range_header_def)
  moreover have "split_text (range_fields 0 rs) (CHR '','') = map show_range rs"
    using assms by (intro split_fields) (auto simp: make_range_header_def)
  ultimately show ?thesis
    using range_pieces_show [OF assms(2), of "[]"] assms(1) by (simp add: parse_range_header_def)
qed

theorem range_header_roundtrip_witness:
  "parse_range_header (snd (make_range_header [(0, 499), (1000, - 1), (- 1, 20)])) [] = ([(0, 499), (1000, - 1), (- 1, 20)], True)"
  by (rule range_header_roundtrip)
    (simp_all add: range_ok_def make_range_header_def string_of_int_def string_of_nat.simps)

section \<open>The check: lemmas\<close>

definition range_size :: "Range \<Rightarrow> int" where
  "range_size r = snd r - fst r + 1"

definition within :: "int \<Rightarrow> Range \<Rightarrow> bool" where
  "within content_len r \<longleftrightarrow> 0 \<le> fst r \<and> fst r \<le> snd r \<and> snd r < content_len"

text \<open>What the loop guarantees when it ends without an error.\<close>

lemma range_loop_ok:
  assumes "range_loop len pf pl cnt rs = (rs', False)" and "cnt \<le> 2" and "- 1 \<le> pl" and "pl < len \<or> len = 0 \<and> pl = - 1"
  shows "list_all (within len) rs' \<and> length rs' = length rs \<and> sorted_wrt (<) (map fst rs') \<and> (\<forall>r \<in> set rs'. pf < fst r)
    \<and> sum_list (map range_size rs') \<le> (len - 1 - pl) + int (2 - cnt) * len"
  using assms
proof (induction len pf pl cnt rs arbitrary: rs' rule: range_loop.induct)
  case (1 len pf pl cnt)
  then show ?case by auto
next
  case (2 len pf pl cnt r rs)
  obtain f l where c: "complete_range len r = (f, l)" by fastforce
  define k where "k = (if f \<le> pl then Suc cnt else cnt)"
  from 2(2) c obtain ts where w: "0 \<le> f" "f \<le> l" "l < len" and a: "pf < f" and o: "\<not> (f \<le> pl \<and> k > 2)"
    and t: "range_loop len (max pf f) (max pl l) k rs = (ts, False)" and rs': "rs' = (f, l) # ts"
    by (auto simp: k_def Let_def split: if_splits prod.splits)
  have "k \<le> 2" using o 2(3) by (auto simp: k_def split: if_splits)
  then have ih: "list_all (within len) ts \<and> length ts = length rs \<and> sorted_wrt (<) (map fst ts)
      \<and> (\<forall>r \<in> set ts. max pf f < fst r)
      \<and> sum_list (map range_size ts) \<le> (len - 1 - max pl l) + int (2 - k) * len"
    using 2 w a o c t by (intro "2.IH") (auto simp: k_def)
  have s: "range_size (f, l) + ((len - 1 - max pl l) + int (2 - k) * len) \<le> (len - 1 - pl) + int (2 - cnt) * len"
  proof (cases "f \<le> pl")
    case True
    then have "int (2 - cnt) = int (2 - k) + 1" using o 2(3) by (auto simp: k_def)
    then show ?thesis using w by (simp add: range_size_def algebra_simps)
  next
    case False
    then show ?thesis using w by (simp add: range_size_def k_def)
  qed
  show ?case unfolding rs' using ih s w a by (auto simp: within_def [of _ "(f, l)"])
qed

lemma range_error_ok:
  assumes "range_error rq rs = (rq', False)" and "rq_ranges rq \<noteq> []" and "200 \<le> rs_status rs" and "rs_status rs < 300"
    and "len = (if rs_content_length rs \<noteq> 0 then rs_content_length rs else length (rs_body rs))"
  shows "length (rq_ranges rq') \<le> 1024 \<and> list_all (within (int len)) (rq_ranges rq')
    \<and> length (rq_ranges rq') = length (rq_ranges rq) \<and> sorted_wrt (<) (map fst (rq_ranges rq'))
    \<and> sum_list (map range_size (rq_ranges rq')) \<le> 3 * int len"
proof -
  from assms have n: "length (rq_ranges rq) \<le> 1024"
    and l: "range_loop (int len) (- 1) (- 1) 0 (rq_ranges rq) = (rq_ranges rq', False)"
    by (auto simp: range_error_def Let_def split: if_splits prod.splits)
  from range_loop_ok [OF l] n show ?thesis by auto
qed

text \<open>C36: When the check of the ranges reports no error for a successful response, every range lies inside the
  content (so the assertions of the functions that cut it out hold), there are at most 1024, they are in
  ascending order, and together they ask for at most three times the content: the bound that keeps a small
  request from causing an unlimited answer.\<close>

theorem ranges_bounded:
  assumes "range_error rq rs = (rq', False)" and "rq_ranges rq \<noteq> []" and "200 \<le> rs_status rs" and "rs_status rs < 300"
    and "len = (if rs_content_length rs \<noteq> 0 then rs_content_length rs else length (rs_body rs))"
  shows "length (rq_ranges rq') \<le> 1024 \<and> list_all (within (int len)) (rq_ranges rq')
    \<and> sorted_wrt (<) (map fst (rq_ranges rq'))
    \<and> sum_list (map range_size (rq_ranges rq')) \<le> 3 * int len"
  using range_error_ok [OF assms] by blast

theorem ranges_bounded_witness:
  "list_all (within 10) [(0, 3), (5, 9)] \<and> sum_list (map range_size [(0, 3), (5, 9)]) \<le> 3 * 10"
  using ranges_bounded [of "new_Request\<lparr>rq_ranges := [(0, 3), (- 1, 5)]\<rparr>"
      "new_Response\<lparr>rs_status := 200, rs_body := ''0123456789''\<rparr>" "new_Request\<lparr>rq_ranges := [(0, 3), (5, 9)]\<rparr>" 10]
  by (simp add: range_error_def new_Request_def new_Response_def complete_range_def)

section \<open>Partial content: lemmas\<close>

lemma content_length_step:
  "within (int (length body)) r \<Longrightarrow>
     length (take (snd (get_range_offset_and_length r)) (drop (fst (get_range_offset_and_length r)) body))
       = snd (get_range_offset_and_length r)"
  by (auto simp: within_def get_range_offset_and_length_def)

lemma multipart_sim:
  assumes "list_all (within (int (length body))) ranges" and "length d = n"
  shows "length (fst (process_multipart_ranges_data boundary ct cl (\<lambda>t d. d @ t)
            (\<lambda>offset len d. (d @ take len (drop offset body), True)) ranges d))
       = fst (process_multipart_ranges_data boundary ct cl (\<lambda>t n. n + length t) (\<lambda>offset len n. (n + len, True)) ranges n)"
  using assms
proof (induction ranges arbitrary: d n)
  case (Cons r ranges)
  have "length (take (snd (get_range_offset_and_length r)) (drop (fst (get_range_offset_and_length r)) body))
       = snd (get_range_offset_and_length r)"
    using Cons.prems(1) by (intro content_length_step) simp
  then show ?case
    unfolding process_multipart_ranges_data.simps Let_def prod.case bool.case
    using Cons.prems by (intro Cons.IH) (auto simp del: length_take length_drop)
qed simp

text \<open>The length announced for a multipart answer is the length of the data that is sent, once
  the ranges have passed the check.\<close>

theorem multipart_length_exact:
  assumes "range_error rq rs = (rq', False)" and "rq_ranges rq \<noteq> []" and "200 \<le> rs_status rs" and "rs_status rs < 300"
    and "rs_content_length rs = 0"
  shows "get_multipart_ranges_data_length rq' boundary ct (length (rs_body rs))
       = length (make_multipart_ranges_data rq' rs boundary ct (length (rs_body rs)))"
  using range_error_ok [OF assms(1-4) refl] assms(5)
  unfolding get_multipart_ranges_data_length_def make_multipart_ranges_data_def
  by (intro multipart_sim [symmetric]) auto

theorem multipart_length_exact_witness:
  "get_multipart_ranges_data_length (new_Request\<lparr>rq_ranges := [(0, 3), (5, 9)]\<rparr>) ''b'' ''text/plain'' (length ''0123456789'')
     = length (make_multipart_ranges_data (new_Request\<lparr>rq_ranges := [(0, 3), (5, 9)]\<rparr>)
         (new_Response\<lparr>rs_status := 200, rs_body := ''0123456789''\<rparr>) ''b'' ''text/plain'' (length ''0123456789''))"
  using multipart_length_exact [of "new_Request\<lparr>rq_ranges := [(0, 3), (- 1, 5)]\<rparr>"
      "new_Response\<lparr>rs_status := 200, rs_body := ''0123456789''\<rparr>" "new_Request\<lparr>rq_ranges := [(0, 3), (5, 9)]\<rparr>"
      "''b''" "''text/plain''"]
  by (simp add: range_error_def new_Request_def new_Response_def complete_range_def)

end
