(* ===== verification/Httplib_Stream.thy ===== *)
theory Httplib_Stream
  imports Httplib_Messages
begin

text \<open>
  Streams in the HTTP library (BackendServers/httplib.h): the line reader, the reading of headers and of
  bodies (with a length, without one, chunked), and the writing of headers, data and chunks.

  A connection delivers its bytes in segments; a read returns at most the first segment. After the last
  segment it is either closed (a read gives 0) or broken (a negative result). The results of the writes are a list that
  the environment chooses: a negative number is a failure, any other the number of bytes the connection takes at most; when
  the list is used up, everything is taken. \<open>BufferStream\<close>, which the server collects the header in, is the stream whose list is empty. A callback
  for content is a function on a state of its own.

  Shown: what is read does not depend on the segments; what is written in chunks is read back; what \<open>write_data\<close> reports.
\<close>

section \<open>Streams\<close>

record strm =
  inq :: "string list"
  in_closed :: bool
  outbuf :: string
  wr_plan :: "int list"

definition strm_read :: "nat \<Rightarrow> strm \<Rightarrow> string option \<times> strm" where
  "strm_read n s =
     (case inq s of
        [] \<Rightarrow> (if in_closed s then Some [] else None, s)
      | seg # segs \<Rightarrow> (Some (take n seg), s\<lparr>inq := (if drop n seg = [] then segs else drop n seg # segs)\<rparr>))"

definition strm_write :: "string \<Rightarrow> strm \<Rightarrow> int \<times> strm" where
  "strm_write d s =
     (case wr_plan s of
        [] \<Rightarrow> (int (length d), s\<lparr>outbuf := outbuf s @ d\<rparr>)
      | n # ns \<Rightarrow>
          if n < 0 then (n, s\<lparr>wr_plan := ns\<rparr>)
          else (int (min (nat n) (length d)), s\<lparr>wr_plan := ns, outbuf := outbuf s @ take (nat n) d\<rparr>))"

definition new_BufferStream :: strm where
  "new_BufferStream = \<lparr>inq = [], in_closed = True, outbuf = [], wr_plan = []\<rparr>"

text \<open>The bytes that are still to come.\<close>

definition avail :: "strm \<Rightarrow> string" where
  "avail s = concat (inq s)"

lemma avail_simps [simp]:
  "avail (s\<lparr>inq := q\<rparr>) = concat q" "avail (s\<lparr>outbuf := b\<rparr>) = avail s" "avail (s\<lparr>wr_plan := p\<rparr>) = avail s"
  by (simp_all add: avail_def)

lemma strm_read_consumes:
  "strm_read n s = (Some d, s') \<Longrightarrow> avail s = d @ avail s'"
  by (auto simp: strm_read_def avail_def split: list.splits if_splits)

lemma strm_read_less: "strm_read n s = (Some d, s') \<Longrightarrow> d \<noteq> [] \<Longrightarrow> length (avail s') < length (avail s)"
  using strm_read_consumes [of n s d s'] by simp

section \<open>The line reader\<close>

record line_reader =
  lr_fixed :: string
  lr_growable :: string
  lr_fixed_size :: nat

definition new_line_reader :: "nat \<Rightarrow> line_reader" where
  "new_line_reader n = \<lparr>lr_fixed = [], lr_growable = [], lr_fixed_size = n\<rparr>"

text \<open>\<open>ptr()\<close> and \<open>size()\<close> together: the bytes of the line.\<close>

definition lr_text :: "line_reader \<Rightarrow> string" where
  "lr_text lr = (if lr_growable lr = [] then lr_fixed lr else lr_growable lr)"

definition end_with_crlf :: "line_reader \<Rightarrow> bool" where
  "end_with_crlf lr \<longleftrightarrow>
     length (lr_text lr) \<ge> 2 \<and> lr_text lr ! (length (lr_text lr) - 2) = CHR 0x0D \<and> lr_text lr ! (length (lr_text lr) - 1) = CHR 0x0A"

definition lr_append :: "char \<Rightarrow> line_reader \<Rightarrow> line_reader" where
  "lr_append c lr =
     (if length (lr_fixed lr) < lr_fixed_size lr - 1 then lr\<lparr>lr_fixed := lr_fixed lr @ [c]\<rparr>
      else if lr_growable lr = [] then lr\<lparr>lr_growable := lr_fixed lr @ [c]\<rparr>
      else lr\<lparr>lr_growable := lr_growable lr @ [c]\<rparr>)"

function getline_loop :: "bool \<Rightarrow> char \<Rightarrow> line_reader \<Rightarrow> strm \<Rightarrow> bool \<times> line_reader \<times> strm" where
  "getline_loop first prev_byte lr s =
     (case strm_read 1 s of
        (None, s) \<Rightarrow> (False, lr, s)
      | (Some [], s) \<Rightarrow> (\<not> first, lr, s)
      | (Some (b # bs), s) \<Rightarrow>
          let lr = lr_append b lr
          in if prev_byte = CHR 0x0D \<and> b = CHR 0x0A then (True, lr, s) else getline_loop False b lr s)"
  by auto
termination
  by (relation "measure (\<lambda>(first, prev, lr, s). length (avail s))") (auto dest: sym strm_read_less)

declare getline_loop.simps [simp del]

definition getline :: "line_reader \<Rightarrow> strm \<Rightarrow> bool \<times> line_reader \<times> strm" where
  "getline lr s = getline_loop True (CHR 0x00) (lr\<lparr>lr_fixed := [], lr_growable := []\<rparr>) s"

text \<open>A line that was read used up at least a byte.\<close>

lemma getline_loop_less:
  "getline_loop first prev lr s = (True, lr', s') \<Longrightarrow>
     (if first then length (avail s') < length (avail s) else length (avail s') \<le> length (avail s))"
proof (induction first prev lr s rule: getline_loop.induct)
  case (1 first prev lr s)
  obtain d t where r: "strm_read 1 s = (d, t)" by fastforce
  show ?case
  proof (cases d)
    case None
    with r 1(2) show ?thesis by (subst (asm) getline_loop.simps) simp
  next
    case (Some bs)
    have c: "avail s = bs @ avail t" using strm_read_consumes r Some by simp
    show ?thesis
    proof (cases bs)
      case Nil
      with r Some 1(2) c show ?thesis by (subst (asm) getline_loop.simps) auto
    next
      case (Cons b bs')
      from 1(2) r Some Cons consider "s' = t"
        | "\<not> (prev = CHR 0x0D \<and> b = CHR 0x0A)" "getline_loop False b (lr_append b lr) t = (True, lr', s')"
        by (subst (asm) getline_loop.simps) (auto simp: Let_def split: if_splits)
      then have "length (avail s') \<le> length (avail t)"
      proof cases
        case 2
        with "1.IH" [OF r [symmetric] Some Cons refl] show ?thesis by simp
      qed simp
      then show ?thesis using c Cons by simp
    qed
  qed
qed

lemma getline_less: "getline lr s = (True, lr', s') \<Longrightarrow> length (avail s') < length (avail s)"
  unfolding getline_def using getline_loop_less by fastforce

section \<open>Headers\<close>

function read_headers_loop :: "line_reader \<Rightarrow> strm \<Rightarrow> Headers \<Rightarrow> bool \<times> Headers \<times> strm" where
  "read_headers_loop lr s headers =
     (case getline lr s of
        (False, lr, s) \<Rightarrow> (False, headers, s)
      | (True, lr, s) \<Rightarrow>
          if \<not> end_with_crlf lr then read_headers_loop lr s headers
          else if length (lr_text lr) = 2 then (True, headers, s)
          else if length (lr_text lr) > 8192 then (False, headers, s)
          else case parse_header (take (length (lr_text lr) - 2) (lr_text lr)) of
                 None \<Rightarrow> (False, headers, s)
               | Some (k, v) \<Rightarrow> read_headers_loop lr s (headers_emplace k v headers))"
  by auto
termination
  by (relation "measure (\<lambda>(lr, s, headers). length (avail s))") (auto dest: sym getline_less)

declare read_headers_loop.simps [simp del]

definition read_headers :: "strm \<Rightarrow> Headers \<Rightarrow> bool \<times> Headers \<times> strm" where
  "read_headers s headers = read_headers_loop (new_line_reader 2048) s headers"

definition header_line :: "string \<times> string \<Rightarrow> string" where
  "header_line kv = fst kv @ '': '' @ snd kv @ crlf"

text \<open>The number of bytes written, or a negative number.\<close>

fun write_header_lines :: "Headers \<Rightarrow> int \<Rightarrow> strm \<Rightarrow> int \<times> strm" where
  "write_header_lines [] write_len s =
     (case strm_write crlf s of (len, s) \<Rightarrow> if len < 0 then (len, s) else (write_len + len, s))"
| "write_header_lines (kv # h) write_len s =
     (case strm_write (header_line kv) s of
        (len, s) \<Rightarrow> if len < 0 then (len, s) else write_header_lines h (write_len + len) s)"

definition write_headers :: "Headers \<Rightarrow> strm \<Rightarrow> int \<times> strm" where
  "write_headers headers s = write_header_lines headers 0 s"

definition write_request_line :: "string \<Rightarrow> string \<Rightarrow> strm \<Rightarrow> int \<times> strm" where
  "write_request_line method path s = strm_write (method @ '' '' @ path @ '' HTTP/1.1'' @ crlf) s"

definition response_line :: "int \<Rightarrow> string" where
  "response_line status = ''HTTP/1.1 '' @ string_of_int status @ '' '' @ status_message status @ crlf"

definition write_response_line :: "int \<Rightarrow> strm \<Rightarrow> int \<times> strm" where
  "write_response_line status s = strm_write (response_line status) s"

function write_data :: "string \<Rightarrow> strm \<Rightarrow> bool \<times> strm" where
  "write_data d s =
     (if d = [] then (True, s)
      else case strm_write d s of
             (len, s) \<Rightarrow> if len < 0 then (False, s) else write_data (drop (nat len) d) s)"
  by auto
termination
  by (relation "measures [\<lambda>(d, s). length (wr_plan s), \<lambda>(d, s). length d]")
    (auto simp: strm_write_def split: list.splits if_splits)

declare write_data.simps [simp del]

section \<open>Bodies\<close>

text \<open>A callback for content gets the bytes, their offset and the announced length, and says whether to go on.\<close>

type_synonym 'r receiver = "string \<Rightarrow> nat \<Rightarrow> nat \<Rightarrow> 'r \<Rightarrow> bool \<times> 'r"

definition RECV_BUFSIZ :: nat where
  "RECV_BUFSIZ = 16384"

function read_length_loop ::
    "nat \<Rightarrow> nat \<Rightarrow> (nat \<Rightarrow> nat \<Rightarrow> bool) option \<Rightarrow> 'r receiver \<Rightarrow> 'r \<Rightarrow> strm \<Rightarrow> bool \<times> 'r \<times> strm" where
  "read_length_loop len r progress out st s =
     (if r < len then
        case strm_read (min (len - r) RECV_BUFSIZ) s of
          (None, s) \<Rightarrow> (False, st, s)
        | (Some d, s) \<Rightarrow>
            if d = [] then (False, st, s)
            else case out d r len st of
                   (False, st) \<Rightarrow> (False, st, s)
                 | (True, st) \<Rightarrow>
                     let r = r + length d
                     in if (case progress of Some p \<Rightarrow> \<not> p r len | None \<Rightarrow> False) then (False, st, s)
                        else read_length_loop len r progress out st s
      else (True, st, s))"
  by auto
termination
  by (relation "measure (\<lambda>(len, r, progress, out, st, s). length (avail s))") (auto dest: sym strm_read_less)

declare read_length_loop.simps [simp del]

definition read_content_with_length ::
    "nat \<Rightarrow> (nat \<Rightarrow> nat \<Rightarrow> bool) option \<Rightarrow> 'r receiver \<Rightarrow> 'r \<Rightarrow> strm \<Rightarrow> bool \<times> 'r \<times> strm" where
  "read_content_with_length len progress out st s = read_length_loop len 0 progress out st s"

function skip_length_loop :: "nat \<Rightarrow> nat \<Rightarrow> strm \<Rightarrow> strm" where
  "skip_length_loop len r s =
     (if r < len then
        case strm_read (min (len - r) RECV_BUFSIZ) s of
          (None, s) \<Rightarrow> s
        | (Some d, s) \<Rightarrow> if d = [] then s else skip_length_loop len (r + length d) s
      else s)"
  by auto
termination
  by (relation "measure (\<lambda>(len, r, s). length (avail s))") (auto dest: sym strm_read_less)

declare skip_length_loop.simps [simp del]

definition skip_content_with_length :: "nat \<Rightarrow> strm \<Rightarrow> strm" where
  "skip_content_with_length len s = skip_length_loop len 0 s"

function read_to_end_loop :: "nat \<Rightarrow> 'r receiver \<Rightarrow> 'r \<Rightarrow> strm \<Rightarrow> bool \<times> 'r \<times> strm" where
  "read_to_end_loop r out st s =
     (case strm_read RECV_BUFSIZ s of
        (None, s) \<Rightarrow> (False, st, s)
      | (Some d, s) \<Rightarrow>
          if d = [] then (True, st, s)
          else case out d r 0 st of
                 (False, st) \<Rightarrow> (False, st, s)
               | (True, st) \<Rightarrow> read_to_end_loop (r + length d) out st s)"
  by auto
termination
  by (relation "measure (\<lambda>(r, out, st, s). length (avail s))") (auto dest: sym strm_read_less)

declare read_to_end_loop.simps [simp del]

definition read_content_without_length :: "'r receiver \<Rightarrow> 'r \<Rightarrow> strm \<Rightarrow> bool \<times> 'r \<times> strm" where
  "read_content_without_length out st s = read_to_end_loop 0 out st s"

text \<open>\<open>strtoul(s, &end, 16)\<close>; \<open>None\<close> where no number was read.\<close>

definition strtoul16 :: "string \<Rightarrow> nat option" where
  "strtoul16 s =
     (let r = dropWhile c_isspace s;
          (neg, t) = split_sign r;
          t = (if (starts_with t ''0x'' \<or> starts_with t ''0X'') \<and> drop 2 t \<noteq> [] \<and> c_isxdigit (t ! 2) then drop 2 t else t);
          ds = takeWhile c_isxdigit t;
          v = nat_of_xdigits ds
      in if ds = [] then None
         else if v \<ge> 2 ^ 64 then Some (2 ^ 64 - 1)
         else if neg then Some ((2 ^ 64 - v) mod 2 ^ 64)
         else Some v)"

lemma read_length_loop_le:
  "read_length_loop len r progress out st s = (b, st', s') \<Longrightarrow> length (avail s') \<le> length (avail s)"
proof (induction len r progress out st s rule: read_length_loop.induct)
  case (1 len r progress out st s)
  show ?case
  proof (cases "r < len")
    case False
    with 1(2) show ?thesis by (subst (asm) read_length_loop.simps) simp
  next
    case True
    obtain d t where rd: "strm_read (min (len - r) RECV_BUFSIZ) s = (d, t)" by fastforce
    have t: "length (avail t) \<le> length (avail s)"
      using rd strm_read_consumes [of _ s _ t] by (cases d) (auto simp: strm_read_def split: list.splits if_splits)
    show ?thesis
    proof (cases "s' = t")
      case True
      then show ?thesis using t by simp
    next
      case False
      with 1(2) rd True obtain x st2 where x: "d = Some x" "x \<noteq> []" "out x r len st = (True, st2)"
        "\<not> (case progress of Some p \<Rightarrow> \<not> p (r + length x) len | None \<Rightarrow> False)"
        "read_length_loop len (r + length x) progress out st2 t = (b, st', s')"
        by (subst (asm) read_length_loop.simps)
          (auto simp: Let_def split: option.splits if_splits prod.splits bool.splits)
      then have "length (avail s') \<le> length (avail t)"
        using "1.IH" [OF True rd [symmetric] x(1,2) x(3) [symmetric] refl refl x(4)] by simp
      then show ?thesis using t by simp
    qed
  qed
qed

lemma read_with_length_le:
  "read_content_with_length len progress out st s = (b, st', s') \<Longrightarrow> length (avail s') \<le> length (avail s)"
  unfolding read_content_with_length_def by (rule read_length_loop_le)

function chunk_loop :: "line_reader \<Rightarrow> 'r receiver \<Rightarrow> 'r \<Rightarrow> strm \<Rightarrow> bool \<times> line_reader \<times> 'r \<times> strm" where
  "chunk_loop lr out st s =
     (case strtoul16 (c_str (lr_text lr)) of
        None \<Rightarrow> (False, lr, st, s)
      | Some chunk_len \<Rightarrow>
          if chunk_len = 2 ^ 64 - 1 then (False, lr, st, s)
          else if chunk_len = 0 then (True, lr, st, s)
          else case read_content_with_length chunk_len None out st s of
                 (False, st, s) \<Rightarrow> (False, lr, st, s)
               | (True, st, s) \<Rightarrow>
                   (case getline lr s of
                      (False, lr, s) \<Rightarrow> (False, lr, st, s)
                    | (True, lr, s) \<Rightarrow>
                        if c_str (lr_text lr) \<noteq> crlf then (False, lr, st, s)
                        else case getline lr s of
                               (False, lr, s) \<Rightarrow> (False, lr, st, s)
                             | (True, lr, s) \<Rightarrow> chunk_loop lr out st s))"
  by auto
termination
  by (relation "measure (\<lambda>(lr, out, st, s). length (avail s))")
    (auto dest!: getline_less [OF sym] read_with_length_le [OF sym])

declare chunk_loop.simps [simp del]

function trailer_loop :: "line_reader \<Rightarrow> strm \<Rightarrow> Headers \<Rightarrow> bool \<times> Headers \<times> strm" where
  "trailer_loop lr s headers =
     (if c_str (lr_text lr) = crlf then (True, headers, s)
      else if length (lr_text lr) > 8192 then (False, headers, s)
      else
        let headers = (case parse_header (take (length (lr_text lr) - 2) (lr_text lr)) of
                Some (k, v) \<Rightarrow> headers_emplace k v headers | None \<Rightarrow> headers)
        in case getline lr s of
             (False, lr, s) \<Rightarrow> (False, headers, s)
           | (True, lr, s) \<Rightarrow> trailer_loop lr s headers)"
  by auto
termination
  by (relation "measure (\<lambda>(lr, s, headers). length (avail s))") (auto dest: sym getline_less)

declare trailer_loop.simps [simp del]

definition read_content_chunked :: "Headers \<Rightarrow> 'r receiver \<Rightarrow> 'r \<Rightarrow> strm \<Rightarrow> bool \<times> Headers \<times> 'r \<times> strm" where
  "read_content_chunked headers out st s =
     (case getline (new_line_reader 16) s of
        (False, lr, s) \<Rightarrow> (False, headers, st, s)
      | (True, lr, s) \<Rightarrow>
          (case chunk_loop lr out st s of
             (False, lr, st, s) \<Rightarrow> (False, headers, st, s)
           | (True, lr, st, s) \<Rightarrow>
               (case getline lr s of
                  (False, lr, s) \<Rightarrow> (True, headers, st, s)
                | (True, lr, s) \<Rightarrow>
                    (case trailer_loop lr s headers of (ok, headers, s) \<Rightarrow> (ok, headers, st, s)))))"

text \<open>\<open>prepare_content_receiver\<close> and \<open>read_content\<close> of a request, in a build without decompression: the
  status is an in-out argument.\<close>

definition unsupported_encoding :: "Headers \<Rightarrow> bool" where
  "unsupported_encoding headers \<longleftrightarrow>
     (let encoding = get_header_value headers ''Content-Encoding'' '''' 0
      in encoding = ''gzip'' \<or> encoding = ''deflate'' \<or> find_str ''br'' encoding \<noteq> None \<or> encoding = ''zstd'')"

definition read_content_body ::
    "nat \<Rightarrow> int \<Rightarrow> 'r receiver \<Rightarrow> Headers \<Rightarrow> 'r \<Rightarrow> strm \<Rightarrow> bool \<times> int \<times> Headers \<times> 'r \<times> strm" where
  "read_content_body payload_max_length status out headers st s =
     (let (ret, exceed, headers, st, s) =
        (if is_chunked_transfer_encoding headers then
           case read_content_chunked headers out st s of (ret, headers, st, s) \<Rightarrow> (ret, False, headers, st, s)
         else if \<not> has_header headers ''Content-Length'' then
           case read_content_without_length out st s of (ret, st, s) \<Rightarrow> (ret, False, headers, st, s)
         else
           case get_header_value_u64 headers ''Content-Length'' (2 ^ 64 - 1) 0 of
             (len, is_invalid_value) \<Rightarrow>
               if is_invalid_value then (False, False, headers, st, s)
               else if len > payload_max_length then (False, True, headers, st, skip_content_with_length len s)
               else if len > 0 then
                 case read_content_with_length len None out st s of (ret, st, s) \<Rightarrow> (ret, False, headers, st, s)
               else (True, False, headers, st, s))
      in (ret, if ret then status else if exceed then 413 else 400, headers, st, s))"

definition read_content ::
    "nat \<Rightarrow> int \<Rightarrow> 'r receiver \<Rightarrow> bool \<Rightarrow> Headers \<Rightarrow> 'r \<Rightarrow> strm \<Rightarrow> bool \<times> int \<times> Headers \<times> 'r \<times> strm" where
  "read_content payload_max_length status out decompress headers st s =
     (if decompress \<and> unsupported_encoding headers then (False, 415, headers, st, s)
      else read_content_body payload_max_length status out headers st s)"

section \<open>Content providers\<close>

text \<open>
  A provider calls the data sink; a call of a member function the sink does not have throws
  \<open>std::bad_function_call\<close>. \<open>shutting_down\<close> and \<open>wait_writable\<close> give the answers of the server and of
  the connection in each round. The loops end only when the provider says so: \<open>None\<close> is a loop that does not end.
\<close>

definition bad_function_call :: std_exn where
  "bad_function_call = runtime_error ''bad_function_call''"

fun content_sink :: "sink_call list \<Rightarrow> nat \<Rightarrow> bool \<Rightarrow> strm \<Rightarrow> (nat \<times> bool \<times> strm) exc" where
  "content_sink [] offset ok s = Inr (offset, ok, s)"
| "content_sink (SinkWrite d # cs) offset ok s =
     (if ok then
        case write_data d s of
          (True, s) \<Rightarrow> content_sink cs (offset + length d) True s
        | (False, s) \<Rightarrow> content_sink cs offset False s
      else content_sink cs offset ok s)"
| "content_sink (_ # cs) offset ok s = Inl bad_function_call"

partial_function (option) write_content_loop ::
    "ContentProvider \<Rightarrow> (nat \<Rightarrow> bool) \<Rightarrow> (nat \<Rightarrow> bool) \<Rightarrow> nat \<Rightarrow> nat \<Rightarrow> nat \<Rightarrow> strm \<Rightarrow> (bool \<times> Error \<times> strm) exc option" where
  "write_content_loop provider shutting_down wait_writable i end_offset offset s =
     (if offset < end_offset \<and> \<not> shutting_down i then
        if \<not> wait_writable i then Some (Inr (False, Error_Write, s))
        else case provider offset (end_offset - offset) of
               (calls, ret) \<Rightarrow>
                 (case content_sink calls offset True s of
                    Inl e \<Rightarrow> Some (Inl e)
                  | Inr (offset, ok, s) \<Rightarrow>
                      if \<not> ret then Some (Inr (False, Error_Canceled, s))
                      else if \<not> ok then Some (Inr (False, Error_Write, s))
                      else write_content_loop provider shutting_down wait_writable (Suc i) end_offset offset s)
      else Some (Inr (True, Error_Success, s)))"

definition write_content ::
    "ContentProvider \<Rightarrow> nat \<Rightarrow> nat \<Rightarrow> (nat \<Rightarrow> bool) \<Rightarrow> (nat \<Rightarrow> bool) \<Rightarrow> strm \<Rightarrow> (bool \<times> Error \<times> strm) exc option" where
  "write_content provider offset len shutting_down wait_writable s =
     write_content_loop provider shutting_down wait_writable 0 (offset + len) offset s"

fun unsized_sink :: "sink_call list \<Rightarrow> nat \<Rightarrow> bool \<Rightarrow> bool \<Rightarrow> strm \<Rightarrow> (nat \<times> bool \<times> bool \<times> strm) exc" where
  "unsized_sink [] offset data_available ok s = Inr (offset, data_available, ok, s)"
| "unsized_sink (SinkWrite d # cs) offset data_available ok s =
     (if ok then
        case write_data d s of (ok, s) \<Rightarrow> unsized_sink cs (offset + length d) data_available ok s
      else unsized_sink cs offset data_available ok s)"
| "unsized_sink (SinkDone # cs) offset data_available ok s = unsized_sink cs offset False ok s"
| "unsized_sink (SinkDoneWithTrailer h # cs) offset data_available ok s = Inl bad_function_call"

partial_function (option) write_unsized_loop ::
    "ContentProvider \<Rightarrow> (nat \<Rightarrow> bool) \<Rightarrow> (nat \<Rightarrow> bool) \<Rightarrow> nat \<Rightarrow> nat \<Rightarrow> bool \<Rightarrow> strm \<Rightarrow> (bool \<times> strm) exc option" where
  "write_unsized_loop provider shutting_down wait_writable i offset data_available s =
     (if data_available \<and> \<not> shutting_down i then
        if \<not> wait_writable i then Some (Inr (False, s))
        else case provider offset 0 of
               (calls, ret) \<Rightarrow>
                 (case unsized_sink calls offset data_available True s of
                    Inl e \<Rightarrow> Some (Inl e)
                  | Inr (offset, data_available, ok, s) \<Rightarrow>
                      if \<not> ret then Some (Inr (False, s))
                      else if \<not> ok then Some (Inr (False, s))
                      else write_unsized_loop provider shutting_down wait_writable (Suc i) offset data_available s)
      else Some (Inr (True, s)))"

definition write_content_without_length ::
    "ContentProvider \<Rightarrow> (nat \<Rightarrow> bool) \<Rightarrow> (nat \<Rightarrow> bool) \<Rightarrow> strm \<Rightarrow> (bool \<times> strm) exc option" where
  "write_content_without_length provider shutting_down wait_writable s =
     write_unsized_loop provider shutting_down wait_writable 0 0 True s"

text \<open>The chunk that carries a payload (without compression the payload is the data itself).\<close>

definition chunk_text :: "string \<Rightarrow> string" where
  "chunk_text d = from_i_to_hex (length d) @ crlf @ d @ crlf"

text \<open>Several pieces, each written even when an earlier one failed.\<close>

fun write_all :: "string list \<Rightarrow> bool \<Rightarrow> strm \<Rightarrow> bool \<times> strm" where
  "write_all [] ok s = (ok, s)"
| "write_all (d # ds) ok s = (case write_data d s of (b, s) \<Rightarrow> write_all ds (ok \<and> b) s)"

definition done_with_trailer :: "Headers \<Rightarrow> strm \<Rightarrow> bool \<times> strm" where
  "done_with_trailer trailer s = write_all ((''0'' @ crlf) # map header_line trailer @ [crlf]) True s"

fun chunk_sink :: "sink_call list \<Rightarrow> nat \<Rightarrow> bool \<Rightarrow> bool \<Rightarrow> strm \<Rightarrow> nat \<times> bool \<times> bool \<times> strm" where
  "chunk_sink [] offset data_available ok s = (offset, data_available, ok, s)"
| "chunk_sink (SinkWrite d # cs) offset data_available ok s =
     (if ok then
        case (if d = [] then (True, s) else write_data (chunk_text d) s) of
          (ok, s) \<Rightarrow> chunk_sink cs (offset + length d) (d \<noteq> []) ok s
      else chunk_sink cs offset data_available ok s)"
| "chunk_sink (SinkDone # cs) offset data_available ok s =
     (if ok then case done_with_trailer [] s of (ok, s) \<Rightarrow> chunk_sink cs offset False ok s
      else chunk_sink cs offset data_available ok s)"
| "chunk_sink (SinkDoneWithTrailer h # cs) offset data_available ok s =
     (if ok then case done_with_trailer h s of (ok, s) \<Rightarrow> chunk_sink cs offset False ok s
      else chunk_sink cs offset data_available ok s)"

partial_function (option) write_chunked_loop ::
    "ContentProvider \<Rightarrow> (nat \<Rightarrow> bool) \<Rightarrow> (nat \<Rightarrow> bool) \<Rightarrow> nat \<Rightarrow> nat \<Rightarrow> bool \<Rightarrow> strm \<Rightarrow> (bool \<times> Error \<times> strm) option" where
  "write_chunked_loop provider shutting_down wait_writable i offset data_available s =
     (if data_available \<and> \<not> shutting_down i then
        if \<not> wait_writable i then Some (False, Error_Write, s)
        else case provider offset 0 of
               (calls, ret) \<Rightarrow>
                 (case chunk_sink calls offset data_available True s of
                    (offset, data_available, ok, s) \<Rightarrow>
                      if \<not> ret then Some (False, Error_Canceled, s)
                      else if \<not> ok then Some (False, Error_Write, s)
                      else write_chunked_loop provider shutting_down wait_writable (Suc i) offset data_available s)
      else Some (True, Error_Success, s))"

definition write_content_chunked ::
    "ContentProvider \<Rightarrow> (nat \<Rightarrow> bool) \<Rightarrow> (nat \<Rightarrow> bool) \<Rightarrow> strm \<Rightarrow> (bool \<times> Error \<times> strm) option" where
  "write_content_chunked provider shutting_down wait_writable s =
     write_chunked_loop provider shutting_down wait_writable 0 0 True s"

section \<open>Reading: lemmas\<close>

definition strm_ok :: "strm \<Rightarrow> bool" where
  "strm_ok s \<longleftrightarrow> [] \<notin> set (inq s)"

lemma strm_ok_inq [simp]: "strm_ok (s\<lparr>inq := q\<rparr>) \<longleftrightarrow> [] \<notin> set q"
  by (simp add: strm_ok_def)

lemma strm_read_some:
  assumes "strm_ok s" and "avail s \<noteq> []" and "0 < n"
  shows "\<exists>d q. strm_read n s = (Some d, s\<lparr>inq := q\<rparr>) \<and> d \<noteq> [] \<and> length d \<le> n \<and> avail s = d @ concat q \<and> [] \<notin> set q"
proof -
  obtain seg segs where q: "inq s = seg # segs" using assms(2) by (cases "inq s") (auto simp: avail_def)
  then have "seg \<noteq> []" "[] \<notin> set segs" using assms(1) by (auto simp: strm_ok_def)
  with q assms(3) show ?thesis
    by (intro exI [of _ "take n seg"] exI [of _ "if drop n seg = [] then segs else drop n seg # segs"])
      (auto simp: strm_read_def avail_def)
qed

lemma strm_read_one:
  assumes "strm_ok s" and "avail s = c # r"
  shows "\<exists>q. strm_read 1 s = (Some [c], s\<lparr>inq := q\<rparr>) \<and> concat q = r \<and> [] \<notin> set q"
proof -
  obtain d q where d: "strm_read 1 s = (Some d, s\<lparr>inq := q\<rparr>)" "d \<noteq> []" "length d \<le> 1" "avail s = d @ concat q" "[] \<notin> set q"
    using strm_read_some [of s 1] assms by auto
  then have "d = [c]" using assms(2) by (cases d) auto
  with d assms show ?thesis by auto
qed

definition lr_inv :: "line_reader \<Rightarrow> bool" where
  "lr_inv lr \<longleftrightarrow> (lr_growable lr \<noteq> [] \<longrightarrow> lr_fixed_size lr - 1 \<le> length (lr_fixed lr))"

lemma lr_append_text: "lr_inv lr \<Longrightarrow> lr_text (lr_append c lr) = lr_text lr @ [c] \<and> lr_inv (lr_append c lr)"
  by (auto simp: lr_inv_def lr_text_def lr_append_def)

lemma getline_loop_line:
  assumes "strm_ok s" and "avail s = line @ crlf @ rest" and "CHR 0x0A \<notin> set line" and "lr_inv lr"
  shows "\<exists>lr' q. getline_loop first prev lr s = (True, lr', s\<lparr>inq := q\<rparr>) \<and> lr_text lr' = lr_text lr @ line @ crlf
    \<and> concat q = rest \<and> [] \<notin> set q"
  using assms
proof (induction line arbitrary: first prev lr s)
  case Nil
  then have a: "avail s = CHR 0x0D # CHR 0x0A # rest" by (simp add: crlf_def)
  obtain q where q: "strm_read 1 s = (Some [CHR 0x0D], s\<lparr>inq := q\<rparr>)" "concat q = CHR 0x0A # rest" "[] \<notin> set q"
    using strm_read_one [OF Nil(1) a] by blast
  obtain q2 where q2: "strm_read 1 (s\<lparr>inq := q\<rparr>) = (Some [CHR 0x0A], s\<lparr>inq := q2\<rparr>)" "concat q2 = rest" "[] \<notin> set q2"
    using strm_read_one [of "s\<lparr>inq := q\<rparr>" "CHR 0x0A" rest] q by auto
  show ?case
    using q q2 Nil(4) lr_append_text [of lr "CHR 0x0D"] lr_append_text [of "lr_append (CHR 0x0D) lr" "CHR 0x0A"]
    by (subst getline_loop.simps, simp add: Let_def, subst getline_loop.simps, auto simp add: Let_def crlf_def)
next
  case (Cons c line)
  then have a: "avail s = c # line @ crlf @ rest" by simp
  obtain q where q: "strm_read 1 s = (Some [c], s\<lparr>inq := q\<rparr>)" "concat q = line @ crlf @ rest" "[] \<notin> set q"
    using strm_read_one [OF Cons.prems(1) a] by blast
  have "c \<noteq> CHR 0x0A" using Cons.prems(3) by auto
  moreover obtain lr' q2 where "getline_loop False c (lr_append c lr) (s\<lparr>inq := q\<rparr>) = (True, lr', s\<lparr>inq := q2\<rparr>)"
      "lr_text lr' = lr_text (lr_append c lr) @ line @ crlf" "concat q2 = rest" "[] \<notin> set q2"
    using Cons.IH [of "s\<lparr>inq := q\<rparr>" "lr_append c lr" False c] q Cons.prems lr_append_text [of lr c] by auto
  ultimately show ?case
    using q lr_append_text [OF Cons.prems(4), of c] by (subst getline_loop.simps) (auto simp: Let_def)
qed

lemma getline_line:
  assumes "strm_ok s" and "avail s = line @ crlf @ rest" and "CHR 0x0A \<notin> set line"
  shows "\<exists>lr' q. getline lr s = (True, lr', s\<lparr>inq := q\<rparr>) \<and> lr_text lr' = line @ crlf \<and> concat q = rest \<and> [] \<notin> set q"
  unfolding getline_def
  using getline_loop_line [OF assms, of "lr\<lparr>lr_fixed := [], lr_growable := []\<rparr>" True "CHR 0x00"]
  by (simp add: lr_inv_def lr_text_def [of "lr\<lparr>lr_fixed := [], lr_growable := []\<rparr>"])

text \<open>A receiver that appends what it gets.\<close>

definition app :: "string receiver" where
  "app d off len st = (True, st @ d)"

lemma read_length_loop_app:
  assumes "strm_ok s" and "r \<le> len" and "len - r \<le> length (avail s)"
  shows "\<exists>q. read_length_loop len r None app st s = (True, st @ take (len - r) (avail s), s\<lparr>inq := q\<rparr>)
    \<and> concat q = drop (len - r) (avail s) \<and> [] \<notin> set q"
  using assms
proof (induction "len - r" arbitrary: r st s rule: less_induct)
  case less
  show ?case
  proof (cases "r < len")
    case False
    with less(4,2,3) show ?thesis
      by (subst read_length_loop.simps) (auto simp: avail_def strm_ok_def intro!: exI [of _ "inq s"])
  next
    case True
    with less.prems have "avail s \<noteq> []" by auto
    then obtain d q where d: "strm_read (min (len - r) RECV_BUFSIZ) s = (Some d, s\<lparr>inq := q\<rparr>)" "d \<noteq> []"
        "length d \<le> len - r" "avail s = d @ concat q" "[] \<notin> set q"
      using strm_read_some [OF less.prems(1), of "min (len - r) RECV_BUFSIZ"] True by (auto simp: RECV_BUFSIZ_def)
    obtain q2 where q2: "read_length_loop len (r + length d) None app (st @ d) (s\<lparr>inq := q\<rparr>)
        = (True, (st @ d) @ take (len - (r + length d)) (concat q), s\<lparr>inq := q2\<rparr>)"
        "concat q2 = drop (len - (r + length d)) (concat q)" "[] \<notin> set q2"
    proof -
      have "0 < length d" using d(2) by simp
      then have "len - (r + length d) < len - r" using True by linarith
      moreover have "r + length d \<le> len" "len - (r + length d) \<le> length (concat q)"
        using d(3,4) less.prems True by auto
      ultimately show ?thesis using less.hyps [of "r + length d" "s\<lparr>inq := q\<rparr>" "st @ d"] d(5) that by auto
    qed
    show ?thesis
      using True d q2 by (subst read_length_loop.simps) (auto simp: app_def Let_def)
  qed
qed

lemma read_with_length_app:
  assumes "strm_ok s" and "avail s = d @ rest"
  shows "\<exists>q. read_content_with_length (length d) None app st s = (True, st @ d, s\<lparr>inq := q\<rparr>) \<and> concat q = rest \<and> [] \<notin> set q"
  unfolding read_content_with_length_def using read_length_loop_app [of s 0 "length d" st] assms by simp

section \<open>Chunks: lemmas\<close>

lemma xdigits_foldl:
  "foldl (\<lambda>n c. 16 * n + xdigit_val c) a s = a * 16 ^ length s + nat_of_xdigits s"
proof (induction s arbitrary: a)
  case (Cons c s)
  have "nat_of_xdigits (c # s) = foldl (\<lambda>n c. 16 * n + xdigit_val c) (xdigit_val c) s"
    by (simp add: nat_of_xdigits_def)
  also have "\<dots> = xdigit_val c * 16 ^ length s + nat_of_xdigits s" by (rule Cons)
  finally show ?case using Cons [of "16 * a + xdigit_val c"] by (simp add: algebra_simps)
qed (simp add: nat_of_xdigits_def)

lemma nat_of_xdigits_Cons: "nat_of_xdigits (c # s) = xdigit_val c * 16 ^ length s + nat_of_xdigits s"
  using xdigits_foldl [of "xdigit_val c" s] by (simp add: nat_of_xdigits_def)

lemma hex_charset_val: "n < 16 \<Longrightarrow> xdigit_val (hex_charset ! n) = n \<and> c_isxdigit (hex_charset ! n)"
  by (drule less_16_cases) (auto simp: hex_charset_def cstr_simps)

lemma hex_prepend_val:
  "nat_of_xdigits (hex_prepend n ret) = n * 16 ^ length ret + nat_of_xdigits ret
   \<and> (list_all c_isxdigit ret \<longrightarrow> list_all c_isxdigit (hex_prepend n ret))"
proof (induction n ret rule: hex_prepend.induct)
  case (1 n ret)
  have d: "xdigit_val (hex_charset ! (n AND 15)) = n mod 16" "c_isxdigit (hex_charset ! (n AND 15))"
    using hex_charset_val [of "n mod 16"] and_mask_nat(4) [of n] by simp_all
  have n: "n div 16 * 16 + n mod 16 = n" by simp
  show ?case
  proof (cases "drop_bit 4 n > 0")
    case True
    have p: "hex_prepend n ret = hex_prepend (n div 16) (hex_charset ! (n AND 15) # ret)"
      using True by (subst hex_prepend.simps) (simp add: Let_def drop_bit_eq_div)
    have "n div 16 * 16 ^ Suc (length ret) + n mod 16 * 16 ^ length ret = n * 16 ^ length ret"
      using n by (metis add_mult_distrib mult.assoc power_Suc)
    then show ?thesis
      using "1.IH" [OF refl refl True] d unfolding p by (simp add: nat_of_xdigits_Cons drop_bit_eq_div)
  next
    case False
    then have "n mod 16 = n" by (simp add: drop_bit_eq_div)
    with False d show ?thesis by (subst (1 2) hex_prepend.simps) (simp add: Let_def nat_of_xdigits_Cons)
  qed
qed

lemma xdigit_facts: "c_isxdigit c \<Longrightarrow> \<not> c_isspace c \<and> c \<notin> set ''-+xX'' \<and> c \<noteq> CHR 0x00 \<and> c \<noteq> CHR 0x0A"
  by (auto simp: cstr_simps)

lemma from_i_to_hex_facts:
  "from_i_to_hex n \<noteq> []" "list_all c_isxdigit (from_i_to_hex n)" "nat_of_xdigits (from_i_to_hex n) = n"
  using hex_prepend_nonempty hex_prepend_val [of n "[]"] by (simp_all add: from_i_to_hex_def nat_of_xdigits_def)

lemma strtoul_hex:
  assumes "n < 2 ^ 64" shows "strtoul16 (c_str (from_i_to_hex n @ crlf)) = Some n"
proof -
  obtain c t where t: "from_i_to_hex n = c # t" by (metis from_i_to_hex_facts(1) neq_Nil_conv)
  have x: "\<And>d. d \<in> set (c # t) \<Longrightarrow> c_isxdigit d" using from_i_to_hex_facts(2) [of n] by (auto simp: t list_all_iff)
  have cs: "c_str ((c # t) @ crlf) = (c # t) @ crlf"
    using x xdigit_facts by (intro c_str_no_nul) (auto simp: crlf_def)
  have "t @ crlf = hd (t @ crlf) # tl (t @ crlf)" "hd (t @ crlf) \<notin> set ''xX''"
    using x xdigit_facts by (cases t, auto simp: crlf_def)+
  then have p: "\<not> starts_with (c # t @ crlf) ''0x''" "\<not> starts_with (c # t @ crlf) ''0X''"
    by (metis (full_types) list.set_intros starts_with.simps(3) set_simps(2) list.set_intros(1) insertCI)+
  have sp: "\<not> c_isspace c" and sg: "c \<noteq> CHR ''-''" "c \<noteq> CHR ''+''" using x [of c] xdigit_facts [of c] by auto
  have "takeWhile c_isxdigit ((c # t) @ crlf) = c # t"
    unfolding crlf_def using x by (intro takeWhile_append_stop) (auto simp: cstr_simps)
  then have tk: "takeWhile c_isxdigit (c # t @ crlf) = c # t" by (simp del: takeWhile.simps)
  have v: "nat_of_xdigits (c # t) = n" using from_i_to_hex_facts(3) [of n] by (simp add: t)
  have ss: "split_sign (c # t @ crlf) = (False, c # t @ crlf)" using sg by (simp add: split_sign_def)
  have dw: "dropWhile c_isspace (c # t @ crlf) = c # t @ crlf" using sp by simp
  show ?thesis
    unfolding t cs unfolding append_Cons unfolding strtoul16_def Let_def unfolding dw unfolding ss prod.case
    by (simp only: p simp_thms if_False tk v) (use assms in simp)
qed

lemma from_i_to_hex_line: "CHR 0x0A \<notin> set (from_i_to_hex n)"
  using from_i_to_hex_facts(2) [of n] xdigit_facts by (auto simp: list_all_iff)

lemma from_i_to_hex_0: "from_i_to_hex 0 = ''0''"
  by (simp add: from_i_to_hex_def hex_prepend.simps hex_charset_def)

lemma c_str_crlf: "c_str crlf = crlf"
  by (simp add: c_str_def crlf_def)

lemma chunk_loop_app:
  assumes "strm_ok s" and "lr_text lr @ avail s = concat (map chunk_text ds) @ ''0'' @ crlf @ rest"
    and "\<And>d. d \<in> set ds \<Longrightarrow> d \<noteq> [] \<and> length d < 2 ^ 64 - 1"
    and "lr_text lr = (case ds of [] \<Rightarrow> ''0'' @ crlf | d # _ \<Rightarrow> from_i_to_hex (length d) @ crlf)"
  shows "\<exists>lr' q. chunk_loop lr app st s = (True, lr', st @ concat ds, s\<lparr>inq := q\<rparr>) \<and> concat q = rest \<and> [] \<notin> set q"
  using assms
proof (induction ds arbitrary: lr st s)
  case Nil
  then have "strtoul16 (c_str (lr_text lr)) = Some 0" using strtoul_hex [of 0] by (simp add: from_i_to_hex_0)
  moreover have "avail s = rest" using Nil.prems(2,4) by simp
  ultimately show ?case
    using Nil.prems(1) by (subst chunk_loop.simps) (auto simp: avail_def strm_ok_def intro!: exI [of _ "inq s"])
next
  case (Cons d ds)
  have d: "d \<noteq> []" "length d < 2 ^ 64 - 1" using Cons.prems(3) by simp_all
  have n: "strtoul16 (c_str (lr_text lr)) = Some (length d)"
    using Cons.prems(4) d strtoul_hex [of "length d"] by simp
  let ?rest = "concat (map chunk_text ds) @ ''0'' @ crlf @ rest"
  have a: "avail s = d @ crlf @ ?rest" using Cons.prems(2,4) by (simp add: chunk_text_def [of d])
  obtain q1 where q1: "read_content_with_length (length d) None app st s = (True, st @ d, s\<lparr>inq := q1\<rparr>)"
      "concat q1 = crlf @ ?rest" "[] \<notin> set q1"
    using read_with_length_app [OF Cons.prems(1) a] by blast
  obtain lr1 q2 where g1: "getline lr (s\<lparr>inq := q1\<rparr>) = (True, lr1, s\<lparr>inq := q2\<rparr>)" "lr_text lr1 = crlf" "concat q2 = ?rest" "[] \<notin> set q2"
    using getline_line [of "s\<lparr>inq := q1\<rparr>" "[]" ?rest lr] q1 by auto
  define line where "line = (case ds of [] \<Rightarrow> ''0'' | d # _ \<Rightarrow> from_i_to_hex (length d))"
  obtain after where af: "?rest = line @ crlf @ after"
    by (cases ds) (auto simp: line_def chunk_text_def)
  have "CHR 0x0A \<notin> set line" by (auto simp: line_def from_i_to_hex_line split: list.split)
  then obtain lr2 q3 where g2: "getline lr1 (s\<lparr>inq := q2\<rparr>) = (True, lr2, s\<lparr>inq := q3\<rparr>)" "lr_text lr2 = line @ crlf"
      "concat q3 = after" "[] \<notin> set q3"
    using getline_line [of "s\<lparr>inq := q2\<rparr>" line after lr1] g1 af by auto
  obtain lr' q where ih: "chunk_loop lr2 app (st @ d) (s\<lparr>inq := q3\<rparr>) = (True, lr', (st @ d) @ concat ds, s\<lparr>inq := q\<rparr>)"
      "concat q = rest" "[] \<notin> set q"
    using Cons.IH [of "s\<lparr>inq := q3\<rparr>" lr2 "st @ d"] g2 af Cons.prems(3)
    by (auto simp: line_def split: list.splits)
  show ?case
    using n d q1 g1 g2 ih by (subst chunk_loop.simps) (auto simp: c_str_crlf)
qed

lemma read_chunked_app:
  assumes "strm_ok s" and "avail s = concat (map chunk_text ds) @ ''0'' @ crlf @ crlf @ rest"
    and "\<And>d. d \<in> set ds \<Longrightarrow> d \<noteq> [] \<and> length d < 2 ^ 64 - 1"
  shows "\<exists>q. read_content_chunked headers app st s = (True, headers, st @ concat ds, s\<lparr>inq := q\<rparr>) \<and> concat q = rest \<and> [] \<notin> set q"
proof -
  define line where "line = (case ds of [] \<Rightarrow> ''0'' | d # _ \<Rightarrow> from_i_to_hex (length d))"
  obtain after where af: "avail s = line @ crlf @ after"
    using assms(2) by (cases ds) (auto simp: line_def chunk_text_def)
  have "CHR 0x0A \<notin> set line" by (auto simp: line_def from_i_to_hex_line split: list.split)
  then obtain lr1 q1 where g1: "getline (new_line_reader 16) s = (True, lr1, s\<lparr>inq := q1\<rparr>)" "lr_text lr1 = line @ crlf"
      "concat q1 = after" "[] \<notin> set q1"
    using getline_line [OF assms(1) af] by blast
  obtain lr2 q2 where c: "chunk_loop lr1 app st (s\<lparr>inq := q1\<rparr>) = (True, lr2, st @ concat ds, s\<lparr>inq := q2\<rparr>)"
      "concat q2 = crlf @ rest" "[] \<notin> set q2"
    using chunk_loop_app [of "s\<lparr>inq := q1\<rparr>" lr1 ds "crlf @ rest" st] g1 af assms(2,3)
    by (auto simp: line_def split: list.splits)
  obtain lr3 q3 where g2: "getline lr2 (s\<lparr>inq := q2\<rparr>) = (True, lr3, s\<lparr>inq := q3\<rparr>)" "lr_text lr3 = crlf" "concat q3 = rest" "[] \<notin> set q3"
    using getline_line [of "s\<lparr>inq := q2\<rparr>" "[]" rest lr2] c by auto
  have "trailer_loop lr3 (s\<lparr>inq := q3\<rparr>) headers = (True, headers, s\<lparr>inq := q3\<rparr>)"
    using g2 by (subst trailer_loop.simps) (simp add: c_str_crlf)
  then show ?thesis using g1 c g2 by (simp add: read_content_chunked_def) blast
qed

section \<open>Header blocks: lemmas\<close>

lemma field_value_ends: "is_field_value v \<Longrightarrow> v \<noteq> [] \<Longrightarrow> is_field_vchar (hd v) \<and> is_field_vchar (last v)"
proof -
  assume v: "is_field_value v" "v \<noteq> []"
  have "0 < length v" using v(2) by simp
  then consider "length v = 1" | "length v = 2" | "2 < length v" by linarith
  then show ?thesis
  proof cases
    case 3
    with v obtain j where j: "field_middle v 1 = Some j" "is_field_vchar (v ! 0)" "is_field_vchar (v ! j)"
      by (auto simp: is_field_value_def is_field_content_def split: if_splits option.splits)
    then have "j = length v - 1" using field_middle_Some [of v 1 j] 3 by auto
    with j v show ?thesis by (simp add: hd_conv_nth last_conv_nth)
  qed (use v in \<open>auto simp: is_field_value_def is_field_content_def hd_conv_nth last_conv_nth split: if_splits\<close>)
qed

lemma vchar_not_blank: "is_field_vchar c \<Longrightarrow> \<not> is_space_or_tab c"
  by (auto simp: is_field_vchar_def is_vchar_def is_obs_text_def is_space_or_tab_def code_def)

lemma field_name_no_colon: "is_field_name k \<Longrightarrow> CHR '':'' \<notin> set k"
  by (auto simp: is_field_name_def is_token_def list_all_iff is_token_char_def c_isalnum_def cstr_simps)

lemma decode_no_percent: "CHR ''%'' \<notin> set v \<Longrightarrow> decode_url v False = v"
  by (induction v) auto

lemma parse_header_text:
  assumes "header_clean (k, v)"
  shows "parse_header (k @ '': '' @ v)
    = Some (k, if ci_equal k ''Location'' \<or> ci_equal k ''Referer'' then v else decode_url v False)"
proof -
  have k: "is_field_name k" and v: "is_field_value v" using assms(1) by (simp_all add: header_clean_def)
  let ?t = "rev (dropWhile is_space_or_tab (rev (k @ '': '' @ v)))"
  obtain r where r: "?t = k @ CHR '':'' # r" "dropWhile is_space_or_tab r = v"
  proof (cases "v = []")
    case True
    have "?t = k @ '':''" using True by (simp add: is_space_or_tab_def)
    then show ?thesis using that [of "[]"] True by simp
  next
    case False
    have n: "\<not> is_space_or_tab (last v)" "\<not> is_space_or_tab (hd v)"
      using field_value_ends [OF v False] vchar_not_blank by auto
    obtain w c where w: "v = w @ [c]" using False by (metis rev_exhaust)
    have "?t = k @ CHR '':'' # CHR '' '' # v" using n(1) by (simp add: w)
    moreover have "dropWhile is_space_or_tab (CHR '' '' # v) = v"
      using n(2) False by (cases v) (auto simp: is_space_or_tab_def)
    ultimately show ?thesis using that by blast
  qed
  have "takeWhile (\<lambda>c. c \<noteq> CHR '':'') ?t = k" "dropWhile (\<lambda>c. c \<noteq> CHR '':'') ?t = CHR '':'' # r"
    unfolding r(1) using field_name_no_colon [OF k] by (auto intro!: takeWhile_append_stop dropWhile_append_stop)
  then show ?thesis
    unfolding parse_header_def Let_def using k v r(2) by simp
qed

lemma parse_header_line:
  "header_clean (k, v) \<Longrightarrow> CHR ''%'' \<notin> set v \<Longrightarrow> parse_header (k @ '': '' @ v) = Some (k, v)"
  using parse_header_text [of k v] decode_no_percent [of v] by simp

text \<open>Lines that hold header fields are used up one by one.\<close>

lemma read_headers_loop_prefix:
  assumes "strm_ok s" and "avail s = concat (map header_line h) @ rest"
    and "\<And>kv. kv \<in> set h \<Longrightarrow> header_clean kv \<and> CHR ''%'' \<notin> set (snd kv) \<and> length (header_line kv) \<le> 8192"
  shows "\<exists>lr' q. read_headers_loop lr s acc = read_headers_loop lr' (s\<lparr>inq := q\<rparr>) (rev h @ acc) \<and> concat q = rest \<and> [] \<notin> set q"
  using assms
proof (induction h arbitrary: lr s acc)
  case Nil
  then show ?case by (intro exI [of _ lr] exI [of _ "inq s"]) (simp add: avail_def strm_ok_def)
next
  case (Cons kv h)
  obtain k v where kv: "kv = (k, v)" by (cases kv)
  have c: "header_clean (k, v)" "CHR ''%'' \<notin> set v" "length (header_line (k, v)) \<le> 8192"
    using Cons.prems(3) [of kv] by (simp_all add: kv)
  let ?line = "k @ '': '' @ v"
  have "CHR 0x0A \<notin> set ?line" using clean_no_line_end [OF c(1)] by auto
  then obtain lr' q where g: "getline lr s = (True, lr', s\<lparr>inq := q\<rparr>)" "lr_text lr' = ?line @ crlf"
      "concat q = concat (map header_line h) @ rest" "[] \<notin> set q"
    using getline_line [of s ?line "concat (map header_line h) @ rest" lr] Cons.prems(1,2)
    by (auto simp: kv header_line_def [of "(k, v)"])
  have e: "end_with_crlf lr'" by (simp add: end_with_crlf_def g(2) crlf_def nth_append)
  have l: "length (lr_text lr') \<noteq> 2" "length (lr_text lr') \<le> 8192" "take (length (lr_text lr') - 2) (lr_text lr') = ?line"
    using c(3) by (simp_all add: g(2) crlf_def header_line_def)
  obtain lr2 q2 where "read_headers_loop lr' (s\<lparr>inq := q\<rparr>) (headers_emplace k v acc)
      = read_headers_loop lr2 (s\<lparr>inq := q2\<rparr>) (rev h @ headers_emplace k v acc)" "concat q2 = rest" "[] \<notin> set q2"
    using Cons.IH [of "s\<lparr>inq := q\<rparr>" lr' "headers_emplace k v acc"] g Cons.prems(3) by auto
  moreover have "read_headers_loop lr s acc = read_headers_loop lr' (s\<lparr>inq := q\<rparr>) (headers_emplace k v acc)"
    using g(1) e l parse_header_line [OF c(1,2)] by (subst read_headers_loop.simps) simp
  ultimately show ?case by (auto simp: kv headers_emplace_def)
qed

lemma read_headers_loop_lines:
  assumes "strm_ok s" and "avail s = concat (map header_line h) @ crlf @ rest"
    and "\<And>kv. kv \<in> set h \<Longrightarrow> header_clean kv \<and> CHR ''%'' \<notin> set (snd kv) \<and> length (header_line kv) \<le> 8192"
  shows "\<exists>q. read_headers_loop lr s acc = (True, rev h @ acc, s\<lparr>inq := q\<rparr>) \<and> concat q = rest \<and> [] \<notin> set q"
proof -
  obtain lr1 q1 where 1: "read_headers_loop lr s acc = read_headers_loop lr1 (s\<lparr>inq := q1\<rparr>) (rev h @ acc)"
    "concat q1 = crlf @ rest" "[] \<notin> set q1"
    using read_headers_loop_prefix [OF assms] by blast
  then obtain lr2 q where g: "getline lr1 (s\<lparr>inq := q1\<rparr>) = (True, lr2, s\<lparr>inq := q\<rparr>)" "lr_text lr2 = crlf" "concat q = rest" "[] \<notin> set q"
    using getline_line [of "s\<lparr>inq := q1\<rparr>" "[]" rest lr1] by auto
  then show ?thesis by (subst 1(1), subst read_headers_loop.simps) (auto simp: end_with_crlf_def crlf_def)
qed

text \<open>A line that is not a header field ends the reading with a failure.\<close>

lemma read_headers_loop_bad:
  assumes "strm_ok s" and "avail s = concat (map header_line h) @ x @ crlf @ rest"
    and "\<And>kv. kv \<in> set h \<Longrightarrow> header_clean kv \<and> CHR ''%'' \<notin> set (snd kv) \<and> length (header_line kv) \<le> 8192"
    and "x \<noteq> []" and "CHR 0x0A \<notin> set x" and "parse_header x = None"
  shows "\<exists>q. read_headers_loop lr s acc = (False, rev h @ acc, s\<lparr>inq := q\<rparr>) \<and> concat q = rest \<and> [] \<notin> set q"
proof -
  obtain lr1 q1 where 1: "read_headers_loop lr s acc = read_headers_loop lr1 (s\<lparr>inq := q1\<rparr>) (rev h @ acc)"
    "concat q1 = x @ crlf @ rest" "[] \<notin> set q1"
    using read_headers_loop_prefix [OF assms(1-3)] by blast
  then obtain lr2 q where g: "getline lr1 (s\<lparr>inq := q1\<rparr>) = (True, lr2, s\<lparr>inq := q\<rparr>)" "lr_text lr2 = x @ crlf" "concat q = rest" "[] \<notin> set q"
    using getline_line [of "s\<lparr>inq := q1\<rparr>" x rest lr1] assms(5) by auto
  have "end_with_crlf lr2" "length (lr_text lr2) \<noteq> 2" "take (length (lr_text lr2) - 2) (lr_text lr2) = x"
    using assms(4) by (simp_all add: end_with_crlf_def g(2) crlf_def nth_append)
  then show ?thesis
    using g assms(6) by (subst 1(1), subst read_headers_loop.simps) auto
qed

lemma write_header_lines_buffer:
  "wr_plan s = [] \<Longrightarrow> write_header_lines h n s =
     (n + int (length (concat (map header_line h) @ crlf)), s\<lparr>outbuf := outbuf s @ concat (map header_line h) @ crlf\<rparr>)"
  by (induction h arbitrary: n s) (auto simp: strm_write_def)

section \<open>Writing: lemmas\<close>

definition plan_ok :: "int list \<Rightarrow> bool" where
  "plan_ok p \<longleftrightarrow> list_all (\<lambda>n. 0 \<le> n) p"

lemma write_data_ok:
  "plan_ok (wr_plan s) \<Longrightarrow>
     \<exists>p. write_data d s = (True, s\<lparr>outbuf := outbuf s @ d, wr_plan := p\<rparr>) \<and> plan_ok p"
proof (induction d s rule: write_data.induct)
  case (1 d s)
  show ?case
  proof (cases "d = []")
    case True
    then show ?thesis using 1(2) by (auto simp: write_data.simps intro!: exI [of _ "wr_plan s"])
  next
    case False
    obtain len t where w: "strm_write d s = (len, t)" by fastforce
    then obtain p where p: "0 \<le> len" "t = s\<lparr>outbuf := outbuf s @ take (nat len) d, wr_plan := p\<rparr>" "plan_ok p"
    proof (cases "wr_plan s")
      case Nil
      then have "t = s\<lparr>outbuf := outbuf s @ take (nat len) d, wr_plan := []\<rparr>" and "0 \<le> len"
        using w by (auto simp: strm_write_def)
      then show ?thesis using that [of "[]"] by (simp add: plan_ok_def)
    next
      case (Cons n ns)
      then have n: "0 \<le> n" "plan_ok ns" using 1(2) by (auto simp: plan_ok_def)
      then have "len = int (min (nat n) (length d))" "t = s\<lparr>outbuf := outbuf s @ take (nat n) d, wr_plan := ns\<rparr>"
        using w Cons by (auto simp: strm_write_def)
      then show ?thesis using that [of ns] n by (simp add: min_def)
    qed
    then obtain p2 where "write_data (drop (nat len) d) t = (True, t\<lparr>outbuf := outbuf t @ drop (nat len) d, wr_plan := p2\<rparr>)" "plan_ok p2"
      using "1.IH" [OF False w [symmetric]] by auto
    then show ?thesis
      using False w p by (subst write_data.simps) auto
  qed
qed

lemma done_ok:
  assumes "plan_ok (wr_plan s)"
  shows "\<exists>p. done_with_trailer [] s = (True, s\<lparr>outbuf := outbuf s @ ''0'' @ crlf @ crlf, wr_plan := p\<rparr>) \<and> plan_ok p"
proof -
  obtain p1 where p1: "write_data (''0'' @ crlf) s = (True, s\<lparr>outbuf := outbuf s @ ''0'' @ crlf, wr_plan := p1\<rparr>)" "plan_ok p1"
    using write_data_ok [OF assms] by blast
  obtain p2 where "write_data crlf (s\<lparr>outbuf := outbuf s @ ''0'' @ crlf, wr_plan := p1\<rparr>)
      = (True, s\<lparr>outbuf := outbuf s @ ''0'' @ crlf @ crlf, wr_plan := p2\<rparr>)" "plan_ok p2"
    using write_data_ok [of "s\<lparr>outbuf := outbuf s @ ''0'' @ crlf, wr_plan := p1\<rparr>" crlf] p1(2) by auto
  then show ?thesis using p1 by (auto simp: done_with_trailer_def)
qed

text \<open>A provider that hands over the given pieces, one in each round, and then says that it is done.\<close>

definition provides :: "ContentProvider \<Rightarrow> string list \<Rightarrow> bool" where
  "provides p ds \<longleftrightarrow>
     (\<forall>i < length ds. p (length (concat (take i ds))) 0 = ([SinkWrite (ds ! i)], True))
     \<and> p (length (concat ds)) 0 = ([SinkDone], True) \<and> list_all (\<lambda>d. d \<noteq> []) ds"

lemma write_chunked_loop_pieces:
  assumes "provides p ds" and "k \<le> length ds" and "plan_ok (wr_plan s)" and "\<And>i. \<not> down i" and "\<And>i. ready i"
  shows "\<exists>pl. write_chunked_loop p down ready r (length (concat (take k ds))) True s
      = Some (True, Error_Success, s\<lparr>outbuf := outbuf s @ concat (map chunk_text (drop k ds)) @ ''0'' @ crlf @ crlf, wr_plan := pl\<rparr>)
    \<and> plan_ok pl"
  using assms(2,3)
proof (induction "length ds - k" arbitrary: k r s)
  case 0
  then have k: "k = length ds" by simp
  obtain pl where d: "done_with_trailer [] s = (True, s\<lparr>outbuf := outbuf s @ ''0'' @ crlf @ crlf, wr_plan := pl\<rparr>)" "plan_ok pl"
    using done_ok [OF 0(3)] by blast
  have "p (length (concat ds)) 0 = ([SinkDone], True)" using assms(1) by (simp add: provides_def)
  with d show ?case
    unfolding k by (subst write_chunked_loop.simps) (simp add: assms(4,5), subst write_chunked_loop.simps, auto)
next
  case (Suc n)
  then have k: "k < length ds" by simp
  let ?d = "ds ! k"
  have p: "p (length (concat (take k ds))) 0 = ([SinkWrite ?d], True)" and ne: "?d \<noteq> []"
    using assms(1) k by (auto simp: provides_def list_all_length)
  obtain p1 where w: "write_data (chunk_text ?d) s = (True, s\<lparr>outbuf := outbuf s @ chunk_text ?d, wr_plan := p1\<rparr>)" "plan_ok p1"
    using write_data_ok [OF Suc.prems(2)] by blast
  have t: "concat (take (Suc k) ds) = concat (take k ds) @ ?d" "drop k ds = ?d # drop (Suc k) ds"
    using k by (simp_all add: take_Suc_conv_app_nth Cons_nth_drop_Suc)
  have n: "n = length ds - Suc k" using Suc.hyps(2) by simp
  obtain p2 where "write_chunked_loop p down ready (Suc r) (length (concat (take (Suc k) ds))) True
        (s\<lparr>outbuf := outbuf s @ chunk_text ?d, wr_plan := p1\<rparr>)
      = Some (True, Error_Success, s\<lparr>outbuf := (outbuf s @ chunk_text ?d) @ concat (map chunk_text (drop (Suc k) ds))
          @ ''0'' @ crlf @ crlf, wr_plan := p2\<rparr>)" "plan_ok p2"
    using Suc.hyps(1) [OF n, of "s\<lparr>outbuf := outbuf s @ chunk_text ?d, wr_plan := p1\<rparr>" "Suc r"] k w(2)
    by auto
  then show ?case
    using p ne w t by (subst write_chunked_loop.simps) (auto simp: assms(4,5) intro!: exI [of _ p2])
qed

lemma write_chunked_pieces:
  assumes "provides p ds" and "plan_ok (wr_plan w)" and "\<And>i. \<not> down i" and "\<And>i. ready i" and "outbuf w = []"
  shows "\<exists>pl. write_content_chunked p down ready w
      = Some (True, Error_Success, w\<lparr>outbuf := concat (map chunk_text ds) @ ''0'' @ crlf @ crlf, wr_plan := pl\<rparr>)"
  unfolding write_content_chunked_def
  using write_chunked_loop_pieces [of p ds 0 w down ready 0] assms by auto

section \<open>Properties\<close>

text \<open>C35: Chunked transfer is loss-free: when a provider hands over any non-empty pieces, no write of the connection fails and the server is
  not shut down meanwhile, the writer ends (whatever part of the data each write takes), and the reader, whatever segments the bytes arrive in, passes on exactly their
  concatenation and stops right after the last chunk.\<close>

theorem chunked_transfer_roundtrip:
  assumes "provides p ds" and "plan_ok (wr_plan w)" and "\<And>i. \<not> down i" and "\<And>i. ready i" and "outbuf w = []"
    and "\<And>d. d \<in> set ds \<Longrightarrow> length d < 2 ^ 64 - 1"
  shows "\<exists>w'. write_content_chunked p down ready w = Some (True, Error_Success, w')
    \<and> (\<forall>s rest. strm_ok s \<longrightarrow> avail s = outbuf w' @ rest \<longrightarrow>
         (\<exists>s'. read_content_chunked headers app [] s = (True, headers, concat ds, s') \<and> avail s' = rest))"
proof -
  have ds: "d \<noteq> [] \<and> length d < 2 ^ 64 - 1" if "d \<in> set ds" for d
    using assms(1,6) that by (auto simp: provides_def list_all_iff)
  obtain pl where w: "write_content_chunked p down ready w
      = Some (True, Error_Success, w\<lparr>outbuf := concat (map chunk_text ds) @ ''0'' @ crlf @ crlf, wr_plan := pl\<rparr>)"
    using write_chunked_pieces [OF assms(1,2), of down ready] assms(3-5) by auto
  have "\<exists>s'. read_content_chunked headers app [] s = (True, headers, concat ds, s') \<and> avail s' = rest"
    if "strm_ok s" and "avail s = (concat (map chunk_text ds) @ ''0'' @ crlf @ crlf) @ rest" for s rest
    using read_chunked_app [OF that(1), of ds rest headers "[]"] that(2) ds by auto
  then show ?thesis using w by auto
qed

theorem chunked_transfer_roundtrip_witness:
  "\<exists>s'. read_content_chunked [] app [] \<lparr>inq = [''2'', crlf @ ''a'', ''b'' @ crlf @ ''0'', crlf @ crlf @ ''GET''],
       in_closed = True, outbuf = [], wr_plan = []\<rparr> = (True, [], ''ab'', s') \<and> avail s' = ''GET''"
proof -
  let ?p = "\<lambda>off _. if off = (0 :: nat) then ([SinkWrite ''ab''], True) else ([SinkDone], True)"
  let ?w = "\<lparr>inq = [], in_closed = True, outbuf = [], wr_plan = [1, 0, 3]\<rparr>"
  let ?s = "\<lparr>inq = [''2'', crlf @ ''a'', ''b'' @ crlf @ ''0'', crlf @ crlf @ ''GET''], in_closed = True, outbuf = [], wr_plan = []\<rparr>"
  have p: "provides ?p [''ab'']" and pl: "plan_ok (wr_plan ?w)" by (simp_all add: provides_def plan_ok_def)
  obtain w' where w: "write_content_chunked ?p (\<lambda>_. False) (\<lambda>_. True) ?w = Some (True, Error_Success, w')"
    and r: "\<forall>s rest. strm_ok s \<longrightarrow> avail s = outbuf w' @ rest \<longrightarrow>
         (\<exists>s'. read_content_chunked [] app [] s = (True, [], concat [''ab''], s') \<and> avail s' = rest)"
    using chunked_transfer_roundtrip [OF p pl, of "\<lambda>_. False" "\<lambda>_. True" "[]"] by auto
  have "outbuf w' = chunk_text ''ab'' @ ''0'' @ crlf @ crlf"
    using write_chunked_pieces [OF p pl, of "\<lambda>_. False" "\<lambda>_. True"] w by auto
  moreover have "from_i_to_hex 2 = ''2''" by (simp add: from_i_to_hex_def hex_prepend.simps hex_charset_def)
  then have "from_i_to_hex (Suc (Suc 0)) = ''2''" by (simp only: numeral_2_eq_2)
  ultimately have "avail ?s = outbuf w' @ ''GET''" by (simp add: avail_def chunk_text_def)
  moreover have "strm_ok ?s" by (simp add: strm_ok_def crlf_def)
  ultimately show ?thesis using r by auto
qed

text \<open>A header block that the server writes is read back entry by entry, whatever segments it arrives in, and nothing after the
  empty line is touched; names and values must be legal, hold no percent sign and fit the limit of a line.\<close>

theorem header_block_roundtrip:
  assumes "headers_clean h" and "\<forall>kv \<in> set h. CHR ''%'' \<notin> set (snd kv) \<and> length (header_line kv) \<le> 8192"
    and "strm_ok s" and "avail s = outbuf (snd (write_headers h new_BufferStream)) @ rest"
  shows "\<exists>s'. read_headers s [] = (True, rev h, s') \<and> avail s' = rest"
proof -
  have "avail s = concat (map header_line h) @ crlf @ rest"
    using assms(4) by (simp add: write_headers_def write_header_lines_buffer new_BufferStream_def)
  moreover have "header_clean kv \<and> CHR ''%'' \<notin> set (snd kv) \<and> length (header_line kv) \<le> 8192" if "kv \<in> set h" for kv
    using assms(1,2) that by (auto simp: headers_clean_def list_all_iff)
  ultimately show ?thesis
    using read_headers_loop_lines [OF assms(3), of h rest "new_line_reader 2048" "[]"] unfolding read_headers_def by auto
qed

theorem header_block_roundtrip_witness:
  "\<exists>s'. read_headers \<lparr>inq = [''A: '', ''b'' @ crlf @ crlf @ ''x''], in_closed = False, outbuf = [], wr_plan = []\<rparr> []
     = (True, rev [(''A'', ''b'')], s') \<and> avail s' = ''x''"
proof (rule header_block_roundtrip)
  show "headers_clean [(''A'', ''b'')]" by code_simp
qed (simp_all add: header_line_def crlf_def strm_ok_def avail_def write_headers_def strm_write_def new_BufferStream_def)

text \<open>When no write of the connection fails, \<open>write_data\<close> reports success and the connection has taken
  all of the data in order, however little each write takes.\<close>

theorem write_data_complete:
  "plan_ok (wr_plan s) \<longrightarrow> fst (write_data d s) \<and> outbuf (snd (write_data d s)) = outbuf s @ d"
  using write_data_ok [of s d] by auto

theorem write_data_complete_witness:
  "fst (write_data ''abc'' \<lparr>inq = [], in_closed = True, outbuf = [], wr_plan = [0, 2]\<rparr>)"
  using write_data_complete [of "\<lparr>inq = [], in_closed = True, outbuf = [], wr_plan = [0, 2]\<rparr>" "''abc''"]
  by (simp add: plan_ok_def)

end
