(* ===== verification/Httplib_Router.thy ===== *)
theory Httplib_Router
  imports Httplib_Ranges Httplib_Stream
begin

text \<open>
  The routing table of the HTTP library's server (BackendServers/httplib.h): the two matchers of paths, the
  class \<open>Server\<close> with the functions that fill it, and the dispatch of a request to the first handler whose
  matcher accepts its path.

  A handler is a function of the request and the response; it may throw after it changed the response. A handler
  with a content reader also gets the connection, which it reads by the content reader; the receivers that it hands to the
  reader decide by all that they have been given. The
  expression engine \<open>std::regex\<close>, which gets its expressions from the application, is the parameter \<open>regex_engine\<close>.

  Shown: a matcher looks only at the path and changes only what it captures (the locale \<open>path_matcher\<close>), so the first
  matching handler answers; which paths a pattern with parameters accepts and what it captures.
\<close>

section \<open>Exceptions and handlers\<close>

datatype thrown = StdException std_exn | UnknownException

fun what :: "std_exn \<Rightarrow> string" where
  "what (invalid_argument s) = s"
| "what (out_of_range s) = s"
| "what (runtime_error s) = s"

datatype HandlerResponse = Handled | Unhandled

type_synonym Handler = "Request \<Rightarrow> Response \<Rightarrow> thrown option \<times> Response"
type_synonym HandlerWithResponse = "Request \<Rightarrow> Response \<Rightarrow> (thrown + HandlerResponse) \<times> Response"
type_synonym ExceptionHandler = "Request \<Rightarrow> Response \<Rightarrow> thrown \<Rightarrow> thrown option \<times> Response"
type_synonym Expect100ContinueHandler = "Request \<Rightarrow> Response \<Rightarrow> (thrown + int) \<times> Response"

text \<open>What a receiver gets: a piece of the body, the header of a part, a piece of a part. A receiver says after each
  whether to go on, from the list of all it got. A reader returns the result of the reading with that list.\<close>

datatype content_event = BodyBytes string | PartHeader MultipartFormData | PartBytes string

type_synonym reader_call = "(content_event list \<Rightarrow> bool) \<Rightarrow> Request \<Rightarrow> Response \<Rightarrow> strm
  \<Rightarrow> (thrown + bool) \<times> content_event list \<times> Request \<times> Response \<times> strm"

record ContentReader =
  reader :: reader_call
  multipart_reader :: reader_call

type_synonym HandlerWithContentReader =
  "Request \<Rightarrow> Response \<Rightarrow> ContentReader \<Rightarrow> strm \<Rightarrow> thrown option \<times> Request \<times> Response \<times> strm"

section \<open>Matchers\<close>

text \<open>Does the engine accept the expression, and the groups of a match of the whole text (group 0 first).\<close>

record regex_engine =
  re_valid :: "string \<Rightarrow> bool"
  re_match :: "string \<Rightarrow> string \<Rightarrow> string list option"

record PathParamsMatcher =
  static_fragments :: "string list"
  param_names :: "string list"

text \<open>\<open>s.find(t, pos)\<close> for a text \<open>t\<close> that is not empty.\<close>

definition find_from :: "string \<Rightarrow> string \<Rightarrow> nat \<Rightarrow> nat option" where
  "find_from t s pos = map_option (\<lambda>i. pos + i) (find_str t (drop pos s))"

lemma find_from_bound: "find_from t s pos = Some m \<Longrightarrow> t \<noteq> [] \<Longrightarrow> pos \<le> m \<and> m + length t \<le> length s"
  using find_str_bound [of t "drop pos s"] by (cases "pos \<le> length s") (auto simp: find_from_def)

text \<open>The end of the parameter (or of the text) that starts at \<open>pos\<close>.\<close>

definition find_sep :: "string \<Rightarrow> nat \<Rightarrow> nat" where
  "find_sep s pos = (case find_from ''/'' s pos of Some p \<Rightarrow> p | None \<Rightarrow> length s)"

text \<open>The loop of the constructor: it keeps \<open>last_param_end\<close>, the fragments and the names. The set of names that it
  searches for duplicates is never filled, so it throws nothing.\<close>

function path_params_loop :: "string \<Rightarrow> nat \<Rightarrow> string list \<Rightarrow> string list \<Rightarrow> nat \<times> string list \<times> string list" where
  "path_params_loop pattern last_param_end frags names =
     (case find_from ''/:'' pattern (if last_param_end = 0 then last_param_end else last_param_end - 1) of
        None \<Rightarrow> (last_param_end, frags, names)
      | Some marker_pos \<Rightarrow>
          let frag = take (marker_pos + 1 - last_param_end) (drop last_param_end pattern);
              param_name_start = marker_pos + 2;
              sep_pos = find_sep pattern param_name_start;
              param_name = take (sep_pos - param_name_start) (drop param_name_start pattern)
          in path_params_loop pattern (sep_pos + 1) (frags @ [frag]) (names @ [param_name]))"
  by auto

lemma find_sep_ge: "pos \<le> length s \<Longrightarrow> pos \<le> find_sep s pos \<and> find_sep s pos \<le> length s"
  using find_from_bound [of "''/''" s pos] by (auto simp: find_sep_def split: option.splits)

termination path_params_loop
proof (relation "measure (\<lambda>(pattern, last_param_end, frags, names). length pattern + 2 - last_param_end)", simp, goal_cases)
  case (1 pattern lst frags names m frag start sep name)
  then have m: "(if lst = 0 then lst else lst - 1) \<le> m" "m + 2 \<le> length pattern"
    using find_from_bound [of "''/:''" pattern _ m] by auto
  then have "m + 2 \<le> sep" "sep \<le> length pattern" using find_sep_ge [of "m + 2" pattern] 1 by auto
  with m show ?case by (auto split: if_splits)
qed

declare path_params_loop.simps [simp del]

definition new_PathParamsMatcher :: "string \<Rightarrow> PathParamsMatcher" where
  "new_PathParamsMatcher pattern =
     (case path_params_loop pattern 0 [] [] of
        (last_param_end, frags, names) \<Rightarrow>
          \<lparr>static_fragments = (if last_param_end < length pattern then frags @ [drop last_param_end pattern] else frags),
           param_names = names\<rparr>)"

text \<open>\<open>strncmp(a, b, n) == 0\<close> on \<open>n\<close> bytes of each.\<close>

definition strncmp_eq :: "string \<Rightarrow> string \<Rightarrow> bool" where
  "strncmp_eq a b \<longleftrightarrow> c_str a = c_str b"

text \<open>\<open>unordered_map::emplace\<close> keeps the entry of a key that is present.\<close>

definition umap_emplace :: "'k \<Rightarrow> 'v \<Rightarrow> ('k, 'v) umap \<Rightarrow> ('k, 'v) umap" where
  "umap_emplace k v m = (if umap_find m k = None then umap_put k v m else m)"

text \<open>The loop over the fragments, with the position after the last match, or \<open>None\<close> where a fragment does not match.\<close>

fun match_fragments ::
    "string \<Rightarrow> string list \<Rightarrow> string list \<Rightarrow> nat \<Rightarrow> (string, string) umap \<Rightarrow> nat option \<times> (string, string) umap" where
  "match_fragments path [] names starting_pos pp = (Some starting_pos, pp)"
| "match_fragments path (fragment # frags) names starting_pos pp =
     (if starting_pos + length fragment > length path then (None, pp)
      else if \<not> strncmp_eq (take (length fragment) (drop starting_pos path)) fragment then (None, pp)
      else
        let starting_pos = starting_pos + length fragment
        in case names of
             [] \<Rightarrow> match_fragments path frags [] starting_pos pp
           | param_name # names \<Rightarrow>
               let sep_pos = find_sep path starting_pos
               in match_fragments path frags names (sep_pos + 1)
                    (umap_emplace param_name (take (sep_pos - starting_pos) (drop starting_pos path)) pp))"

definition match_path_params :: "PathParamsMatcher \<Rightarrow> Request \<Rightarrow> bool \<times> Request" where
  "match_path_params m rq =
     (case match_fragments (rq_path rq) (static_fragments m) (param_names m) 0 [] of
        (r, pp) \<Rightarrow>
          ((case r of Some starting_pos \<Rightarrow> starting_pos \<ge> length (rq_path rq) | None \<Rightarrow> False),
           rq\<lparr>rq_matches := [], rq_path_params := pp\<rparr>))"

definition match_regex :: "regex_engine \<Rightarrow> string \<Rightarrow> Request \<Rightarrow> bool \<times> Request" where
  "match_regex re pattern rq =
     (case re_match re pattern (rq_path rq) of
        Some ms \<Rightarrow> (True, rq\<lparr>rq_matches := ms, rq_path_params := []\<rparr>)
      | None \<Rightarrow> (False, rq\<lparr>rq_matches := [], rq_path_params := []\<rparr>))"

datatype matcher = PathParams PathParamsMatcher | Regex string

definition matches :: "regex_engine \<Rightarrow> matcher \<Rightarrow> Request \<Rightarrow> bool \<times> Request" where
  "matches re m rq = (case m of PathParams p \<Rightarrow> match_path_params p rq | Regex r \<Rightarrow> match_regex re r rq)"

text \<open>The constructor of \<open>std::regex\<close> throws on an expression that it does not accept.\<close>

definition make_matcher :: "regex_engine \<Rightarrow> string \<Rightarrow> matcher exc" where
  "make_matcher re pattern =
     (if find_str ''/:'' pattern \<noteq> None then Inr (PathParams (new_PathParamsMatcher pattern))
      else if re_valid re pattern then Inr (Regex pattern)
      else Inl (runtime_error ''regex_error''))"

section \<open>The server\<close>

record MountPointEntry =
  mount_point :: string
  base_dir :: string
  mount_headers :: Headers

type_synonym Handlers = "(matcher \<times> Handler) list"
type_synonym HandlersForContentReader = "(matcher \<times> HandlerWithContentReader) list"

record Server =
  svr_sock :: bool
  keep_alive_max_count :: nat
  keep_alive_timeout_sec :: int
  read_timeout :: "int \<times> int"
  write_timeout :: "int \<times> int"
  idle_interval :: "int \<times> int"
  payload_max_length :: nat
  is_running :: bool
  is_decommissioned :: bool
  base_dirs :: "MountPointEntry list"
  file_extension_and_mimetype_map :: "(string, string) smap"
  default_file_mimetype :: string
  file_request_handler :: "Handler option"
  get_handlers :: Handlers
  post_handlers :: Handlers
  post_handlers_for_content_reader :: HandlersForContentReader
  put_handlers :: Handlers
  put_handlers_for_content_reader :: HandlersForContentReader
  patch_handlers :: Handlers
  patch_handlers_for_content_reader :: HandlersForContentReader
  delete_handlers :: Handlers
  delete_handlers_for_content_reader :: HandlersForContentReader
  options_handlers :: Handlers
  error_handler :: "HandlerWithResponse option"
  exception_handler :: "ExceptionHandler option"
  pre_routing_handler :: "HandlerWithResponse option"
  post_routing_handler :: "Handler option"
  expect_100_continue_handler :: "Expect100ContinueHandler option"
  address_family :: int
  tcp_nodelay :: bool
  ipv6_v6only :: bool
  default_headers :: Headers
  header_writer :: "strm \<Rightarrow> Headers \<Rightarrow> int \<times> Headers \<times> strm"

text \<open>\<open>svr_sock\<close> says whether the listening socket is open; \<open>AF_UNSPEC\<close> is 0. The header writer gets the headers by
  reference.\<close>

definition new_Server :: Server where
  "new_Server =
     \<lparr>svr_sock = False, keep_alive_max_count = 100, keep_alive_timeout_sec = 5, read_timeout = (5, 0),
      write_timeout = (5, 0), idle_interval = (0, 0), payload_max_length = 2 ^ 64 - 1, is_running = False,
      is_decommissioned = False, base_dirs = [], file_extension_and_mimetype_map = [],
      default_file_mimetype = ''application/octet-stream'', file_request_handler = None, get_handlers = [],
      post_handlers = [], post_handlers_for_content_reader = [], put_handlers = [],
      put_handlers_for_content_reader = [], patch_handlers = [], patch_handlers_for_content_reader = [],
      delete_handlers = [], delete_handlers_for_content_reader = [], options_handlers = [], error_handler = None,
      exception_handler = None, pre_routing_handler = None, post_routing_handler = None,
      expect_100_continue_handler = None, address_family = 0, tcp_nodelay = False, ipv6_v6only = False,
      default_headers = [],
      header_writer = (\<lambda>s h. case write_headers h s of (n, s) \<Rightarrow> (n, h, s))\<rparr>"

definition add_handler :: "regex_engine \<Rightarrow> string \<Rightarrow> 'h \<Rightarrow> (matcher \<times> 'h) list \<Rightarrow> (matcher \<times> 'h) list exc" where
  "add_handler re pattern handler hs = map_sum id (\<lambda>m. hs @ [(m, handler)]) (make_matcher re pattern)"

definition Get :: "regex_engine \<Rightarrow> string \<Rightarrow> Handler \<Rightarrow> Server \<Rightarrow> Server exc" where
  "Get re pattern handler s = map_sum id (\<lambda>hs. s\<lparr>get_handlers := hs\<rparr>) (add_handler re pattern handler (get_handlers s))"

definition Post :: "regex_engine \<Rightarrow> string \<Rightarrow> Handler \<Rightarrow> Server \<Rightarrow> Server exc" where
  "Post re pattern handler s = map_sum id (\<lambda>hs. s\<lparr>post_handlers := hs\<rparr>) (add_handler re pattern handler (post_handlers s))"

definition Post_with_reader :: "regex_engine \<Rightarrow> string \<Rightarrow> HandlerWithContentReader \<Rightarrow> Server \<Rightarrow> Server exc" where
  "Post_with_reader re pattern handler s = map_sum id (\<lambda>hs. s\<lparr>post_handlers_for_content_reader := hs\<rparr>)
     (add_handler re pattern handler (post_handlers_for_content_reader s))"

definition Put :: "regex_engine \<Rightarrow> string \<Rightarrow> Handler \<Rightarrow> Server \<Rightarrow> Server exc" where
  "Put re pattern handler s = map_sum id (\<lambda>hs. s\<lparr>put_handlers := hs\<rparr>) (add_handler re pattern handler (put_handlers s))"

definition Put_with_reader :: "regex_engine \<Rightarrow> string \<Rightarrow> HandlerWithContentReader \<Rightarrow> Server \<Rightarrow> Server exc" where
  "Put_with_reader re pattern handler s = map_sum id (\<lambda>hs. s\<lparr>put_handlers_for_content_reader := hs\<rparr>)
     (add_handler re pattern handler (put_handlers_for_content_reader s))"

definition Patch :: "regex_engine \<Rightarrow> string \<Rightarrow> Handler \<Rightarrow> Server \<Rightarrow> Server exc" where
  "Patch re pattern handler s = map_sum id (\<lambda>hs. s\<lparr>patch_handlers := hs\<rparr>) (add_handler re pattern handler (patch_handlers s))"

definition Patch_with_reader :: "regex_engine \<Rightarrow> string \<Rightarrow> HandlerWithContentReader \<Rightarrow> Server \<Rightarrow> Server exc" where
  "Patch_with_reader re pattern handler s = map_sum id (\<lambda>hs. s\<lparr>patch_handlers_for_content_reader := hs\<rparr>)
     (add_handler re pattern handler (patch_handlers_for_content_reader s))"

definition Delete :: "regex_engine \<Rightarrow> string \<Rightarrow> Handler \<Rightarrow> Server \<Rightarrow> Server exc" where
  "Delete re pattern handler s = map_sum id (\<lambda>hs. s\<lparr>delete_handlers := hs\<rparr>) (add_handler re pattern handler (delete_handlers s))"

definition Delete_with_reader :: "regex_engine \<Rightarrow> string \<Rightarrow> HandlerWithContentReader \<Rightarrow> Server \<Rightarrow> Server exc" where
  "Delete_with_reader re pattern handler s = map_sum id (\<lambda>hs. s\<lparr>delete_handlers_for_content_reader := hs\<rparr>)
     (add_handler re pattern handler (delete_handlers_for_content_reader s))"

definition Options :: "regex_engine \<Rightarrow> string \<Rightarrow> Handler \<Rightarrow> Server \<Rightarrow> Server exc" where
  "Options re pattern handler s = map_sum id (\<lambda>hs. s\<lparr>options_handlers := hs\<rparr>) (add_handler re pattern handler (options_handlers s))"

text \<open>\<open>is_dir\<close> answers for the file system.\<close>

definition set_mount_point :: "(string \<Rightarrow> bool) \<Rightarrow> string \<Rightarrow> string \<Rightarrow> Headers \<Rightarrow> Server \<Rightarrow> bool \<times> Server" where
  "set_mount_point is_dir mnt_point dir headers s =
     (if is_dir dir then
        let mnt = (if mnt_point \<noteq> [] then mnt_point else ''/'')
        in if mnt \<noteq> [] \<and> mnt ! 0 = CHR ''/'' then
             (True, s\<lparr>base_dirs := base_dirs s @ [\<lparr>mount_point = mnt, base_dir = dir, mount_headers = headers\<rparr>]\<rparr>)
           else (False, s)
      else (False, s))"

definition set_base_dir :: "(string \<Rightarrow> bool) \<Rightarrow> string \<Rightarrow> string \<Rightarrow> Server \<Rightarrow> bool \<times> Server" where
  "set_base_dir is_dir dir mnt_point s = set_mount_point is_dir mnt_point dir [] s"

fun remove_mount :: "string \<Rightarrow> MountPointEntry list \<Rightarrow> bool \<times> MountPointEntry list" where
  "remove_mount mnt [] = (False, [])"
| "remove_mount mnt (e # es) =
     (if mount_point e = mnt then (True, es) else map_prod id ((#) e) (remove_mount mnt es))"

definition remove_mount_point :: "string \<Rightarrow> Server \<Rightarrow> bool \<times> Server" where
  "remove_mount_point mnt s = (case remove_mount mnt (base_dirs s) of (b, ds) \<Rightarrow> (b, s\<lparr>base_dirs := ds\<rparr>))"

definition set_file_extension_and_mimetype_mapping :: "string \<Rightarrow> string \<Rightarrow> Server \<Rightarrow> Server" where
  "set_file_extension_and_mimetype_mapping ext mime s =
     s\<lparr>file_extension_and_mimetype_map := smap_put ext mime (file_extension_and_mimetype_map s)\<rparr>"

definition set_default_file_mimetype :: "string \<Rightarrow> Server \<Rightarrow> Server" where
  "set_default_file_mimetype mime s = s\<lparr>default_file_mimetype := mime\<rparr>"

definition set_file_request_handler :: "Handler \<Rightarrow> Server \<Rightarrow> Server" where
  "set_file_request_handler handler s = s\<lparr>file_request_handler := Some handler\<rparr>"

definition set_error_handler_core :: "HandlerWithResponse \<Rightarrow> Server \<Rightarrow> Server" where
  "set_error_handler_core handler s = s\<lparr>error_handler := Some handler\<rparr>"

text \<open>The overload for a handler without a result: it counts as handled when it does not throw.\<close>

definition set_error_handler_plain :: "Handler \<Rightarrow> Server \<Rightarrow> Server" where
  "set_error_handler_plain handler s =
     s\<lparr>error_handler := Some (\<lambda>rq rs. case handler rq rs of
          (Some e, rs) \<Rightarrow> (Inl e, rs) | (None, rs) \<Rightarrow> (Inr Handled, rs))\<rparr>"

definition set_exception_handler :: "ExceptionHandler \<Rightarrow> Server \<Rightarrow> Server" where
  "set_exception_handler handler s = s\<lparr>exception_handler := Some handler\<rparr>"

definition set_pre_routing_handler :: "HandlerWithResponse \<Rightarrow> Server \<Rightarrow> Server" where
  "set_pre_routing_handler handler s = s\<lparr>pre_routing_handler := Some handler\<rparr>"

definition set_post_routing_handler :: "Handler \<Rightarrow> Server \<Rightarrow> Server" where
  "set_post_routing_handler handler s = s\<lparr>post_routing_handler := Some handler\<rparr>"

definition set_expect_100_continue_handler :: "Expect100ContinueHandler \<Rightarrow> Server \<Rightarrow> Server" where
  "set_expect_100_continue_handler handler s = s\<lparr>expect_100_continue_handler := Some handler\<rparr>"

definition set_address_family :: "int \<Rightarrow> Server \<Rightarrow> Server" where
  "set_address_family family s = s\<lparr>address_family := family\<rparr>"

definition set_tcp_nodelay :: "bool \<Rightarrow> Server \<Rightarrow> Server" where
  "set_tcp_nodelay on s = s\<lparr>tcp_nodelay := on\<rparr>"

definition set_ipv6_v6only :: "bool \<Rightarrow> Server \<Rightarrow> Server" where
  "set_ipv6_v6only on s = s\<lparr>ipv6_v6only := on\<rparr>"

definition set_default_headers :: "Headers \<Rightarrow> Server \<Rightarrow> Server" where
  "set_default_headers headers s = s\<lparr>default_headers := headers\<rparr>"

definition set_header_writer :: "(strm \<Rightarrow> Headers \<Rightarrow> int \<times> Headers \<times> strm) \<Rightarrow> Server \<Rightarrow> Server" where
  "set_header_writer writer s = s\<lparr>header_writer := writer\<rparr>"

definition set_keep_alive_max_count :: "nat \<Rightarrow> Server \<Rightarrow> Server" where
  "set_keep_alive_max_count count s = s\<lparr>keep_alive_max_count := count\<rparr>"

definition set_keep_alive_timeout :: "int \<Rightarrow> Server \<Rightarrow> Server" where
  "set_keep_alive_timeout sec s = s\<lparr>keep_alive_timeout_sec := sec\<rparr>"

definition set_read_timeout :: "int \<Rightarrow> int \<Rightarrow> Server \<Rightarrow> Server" where
  "set_read_timeout sec usec s = s\<lparr>read_timeout := (sec, usec)\<rparr>"

definition set_write_timeout :: "int \<Rightarrow> int \<Rightarrow> Server \<Rightarrow> Server" where
  "set_write_timeout sec usec s = s\<lparr>write_timeout := (sec, usec)\<rparr>"

definition set_idle_interval :: "int \<Rightarrow> int \<Rightarrow> Server \<Rightarrow> Server" where
  "set_idle_interval sec usec s = s\<lparr>idle_interval := (sec, usec)\<rparr>"

definition set_payload_max_length :: "nat \<Rightarrow> Server \<Rightarrow> Server" where
  "set_payload_max_length len s = s\<lparr>payload_max_length := len\<rparr>"

section \<open>Dispatch\<close>

text \<open>Whether a handler was found (or what it threw), with the request after the matches and the response.\<close>

fun dispatch_request :: "regex_engine \<Rightarrow> Handlers \<Rightarrow> Request \<Rightarrow> Response \<Rightarrow> (thrown + bool) \<times> Request \<times> Response" where
  "dispatch_request re [] rq rs = (Inr False, rq, rs)"
| "dispatch_request re ((m, handler) # hs) rq rs =
     (case matches re m rq of
        (True, rq) \<Rightarrow> (case handler rq rs of (Some e, rs) \<Rightarrow> (Inl e, rq, rs) | (None, rs) \<Rightarrow> (Inr True, rq, rs))
      | (False, rq) \<Rightarrow> dispatch_request re hs rq rs)"

fun dispatch_request_for_content_reader ::
    "regex_engine \<Rightarrow> ContentReader \<Rightarrow> HandlersForContentReader \<Rightarrow> Request \<Rightarrow> Response \<Rightarrow> strm
      \<Rightarrow> (thrown + bool) \<times> Request \<times> Response \<times> strm" where
  "dispatch_request_for_content_reader re content_reader [] rq rs s = (Inr False, rq, rs, s)"
| "dispatch_request_for_content_reader re content_reader ((m, handler) # hs) rq rs s =
     (case matches re m rq of
        (True, rq) \<Rightarrow>
          (case handler rq rs content_reader s of
             (Some e, rq, rs, s) \<Rightarrow> (Inl e, rq, rs, s)
           | (None, rq, rs, s) \<Rightarrow> (Inr True, rq, rs, s))
      | (False, rq) \<Rightarrow> dispatch_request_for_content_reader re content_reader hs rq rs s)"

section \<open>Matchers: the interface\<close>

text \<open>What the dispatcher relies on (\<open>MatcherBase\<close>): a matcher decides by the path alone and writes only its captures.\<close>

locale path_matcher =
  fixes mat :: "Request \<Rightarrow> bool \<times> Request"
  assumes frame: "\<exists>ms pp. snd (mat rq) = rq\<lparr>rq_matches := ms, rq_path_params := pp\<rparr>"
    and by_path: "rq_path r1 = rq_path r2 \<Longrightarrow> fst (mat r1) = fst (mat r2)
      \<and> rq_matches (snd (mat r1)) = rq_matches (snd (mat r2)) \<and> rq_path_params (snd (mat r1)) = rq_path_params (snd (mat r2))"
begin

lemma ignores_captures: "mat (rq\<lparr>rq_matches := a, rq_path_params := b\<rparr>) = mat rq"
proof -
  let ?r = "rq\<lparr>rq_matches := a, rq_path_params := b\<rparr>"
  obtain m p where 1: "snd (mat rq) = rq\<lparr>rq_matches := m, rq_path_params := p\<rparr>" using frame by blast
  obtain m' p' where 2: "snd (mat ?r) = ?r\<lparr>rq_matches := m', rq_path_params := p'\<rparr>" using frame by blast
  have "fst (mat ?r) = fst (mat rq) \<and> m' = m \<and> p' = p" using by_path [of ?r rq] 1 2 by simp
  then show ?thesis using 1 2 by (intro prod_eqI) simp_all
qed

end

interpretation pp: path_matcher "match_path_params p"
  by unfold_locales (auto simp: match_path_params_def split: prod.splits option.splits)

interpretation rx: path_matcher "match_regex re r"
  by unfold_locales (auto simp: match_regex_def split: option.splits)

interpretation mt: path_matcher "matches re m"
proof unfold_locales
  show "\<exists>ms pp. snd (matches re m rq) = rq\<lparr>rq_matches := ms, rq_path_params := pp\<rparr>" for rq
    using pp.frame rx.frame by (cases m) (simp_all add: matches_def)
next
  fix r1 r2 :: Request
  assume "rq_path r1 = rq_path r2"
  then show "fst (matches re m r1) = fst (matches re m r2)
      \<and> rq_matches (snd (matches re m r1)) = rq_matches (snd (matches re m r2))
      \<and> rq_path_params (snd (matches re m r1)) = rq_path_params (snd (matches re m r2))"
    using pp.by_path [of r1 r2] rx.by_path [of r1 r2] by (cases m) (simp_all only: matches_def matcher.case)
qed

lemma matches_again: "matches re m (snd (matches re m' rq)) = matches re m rq"
  using mt.frame [of re m' rq] mt.ignores_captures by auto

text \<open>The handler that answers a request, with its matcher.\<close>

definition responsible :: "regex_engine \<Rightarrow> (matcher \<times> 'h) list \<Rightarrow> Request \<Rightarrow> (matcher \<times> 'h) option" where
  "responsible re hs rq = find (\<lambda>(m, h). fst (matches re m rq)) hs"

lemma responsible_again: "responsible re hs (snd (matches re m rq)) = responsible re hs rq"
  by (simp add: responsible_def matches_again)

text \<open>A request goes to the handler registered first among those whose matcher accepts its path, although the
  matchers tried before it have written to the request; without such a handler the response stays as it is.\<close>

theorem dispatch_first_match:
  "dispatch_request re hs rq rs =
     (case responsible re hs rq of
        None \<Rightarrow> (Inr False, if hs = [] then rq else snd (matches re (fst (last hs)) rq), rs)
      | Some (m, h) \<Rightarrow>
          (case h (snd (matches re m rq)) rs of
             (Some e, rs) \<Rightarrow> (Inl e, snd (matches re m rq), rs)
           | (None, rs) \<Rightarrow> (Inr True, snd (matches re m rq), rs)))"
proof (induction hs arbitrary: rq)
  case (Cons x hs)
  obtain m h where x: "x = (m, h)" by fastforce
  obtain b r where m: "matches re m rq = (b, r)" by fastforce
  then have "responsible re hs r = responsible re hs rq" "\<And>m'. matches re m' r = matches re m' rq"
    using responsible_again [of re hs m rq] matches_again [of re _ m rq] by auto
  then show ?case
    using m Cons [of r] by (cases b) (auto simp: x responsible_def split: option.splits prod.splits)
qed (simp add: responsible_def)

section \<open>Patterns with parameters\<close>

text \<open>A pattern as the list of what stands between its slashes: fixed texts and parameters.\<close>

datatype seg = Lit string | Param string

fun seg_text :: "seg \<Rightarrow> string" where
  "seg_text (Lit t) = t"
| "seg_text (Param n) = CHR '':'' # n"

fun seg_ok :: "seg \<Rightarrow> bool" where
  "seg_ok (Lit t) \<longleftrightarrow> t \<noteq> [] \<and> CHR ''/'' \<notin> set t \<and> CHR 0x00 \<notin> set t \<and> hd t \<noteq> CHR '':''"
| "seg_ok (Param n) \<longleftrightarrow> CHR ''/'' \<notin> set n"

fun is_lit :: "seg \<Rightarrow> bool" where
  "is_lit (Lit t) = True"
| "is_lit (Param n) = False"

definition slashed :: "string list \<Rightarrow> string" where
  "slashed ts = concat (map ((#) (CHR ''/'')) ts)"

definition pattern_text :: "seg list \<Rightarrow> string" where
  "pattern_text ss = slashed (map seg_text ss)"

definition fits :: "seg list \<Rightarrow> string list \<Rightarrow> bool" where
  "fits ss vs \<longleftrightarrow> list_all2 (\<lambda>s v. CHR ''/'' \<notin> set v \<and> (is_lit s \<longrightarrow> v = seg_text s)) ss vs"

lemma slashed_simps [simp]: "slashed [] = []" "slashed (t # ts) = CHR ''/'' # t @ slashed ts" "slashed (ts @ us) = slashed ts @ slashed us"
  by (simp_all add: slashed_def)

lemma pattern_text_simps [simp]: "pattern_text [] = []" "pattern_text (s # ss) = CHR ''/'' # seg_text s @ pattern_text ss"
  "pattern_text (ss @ ss') = pattern_text ss @ pattern_text ss'"
  by (simp_all add: pattern_text_def)

lemma find_sep_text: "CHR ''/'' \<notin> set a \<Longrightarrow> find_str ''/'' (a @ CHR ''/'' # s) = Some (length a)"
  "CHR ''/'' \<notin> set a \<Longrightarrow> find_str ''/'' a = None"
  using find_str_skips [of "''/''" a "CHR ''/'' # s"] find_str_skips [of "''/''" a "[]"] by auto

lemma pattern_text_slash: "pattern_text ss = [] \<or> hd (pattern_text ss) = CHR ''/''"
  by (cases ss) auto

text \<open>The marker is found at the first parameter.\<close>

lemma find_marker_lit:
  assumes "seg_ok (Lit t)"
  shows "find_str ''/:'' (CHR ''/'' # t @ s) = map_option (\<lambda>i. Suc (length t + i)) (find_str ''/:'' s)"
proof -
  have "\<not> starts_with (CHR ''/'' # t @ s) ''/:''"
    using assms by (cases t) auto
  moreover have "find_str ''/:'' (t @ s) = map_option (\<lambda>i. length t + i) (find_str ''/:'' s)"
    using assms by (intro find_str_skips) auto
  ultimately show ?thesis by (cases "find_str ''/:'' s") auto
qed

lemma find_marker:
  assumes "list_all seg_ok ls" and "list_all is_lit ls"
  shows "find_str ''/:'' (pattern_text ls) = None"
    and "find_str ''/:'' (pattern_text ls @ CHR ''/'' # CHR '':'' # s) = Some (length (pattern_text ls))"
proof -
  have "find_str ''/:'' (pattern_text ls @ u) = map_option (\<lambda>i. length (pattern_text ls) + i) (find_str ''/:'' u)" for u
    using assms
  proof (induction ls)
    case (Cons x ls)
    then obtain t where x: "x = Lit t" by (cases x) auto
    with Cons find_marker_lit [of t "pattern_text ls @ u"] show ?case by (cases "find_str ''/:'' u") auto
  qed (cases "find_str ''/:'' u", auto)
  from this [of "[]"] this [of "CHR ''/'' # CHR '':'' # s"]
  show "find_str ''/:'' (pattern_text ls) = None"
    and "find_str ''/:'' (pattern_text ls @ CHR ''/'' # CHR '':'' # s) = Some (length (pattern_text ls))" by auto
qed

text \<open>A list of segments with a parameter starts with literals up to its first parameter.\<close>

lemma first_param:
  assumes "\<not> list_all is_lit ss"
  obtains ls n ss' where "ss = ls @ Param n # ss'" and "list_all is_lit ls"
proof -
  obtain ls x ss' where "ss = ls @ x # ss'" "list_all is_lit ls" "\<not> is_lit x"
    using assms split_list_first_prop [of ss "\<lambda>x. \<not> is_lit x"] by (auto simp: list_all_iff)
  then show thesis using that by (cases x) auto
qed

lemma find_sep_at:
  assumes "drop pos s = n @ r" and "CHR ''/'' \<notin> set n" and "r = [] \<or> hd r = CHR ''/''" and "pos \<le> length s"
  shows "find_sep s pos = pos + length n"
proof (cases r)
  case Nil
  then have "length (drop pos s) = length n" using assms(1) by (simp only: append_Nil2)
  then have "length s = pos + length n" using assms(4) unfolding length_drop by linarith
  with Nil show ?thesis using assms find_sep_text(2) [of n] by (simp add: find_sep_def find_from_def)
next
  case (Cons c r')
  with assms find_sep_text(1) [of n r'] show ?thesis by (simp add: find_sep_def find_from_def)
qed

text \<open>What the constructor makes of a pattern: each fragment runs from the slash after the last parameter, which only
  the first one includes, to the slash before the next.\<close>

fun cut :: "bool \<Rightarrow> string \<Rightarrow> string" where
  "cut True t = t"
| "cut False t = tl t"

inductive compiled :: "bool \<Rightarrow> seg list \<Rightarrow> string list \<Rightarrow> string list \<Rightarrow> bool" where
  compiled_lits: "list_all is_lit ls \<Longrightarrow> compiled first ls (if ls = [] then [] else [cut first (pattern_text ls)]) []"
| compiled_param: "list_all is_lit ls \<Longrightarrow> compiled False ss frags names
    \<Longrightarrow> compiled first (ls @ Param n # ss) (cut first (pattern_text ls @ ''/'') # frags) (n # names)"

lemma path_params_loop_compiled:
  assumes "list_all seg_ok ss" and "drop (lst - 1) pattern = pattern_text ss" and "lst \<le> Suc (length pattern)"
    and "lst = 0 \<Longrightarrow> ss \<noteq> []"
  shows "\<exists>e fs ns. path_params_loop pattern lst fr nm = (e, fr @ fs, nm @ ns)
    \<and> compiled (lst = 0) ss (if e < length pattern then fs @ [drop e pattern] else fs) ns"
  using assms
proof (induction ss arbitrary: lst fr nm rule: length_induct)
  case (1 ss)
  show ?case
  proof (cases "list_all is_lit ss")
    case True
    then have n: "find_from ''/:'' pattern (if lst = 0 then lst else lst - 1) = None"
      using find_marker(1) [OF 1(2) True] 1(3) by (cases "lst = 0") (simp_all add: find_from_def)
    have d: "drop lst pattern = cut (lst = 0) (pattern_text ss)"
      using 1(3) drop_Suc [of "lst - 1" pattern] tl_drop [of "lst - 1" pattern] by (cases "lst = 0") (auto simp: drop_Suc tl_drop)
    have "lst < length pattern \<longleftrightarrow> ss \<noteq> []"
    proof (cases ss)
      case Nil
      then show ?thesis using 1(3-5) by auto
    next
      case (Cons x xs)
      then have "seg_text x \<noteq> []" using 1(2) by (cases x) auto
      then have "2 \<le> length (drop (lst - 1) pattern)" unfolding 1(3) Cons by (cases "seg_text x") auto
      then show ?thesis using Cons by auto
    qed
    then show ?thesis
      using n compiled_lits [OF True, of "lst = 0"] d by (subst path_params_loop.simps) auto
  next
    case False
    then obtain ls n ss' where ss: "ss = ls @ Param n # ss'" and ls: "list_all is_lit ls" by (rule first_param)
    let ?base = "lst - 1"
    let ?m = "?base + length (pattern_text ls)"
    have ok: "list_all seg_ok ls" "CHR ''/'' \<notin> set n" "list_all seg_ok ss'" using 1(2) ss by auto
    have p: "drop ?base pattern = pattern_text ls @ CHR ''/'' # CHR '':'' # n @ pattern_text ss'"
      using 1(3) ss by simp
    then have f: "find_from ''/:'' pattern (if lst = 0 then lst else lst - 1) = Some ?m"
      using find_marker(2) [OF ok(1) ls] by (cases "lst = 0") (simp_all add: find_from_def)
    have len: "length pattern = ?base + length (pattern_text ls) + 2 + length n + length (pattern_text ss')"
      using arg_cong [OF p, of length] 1(4) by (cases "?base \<le> length pattern") auto
    have dm: "drop (?m + 2) pattern = n @ pattern_text ss'"
    proof -
      have "drop (?m + 2) pattern = drop (length (pattern_text ls) + 2) (drop ?base pattern)" by (simp add: add.commute)
      then show ?thesis unfolding p by simp
    qed
    then have sep: "find_sep pattern (?m + 2) = ?m + 2 + length n"
      using ok(2) pattern_text_slash [of ss'] len by (intro find_sep_at) auto
    have frag: "take (?m + 1 - lst) (drop lst pattern) = cut (lst = 0) (pattern_text ls @ ''/'')"
    proof (cases lst)
      case 0
      then show ?thesis using p by simp
    next
      case (Suc k)
      then have "drop lst pattern = tl (pattern_text ls @ CHR ''/'' # CHR '':'' # n @ pattern_text ss')"
        using p tl_drop [of k pattern, symmetric] by (simp add: drop_Suc)
      then show ?thesis using Suc by (cases "pattern_text ls") auto
    qed
    have d: "drop (?m + 2 + length n + 1 - 1) pattern = pattern_text ss'"
    proof -
      have "drop (?m + 2 + length n + 1 - 1) pattern = drop (length n) (drop (?m + 2) pattern)" by (simp add: add.commute)
      then show ?thesis unfolding dm by simp
    qed
    have "length ss' < length ss" using ss by simp
    then obtain e fs ns where r: "path_params_loop pattern (?m + 2 + length n + 1)
          (fr @ [cut (lst = 0) (pattern_text ls @ ''/'')]) (nm @ [n])
        = (e, (fr @ [cut (lst = 0) (pattern_text ls @ ''/'')]) @ fs, (nm @ [n]) @ ns)"
      "compiled False ss' (if e < length pattern then fs @ [drop e pattern] else fs) ns"
      using 1(1) [rule_format, of ss' "?m + 2 + length n + 1"] ok(3) d len by fastforce
    have "path_params_loop pattern lst fr nm = (e, fr @ cut (lst = 0) (pattern_text ls @ ''/'') # fs, nm @ n # ns)"
      using f sep frag dm r(1) by (subst path_params_loop.simps) (simp add: Let_def)
    then show ?thesis using compiled_param [OF ls r(2), of "lst = 0" n] ss by auto
  qed
qed

lemma compiled_pattern:
  assumes "list_all seg_ok ss" and "ss \<noteq> []"
  shows "compiled True ss (static_fragments (new_PathParamsMatcher (pattern_text ss)))
    (param_names (new_PathParamsMatcher (pattern_text ss)))"
  using path_params_loop_compiled [of ss 0 "pattern_text ss" "[]" "[]"] assms
  by (auto simp: new_PathParamsMatcher_def)

section \<open>Patterns: matching\<close>

text \<open>The entries that a match makes, in the order of the parameters.\<close>

fun capture :: "seg list \<Rightarrow> string list \<Rightarrow> (string, string) umap \<Rightarrow> (string, string) umap" where
  "capture (Param n # ss) (v # vs) pp = capture ss vs (umap_emplace n v pp)"
| "capture (Lit t # ss) (v # vs) pp = capture ss vs pp"
| "capture _ _ pp = pp"

lemma capture_lits: "list_all is_lit ls \<Longrightarrow> capture (ls @ ss) (map seg_text ls @ vs) pp = capture ss vs pp"
proof (induction ls)
  case (Cons x ls)
  then show ?case by (cases x) auto
qed simp

lemma fits_simps [simp]:
  "fits [] vs \<longleftrightarrow> vs = []" "fits (s # ss) [] \<longleftrightarrow> False"
  "fits (s # ss) (v # vs) \<longleftrightarrow> CHR ''/'' \<notin> set v \<and> (is_lit s \<longrightarrow> v = seg_text s) \<and> fits ss vs"
  by (auto simp: fits_def)

lemma fits_split:
  assumes "list_all is_lit ls" and "list_all seg_ok ls"
  shows "fits (ls @ Param n # ss) vs \<longleftrightarrow> (\<exists>v vs'. vs = map seg_text ls @ v # vs' \<and> CHR ''/'' \<notin> set v \<and> fits ss vs')"
    and "fits ls vs \<longleftrightarrow> vs = map seg_text ls"
  using assms
proof (induction ls arbitrary: vs)
  case Nil
  {
    case 1
    then show ?case by (cases vs) auto
  next
    case 2
    then show ?case by simp
  }
next
  case (Cons x ls)
  have x: "CHR ''/'' \<notin> set (seg_text x) \<and> is_lit x" if "list_all is_lit (x # ls)" "list_all seg_ok (x # ls)"
    using that by (cases x) auto
  {
    case 1
    with Cons.IH(1) x [OF 1] show ?case by (cases vs) auto
  next
    case 2
    with Cons.IH(2) x [OF 2] show ?case by (cases vs) auto
  }
qed

lemma strncmp_eq_iff:
  assumes "CHR 0x00 \<notin> set b" and "length a = length b"
  shows "strncmp_eq a b \<longleftrightarrow> a = b"
proof
  assume "strncmp_eq a b"
  then have e: "takeWhile (\<lambda>c. c \<noteq> CHR 0x00) a = b"
    using assms(1) by (auto simp: strncmp_eq_def c_str_def takeWhile_eq_all_conv [THEN iffD2])
  then have "length (takeWhile (\<lambda>c. c \<noteq> CHR 0x00) a) = length a" using assms(2) by simp
  then show "a = b" using e takeWhile_dropWhile_id [of "\<lambda>c. c \<noteq> CHR 0x00" a]
    by (metis append_eq_conv_conj append_Nil2 length_append take_all_iff le_refl)
qed (simp add: strncmp_eq_def)

lemma pattern_text_no_nul: "list_all seg_ok ls \<Longrightarrow> list_all is_lit ls \<Longrightarrow> CHR 0x00 \<notin> set (pattern_text ls)"
proof (induction ls)
  case (Cons x ls)
  then show ?case by (cases x) auto
qed simp

lemma set_cut: "set (cut first t) \<subseteq> set t"
  by (cases first; cases t) auto

text \<open>A fragment matches exactly when the rest of the path (with the slash before it) begins with its text.\<close>

lemma fragment_test:
  assumes "CHR 0x00 \<notin> set t" and "t \<noteq> [] \<and> hd t = CHR ''/''" and "first \<longleftrightarrow> pos = 0" and "pos \<le> Suc (length path)"
    and "pos \<noteq> 0 \<and> pos \<le> length path \<longrightarrow> path ! (pos - 1) = CHR ''/''"
  shows "\<not> pos + length (cut first t) > length path \<and> strncmp_eq (take (length (cut first t)) (drop pos path)) (cut first t)
    \<longleftrightarrow> (\<exists>r. drop (pos - 1) path = t @ r)"
proof (cases pos)
  case 0
  then have "first" using assms(3) by simp
  then show ?thesis
    using 0 strncmp_eq_iff [OF assms(1), of "take (length t) path"]
    by (auto simp: append_eq_conv_conj) (metis append_take_drop_id)
next
  case (Suc k)
  obtain t' where t: "t = CHR ''/'' # t'" using assms(2) by (cases t) auto
  have f: "\<not> first" using Suc assms(3) by simp
  show ?thesis
  proof (cases "k < length path")
    case True
    then have d: "drop k path = CHR ''/'' # drop pos path"
      using assms(5) Suc by (simp add: Cons_nth_drop_Suc [symmetric])
    have "CHR 0x00 \<notin> set t'" using assms(1) t by simp
    then have "length path \<ge> pos + length t' \<Longrightarrow> strncmp_eq (take (length t') (drop pos path)) t' \<longleftrightarrow> take (length t') (drop pos path) = t'"
      by (intro strncmp_eq_iff) simp_all
    moreover have "(\<exists>r. drop pos path = t' @ r) \<longleftrightarrow> pos + length t' \<le> length path \<and> take (length t') (drop pos path) = t'"
    proof
      assume "\<exists>r. drop pos path = t' @ r"
      then obtain r where r: "drop pos path = t' @ r" by blast
      then have "length path - pos = length t' + length r" by (metis length_drop length_append)
      then show "pos + length t' \<le> length path \<and> take (length t') (drop pos path) = t'" using r Suc True by auto
    next
      assume "pos + length t' \<le> length path \<and> take (length t') (drop pos path) = t'"
      then show "\<exists>r. drop pos path = t' @ r" by (metis append_take_drop_id)
    qed
    ultimately show ?thesis using d f Suc t by auto
  next
    case False
    then show ?thesis using Suc f t by auto
  qed
qed

text \<open>What is left to match: the path from the slash before the position on.\<close>

definition at_slash :: "string \<Rightarrow> nat \<Rightarrow> bool" where
  "at_slash path pos \<longleftrightarrow> pos \<le> Suc (length path) \<and> (pos \<noteq> 0 \<and> pos \<le> length path \<longrightarrow> path ! (pos - 1) = CHR ''/'')"

lemma after_param:
  assumes "drop b path = t @ CHR ''/'' # r" and "pos = b + length t + 1"
  shows "at_slash path (Suc (find_sep path pos))"
    and "drop (find_sep path pos) path = dropWhile (\<lambda>c. c \<noteq> CHR ''/'') r"
    and "take (find_sep path pos - pos) (drop pos path) = takeWhile (\<lambda>c. c \<noteq> CHR ''/'') r"
proof -
  let ?v = "takeWhile (\<lambda>c. c \<noteq> CHR ''/'') r" and ?d = "dropWhile (\<lambda>c. c \<noteq> CHR ''/'') r"
  have len: "length path = b + length t + 1 + length r"
    using arg_cong [OF assms(1), of length] by (cases "b \<le> length path") auto
  have "drop pos path = drop (length t + 1) (drop b path)" using assms(2) by (simp add: add.commute add.left_commute)
  then have p: "drop pos path = ?v @ ?d" unfolding assms(1) by simp
  have d: "?d = [] \<or> hd ?d = CHR ''/''" using hd_dropWhile [of "\<lambda>c. c \<noteq> CHR ''/''" r] by auto
  have v: "CHR ''/'' \<notin> set ?v" using set_takeWhileD [of _ "\<lambda>c. c \<noteq> CHR ''/''" r] by fastforce
  have sep: "find_sep path pos = pos + length ?v"
    using p d v len assms(2) by (intro find_sep_at [where r = ?d]) auto
  have dd: "drop (pos + length ?v) path = ?d"
  proof -
    have "drop (pos + length ?v) path = drop (length ?v) (drop pos path)" by (simp add: add.commute)
    then show ?thesis unfolding p by (simp add: dropWhile_eq_drop)
  qed
  have le: "pos + length ?v \<le> length path" using len assms(2) length_takeWhile_le [of "\<lambda>c. c \<noteq> CHR ''/''" r] by simp
  show "drop (find_sep path pos) path = ?d" unfolding sep by (rule dd)
  show "take (find_sep path pos - pos) (drop pos path) = ?v" unfolding sep p by (simp add: takeWhile_eq_take [symmetric])
  have "path ! (pos + length ?v) = CHR ''/''" if "pos + length ?v < length path"
    using that dd d by (metis hd_drop_conv_nth drop_eq_Nil not_le)
  then show "at_slash path (Suc (find_sep path pos))" unfolding sep at_slash_def using le by auto
qed

lemma match_fixed:
  assumes "CHR 0x00 \<notin> set t" and "t \<noteq> [] \<and> hd t = CHR ''/''" and "first \<longleftrightarrow> pos = 0" and "at_slash path pos"
  shows "(\<exists>e. match_fragments path [cut first t] [] pos pp = (Some e, pp') \<and> e \<ge> length path)
      \<longleftrightarrow> pp' = pp \<and> drop (pos - 1) path = t"
proof (cases "\<exists>r. drop (pos - 1) path = t @ r")
  case True
  then obtain r where r: "drop (pos - 1) path = t @ r" by blast
  have "length (cut first t) = (if pos = 0 then length t else length t - 1)" using assms(3) by simp
  moreover have "length t > 0" using assms(2) by simp
  moreover have "length path = pos - 1 + length t + length r"
    using arg_cong [OF r, of length] assms(2) by (cases "pos - 1 \<le> length path") auto
  ultimately have "pos + length (cut first t) \<ge> length path \<longleftrightarrow> r = []" by (cases pos) auto
  then show ?thesis
    using fragment_test [OF assms(1,2), of first pos path] assms(3,4) r by (auto simp: at_slash_def)
next
  case False
  then show ?thesis using fragment_test [OF assms(1,2), of first pos path] assms(3,4) by (auto simp: at_slash_def)
qed

text \<open>The first component of a path is what stands before the next slash.\<close>

lemma first_value:
  assumes "CHR ''/'' \<notin> set w" and "ws \<noteq> [] \<or> x = [] \<or> x = ''/''"
  shows "r = w @ slashed ws @ x \<longleftrightarrow>
    w = takeWhile (\<lambda>c. c \<noteq> CHR ''/'') r \<and> dropWhile (\<lambda>c. c \<noteq> CHR ''/'') r = slashed ws @ x"
proof
  assume e: "r = w @ slashed ws @ x"
  have "slashed ws @ x = [] \<or> hd (slashed ws @ x) = CHR ''/''" using assms(2) by (cases ws) auto
  then have "takeWhile (\<lambda>c. c \<noteq> CHR ''/'') r = w \<and> dropWhile (\<lambda>c. c \<noteq> CHR ''/'') r = slashed ws @ x"
    unfolding e using assms(1) by (cases "slashed ws @ x") (auto simp: takeWhile_append dropWhile_append)
  then show "w = takeWhile (\<lambda>c. c \<noteq> CHR ''/'') r \<and> dropWhile (\<lambda>c. c \<noteq> CHR ''/'') r = slashed ws @ x" by simp
next
  assume "w = takeWhile (\<lambda>c. c \<noteq> CHR ''/'') r \<and> dropWhile (\<lambda>c. c \<noteq> CHR ''/'') r = slashed ws @ x"
  then show "r = w @ slashed ws @ x" using takeWhile_dropWhile_id [of "\<lambda>c. c \<noteq> CHR ''/''" r] by simp
qed

text \<open>The loop accepts what is left of the path exactly when it is made of fitting values, with one slash more or less after a
  parameter at the end, and captures these values.\<close>

lemma match_fragments_compiled:
  assumes "compiled first ss frags names" and "list_all seg_ok ss" and "at_slash path pos" and "first \<longleftrightarrow> pos = 0" and "ss \<noteq> []"
  shows "(\<exists>e. match_fragments path frags names pos pp = (Some e, pp') \<and> e \<ge> length path)
    \<longleftrightarrow> (\<exists>vs. fits ss vs \<and> pp' = capture ss vs pp
          \<and> (drop (pos - 1) path = slashed vs \<or> \<not> is_lit (last ss) \<and> drop (pos - 1) path = slashed vs @ ''/''))"
  using assms
proof (induction arbitrary: pos pp rule: compiled.induct)
  case (compiled_lits ls first)
  let ?t = "pattern_text ls"
  have t: "CHR 0x00 \<notin> set ?t" "?t \<noteq> [] \<and> hd ?t = CHR ''/''"
    using compiled_lits pattern_text_no_nul by (auto simp: neq_Nil_conv)
  have sl: "slashed (map seg_text ls) = ?t" by (simp add: pattern_text_def)
  have "is_lit (last ls)" using compiled_lits by (simp add: list_all_iff)
  moreover have "capture ls (map seg_text ls) pp = pp" using capture_lits [of ls "[]" "[]" pp] compiled_lits by simp
  moreover note match_fixed [OF t, of first pos path pp pp']
  ultimately show ?case
    using compiled_lits sl fits_split(2) [OF compiled_lits(1,2)] by auto
next
  case (compiled_param ls ss frags names first n)
  let ?t = "pattern_text ls @ ''/''"
  have ok: "list_all seg_ok ls" "list_all seg_ok ss" using compiled_param by auto
  have t: "CHR 0x00 \<notin> set ?t" "?t \<noteq> [] \<and> hd ?t = CHR ''/''"
    using pattern_text_no_nul [OF ok(1) compiled_param(1)] pattern_text_slash [of ls] by (auto simp: hd_append)
  have sl: "slashed (map seg_text ls) = pattern_text ls" by (simp add: pattern_text_def)
  note test = fragment_test [OF t, of first pos path]
  show ?case
  proof (cases "\<exists>r. drop (pos - 1) path = ?t @ r")
    case False
    then have "match_fragments path (cut first ?t # frags) (n # names) pos pp = (None, pp)"
      using test compiled_param.prems by (auto simp: at_slash_def)
    moreover have "\<not> (drop (pos - 1) path = slashed vs \<or> drop (pos - 1) path = slashed vs @ ''/'')" if "fits (ls @ Param n # ss) vs" for vs
      using that False fits_split(1) [OF compiled_param(1) ok(1)] sl by auto
    ultimately show ?thesis by auto
  next
    case True
    then obtain r where r: "drop (pos - 1) path = pattern_text ls @ CHR ''/'' # r" by auto
    let ?v = "takeWhile (\<lambda>c. c \<noteq> CHR ''/'') r" and ?d = "dropWhile (\<lambda>c. c \<noteq> CHR ''/'') r"
    let ?pos = "pos + length (cut first ?t)"
    have pos: "?pos = pos - 1 + length (pattern_text ls) + 1" using compiled_param.prems(3) by (cases pos) auto
    note a = after_param [OF r pos]
    let ?sep = "find_sep path ?pos"
    have m: "match_fragments path (cut first ?t # frags) (n # names) pos pp
        = match_fragments path frags names (Suc ?sep) (umap_emplace n ?v pp)"
      using test True compiled_param.prems a(3) by (auto simp: at_slash_def Let_def)
    have v: "CHR ''/'' \<notin> set ?v" using set_takeWhileD [of _ "\<lambda>c. c \<noteq> CHR ''/''" r] by fastforce
    have uniq: "drop (pos - 1) path = slashed (map seg_text ls @ w # ws) @ x \<longleftrightarrow> w = ?v \<and> ?d = slashed ws @ x"
      if "CHR ''/'' \<notin> set w" and "ws \<noteq> [] \<or> x = [] \<or> x = ''/''" for w ws x
      using first_value [OF that, of r] r sl by simp
    show ?thesis
    proof (cases "ss = []")
      case True
      then have f: "frags = []" "names = []" using compiled_param(2) by (auto elim: compiled.cases)
      have u: "(drop (pos - 1) path = slashed (map seg_text ls @ [w]) \<or> drop (pos - 1) path = slashed (map seg_text ls @ [w]) @ ''/'')
          \<longleftrightarrow> w = ?v \<and> (?d = [] \<or> ?d = ''/'')" if "CHR ''/'' \<notin> set w" for w
        using uniq [OF that, of "[]" "[]"] uniq [OF that, of "[]" "''/''"] by auto
      have fs: "fits (ls @ Param n # ss) vs \<longleftrightarrow> (\<exists>v. vs = map seg_text ls @ [v] \<and> CHR ''/'' \<notin> set v)" for vs
        using fits_split(1) [OF compiled_param(1) ok(1), of n ss vs] True by auto
      have c: "capture (ls @ [Param n]) (map seg_text ls @ [v]) pp = umap_emplace n v pp" for v
        using capture_lits [OF compiled_param(1), of "[Param n]" "[v]" pp] by simp
      have "Suc ?sep \<ge> length path \<longleftrightarrow> ?d = [] \<or> ?d = ''/''"
      proof -
        have "length path - ?sep = length ?d" using a(2) by (metis length_drop)
        then have "Suc ?sep \<ge> length path \<longleftrightarrow> length ?d \<le> 1" by linarith
        moreover have "?d = [] \<or> hd ?d = CHR ''/''" using hd_dropWhile [of "\<lambda>c. c \<noteq> CHR ''/''" r] by auto
        ultimately show ?thesis by (cases ?d) auto
      qed
      then have lhs: "(\<exists>e. match_fragments path (cut first ?t # frags) (n # names) pos pp = (Some e, pp') \<and> e \<ge> length path)
          \<longleftrightarrow> pp' = umap_emplace n ?v pp \<and> (?d = [] \<or> ?d = ''/'')"
        unfolding m unfolding f match_fragments.simps prod.inject option.inject by blast
      also have "\<dots> \<longleftrightarrow> (\<exists>v. CHR ''/'' \<notin> set v \<and> pp' = umap_emplace n v pp
          \<and> (drop (pos - 1) path = slashed (map seg_text ls @ [v]) \<or> drop (pos - 1) path = slashed (map seg_text ls @ [v]) @ ''/''))"
        using u v by blast
      also have "\<dots> \<longleftrightarrow> (\<exists>vs. fits (ls @ Param n # ss) vs \<and> pp' = capture (ls @ Param n # ss) vs pp
          \<and> (drop (pos - 1) path = slashed vs \<or> \<not> is_lit (last (ls @ Param n # ss)) \<and> drop (pos - 1) path = slashed vs @ ''/''))"
        unfolding fs using c True by auto
      finally show ?thesis .
    next
      case False
      have u: "(drop (pos - 1) path = slashed (map seg_text ls @ w # ws)
            \<or> \<not> is_lit (last ss) \<and> drop (pos - 1) path = slashed (map seg_text ls @ w # ws) @ ''/'')
          \<longleftrightarrow> w = ?v \<and> (?d = slashed ws \<or> \<not> is_lit (last ss) \<and> ?d = slashed ws @ ''/'')" if "CHR ''/'' \<notin> set w" for w ws
        using uniq [OF that, of ws "[]"] uniq [OF that, of ws "''/''"] by (simp del: slashed_simps) blast
      have c: "capture (ls @ Param n # ss) (map seg_text ls @ w # ws) pp = capture ss ws (umap_emplace n w pp)" for w ws
        using capture_lits [OF compiled_param(1), of "Param n # ss" "w # ws" pp] by simp
      have l: "last (ls @ Param n # ss) = last ss" using False by simp
      have "(\<exists>e. match_fragments path (cut first ?t # frags) (n # names) pos pp = (Some e, pp') \<and> e \<ge> length path)
        \<longleftrightarrow> (\<exists>vs. fits ss vs \<and> pp' = capture ss vs (umap_emplace n ?v pp)
          \<and> (?d = slashed vs \<or> \<not> is_lit (last ss) \<and> ?d = slashed vs @ ''/''))"
        unfolding m using compiled_param.IH [OF ok(2) a(1), of "umap_emplace n ?v pp"] a(2) False by simp
      also have "\<dots> \<longleftrightarrow> (\<exists>w ws. CHR ''/'' \<notin> set w \<and> fits ss ws \<and> pp' = capture ss ws (umap_emplace n w pp)
          \<and> (drop (pos - 1) path = slashed (map seg_text ls @ w # ws)
             \<or> \<not> is_lit (last ss) \<and> drop (pos - 1) path = slashed (map seg_text ls @ w # ws) @ ''/''))"
        using u v by blast
      also have "\<dots> \<longleftrightarrow> (\<exists>vs. fits (ls @ Param n # ss) vs \<and> pp' = capture (ls @ Param n # ss) vs pp
          \<and> (drop (pos - 1) path = slashed vs \<or> \<not> is_lit (last ss) \<and> drop (pos - 1) path = slashed vs @ ''/''))"
        unfolding fits_split(1) [OF compiled_param(1) ok(1), of n ss] c [symmetric] by blast
      finally show ?thesis unfolding l .
    qed
  qed
qed

lemma match_path_params_iff:
  assumes "list_all seg_ok ss" and "ss \<noteq> []"
  shows "match_path_params (new_PathParamsMatcher (pattern_text ss)) rq = (True, rq')
    \<longleftrightarrow> (\<exists>vs. fits ss vs \<and> (rq_path rq = slashed vs \<or> \<not> is_lit (last ss) \<and> rq_path rq = slashed vs @ ''/'')
          \<and> rq' = rq\<lparr>rq_matches := [], rq_path_params := capture ss vs []\<rparr>)"
proof -
  let ?m = "new_PathParamsMatcher (pattern_text ss)"
  have "(\<exists>e. match_fragments (rq_path rq) (static_fragments ?m) (param_names ?m) 0 [] = (Some e, pp') \<and> e \<ge> length (rq_path rq))
    \<longleftrightarrow> (\<exists>vs. fits ss vs \<and> pp' = capture ss vs []
          \<and> (rq_path rq = slashed vs \<or> \<not> is_lit (last ss) \<and> rq_path rq = slashed vs @ ''/''))" for pp'
    using match_fragments_compiled [OF compiled_pattern [OF assms] assms(1), of "rq_path rq" 0] assms(2)
    by (simp add: at_slash_def)
  moreover have "match_path_params ?m rq = (True, rq') \<longleftrightarrow> (\<exists>pp'. rq' = rq\<lparr>rq_matches := [], rq_path_params := pp'\<rparr>
      \<and> (\<exists>e. match_fragments (rq_path rq) (static_fragments ?m) (param_names ?m) 0 [] = (Some e, pp') \<and> e \<ge> length (rq_path rq)))"
    by (auto simp: match_path_params_def split: prod.splits option.splits)
  ultimately show ?thesis by auto
qed

text \<open>The names of the parameters, and what is captured: the component in the place of each.\<close>

definition seg_names :: "seg list \<Rightarrow> string list" where
  "seg_names ss = concat (map (\<lambda>s. case s of Param n \<Rightarrow> [n] | Lit t \<Rightarrow> []) ss)"

definition captured :: "seg list \<Rightarrow> string list \<Rightarrow> (string \<times> string) list" where
  "captured ss vs = concat (map (\<lambda>(s, v). case s of Param n \<Rightarrow> [(n, v)] | Lit t \<Rightarrow> []) (zip ss vs))"

lemma umap_emplace_new: "n \<notin> fst ` set pp \<Longrightarrow> umap_emplace n v pp = pp @ [(n, v)]"
  by (induction pp) (auto simp: umap_emplace_def umap_find_def umap_put_def split: if_splits)

lemma capture_captured: "distinct (map fst pp @ seg_names ss) \<Longrightarrow> capture ss vs pp = pp @ captured ss vs"
proof (induction ss vs pp rule: capture.induct)
  case (1 n ss v vs pp)
  then have "n \<notin> fst ` set pp" by (simp add: seg_names_def)
  then have "umap_emplace n v pp = pp @ [(n, v)]" by (simp add: umap_emplace_new)
  then show ?case using 1 by (auto simp: seg_names_def captured_def)
qed (auto simp: seg_names_def captured_def)

text \<open>C38: A pattern whose parameters have different names accepts exactly the paths that have the same number of components, its fixed
  texts where it has fixed texts and any text without a slash in place of each parameter; one more slash at the end is accepted when, and only
  when, the pattern ends with a parameter. Each parameter's name gets the component in its place. (Names that occur twice are not rejected, as
  the constructor means to do; see \<open>duplicate_param_first\<close>.)\<close>

theorem path_params_spec:
  assumes "list_all seg_ok ss" and "ss \<noteq> []" and "distinct (seg_names ss)"
  shows "match_path_params (new_PathParamsMatcher (pattern_text ss)) rq = (True, rq')
    \<longleftrightarrow> (\<exists>vs. fits ss vs \<and> (rq_path rq = slashed vs \<or> \<not> is_lit (last ss) \<and> rq_path rq = slashed vs @ ''/'')
          \<and> rq' = rq\<lparr>rq_matches := [], rq_path_params := captured ss vs\<rparr>)"
  using match_path_params_iff [OF assms(1,2), of rq rq'] capture_captured [of "[]" ss] assms(3) by simp

theorem path_params_spec_witness:
  "match_path_params (new_PathParamsMatcher (pattern_text [Lit ''users'', Param ''id'', Lit ''posts'', Param ''n'']))
     (new_Request\<lparr>rq_path := ''/users/7/posts/x/''\<rparr>)
   = (True, new_Request\<lparr>rq_path := ''/users/7/posts/x/'', rq_matches := [], rq_path_params := [(''id'', ''7''), (''n'', ''x'')]\<rparr>)"
proof -
  let ?ss = "[Lit ''users'', Param ''id'', Lit ''posts'', Param ''n'']"
  let ?rq = "new_Request\<lparr>rq_path := ''/users/7/posts/x/''\<rparr>"
  have "fits ?ss [''users'', ''7'', ''posts'', ''x'']" "rq_path ?rq = slashed [''users'', ''7'', ''posts'', ''x''] @ ''/''"
    "captured ?ss [''users'', ''7'', ''posts'', ''x''] = [(''id'', ''7''), (''n'', ''x'')]" "distinct (seg_names ?ss)"
    by (simp_all add: captured_def seg_names_def)
  then show ?thesis
    by (intro path_params_spec [of ?ss ?rq, THEN iffD2] exI [of _ "[''users'', ''7'', ''posts'', ''x'']"]) simp_all
qed

text \<open>A name that occurs twice is accepted, and the first value stays.\<close>

lemma duplicate_param_first:
  "rq_path_params (snd (match_path_params (new_PathParamsMatcher ''/:a/:a'') (new_Request\<lparr>rq_path := ''/x/y''\<rparr>))) = [(''a'', ''x'')]"
  by code_simp

end
