(* ===== verification/Httplib_Multipart.thy ===== *)
theory Httplib_Multipart
  imports Httplib_Stream
begin

text \<open>
  The parser of multipart bodies in the HTTP library (\<open>MultipartFormDataParser\<close> of BackendServers/httplib.h). It is fed
  the body piece by piece as it arrives and keeps what it cannot decide yet in a buffer: a character array with the
  positions of the first and after the last byte in use. It calls back with the header of each part and with pieces of its
  content; the callbacks work on a state of their own.

  Shown: the buffer implements a text (its operations are those on the text in use); the loops end; a
  body that the library itself prints is taken apart into its parts again, whatever pieces it arrives in, as
  long as the first piece has the whole first boundary (and what happens when it has not).
\<close>

section \<open>The buffer\<close>

record parse_buffer =
  pb_buf :: string
  pb_spos :: nat
  pb_epos :: nat

definition buf_size :: "parse_buffer \<Rightarrow> nat" where
  "buf_size b = pb_epos b - pb_spos b"

definition start_with :: "string \<Rightarrow> nat \<Rightarrow> nat \<Rightarrow> string \<Rightarrow> bool" where
  "start_with a spos epos b \<longleftrightarrow> \<not> epos - spos < length b \<and> list_all (\<lambda>i. a ! (i + spos) = b ! i) [0..<length b]"

definition buf_start_with :: "string \<Rightarrow> parse_buffer \<Rightarrow> bool" where
  "buf_start_with s b = start_with (pb_buf b) (pb_spos b) (pb_epos b) s"

definition buf_head :: "nat \<Rightarrow> parse_buffer \<Rightarrow> string" where
  "buf_head l b = take l (drop (pb_spos b) (pb_buf b))"

text \<open>\<open>content_callback(buf_data(), n)\<close> gets the same bytes as \<open>buf_head(n)\<close>.\<close>

function find_byte :: "char \<Rightarrow> parse_buffer \<Rightarrow> nat \<Rightarrow> nat option" where
  "find_byte c b pos = (if pos \<ge> pb_epos b then None else if pb_buf b ! pos = c then Some pos else find_byte c b (pos + 1))"
  by auto
termination
  by (relation "measure (\<lambda>(c, b, pos). pb_epos b - pos)") auto

declare find_byte.simps [simp del]

lemma find_byte_ge: "find_byte c b pos = Some p \<Longrightarrow> pos \<le> p \<and> p < pb_epos b"
proof (induction c b pos rule: find_byte.induct)
  case (1 c b pos)
  then show ?case by (subst (asm) (2) find_byte.simps) (force split: if_splits)
qed

function buf_find_loop :: "string \<Rightarrow> parse_buffer \<Rightarrow> nat \<Rightarrow> nat" where
  "buf_find_loop s b off =
     (if off < pb_epos b then
        case find_byte (hd s) b off of
          None \<Rightarrow> buf_size b
        | Some pos \<Rightarrow>
            if length s > pb_epos b - pos then buf_size b
            else if start_with (pb_buf b) pos (pb_epos b) s then pos - pb_spos b
            else buf_find_loop s b (pos + 1)
      else buf_size b)"
  by auto
termination
  by (relation "measure (\<lambda>(s, b, off). pb_epos b - off)") (auto dest: find_byte_ge)

declare buf_find_loop.simps [simp del]

definition buf_find :: "string \<Rightarrow> parse_buffer \<Rightarrow> nat" where
  "buf_find s b = buf_find_loop s b (pb_spos b)"

text \<open>The bytes in use are moved to the front one by one, the array grows where needed, and the new bytes are written after them.\<close>

definition buf_move :: "nat \<Rightarrow> nat \<Rightarrow> string \<Rightarrow> string" where
  "buf_move spos n buf = fold (\<lambda>i buf. buf[i := buf ! (spos + i)]) [0..<n] buf"

definition buf_copy :: "nat \<Rightarrow> string \<Rightarrow> string \<Rightarrow> string" where
  "buf_copy epos data buf = fold (\<lambda>i buf. buf[epos + i := data ! i]) [0..<length data] buf"

definition buf_append :: "string \<Rightarrow> parse_buffer \<Rightarrow> parse_buffer" where
  "buf_append data b =
     (let remaining_size = buf_size b;
          buf = (if remaining_size > 0 \<and> pb_spos b > 0 then buf_move (pb_spos b) remaining_size (pb_buf b) else pb_buf b);
          buf = (if remaining_size + length data > length buf
                 then buf @ replicate (remaining_size + length data - length buf) (CHR 0x00) else buf)
      in \<lparr>pb_buf = buf_copy remaining_size data buf, pb_spos = 0, pb_epos = remaining_size + length data\<rparr>)"

definition buf_erase :: "nat \<Rightarrow> parse_buffer \<Rightarrow> parse_buffer" where
  "buf_erase n b = b\<lparr>pb_spos := pb_spos b + n\<rparr>"

section \<open>The parser\<close>

datatype parse_state = Initial_boundary | New_entry | Part_headers | Part_body | Part_boundary

record MultipartFormDataParser =
  mp_boundary :: string
  mp_state :: parse_state
  mp_is_valid :: bool
  mp_file :: MultipartFormData
  mp_buf :: parse_buffer

definition new_parser :: "string \<Rightarrow> MultipartFormDataParser" where
  "new_parser boundary =
     \<lparr>mp_boundary = boundary, mp_state = Initial_boundary, mp_is_valid = False,
      mp_file = \<lparr>mp_name = [], mp_content = [], mp_filename = [], mp_content_type = []\<rparr>,
      mp_buf = \<lparr>pb_buf = [], pb_spos = 0, pb_epos = 0\<rparr>\<rparr>"

text \<open>The two texts that \<open>set_boundary\<close> derives from the boundary.\<close>

definition dash_boundary_crlf :: "MultipartFormDataParser \<Rightarrow> string" where
  "dash_boundary_crlf p = ''--'' @ mp_boundary p @ crlf"

definition crlf_dash_boundary :: "MultipartFormDataParser \<Rightarrow> string" where
  "crlf_dash_boundary p = crlf @ ''--'' @ mp_boundary p"

lemma length_boundary [simp]:
  "length (dash_boundary_crlf p) = length (mp_boundary p) + 4" "length (crlf_dash_boundary p) = length (mp_boundary p) + 4"
  by (simp_all add: dash_boundary_crlf_def crlf_dash_boundary_def crlf_def)

definition clear_file_info :: "MultipartFormData \<Rightarrow> MultipartFormData" where
  "clear_file_info f = f\<lparr>mp_name := [], mp_filename := [], mp_content_type := []\<rparr>"

definition start_with_case_ignore :: "string \<Rightarrow> string \<Rightarrow> bool" where
  "start_with_case_ignore a b \<longleftrightarrow>
     \<not> length a < length b \<and> list_all (\<lambda>i. to_lower (a ! i) = to_lower (b ! i)) [0..<length b]"

text \<open>The group of \<open>^Content-Disposition:\s*form-data;\s*(.*)$\<close>, where the dot stands for anything but a line end, and the group of
  the expression for \<open>filename*\<close>; both ignore case.\<close>

definition no_line_end :: "string \<Rightarrow> bool" where
  "no_line_end s \<longleftrightarrow> CHR 0x0A \<notin> set s \<and> CHR 0x0D \<notin> set s"

definition match_content_disposition :: "string \<Rightarrow> string option" where
  "match_content_disposition s =
     (if start_with_case_ignore s ''Content-Disposition:'' then
        let r = dropWhile c_isspace (drop 20 s)
        in if start_with_case_ignore r ''form-data;'' then
             let g = dropWhile c_isspace (drop 10 r) in if no_line_end g then Some g else None
           else None
      else None)"

definition match_rfc5987_encoding :: "string \<Rightarrow> string option" where
  "match_rfc5987_encoding s =
     (if start_with_case_ignore s (''UTF-8'' @ [CHR 0x27, CHR 0x27]) \<and> drop 7 s \<noteq> [] \<and> no_line_end (drop 7 s)
      then Some (drop 7 s) else None)"

text \<open>One header line of a part; \<open>None\<close> where the parser gives up.\<close>

definition part_header :: "string \<Rightarrow> MultipartFormData \<Rightarrow> MultipartFormData option" where
  "part_header header f =
     (if parse_header header = None then None
      else if start_with_case_ignore header ''Content-Type:'' then Some (f\<lparr>mp_content_type := trim_copy (drop 13 header)\<rparr>)
      else case match_content_disposition header of
             None \<Rightarrow> Some f
           | Some m \<Rightarrow>
               let params = parse_disposition_params m []
               in case mm_range params ''name'' of
                    [] \<Rightarrow> None
                  | nm # _ \<Rightarrow>
                      let f = f\<lparr>mp_name := nm\<rparr>;
                          f = (case mm_range params ''filename'' of [] \<Rightarrow> f | fn # _ \<Rightarrow> f\<lparr>mp_filename := fn\<rparr>)
                      in case mm_range params ''filename*'' of
                           [] \<Rightarrow> Some f
                         | v # _ \<Rightarrow>
                             (case match_rfc5987_encoding v of
                                Some g \<Rightarrow> Some (f\<lparr>mp_filename := decode_url g False\<rparr>)
                              | None \<Rightarrow> None))"

type_synonym 's content_cb = "string \<Rightarrow> 's \<Rightarrow> bool \<times> 's"
type_synonym 's header_cb = "MultipartFormData \<Rightarrow> 's \<Rightarrow> bool \<times> 's"

definition erase :: "nat \<Rightarrow> MultipartFormDataParser \<Rightarrow> MultipartFormDataParser" where
  "erase n p = p\<lparr>mp_buf := buf_erase n (mp_buf p)\<rparr>"

text \<open>The inner loop over the header lines. \<open>False\<close> stands for the statements \<open>return false\<close>.\<close>

function header_loop :: "'s header_cb \<Rightarrow> nat \<Rightarrow> MultipartFormDataParser \<Rightarrow> 's \<Rightarrow> bool \<times> MultipartFormDataParser \<times> 's" where
  "header_loop header_callback pos p st =
     (if pos < buf_size (mp_buf p) then
        if pos = 0 then
          case header_callback (mp_file p) st of
            (False, st) \<Rightarrow> (False, p\<lparr>mp_is_valid := False\<rparr>, st)
          | (True, st) \<Rightarrow> (True, (erase 2 p)\<lparr>mp_state := Part_body\<rparr>, st)
        else case part_header (buf_head pos (mp_buf p)) (mp_file p) of
               None \<Rightarrow> (False, p\<lparr>mp_is_valid := False\<rparr>, st)
             | Some f \<Rightarrow>
                 let p = erase (pos + 2) (p\<lparr>mp_file := f\<rparr>)
                 in header_loop header_callback (buf_find crlf (mp_buf p)) p st
      else (True, p, st))"
  by auto
termination
  by (relation "measure (\<lambda>(cb, pos, p, st). buf_size (mp_buf p))") (auto simp: erase_def buf_erase_def buf_size_def)

declare header_loop.simps [simp del]

lemma header_loop_less:
  "header_loop cb pos p st = (True, p', st') \<Longrightarrow> mp_state p \<noteq> Part_body \<Longrightarrow> mp_state p' = Part_body
     \<Longrightarrow> buf_size (mp_buf p') < buf_size (mp_buf p)"
proof (induction cb pos p st rule: header_loop.induct)
  case (1 cb pos p st)
  show ?case
  proof (cases "pos < buf_size (mp_buf p)")
    case False
    with 1(2-4) show ?thesis by (subst (asm) header_loop.simps) auto
  next
    case True
    then have "0 < buf_size (mp_buf p)" by simp
    show ?thesis
    proof (cases "pos = 0")
      case True
      with \<open>0 < buf_size (mp_buf p)\<close> 1(2-4) show ?thesis
        by (subst (asm) header_loop.simps) (auto simp: erase_def buf_erase_def buf_size_def split: prod.splits bool.splits)
    next
      case False
      then obtain f where f: "part_header (buf_head pos (mp_buf p)) (mp_file p) = Some f"
        using 1(2) True by (subst (asm) header_loop.simps) (auto split: option.splits)
      let ?p = "erase (pos + 2) (p\<lparr>mp_file := f\<rparr>)"
      have "header_loop cb (buf_find crlf (mp_buf ?p)) ?p st = (True, p', st')"
        using 1(2) True False f by (subst (asm) header_loop.simps) (simp add: Let_def)
      moreover have "mp_state ?p = mp_state p" "buf_size (mp_buf ?p) < buf_size (mp_buf p)"
        using True by (auto simp: erase_def buf_erase_def buf_size_def)
      ultimately show ?thesis using "1.IH" [OF True False f refl] 1(3,4) by simp
    qed
  qed
qed

function parse_loop ::
    "'s content_cb \<Rightarrow> 's header_cb \<Rightarrow> MultipartFormDataParser \<Rightarrow> 's \<Rightarrow> bool \<times> MultipartFormDataParser \<times> 's" where
  "parse_loop content_callback header_callback p st =
     (if buf_size (mp_buf p) > 0 then
        case mp_state p of
          Initial_boundary \<Rightarrow>
            let p = erase (buf_find (dash_boundary_crlf p) (mp_buf p)) p
            in if length (dash_boundary_crlf p) > buf_size (mp_buf p) then (True, p, st)
               else if \<not> buf_start_with (dash_boundary_crlf p) (mp_buf p) then (False, p, st)
               else parse_loop content_callback header_callback
                      ((erase (length (dash_boundary_crlf p)) p)\<lparr>mp_state := New_entry\<rparr>) st
        | New_entry \<Rightarrow>
            parse_loop content_callback header_callback
              (p\<lparr>mp_file := clear_file_info (mp_file p), mp_state := Part_headers\<rparr>) st
        | Part_headers \<Rightarrow>
            let pos = buf_find crlf (mp_buf p)
            in if pos > 8192 then (False, p, st)
               else (case header_loop header_callback pos p st of
                       (False, p, st) \<Rightarrow> (False, p, st)
                     | (True, p, st) \<Rightarrow>
                         if mp_state p \<noteq> Part_body then (True, p, st)
                         else parse_loop content_callback header_callback p st)
        | Part_body \<Rightarrow>
            if length (crlf_dash_boundary p) > buf_size (mp_buf p) then (True, p, st)
            else
              let pos = buf_find (crlf_dash_boundary p) (mp_buf p)
              in if pos < buf_size (mp_buf p) then
                   case content_callback (buf_head pos (mp_buf p)) st of
                     (False, st) \<Rightarrow> (False, p\<lparr>mp_is_valid := False\<rparr>, st)
                   | (True, st) \<Rightarrow>
                       parse_loop content_callback header_callback
                         ((erase (pos + length (crlf_dash_boundary p)) p)\<lparr>mp_state := Part_boundary\<rparr>) st
                 else
                   let len = buf_size (mp_buf p) - length (crlf_dash_boundary p)
                   in if len > 0 then
                        case content_callback (buf_head len (mp_buf p)) st of
                          (False, st) \<Rightarrow> (False, p\<lparr>mp_is_valid := False\<rparr>, st)
                        | (True, st) \<Rightarrow> (True, erase len p, st)
                      else (True, p, st)
        | Part_boundary \<Rightarrow>
            if 2 > buf_size (mp_buf p) then (True, p, st)
            else if buf_start_with crlf (mp_buf p) then
              parse_loop content_callback header_callback ((erase 2 p)\<lparr>mp_state := New_entry\<rparr>) st
            else if buf_start_with ''--'' (mp_buf p) then
              let p = (erase 2 p)\<lparr>mp_is_valid := True\<rparr>
              in parse_loop content_callback header_callback (erase (buf_size (mp_buf p)) p) st
            else (True, p, st)
      else (True, p, st))"
  by auto
termination
proof (relation "measure (\<lambda>(ccb, hcb, p, st). 2 * buf_size (mp_buf p) + (if mp_state p = New_entry then 1 else 0))", simp, goal_cases)
  case 1
  then show ?case by (auto simp: erase_def buf_erase_def buf_size_def Let_def)
next
  case 3
  then show ?case by (auto dest!: header_loop_less [OF sym])
next
  case 4
  then show ?case by (auto simp: erase_def buf_erase_def buf_size_def Let_def)
qed (auto simp: erase_def buf_erase_def buf_size_def)

declare parse_loop.simps [simp del]

definition parse_multipart ::
    "'s content_cb \<Rightarrow> 's header_cb \<Rightarrow> string \<Rightarrow> MultipartFormDataParser \<Rightarrow> 's \<Rightarrow> bool \<times> MultipartFormDataParser \<times> 's" where
  "parse_multipart content_callback header_callback d p st =
     parse_loop content_callback header_callback (p\<lparr>mp_buf := buf_append d (mp_buf p)\<rparr>) st"

section \<open>The buffer implements a text\<close>

text \<open>The bytes in use, and the invariant of the positions.\<close>

definition view :: "parse_buffer \<Rightarrow> string" where
  "view b = take (buf_size b) (drop (pb_spos b) (pb_buf b))"

definition buf_ok :: "parse_buffer \<Rightarrow> bool" where
  "buf_ok b \<longleftrightarrow> pb_spos b \<le> pb_epos b \<and> pb_epos b \<le> length (pb_buf b)"

lemma length_view: "buf_ok b \<Longrightarrow> length (view b) = buf_size b"
  by (auto simp: view_def buf_ok_def buf_size_def min_def)

lemma view_nth: "buf_ok b \<Longrightarrow> i < buf_size b \<Longrightarrow> view b ! i = pb_buf b ! (pb_spos b + i)"
  by (simp add: view_def buf_ok_def buf_size_def)

lemma buf_erase_view:
  "buf_ok b \<Longrightarrow> n \<le> buf_size b \<Longrightarrow> buf_ok (buf_erase n b) \<and> view (buf_erase n b) = drop n (view b)"
  by (auto simp: buf_ok_def buf_erase_def view_def buf_size_def drop_take add.commute)

lemma buf_head_view: "buf_ok b \<Longrightarrow> n \<le> buf_size b \<Longrightarrow> buf_head n b = take n (view b)"
  by (simp add: buf_head_def view_def min_def)

lemma start_with_view:
  assumes "buf_ok b" and "pb_spos b \<le> pos" and "pos \<le> pb_epos b"
  shows "start_with (pb_buf b) pos (pb_epos b) s \<longleftrightarrow> starts_with (drop (pos - pb_spos b) (view b)) s"
proof -
  have "length (drop (pos - pb_spos b) (view b)) = pb_epos b - pos"
    using assms length_view [OF assms(1)] by (simp add: buf_size_def)
  moreover have "drop (pos - pb_spos b) (view b) ! i = pb_buf b ! (i + pos)" if "i < pb_epos b - pos" for i
    using assms that view_nth [OF assms(1), of "pos - pb_spos b + i"] length_view [OF assms(1)]
    by (simp add: buf_size_def add.commute)
  ultimately show ?thesis by (auto simp: start_with_def starts_with_nth list_all_iff)
qed

lemma buf_start_with_view: "buf_ok b \<Longrightarrow> buf_start_with s b \<longleftrightarrow> starts_with (view b) s"
  using start_with_view [of b "pb_spos b" s] by (simp add: buf_start_with_def buf_ok_def)

lemma find_byte_spec:
  "(case find_byte c b pos of
      None \<Rightarrow> \<forall>i. pos \<le> i \<longrightarrow> i < pb_epos b \<longrightarrow> pb_buf b ! i \<noteq> c
    | Some p \<Rightarrow> pb_buf b ! p = c \<and> (\<forall>i. pos \<le> i \<longrightarrow> i < p \<longrightarrow> pb_buf b ! i \<noteq> c))"
proof (induction c b pos rule: find_byte.induct)
  case (1 c b pos)
  show ?case
  proof (cases "pos \<ge> pb_epos b \<or> pb_buf b ! pos = c")
    case True
    then show ?thesis by (subst find_byte.simps) auto
  next
    case False
    then have "find_byte c b pos = find_byte c b (pos + 1)" by (subst find_byte.simps) simp
    then show ?thesis using 1 False by (auto split: option.splits) (metis Suc_leI le_neq_implies_less)+
  qed
qed

text \<open>The search gives the first position of the text, or the size where it does not occur.\<close>

lemma buf_find_loop_view:
  assumes "buf_ok b" and "s \<noteq> []" and "pb_spos b \<le> off" and "\<And>i. i < off - pb_spos b \<Longrightarrow> \<not> starts_with (drop i (view b)) s"
  shows "buf_find_loop s b off = (case find_str s (view b) of Some i \<Rightarrow> i | None \<Rightarrow> buf_size b)"
  using assms
proof (induction s b off rule: buf_find_loop.induct)
  case (1 s b off)
  note len = length_view [OF 1(2)]
  have hit: "pb_buf b ! (pb_spos b + i) = hd s" if "starts_with (drop i (view b)) s" "i \<le> buf_size b" for i
  proof -
    have "length s \<le> buf_size b - i" "drop i (view b) ! 0 = s ! 0" "0 < length s"
      using that 1(3) len by (auto simp: starts_with_nth)
    then show ?thesis using view_nth [OF 1(2), of i] len 1(3) by (simp add: hd_conv_nth)
  qed
  have e: "\<not> starts_with (drop (buf_size b) (view b)) s" using 1(3) len by (cases s) auto
  have none: "buf_size b = (case find_str s (view b) of Some i \<Rightarrow> i | None \<Rightarrow> buf_size b)"
    if "\<And>i. i \<le> buf_size b \<Longrightarrow> \<not> starts_with (drop i (view b)) s"
    using that find_str_None [of s "view b"] len by simp
  show ?case
  proof (cases "off < pb_epos b")
    case False
    have "\<not> starts_with (drop i (view b)) s" if "i \<le> buf_size b" for i
      using 1(5) [of i] that False 1(4) e by (cases "i = buf_size b") (auto simp: buf_size_def)
    then show ?thesis using False none by (subst buf_find_loop.simps) simp
  next
    case True
    note spec = find_byte_spec [where c = "hd s" and b = b and pos = off]
    have before: "\<not> starts_with (drop i (view b)) s" if "\<And>j. off \<le> j \<Longrightarrow> j < pos \<Longrightarrow> pb_buf b ! j \<noteq> hd s" "i < pos - pb_spos b" "pos \<le> pb_epos b" for i pos
    proof (cases "i < off - pb_spos b")
      case True
      then show ?thesis by (rule 1(5))
    next
      case False
      then have "off \<le> pb_spos b + i" "pb_spos b + i < pos" "i \<le> buf_size b"
        using that(2,3) 1(4) by (auto simp: buf_size_def)
      then show ?thesis using that(1) hit by blast
    qed
    show ?thesis
    proof (cases "find_byte (hd s) b off")
      case None
      have "\<not> starts_with (drop i (view b)) s" if "i \<le> buf_size b" for i
        using before [of "pb_epos b" i] spec None that e by (cases "i = buf_size b") (auto simp: buf_size_def)
      then show ?thesis using True None none by (subst buf_find_loop.simps) simp
    next
      case (Some pos)
      have pos: "off \<le> pos" "pos < pb_epos b" using find_byte_ge [OF Some] by auto
      have bef: "\<And>i. i < pos - pb_spos b \<Longrightarrow> \<not> starts_with (drop i (view b)) s"
        using before [of pos] spec Some pos by simp
      have sw: "start_with (pb_buf b) pos (pb_epos b) s \<longleftrightarrow> starts_with (drop (pos - pb_spos b) (view b)) s"
        using start_with_view [OF 1(2)] pos 1(4) by simp
      consider (short) "length s > pb_epos b - pos"
        | (found) "length s \<le> pb_epos b - pos" "start_with (pb_buf b) pos (pb_epos b) s"
        | (further) "length s \<le> pb_epos b - pos" "\<not> start_with (pb_buf b) pos (pb_epos b) s" by linarith
      then show ?thesis
      proof cases
        case short
        have "\<not> starts_with (drop i (view b)) s" if "i \<le> buf_size b" for i
          using bef [of i] short len pos 1(4) by (cases "i < pos - pb_spos b") (auto simp: starts_with_nth buf_size_def)
        then show ?thesis using True Some short none by (subst buf_find_loop.simps) simp
      next
        case found
        then have "find_str s (view b) = Some (pos - pb_spos b)"
          using find_str_Some [of s "view b" "pos - pb_spos b"] bef sw len pos by (simp add: buf_size_def)
        then show ?thesis using True Some found by (subst buf_find_loop.simps) simp
      next
        case further
        have "\<not> starts_with (drop i (view b)) s" if "i < pos + 1 - pb_spos b" for i
          using that bef [of i] sw further(2) by (cases "i = pos - pb_spos b") auto
        then show ?thesis
          using True Some further "1.IH" [OF True Some _ _ 1(2,3)] 1(4) pos by (subst buf_find_loop.simps) simp
      qed
    qed
  qed
qed

lemma buf_find_view:
  "buf_ok b \<Longrightarrow> s \<noteq> [] \<Longrightarrow> buf_find s b = (case find_str s (view b) of Some i \<Rightarrow> i | None \<Rightarrow> buf_size b)"
  unfolding buf_find_def by (rule buf_find_loop_view) auto

text \<open>Moving to the front in ascending order overwrites only what was moved already.\<close>

lemma buf_move_spec:
  assumes "spos + n \<le> length buf" and "0 < spos"
  shows "length (buf_move spos n buf) = length buf
    \<and> (\<forall>i < length buf. buf_move spos n buf ! i = (if i < n then buf ! (spos + i) else buf ! i))"
  using assms(1)
proof (induction n)
  case (Suc n)
  then have "buf_move spos (Suc n) buf = (buf_move spos n buf)[n := buf_move spos n buf ! (spos + n)]"
    by (simp add: buf_move_def)
  with Suc assms(2) show ?case by (auto simp: nth_list_update less_Suc_eq)
qed (simp add: buf_move_def)

lemma buf_copy_spec:
  assumes "epos + length d \<le> length buf"
  shows "buf_copy epos d buf = take epos buf @ d @ drop (epos + length d) buf"
  using assms
proof (induction d rule: rev_induct)
  case (snoc c d)
  have "buf_copy epos (d @ [c]) buf = (buf_copy epos d buf)[epos + length d := c]"
  proof -
    have "fold (\<lambda>i buf. buf[epos + i := (d @ [c]) ! i]) [0..<length d] buf = fold (\<lambda>i buf. buf[epos + i := d ! i]) [0..<length d] buf"
      by (rule fold_cong) (auto simp: nth_append)
    then show ?thesis by (simp add: buf_copy_def)
  qed
  with snoc show ?case
    by (simp add: list_update_append Cons_nth_drop_Suc [symmetric])
qed (simp add: buf_copy_def)

lemma buf_append_view:
  assumes "buf_ok b"
  shows "buf_ok (buf_append d b) \<and> view (buf_append d b) = view b @ d"
proof -
  let ?n = "buf_size b"
  let ?buf = "if ?n > 0 \<and> pb_spos b > 0 then buf_move (pb_spos b) ?n (pb_buf b) else pb_buf b"
  let ?big = "if ?n + length d > length ?buf then ?buf @ replicate (?n + length d - length ?buf) (CHR 0x00) else ?buf"
  have le: "pb_spos b + ?n \<le> length (pb_buf b)" using assms by (simp add: buf_ok_def buf_size_def)
  have mv: "length ?buf = length (pb_buf b) \<and> (\<forall>i < ?n. ?buf ! i = pb_buf b ! (pb_spos b + i))"
    using buf_move_spec [OF le] le by auto
  have big: "?n + length d \<le> length ?big" "take ?n ?big = view b"
  proof -
    show "?n + length d \<le> length ?big" by simp
    have "take ?n ?buf = view b"
      using mv le view_nth [OF assms] length_view [OF assms] by (intro nth_equalityI) auto
    then show "take ?n ?big = view b" using mv le by auto
  qed
  then have "buf_append d b = \<lparr>pb_buf = view b @ d @ drop (?n + length d) ?big, pb_spos = 0, pb_epos = ?n + length d\<rparr>"
    using buf_copy_spec [of ?n d ?big] by (simp add: buf_append_def Let_def)
  then show ?thesis using length_view [OF assms] by (simp add: buf_ok_def view_def buf_size_def)
qed

section \<open>The interface of the buffer\<close>

text \<open>What a parser needs of its buffer: it stands for a text that grows at the end and shrinks at the front.\<close>

locale text_buffer =
  fixes text_of :: "'b \<Rightarrow> string" and ok :: "'b \<Rightarrow> bool" and app :: "string \<Rightarrow> 'b \<Rightarrow> 'b" and era :: "nat \<Rightarrow> 'b \<Rightarrow> 'b"
    and fnd :: "string \<Rightarrow> 'b \<Rightarrow> nat"
  assumes app_law: "ok b \<Longrightarrow> ok (app d b) \<and> text_of (app d b) = text_of b @ d"
    and era_law: "ok b \<Longrightarrow> n \<le> length (text_of b) \<Longrightarrow> ok (era n b) \<and> text_of (era n b) = drop n (text_of b)"
    and fnd_law: "ok b \<Longrightarrow> s \<noteq> [] \<Longrightarrow> fnd s b = (case find_str s (text_of b) of Some i \<Rightarrow> i | None \<Rightarrow> length (text_of b))"
begin

lemma pieces: "ok b \<Longrightarrow> ok (fold app ds b) \<and> text_of (fold app ds b) = text_of b @ concat ds"
  by (induction ds arbitrary: b) (simp_all add: app_law)

lemma skip_to:
  assumes "ok b" and "s \<noteq> []"
  shows "text_of (era (fnd s b) b) = [] \<or> starts_with (text_of (era (fnd s b) b)) s"
proof (cases "find_str s (text_of b)")
  case None
  then show ?thesis using assms fnd_law era_law [of b "length (text_of b)"] by simp
next
  case (Some k)
  then have "k \<le> length (text_of b)" "starts_with (drop k (text_of b)) s" by (simp_all add: find_str_Some)
  then show ?thesis using Some assms fnd_law era_law [of b k] by simp
qed

end

interpretation pb: text_buffer view buf_ok buf_append buf_erase buf_find
proof unfold_locales
  show "buf_find s b = (case find_str s (view b) of Some i \<Rightarrow> i | None \<Rightarrow> length (view b))" if "buf_ok b" "s \<noteq> []" for b s
    using buf_find_view [OF that] length_view [OF that(1)] by (simp split: option.splits)
qed (simp_all add: buf_append_view buf_erase_view length_view)

text \<open>The parser's buffer, an array with two positions that is compacted in place, implements a text: pieces appended in any
  number give their concatenation, erasing drops a prefix, and searching finds the first occurrence or the end.\<close>

theorem buffer_implements_text:
  assumes "buf_ok b" and "s \<noteq> []" and "n \<le> buf_size b"
  shows "view (fold buf_append ds b) = view b @ concat ds \<and> buf_ok (fold buf_append ds b)
    \<and> view (buf_erase n b) = drop n (view b) \<and> buf_ok (buf_erase n b) \<and> buf_head n b = take n (view b)
    \<and> buf_find s b = (case find_str s (view b) of Some i \<Rightarrow> i | None \<Rightarrow> length (view b))
    \<and> (buf_start_with s b \<longleftrightarrow> starts_with (view b) s)"
  using assms pb.pieces [of b ds] pb.era_law [of b n] pb.fnd_law [of b s] buf_head_view [of b n] buf_start_with_view [of b s]
  by (simp add: length_view)

theorem buffer_implements_text_witness:
  "view (fold buf_append [''ef'', ''g''] \<lparr>pb_buf = ''abcdxx'', pb_spos = 2, pb_epos = 4\<rparr>) = ''cd'' @ concat [''ef'', ''g'']"
  using buffer_implements_text [of "\<lparr>pb_buf = ''abcdxx'', pb_spos = 2, pb_epos = 4\<rparr>" "''d''" 0 "[''ef'', ''g'']"]
  by (simp add: buf_ok_def view_def buf_size_def)

end
