(* ===== verification/Httplib_Formdata.thy ===== *)
theory Httplib_Formdata
  imports Httplib_Multipart
begin

text \<open>
  Form data in the HTTP library (BackendServers/httplib.h): the body that \<open>serialize_multipart_formdata\<close> prints is
  read back by the parser of theory \<open>Httplib_Multipart\<close>, whatever pieces it arrives in. The proof keeps, for each state of the
  parser, what the bytes in its buffer and the bytes still to come amount to (\<open>underway\<close>, \<open>finished\<close>), and
  shows that every round of its loop keeps it and ends only where more bytes are needed.
\<close>


section \<open>Pieces of a text\<close>

text \<open>Searching the part of a text that has arrived.\<close>

lemma starts_with_append: "length s \<le> length t \<Longrightarrow> starts_with (t @ u) s \<longleftrightarrow> starts_with t s"
  by (auto simp: starts_with_nth nth_append)

lemma buf_find_arrived:
  assumes "buf_ok b" and "s \<noteq> []" and "view b @ R = T" and "find_str s T = Some k"
  shows "buf_find s b = (if k + length s \<le> buf_size b then k else buf_size b)"
proof -
  note len = length_view [OF assms(1)]
  have T: "starts_with (drop k T) s" "\<And>i. i < k \<Longrightarrow> \<not> starts_with (drop i T) s" using assms(4) find_str_Some by auto
  have d: "drop i T = drop i (view b) @ R" if "i \<le> buf_size b" for i using assms(3) that len by auto
  have imp: "starts_with (drop i (view b)) s \<Longrightarrow> starts_with (drop i T) s" if "i \<le> buf_size b" for i
    using d [OF that] by (auto simp: starts_with_nth nth_append)
  show ?thesis
  proof (cases "k + length s \<le> buf_size b")
    case True
    then have "starts_with (drop k (view b)) s" using T(1) d [of k] starts_with_append [of s "drop k (view b)" R] len by simp
    moreover have "\<not> starts_with (drop i (view b)) s" if "i < k" for i using T(2) [OF that] imp [of i] that True by auto
    ultimately have "find_str s (view b) = Some k" using True len by (simp add: find_str_Some)
    then show ?thesis using True buf_find_view [OF assms(1,2)] by simp
  next
    case False
    have "\<not> starts_with (drop i (view b)) s" if "i \<le> buf_size b" for i
    proof (cases "i < k")
      case True
      then show ?thesis using T(2) imp that by blast
    next
      case False
      then show ?thesis using \<open>\<not> k + length s \<le> buf_size b\<close> len that by (auto simp: starts_with_nth)
    qed
    then have "find_str s (view b) = None" using find_str_None len by simp
    then show ?thesis using False buf_find_view [OF assms(1,2)] by simp
  qed
qed

lemma length_crlf [simp]: "length crlf = 2" and crlf_not_Nil [simp]: "crlf \<noteq> []"
  by (simp_all add: crlf_def)

lemma find_crlf: "CHR 0x0D \<notin> set l \<Longrightarrow> find_str crlf (l @ crlf @ x) = Some (length l)"
  using find_str_skips [of crlf l "crlf @ x"] by (simp add: crlf_def)

lemma find_end:
  assumes "find_str s (c @ d @ s) = Some (length (c @ d))"
  shows "find_str s (d @ s @ x) = Some (length d)"
proof -
  have a: "\<not> starts_with (drop i (c @ d @ s)) s" if "i < length (c @ d)" for i
    using assms that by (simp add: find_str_Some)
  have "\<not> starts_with (drop i (d @ s @ x)) s" if "i < length d" for i
  proof -
    have "drop (length c + i) (c @ d @ s) = drop i (d @ s)" by simp
    moreover have "length s \<le> length (drop i (d @ s))" using that by simp
    moreover have "drop i (d @ s @ x) = drop i (d @ s) @ x" using that by simp
    ultimately show ?thesis using a [of "length c + i"] that starts_with_append by (metis add_less_cancel_left length_append)
  qed
  then show ?thesis by (auto simp: find_str_Some starts_with_iff)
qed

section \<open>A printed body\<close>

definition disposition_line :: "MultipartFormData \<Rightarrow> string" where
  "disposition_line j = ''Content-Disposition: form-data; name='' @ dquote (mp_name j) @
     (if mp_filename j \<noteq> [] then ''; filename='' @ dquote (mp_filename j) else [])"

definition part_lines :: "MultipartFormData \<Rightarrow> string list" where
  "part_lines j = disposition_line j # (if mp_content_type j \<noteq> [] then [''Content-Type: '' @ mp_content_type j] else [])"

definition lines_text :: "string list \<Rightarrow> string" where
  "lines_text ls = concat (map (\<lambda>l. l @ crlf) ls)"

text \<open>What follows a boundary, for the parts that are still to come.\<close>

fun after :: "string \<Rightarrow> MultipartFormData list \<Rightarrow> string" where
  "after bd [] = ''--'' @ crlf"
| "after bd (j # js) = crlf @ lines_text (part_lines j) @ crlf @ mp_content j @ crlf @ ''--'' @ bd @ after bd js"

lemma serialize_after: "js \<noteq> [] \<Longrightarrow> serialize_multipart_formdata js bd True = ''--'' @ bd @ after bd js"
proof (induction js rule: list_nonempty_induct)
  case (single j)
  then show ?case
    by (simp add: serialize_multipart_formdata_def serialize_multipart_formdata_item_begin_def
        serialize_multipart_formdata_finish_def lines_text_def part_lines_def disposition_line_def)
next
  case (cons j js)
  then show ?case
    by (simp add: serialize_multipart_formdata_def serialize_multipart_formdata_item_begin_def
        lines_text_def part_lines_def disposition_line_def)
qed

fun run_lines :: "string list \<Rightarrow> MultipartFormData \<Rightarrow> MultipartFormData option" where
  "run_lines [] f = Some f"
| "run_lines (l # ls) f = (case part_header l f of None \<Rightarrow> None | Some f \<Rightarrow> run_lines ls f)"

definition line_ok :: "string \<Rightarrow> bool" where
  "line_ok l \<longleftrightarrow> l \<noteq> [] \<and> CHR 0x0D \<notin> set l \<and> length l < 8192"

section \<open>The loops on a body that arrives in pieces\<close>

text \<open>The callbacks collect the parts.\<close>

definition collect_header :: "MultipartFormData list header_cb" where
  "collect_header f st = (True, st @ [f])"

definition collect_content :: "MultipartFormData list content_cb" where
  "collect_content d st = (True, butlast st @ [(last st)\<lparr>mp_content := mp_content (last st) @ d\<rparr>])"

text \<open>Of the text \<open>T\<close>, the bytes in the buffer have arrived and \<open>R\<close> is still to come.\<close>

definition holds :: "MultipartFormDataParser \<Rightarrow> string \<Rightarrow> string \<Rightarrow> bool" where
  "holds p R T \<longleftrightarrow> buf_ok (mp_buf p) \<and> view (mp_buf p) @ R = T"

lemma holds_prefix:
  assumes "holds p R (x @ T)" and "length x \<le> buf_size (mp_buf p)"
  obtains y where "view (mp_buf p) = x @ y" and "y @ R = T"
proof -
  have v: "view (mp_buf p) @ R = x @ T" "length x \<le> length (view (mp_buf p))"
    using assms length_view [of "mp_buf p"] by (auto simp: holds_def)
  then have "take (length x) (view (mp_buf p)) = x" by (metis append_eq_conv_conj take_append take_all_iff diff_is_0_eq take_0 append_Nil2)
  then have "view (mp_buf p) = x @ drop (length x) (view (mp_buf p))" by (metis append_take_drop_id)
  moreover from this have "drop (length x) (view (mp_buf p)) @ R = T" using v(1) by (metis append_assoc same_append_eq)
  ultimately show thesis using that by blast
qed

lemma holds_erase:
  assumes "holds p R (x @ T)" and "length x \<le> buf_size (mp_buf p)"
  shows "holds (erase (length x) p) R T"
proof -
  obtain y where "view (mp_buf p) = x @ y" "y @ R = T" using holds_prefix [OF assms] .
  then show ?thesis using assms buf_erase_view [of "mp_buf p" "length x"] by (simp add: holds_def erase_def)
qed

lemma holds_head:
  assumes "holds p R (x @ T)" and "length x \<le> buf_size (mp_buf p)"
  shows "buf_head (length x) (mp_buf p) = x"
proof -
  obtain y where "view (mp_buf p) = x @ y" "y @ R = T" using holds_prefix [OF assms] .
  then show ?thesis using assms buf_head_view [of "mp_buf p" "length x"] by (simp add: holds_def)
qed

lemma holds_size: "holds p [] T \<Longrightarrow> buf_size (mp_buf p) = length T"
  using length_view [of "mp_buf p"] by (auto simp: holds_def)

lemma holds_find:
  "holds p R T \<Longrightarrow> s \<noteq> [] \<Longrightarrow> find_str s T = Some k \<Longrightarrow>
     buf_find s (mp_buf p) = (if k + length s \<le> buf_size (mp_buf p) then k else buf_size (mp_buf p))"
  unfolding holds_def using buf_find_arrived by blast

lemma holds_starts:
  "holds p R T \<Longrightarrow> length s \<le> buf_size (mp_buf p) \<Longrightarrow> buf_start_with s (mp_buf p) \<longleftrightarrow> starts_with T s"
  using buf_start_with_view [of "mp_buf p" s] starts_with_append [of s "view (mp_buf p)" R] length_view [of "mp_buf p"]
  by (auto simp: holds_def)

lemma holds_update [simp]:
  "holds (p\<lparr>mp_file := f\<rparr>) R T = holds p R T" "holds (p\<lparr>mp_state := s\<rparr>) R T = holds p R T" "holds (p\<lparr>mp_is_valid := v\<rparr>) R T = holds p R T"
  by (simp_all add: holds_def)

lemma erase_simps [simp]:
  "mp_boundary (erase n p) = mp_boundary p" "mp_state (erase n p) = mp_state p" "mp_file (erase n p) = mp_file p"
  "mp_is_valid (erase n p) = mp_is_valid p" "buf_size (mp_buf (erase n p)) = buf_size (mp_buf p) - n"
  by (simp_all add: erase_def buf_erase_def buf_size_def)

text \<open>The header lines that have arrived are read; the loop stops in the body or waits for more.\<close>

lemma header_loop_lines:
  assumes "holds p R (lines_text ls @ crlf @ X)" and "run_lines ls (mp_file p) = Some f" and "list_all line_ok ls"
    and "mp_state p = Part_headers"
  shows "\<exists>p' st'. header_loop collect_header (buf_find crlf (mp_buf p)) p st = (True, p', st') \<and> mp_boundary p' = mp_boundary p
    \<and> (mp_state p' = Part_body \<and> holds p' R X \<and> mp_file p' = f \<and> st' = st @ [f]
       \<or> R \<noteq> [] \<and> mp_state p' = Part_headers \<and> st' = st
         \<and> (\<exists>ls'. holds p' R (lines_text ls' @ crlf @ X) \<and> run_lines ls' (mp_file p') = Some f \<and> list_all line_ok ls'))"
  using assms
proof (induction ls arbitrary: p)
  case Nil
  have f: "buf_find crlf (mp_buf p) = (if 2 \<le> buf_size (mp_buf p) then 0 else buf_size (mp_buf p))"
    using holds_find [of p R _ crlf 0] find_crlf [of "[]" X] Nil(1) by (simp add: lines_text_def)
  show ?case
  proof (cases "2 \<le> buf_size (mp_buf p)")
    case True
    then have "holds (erase 2 p) R X" using holds_erase [of p R crlf X] Nil(1) by (simp add: lines_text_def)
    then show ?thesis using True f Nil by (subst header_loop.simps) (simp add: collect_header_def)
  next
    case False
    then have "R \<noteq> []" using holds_size [of p] Nil(1) by auto
    moreover have "header_loop collect_header (buf_find crlf (mp_buf p)) p st = (True, p, st)"
      using False f by (subst header_loop.simps) simp
    ultimately show ?thesis using Nil by (auto intro: exI [of _ "[]"])
  qed
next
  case (Cons l ls)
  let ?X = "lines_text ls @ crlf @ X"
  have T: "holds p R (l @ crlf @ ?X)" using Cons.prems(1) by (simp add: lines_text_def)
  have l: "l \<noteq> []" "CHR 0x0D \<notin> set l" using Cons.prems(3) by (simp_all add: line_ok_def)
  have f: "buf_find crlf (mp_buf p) = (if length l + 2 \<le> buf_size (mp_buf p) then length l else buf_size (mp_buf p))"
    using holds_find [OF T, of crlf "length l"] find_crlf [OF l(2), of ?X] by simp
  show ?case
  proof (cases "length l + 2 \<le> buf_size (mp_buf p)")
    case True
    obtain f1 where f1: "part_header l (mp_file p) = Some f1" "run_lines ls f1 = Some f"
      using Cons.prems(2) by (auto split: option.splits)
    let ?p = "erase (length l + 2) (p\<lparr>mp_file := f1\<rparr>)"
    have "holds ?p R ?X" using holds_erase [of "p\<lparr>mp_file := f1\<rparr>" R "l @ crlf" ?X] T True by simp
    moreover have "buf_head (length l) (mp_buf p) = l" using holds_head [OF T] True by simp
    then have "header_loop collect_header (buf_find crlf (mp_buf p)) p st = header_loop collect_header (buf_find crlf (mp_buf ?p)) ?p st"
      using True f f1 l(1) by (subst header_loop.simps) (simp add: Let_def)
    ultimately show ?thesis using Cons.IH [of ?p] f1(2) Cons.prems(3,4) by simp
  next
    case False
    then have "R \<noteq> []" using holds_size [of p] T by auto
    moreover have "header_loop collect_header (buf_find crlf (mp_buf p)) p st = (True, p, st)"
      using False f by (subst header_loop.simps) simp
    ultimately show ?thesis using Cons.prems by blast
  qed
qed

abbreviation run :: "MultipartFormDataParser \<Rightarrow> MultipartFormData list \<Rightarrow> bool \<times> MultipartFormDataParser \<times> MultipartFormData list" where
  "run p st \<equiv> parse_loop collect_content collect_header p st"

definition closing :: "string \<Rightarrow> string" where
  "closing bd = crlf @ ''--'' @ bd"

lemma closing_boundary: "mp_boundary p = bd \<Longrightarrow> crlf_dash_boundary p = closing bd"
  by (simp add: crlf_dash_boundary_def closing_def)

lemma closing_simps [simp]: "closing bd \<noteq> []" "length (closing bd) = length bd + 4"
  by (simp_all add: closing_def)

text \<open>A part that the parser can read back: its header lines do, and the boundary does not occur in its content.\<close>

definition item_fits :: "string \<Rightarrow> MultipartFormData \<Rightarrow> bool" where
  "item_fits bd j \<longleftrightarrow> list_all line_ok (part_lines j)
     \<and> run_lines (part_lines j) \<lparr>mp_name = [], mp_content = [], mp_filename = [], mp_content_type = []\<rparr> = Some (j\<lparr>mp_content := []\<rparr>)
     \<and> find_str (closing bd) (mp_content j @ closing bd) = Some (length (mp_content j))"

text \<open>How far the parser has got: the parts \<open>st\<close> are collected (the last one perhaps not yet to its end).\<close>

definition underway :: "string \<Rightarrow> MultipartFormData list \<Rightarrow> MultipartFormDataParser \<Rightarrow> MultipartFormData list \<Rightarrow> string \<Rightarrow> bool" where
  "underway bd items p st R \<longleftrightarrow> (case mp_state p of
      Initial_boundary \<Rightarrow> False
    | New_entry \<Rightarrow> mp_content (mp_file p) = [] \<and> (\<exists>j js. items = st @ j # js
        \<and> holds p R (lines_text (part_lines j) @ crlf @ mp_content j @ closing bd @ after bd js))
    | Part_headers \<Rightarrow> (\<exists>j js ls. items = st @ j # js \<and> run_lines ls (mp_file p) = Some (j\<lparr>mp_content := []\<rparr>)
        \<and> list_all line_ok ls \<and> holds p R (lines_text ls @ crlf @ mp_content j @ closing bd @ after bd js))
    | Part_body \<Rightarrow> mp_content (mp_file p) = [] \<and> (\<exists>pre j js c d. items = pre @ j # js \<and> mp_content j = c @ d
        \<and> st = pre @ [j\<lparr>mp_content := c\<rparr>] \<and> holds p R (d @ closing bd @ after bd js))
    | Part_boundary \<Rightarrow> mp_content (mp_file p) = [] \<and> (\<exists>js. items = st @ js \<and> holds p R (after bd js)))"

lemma underway_body:
  "mp_state p = Part_body \<Longrightarrow> mp_content (mp_file p) = [] \<Longrightarrow> items = pre @ j # js \<Longrightarrow> mp_content j = c @ d
     \<Longrightarrow> st = pre @ [j\<lparr>mp_content := c\<rparr>] \<Longrightarrow> holds p R (d @ closing bd @ after bd js) \<Longrightarrow> underway bd items p st R"
  unfolding underway_def by (simp only: parse_state.case) blast

text \<open>All parts are collected; at most the last line end is left.\<close>

definition finished :: "MultipartFormData list \<Rightarrow> MultipartFormDataParser \<Rightarrow> MultipartFormData list \<Rightarrow> string \<Rightarrow> bool" where
  "finished items p st R \<longleftrightarrow> mp_is_valid p \<and> st = items
     \<and> (mp_state p = Part_boundary \<and> (holds p R crlf \<or> holds p R [CHR 0x0A] \<or> holds p R []) \<or> mp_state p = New_entry \<and> holds p R [])"

definition weight :: "MultipartFormDataParser \<Rightarrow> nat" where
  "weight p = 2 * buf_size (mp_buf p) + (if mp_state p = New_entry then 1 else 0)"

text \<open>One round of the loop: it either goes on with less to do or waits for the bytes to come.\<close>

definition round :: "string \<Rightarrow> MultipartFormData list \<Rightarrow> MultipartFormDataParser \<Rightarrow> MultipartFormData list \<Rightarrow> string \<Rightarrow> bool" where
  "round bd items p st R \<longleftrightarrow> (\<exists>p' st'. mp_boundary p' = bd \<and> (underway bd items p' st' R \<or> finished items p' st' R)
     \<and> (run p st = run p' st' \<and> weight p' < weight p
        \<or> run p st = (True, p', st') \<and> (R = [] \<longrightarrow> finished items p' st' R)))"

lemma round_goes_on:
  "run p st = run p' st' \<Longrightarrow> weight p' < weight p \<Longrightarrow> mp_boundary p' = bd \<Longrightarrow> underway bd items p' st' R \<or> finished items p' st' R
     \<Longrightarrow> round bd items p st R"
  unfolding round_def by blast

lemma round_waits:
  "run p st = (True, p', st') \<Longrightarrow> R \<noteq> [] \<Longrightarrow> mp_boundary p' = bd \<Longrightarrow> underway bd items p' st' R \<Longrightarrow> round bd items p st R"
  unfolding round_def by blast

lemma round_entry:
  assumes "underway bd items p st R" and "mp_state p = New_entry" and "0 < buf_size (mp_buf p)" and "mp_boundary p = bd"
    and "\<forall>j \<in> set items. item_fits bd j"
  shows "round bd items p st R"
proof -
  obtain j js where j: "items = st @ j # js" "mp_content (mp_file p) = []"
      "holds p R (lines_text (part_lines j) @ crlf @ mp_content j @ closing bd @ after bd js)"
    using assms(1,2) by (auto simp: underway_def)
  let ?p = "p\<lparr>mp_file := clear_file_info (mp_file p), mp_state := Part_headers\<rparr>"
  have "mp_file ?p = \<lparr>mp_name = [], mp_content = [], mp_filename = [], mp_content_type = []\<rparr>"
    using j(2) by (simp add: clear_file_info_def)
  moreover have "item_fits bd j" using assms(5) j(1) by simp
  ultimately have "underway bd items ?p st R" using j by (auto simp: underway_def item_fits_def)
  moreover have "run p st = run ?p st" using assms(2,3) by (subst parse_loop.simps) simp
  ultimately show ?thesis using assms(2,4) by (intro round_goes_on [of p st ?p st]) (simp_all add: weight_def)
qed

lemma round_headers:
  assumes "underway bd items p st R" and "mp_state p = Part_headers" and "0 < buf_size (mp_buf p)" and "mp_boundary p = bd"
  shows "round bd items p st R"
proof -
  obtain j js ls where j: "items = st @ j # js" "run_lines ls (mp_file p) = Some (j\<lparr>mp_content := []\<rparr>)" "list_all line_ok ls"
      "holds p R (lines_text ls @ crlf @ mp_content j @ closing bd @ after bd js)"
    using assms(1,2) by (auto simp: underway_def)
  let ?pos = "buf_find crlf (mp_buf p)"
  have "?pos \<le> 8192"
  proof (cases ls)
    case Nil
    then show ?thesis using holds_find [OF j(4), of crlf 0] find_crlf [of "[]"] by (simp add: lines_text_def)
  next
    case (Cons l ls')
    then have "CHR 0x0D \<notin> set l" "length l < 8192" using j(3) by (auto simp: line_ok_def)
    then show ?thesis
      using holds_find [OF j(4), of crlf "length l"] find_crlf [of l] Cons by (simp add: lines_text_def)
  qed
  moreover obtain p' st' where h: "header_loop collect_header ?pos p st = (True, p', st')" "mp_boundary p' = bd"
    "mp_state p' = Part_body \<and> holds p' R (mp_content j @ closing bd @ after bd js) \<and> mp_file p' = j\<lparr>mp_content := []\<rparr> \<and> st' = st @ [j\<lparr>mp_content := []\<rparr>]
     \<or> R \<noteq> [] \<and> mp_state p' = Part_headers \<and> st' = st \<and> (\<exists>ls'. holds p' R (lines_text ls' @ crlf @ mp_content j @ closing bd @ after bd js)
         \<and> run_lines ls' (mp_file p') = Some (j\<lparr>mp_content := []\<rparr>) \<and> list_all line_ok ls')"
    using header_loop_lines [OF j(4,2,3) assms(2)] assms(4) by blast
  ultimately have r: "run p st = (if mp_state p' \<noteq> Part_body then (True, p', st') else run p' st')"
    using assms(2,3) by (subst parse_loop.simps) (simp add: Let_def)
  from h(3) show ?thesis
  proof
    assume a: "mp_state p' = Part_body \<and> holds p' R (mp_content j @ closing bd @ after bd js) \<and> mp_file p' = j\<lparr>mp_content := []\<rparr> \<and> st' = st @ [j\<lparr>mp_content := []\<rparr>]"
    then have "underway bd items p' st' R"
      using j(1) by (intro underway_body [where pre = st and j = j and js = js and c = "[]" and d = "mp_content j"]) simp_all
    moreover have "weight p' < weight p" using header_loop_less [OF h(1)] a assms(2) by (simp add: weight_def)
    ultimately show ?thesis using a r h(2) by (intro round_goes_on [of p st p' st']) simp_all
  next
    assume a: "R \<noteq> [] \<and> mp_state p' = Part_headers \<and> st' = st \<and> (\<exists>ls'. holds p' R (lines_text ls' @ crlf @ mp_content j @ closing bd @ after bd js)
         \<and> run_lines ls' (mp_file p') = Some (j\<lparr>mp_content := []\<rparr>) \<and> list_all line_ok ls')"
    then have "underway bd items p' st' R" using j(1) by (auto simp: underway_def)
    then show ?thesis using a r h(2) by (intro round_waits [of p st p' st']) simp_all
  qed
qed

lemma round_body:
  assumes "underway bd items p st R" and "mp_state p = Part_body" and "0 < buf_size (mp_buf p)" and "mp_boundary p = bd"
    and "\<forall>j \<in> set items. item_fits bd j"
  shows "round bd items p st R"
proof -
  obtain pre j js c d where j: "items = pre @ j # js" "mp_content j = c @ d" "st = pre @ [j\<lparr>mp_content := c\<rparr>]"
      "holds p R (d @ closing bd @ after bd js)" "mp_content (mp_file p) = []"
    using assms(1,2) by (auto simp: underway_def)
  have cl: "crlf_dash_boundary p = closing bd" by (rule closing_boundary) (rule assms(4))
  have "find_str (closing bd) (c @ d @ closing bd) = Some (length (c @ d))"
    using assms(5) j(1,2) by (simp add: item_fits_def)
  then have fd: "find_str (closing bd) (d @ closing bd @ after bd js) = Some (length d)" by (rule find_end)
  let ?n = "buf_size (mp_buf p)"
  have pos: "buf_find (closing bd) (mp_buf p) = (if length d + (length bd + 4) \<le> ?n then length d else ?n)"
    using holds_find [OF j(4) _ fd] by simp
  have app: "collect_content x st = (True, pre @ [j\<lparr>mp_content := c @ x\<rparr>])" for x
    by (simp add: collect_content_def j(3))
  consider "length d + (length bd + 4) \<le> ?n" | "?n < length bd + 4" | "length bd + 4 \<le> ?n" "?n < length d + (length bd + 4)" by linarith
  then show ?thesis
  proof cases
    case 1
    let ?p = "(erase (length d + length (closing bd)) p)\<lparr>mp_state := Part_boundary\<rparr>"
    have "j\<lparr>mp_content := c @ d\<rparr> = j" unfolding j(2) [symmetric] by (cases j) simp
    moreover have "buf_head (length d) (mp_buf p) = d" using holds_head [OF j(4)] 1 by simp
    ultimately have "run p st = run ?p (pre @ [j])"
      using 1 pos assms(2,3) app [of d] by (subst parse_loop.simps) (simp add: cl Let_def)
    moreover have "holds ?p R (after bd js)" using holds_erase [of p R "d @ closing bd" "after bd js"] j(4) 1 by simp
    then have "underway bd items ?p (pre @ [j]) R" using j by (simp add: underway_def)
    moreover have "weight ?p < weight p" using assms(2,3) 1 by (simp add: weight_def)
    ultimately show ?thesis using assms(4) by (intro round_goes_on [of p st ?p "pre @ [j]"]) simp_all
  next
    case 2
    then have "run p st = (True, p, st)" using assms(2,3) by (subst parse_loop.simps) (simp add: cl)
    moreover have "R \<noteq> []" using 2 holds_size [of p] j(4) by auto
    ultimately show ?thesis using assms(1,4) by (intro round_waits [of p st p st])
  next
    case 3
    let ?len = "?n - (length bd + 4)"
    have "R \<noteq> []" using 3 holds_size [of p] j(4) by auto
    have tk: "take ?len d @ drop ?len d = d" by simp
    have h: "holds p R (take ?len d @ (drop ?len d @ closing bd @ after bd js))"
      using j(4) by (subst append_assoc [symmetric]) simp
    have l: "length (take ?len d) = ?len" using 3 by simp
    have hd: "buf_head ?len (mp_buf p) = take ?len d" using holds_head [OF h] l by simp
    have he: "holds (erase ?len p) R (drop ?len d @ closing bd @ after bd js)" using holds_erase [OF h] l by simp
    show ?thesis
    proof (cases "?len = 0")
      case True
      then have "run p st = (True, p, st)" using assms(2,3) 3 pos by (subst parse_loop.simps) (simp add: cl Let_def)
      then show ?thesis using assms(1,4) \<open>R \<noteq> []\<close> by (intro round_waits [of p st p st])
    next
      case False
      have "run p st = (True, erase ?len p, pre @ [j\<lparr>mp_content := c @ take ?len d\<rparr>])"
        using assms(2,3) 3 pos False app hd by (subst parse_loop.simps) (simp add: cl Let_def)
      moreover have "underway bd items (erase ?len p) (pre @ [j\<lparr>mp_content := c @ take ?len d\<rparr>]) R"
        using j he assms(2) tk
        by (intro underway_body [where pre = pre and j = j and js = js and c = "c @ take ?len d" and d = "drop ?len d"]) simp_all
      ultimately show ?thesis using assms(4) \<open>R \<noteq> []\<close> by (intro round_waits) simp_all
    qed
  qed
qed

lemma round_boundary:
  assumes "underway bd items p st R" and "mp_state p = Part_boundary" and "0 < buf_size (mp_buf p)" and "mp_boundary p = bd"
  shows "round bd items p st R"
proof -
  obtain js where js: "items = st @ js" "holds p R (after bd js)" "mp_content (mp_file p) = []"
    using assms(1,2) by (auto simp: underway_def)
  show ?thesis
  proof (cases "2 \<le> buf_size (mp_buf p)")
    case False
    then have "run p st = (True, p, st)" using assms(2,3) by (subst parse_loop.simps) simp
    moreover have "R \<noteq> []" using False holds_size [of p] js(2) by (cases js) auto
    ultimately show ?thesis using assms(1,4) by (intro round_waits [of p st p st])
  next
    case True
    show ?thesis
    proof (cases js)
      case (Cons j js')
      let ?p = "(erase 2 p)\<lparr>mp_state := New_entry\<rparr>"
      have "starts_with (after bd js) crlf" by (simp add: Cons starts_with_iff)
      then have "run p st = run ?p st"
        using holds_starts [OF js(2), of crlf] True assms(2,3) by (subst parse_loop.simps) simp
      moreover have "holds ?p R (lines_text (part_lines j) @ crlf @ mp_content j @ closing bd @ after bd js')"
        using holds_erase [of p R crlf] js(2) Cons True by (simp add: closing_def)
      then have "underway bd items ?p st R" using js Cons by (auto simp: underway_def)
      moreover have "weight ?p < weight p" using assms(2) True by (simp add: weight_def)
      ultimately show ?thesis using assms(4) by (intro round_goes_on [of p st ?p st]) simp_all
    next
      case Nil
      let ?p = "(erase 2 p)\<lparr>mp_is_valid := True\<rparr>"
      let ?q = "erase (buf_size (mp_buf ?p)) ?p"
      have "\<not> starts_with (after bd js) crlf" "starts_with (after bd js) ''--''" by (simp_all add: Nil crlf_def)
      then have "run p st = run ?q st"
        using holds_starts [OF js(2), of crlf] holds_starts [OF js(2), of "''--''"] True assms(2,3)
        by (subst parse_loop.simps) (simp add: Let_def)
      moreover have h: "holds ?p R crlf" using holds_erase [of p R "''--''" crlf] js(2) Nil True by (simp add: numeral_2_eq_2)
      have "holds ?q R (drop (buf_size (mp_buf ?p)) crlf)"
      proof -
        have "buf_size (mp_buf ?p) \<le> length crlf" using h length_view [of "mp_buf ?p"] by (auto simp: holds_def dest!: arg_cong [of _ _ length])
        then show ?thesis
          using holds_erase [of ?p R "take (buf_size (mp_buf ?p)) crlf" "drop (buf_size (mp_buf ?p)) crlf"] h by simp
      qed
      then have "holds ?q R crlf \<or> holds ?q R [CHR 0x0A] \<or> holds ?q R []"
        by (cases "buf_size (mp_buf ?p)"; cases "buf_size (mp_buf ?p) - 1") (auto simp: crlf_def)
      then have "finished items ?q st R" using js(1) Nil assms(2) by (simp add: finished_def)
      moreover have "weight ?q < weight p" using assms(2) True by (simp add: weight_def)
      ultimately show ?thesis using \<open>run p st = run ?q st\<close> assms(4) by (intro round_goes_on [of p st ?q st]) simp_all
    qed
  qed
qed

lemma round_finished:
  assumes "finished items p st R" and "0 < buf_size (mp_buf p)" and "mp_boundary p = bd"
  shows "round bd items p st R"
proof -
  have "mp_state p = Part_boundary" and T: "holds p R crlf \<or> holds p R [CHR 0x0A]" and v: "mp_is_valid p" "st = items"
    using assms(1,2) length_view [of "mp_buf p"] by (auto simp: finished_def holds_def)
  show ?thesis
  proof (cases "2 \<le> buf_size (mp_buf p)")
    case False
    then have "run p st = (True, p, st)" using \<open>mp_state p = Part_boundary\<close> by (subst parse_loop.simps) simp
    then show ?thesis using assms(1,3) unfolding round_def by blast
  next
    case True
    have "buf_size (mp_buf p) \<le> length T" if "holds p R T" for T
      using that length_view [of "mp_buf p"] by (auto simp: holds_def dest!: arg_cong [of _ _ length])
    then have c: "holds p R crlf" using T True by fastforce
    let ?p = "(erase 2 p)\<lparr>mp_state := New_entry\<rparr>"
    have "run p st = run ?p st"
      using holds_starts [OF c, of crlf] True \<open>mp_state p = Part_boundary\<close> by (subst parse_loop.simps) (simp add: starts_with_iff)
    moreover have "holds ?p R []" using holds_erase [of p R crlf "[]"] c True by simp
    then have "finished items ?p st R" using v by (simp add: finished_def)
    moreover have "weight ?p < weight p" using \<open>mp_state p = Part_boundary\<close> True by (simp add: weight_def)
    ultimately show ?thesis using assms(3) by (intro round_goes_on [of p st ?p st]) simp_all
  qed
qed

lemma run_pieces:
  assumes "underway bd items p st R \<or> finished items p st R" and "mp_boundary p = bd" and "\<forall>j \<in> set items. item_fits bd j"
  shows "\<exists>p' st'. run p st = (True, p', st') \<and> mp_boundary p' = bd \<and> (underway bd items p' st' R \<or> finished items p' st' R)
    \<and> (R = [] \<longrightarrow> finished items p' st' R)"
  using assms(1,2)
proof (induction "weight p" arbitrary: p st rule: less_induct)
  case less
  show ?case
  proof (cases "buf_size (mp_buf p) = 0")
    case True
    then have r: "run p st = (True, p, st)" by (subst parse_loop.simps) simp
    have "\<not> underway bd items p st []"
    proof
      assume "underway bd items p st []"
      then obtain T where "holds p [] T" "T \<noteq> []"
      proof (cases "mp_state p")
        case Part_boundary
        then obtain js where "holds p [] (after bd js)" using \<open>underway bd items p st []\<close> by (auto simp: underway_def)
        then show ?thesis using that [of "after bd js"] by (cases js) auto
      qed (auto simp: underway_def)
      then show False using True holds_size [of p] by auto
    qed
    then show ?thesis using less.prems r by blast
  next
    case False
    then have z: "0 < buf_size (mp_buf p)" by simp
    from less.prems(1) have "round bd items p st R"
    proof
      assume u: "underway bd items p st R"
      show ?thesis
      proof (cases "mp_state p")
        case New_entry
        then show ?thesis by (rule round_entry [OF u _ z less.prems(2) assms(3)])
      next
        case Part_headers
        then show ?thesis by (rule round_headers [OF u _ z less.prems(2)])
      next
        case Part_body
        then show ?thesis by (rule round_body [OF u _ z less.prems(2) assms(3)])
      next
        case Part_boundary
        then show ?thesis by (rule round_boundary [OF u _ z less.prems(2)])
      qed (use u in \<open>simp add: underway_def\<close>)
    qed (rule round_finished [OF _ z less.prems(2)])
    then show ?thesis using less.hyps unfolding round_def by metis
  qed
qed


section \<open>Header lines of a part\<close>

definition name_char :: "char \<Rightarrow> bool" where
  "name_char c \<longleftrightarrow> is_field_vchar c \<and> c \<noteq> CHR 0x22 \<and> c \<noteq> CHR '';'' \<and> c \<noteq> CHR ''=''"

text \<open>A part as the library prints it without ambiguity: the names are free of quotes, separators and blanks.\<close>

definition item_ok :: "string \<Rightarrow> MultipartFormData \<Rightarrow> bool" where
  "item_ok bd j \<longleftrightarrow> list_all name_char (mp_name j) \<and> list_all name_char (mp_filename j)
     \<and> (mp_content_type j \<noteq> [] \<longrightarrow> is_field_value (mp_content_type j))
     \<and> length (mp_name j) + length (mp_filename j) < 8000 \<and> length (mp_content_type j) < 8000
     \<and> find_str (closing bd) (mp_content j @ closing bd) = Some (length (mp_content j))"

lemma start_with_case_ignore_self [simp]: "start_with_case_ignore (a @ x) a"
  by (auto simp: start_with_case_ignore_def list_all_iff nth_append)

lemma name_char_field: "name_char c \<Longrightarrow> field_char c \<and> is_field_vchar c \<and> \<not> is_space_or_tab c \<and> \<not> c_isspace c"
  by (auto simp: name_char_def field_char_def is_field_vchar_def is_vchar_def is_obs_text_def is_space_or_tab_def c_isspace_def code_def)

lemma trim_dquote: "trim_double_quotes_copy (dquote s) = s"
  by (simp add: trim_double_quotes_copy_def dquote_def)

lemma trim_plain: "s \<noteq> [] \<Longrightarrow> hd s \<noteq> CHR 0x22 \<Longrightarrow> trim_double_quotes_copy s = s"
  by (simp add: trim_double_quotes_copy_def)

lemma strip_dquoted: "(\<And>c. c \<in> set k \<Longrightarrow> \<not> is_space_or_tab c) \<Longrightarrow> list_all name_char v \<Longrightarrow> strip (k @ ''='' @ dquote v) = k @ ''='' @ dquote v"
  using name_char_field by (intro strip_plain) (auto simp: dquote_def list_all_iff is_space_or_tab_def)

lemma disposition_pair_dquote:
  assumes "list_all name_char v" and "k \<noteq> []" and "\<And>c. c \<in> set k \<Longrightarrow> \<not> is_space_or_tab c \<and> c \<noteq> CHR ''=''"
    and "int (length k + length v) < 2 ^ 63"
  shows "disposition_pair (k @ ''='' @ dquote v) = (k, dquote v)"
proof -
  have v: "CHR ''='' \<notin> set (dquote v)" using assms(1) by (auto simp: dquote_def list_all_iff name_char_def)
  have "split_on (CHR ''='') (k @ CHR ''='' # dquote v) = [k, dquote v]"
    using split_on_token [of "CHR ''=''" k "dquote v"] split_on_atom [OF v] assms(3) by auto
  moreover have "strip k = k" using assms(3) by (intro strip_plain) blast
  moreover have "strip (dquote v) = dquote v"
    using assms(1) name_char_field by (intro strip_plain) (auto simp: dquote_def list_all_iff is_space_or_tab_def)
  ultimately have "split_text (k @ CHR ''='' # dquote v) (CHR ''='') = [k, dquote v]"
    using assms(2,4) by (subst split_text_eq) (simp_all add: dquote_def)
  then show ?thesis by (simp add: disposition_pair_def)
qed

lemma disposition_params:
  assumes "list_all name_char n" and "list_all name_char f" and "length n + length f < 8000"
  shows "parse_disposition_params (''name='' @ dquote n @ (if f \<noteq> [] then ''; filename='' @ dquote f else [])) []
    = (if f \<noteq> [] then [(''filename'', f)] else []) @ [(''name'', n)]"
proof -
  have nn: "CHR '';'' \<notin> set (''name='' @ dquote n)" and ff: "CHR '';'' \<notin> set ('' filename='' @ dquote f)"
    using assms(1,2) by (auto simp: dquote_def list_all_iff name_char_def)
  have sn: "strip (''name='' @ dquote n) = ''name='' @ dquote n" and sf: "strip (''filename='' @ dquote f) = ''filename='' @ dquote f"
    using strip_dquoted [of "''name''" n] strip_dquoted [of "''filename''" f] assms(1,2) by (auto simp: is_space_or_tab_def)
  have pn: "disposition_pair (''name='' @ dquote n) = (''name'', dquote n)"
    and pf: "disposition_pair (''filename='' @ dquote f) = (''filename'', dquote f)"
    using disposition_pair_dquote [of n "''name''"] disposition_pair_dquote [of f "''filename''"] assms
    by (auto simp: is_space_or_tab_def)
  show ?thesis
  proof (cases "f = []")
    case True
    have "split_text (''name='' @ dquote n) (CHR '';'') = [''name='' @ dquote n]"
      using nn sn assms(3) by (subst split_text_eq) (simp_all add: split_on_atom dquote_def del: split_on.simps)
    then show ?thesis using True pn by (simp add: parse_disposition_params_def trim_dquote trim_plain)
  next
    case False
    have sf': "strip ('' filename='' @ dquote f) = ''filename='' @ dquote f"
      using sf by (simp add: strip_def is_space_or_tab_def)
    have "split_on (CHR '';'') (''name='' @ dquote n @ ''; filename='' @ dquote f) = [''name='' @ dquote n, '' filename='' @ dquote f]"
      using split_on_token [OF nn, of "'' filename='' @ dquote f"] split_on_atom [OF ff] by (simp del: split_on.simps)
    then have "split_text (''name='' @ dquote n @ ''; filename='' @ dquote f) (CHR '';'') = [''name='' @ dquote n, ''filename='' @ dquote f]"
      using sn sf' assms(3) by (subst split_text_eq) (simp_all add: dquote_def del: split_on.simps)
    then show ?thesis using False pn pf by (simp add: parse_disposition_params_def trim_dquote trim_plain)
  qed
qed

lemma disposition_not_type: "\<not> start_with_case_ignore (''Content-Disposition:'' @ x) ''Content-Type:''"
proof -
  have "to_lower (CHR ''D'') \<noteq> to_lower (CHR ''T'')" by code_simp
  then have "to_lower ((''Content-Disposition:'' @ x) ! 8) \<noteq> to_lower (''Content-Type:'' ! 8)" by simp
  moreover have "8 \<in> set [0..<length ''Content-Type:'']" by simp
  ultimately show ?thesis unfolding start_with_case_ignore_def list_all_iff by blast
qed

lemma disposition_line_header:
  assumes "list_all name_char n" and "list_all name_char f"
  shows "parse_header (''Content-Disposition: form-data; name='' @ dquote n @ (if f \<noteq> [] then ''; filename='' @ dquote f else [])) \<noteq> None"
    and "no_line_end (''name='' @ dquote n @ (if f \<noteq> [] then ''; filename='' @ dquote f else []))"
proof -
  let ?t = "''name='' @ dquote n @ (if f \<noteq> [] then ''; filename='' @ dquote f else [])"
  let ?v = "''form-data; '' @ ?t"
  have fc: "field_char c" if "c \<in> set ''form-data; name=filename=''" for c
    using that by (auto simp: field_char_def is_field_vchar_def is_vchar_def code_def)
  have q: "is_field_vchar (CHR 0x22)" by (simp add: is_field_vchar_def is_vchar_def code_def)
  have all: "field_char c" if "c \<in> set ?v" for c
    using that assms name_char_field fc q by (auto simp: dquote_def list_all_iff field_char_def split: if_splits)
  have "is_field_value ?v"
  proof (rule is_field_valueI)
    show "is_field_vchar (hd ?v)" by (simp add: is_field_vchar_def is_vchar_def code_def)
    show "is_field_vchar (last ?v)" using q by (simp add: dquote_def)
  qed (use all in auto)
  moreover have "is_field_name ''Content-Disposition''" by code_simp
  ultimately show "parse_header (''Content-Disposition: form-data; name='' @ dquote n @ (if f \<noteq> [] then ''; filename='' @ dquote f else [])) \<noteq> None"
    using parse_header_text [of "''Content-Disposition''" ?v] by (simp add: header_clean_def)
  have "c \<noteq> CHR 0x0A \<and> c \<noteq> CHR 0x0D" if "c \<in> set ?t" for c
    using all [of c] that field_char_not_control [of c] by (simp only: set_append Un_iff simp_thms)
  then show "no_line_end ?t" unfolding no_line_end_def by blast
qed

lemma disposition_line_read:
  assumes "list_all name_char (mp_name j)" and "list_all name_char (mp_filename j)"
    and "length (mp_name j) + length (mp_filename j) < 8000" and "mp_filename g = []"
  shows "part_header (disposition_line j) g = Some (g\<lparr>mp_name := mp_name j, mp_filename := mp_filename j\<rparr>)"
proof -
  let ?t = "''name='' @ dquote (mp_name j) @ (if mp_filename j \<noteq> [] then ''; filename='' @ dquote (mp_filename j) else [])"
  have l: "disposition_line j = ''Content-Disposition:'' @ '' form-data; '' @ ?t" by (simp add: disposition_line_def)
  have "start_with_case_ignore (''form-data;'' @ '' '' @ ?t) ''form-data;''" by (rule start_with_case_ignore_self)
  then have "match_content_disposition (disposition_line j) = Some ?t"
    unfolding l match_content_disposition_def using disposition_line_header(2) [OF assms(1,2)]
      start_with_case_ignore_self [of "''Content-Disposition:''" "'' form-data; '' @ ?t"]
    by (simp add: c_isspace_def code_def)
  moreover have "parse_header (disposition_line j) \<noteq> None"
    using disposition_line_header(1) [OF assms(1,2)] by (simp add: disposition_line_def)
  moreover have "\<not> start_with_case_ignore (disposition_line j) ''Content-Type:''"
    unfolding l by (rule disposition_not_type)
  ultimately show ?thesis
    using disposition_params [OF assms(1-3)] assms(4) by (auto simp: part_header_def mm_range_def Let_def)
qed

lemma type_line_read:
  assumes "is_field_value t" and "t \<noteq> []"
  shows "part_header (''Content-Type: '' @ t) g = Some (g\<lparr>mp_content_type := t\<rparr>)"
proof -
  have "is_field_name ''Content-Type''" by code_simp
  then have "parse_header (''Content-Type: '' @ t) \<noteq> None"
    using parse_header_text [of "''Content-Type''" t] assms(1) by (simp add: header_clean_def)
  moreover have "start_with_case_ignore (''Content-Type: '' @ t) ''Content-Type:''"
    using start_with_case_ignore_self [of "''Content-Type:''" "'' '' @ t"] by simp
  moreover have "strip ('' '' @ t) = t"
  proof -
    have "\<not> is_space_or_tab (hd t)" "\<not> is_space_or_tab (last t)"
      using field_value_ends [OF assms] vchar_not_blank by auto
    then have "dropWhile is_space_or_tab t = t" "dropWhile is_space_or_tab (rev t) = rev t"
      by (simp_all add: dropWhile_eq_self_iff hd_rev)
    then show ?thesis by (simp add: strip_def is_space_or_tab_def)
  qed
  ultimately show ?thesis by (simp add: part_header_def trim_copy_eq)
qed

lemma item_ok_fits: "item_ok bd j \<Longrightarrow> item_fits bd j"
proof -
  assume ok: "item_ok bd j"
  have "CHR 0x0D \<notin> set (disposition_line j)"
    using ok name_char_field field_char_not_control by (fastforce simp: disposition_line_def item_ok_def dquote_def list_all_iff)
  moreover have "CHR 0x0D \<notin> set (mp_content_type j)"
    using ok is_field_value_chars [of "mp_content_type j"] field_char_not_control by (cases "mp_content_type j = []") (auto simp: item_ok_def)
  ultimately have "list_all line_ok (part_lines j)"
    using ok by (auto simp: part_lines_def line_ok_def item_ok_def disposition_line_def dquote_def)
  moreover have "run_lines (part_lines j) \<lparr>mp_name = [], mp_content = [], mp_filename = [], mp_content_type = []\<rparr> = Some (j\<lparr>mp_content := []\<rparr>)"
    using ok disposition_line_read [of j] type_line_read [of "mp_content_type j"] by (cases j) (simp add: part_lines_def item_ok_def)
  ultimately show ?thesis using ok by (simp add: item_fits_def item_ok_def)
qed

section \<open>A body in pieces\<close>

text \<open>The calls of the parser for the pieces in the order they arrive, up to the first that fails.\<close>

fun feed :: "'s content_cb \<Rightarrow> 's header_cb \<Rightarrow> string list \<Rightarrow> MultipartFormDataParser \<Rightarrow> 's \<Rightarrow> bool \<times> MultipartFormDataParser \<times> 's" where
  "feed ccb hcb [] p st = (True, p, st)"
| "feed ccb hcb (d # ds) p st =
     (case parse_multipart ccb hcb d p st of (False, p, st) \<Rightarrow> (False, p, st) | (True, p, st) \<Rightarrow> feed ccb hcb ds p st)"

lemma holds_append: "holds p (d @ R) T \<Longrightarrow> holds (p\<lparr>mp_buf := buf_append d (mp_buf p)\<rparr>) R T"
  using buf_append_view [of "mp_buf p" d] by (simp add: holds_def)

lemma underway_append: "underway bd items p st (d @ R) \<Longrightarrow> underway bd items (p\<lparr>mp_buf := buf_append d (mp_buf p)\<rparr>) st R"
  by (cases "mp_state p") (auto simp: underway_def dest!: holds_append, blast+)

lemma finished_append: "finished items p st (d @ R) \<Longrightarrow> finished items (p\<lparr>mp_buf := buf_append d (mp_buf p)\<rparr>) st R"
  by (auto simp: finished_def dest!: holds_append)

lemma feed_pieces:
  assumes "underway bd items p st (concat ds) \<or> finished items p st (concat ds)" and "mp_boundary p = bd"
    and "\<forall>j \<in> set items. item_fits bd j" and "ds = [] \<Longrightarrow> finished items p st []"
  shows "\<exists>p'. feed collect_content collect_header ds p st = (True, p', items) \<and> mp_is_valid p'"
  using assms(1,2,4)
proof (induction ds arbitrary: p st)
  case Nil
  then show ?case by (auto simp: finished_def)
next
  case (Cons d ds)
  let ?p = "p\<lparr>mp_buf := buf_append d (mp_buf p)\<rparr>"
  have "underway bd items ?p st (concat ds) \<or> finished items ?p st (concat ds)"
    using Cons.prems(1) underway_append finished_append by auto
  then obtain p' st' where o: "run ?p st = (True, p', st')" "mp_boundary p' = bd"
      "underway bd items p' st' (concat ds) \<or> finished items p' st' (concat ds)" "concat ds = [] \<longrightarrow> finished items p' st' (concat ds)"
    using run_pieces [of bd items ?p st "concat ds"] assms(3) Cons.prems(2) by auto
  have "ds = [] \<Longrightarrow> finished items p' st' []" using o(4) by simp
  then have "\<exists>p''. feed collect_content collect_header ds p' st' = (True, p'', items) \<and> mp_is_valid p''"
    using Cons.IH [OF o(3,2)] by blast
  then show ?case using o(1) by (simp add: parse_multipart_def)
qed

lemma feed_body:
  assumes "items \<noteq> []" and "\<forall>j \<in> set items. item_fits bd j"
    and "d @ concat ds = serialize_multipart_formdata items bd True" and "length bd + 4 \<le> length d"
  shows "\<exists>p. feed collect_content collect_header (d # ds) (new_parser bd) [] = (True, p, items) \<and> mp_is_valid p"
proof -
  obtain j js where j: "items = j # js" using assms(1) by (cases items) auto
  let ?p = "(new_parser bd)\<lparr>mp_buf := buf_append d (mp_buf (new_parser bd))\<rparr>"
  let ?dash = "''--'' @ bd @ crlf"
  let ?T = "lines_text (part_lines j) @ crlf @ mp_content j @ closing bd @ after bd js"
  have "buf_ok (mp_buf (new_parser bd))" "view (mp_buf (new_parser bd)) = []"
    by (simp_all add: new_parser_def buf_ok_def view_def)
  then have b: "buf_ok (mp_buf ?p)" "view (mp_buf ?p) = d" using buf_append_view [of "mp_buf (new_parser bd)" d] by simp_all
  then have size: "buf_size (mp_buf ?p) = length d" using length_view by force
  have h: "holds ?p (concat ds) (?dash @ ?T)"
    using b assms(3) serialize_after [OF assms(1), of bd] j by (simp add: holds_def closing_def)
  have db: "dash_boundary_crlf ?p = ?dash" by (simp add: dash_boundary_crlf_def new_parser_def)
  have "find_str ?dash (?dash @ ?T) = Some 0" by (simp add: find_str_Some starts_with_iff)
  then have f0: "buf_find ?dash (mp_buf ?p) = 0" using holds_find [OF h, of ?dash 0] assms(4) size by simp
  have e0: "erase 0 ?p = ?p" by (simp add: erase_def buf_erase_def)
  let ?q = "(erase (length ?dash) ?p)\<lparr>mp_state := New_entry\<rparr>"
  have "starts_with (?dash @ ?T) ?dash" by (simp add: starts_with_iff del: append_assoc)
  then have "buf_start_with ?dash (mp_buf ?p)" using holds_starts [OF h, of ?dash] assms(4) size by simp
  then have r: "run ?p [] = run ?q []"
    using f0 e0 db size assms(4) by (subst parse_loop.simps) (auto simp: Let_def new_parser_def)
  have u: "underway bd items ?q [] (concat ds)"
    using holds_erase [OF h] assms(4) size j by (simp add: underway_def) (simp add: new_parser_def)
  have "mp_boundary ?q = bd" by (simp add: new_parser_def)
  then obtain p' st' where p': "run ?q [] = (True, p', st')" "mp_boundary p' = bd"
      "underway bd items p' st' (concat ds) \<or> finished items p' st' (concat ds)" "concat ds = [] \<longrightarrow> finished items p' st' (concat ds)"
    using run_pieces [OF disjI1 [OF u] _ assms(2)] by blast
  have "ds = [] \<Longrightarrow> finished items p' st' []" using p'(4) by simp
  then obtain p2 where "feed collect_content collect_header ds p' st' = (True, p2, items)" "mp_is_valid p2"
    using feed_pieces [OF p'(3,2) assms(2)] by blast
  then show ?thesis using p'(1) r by (simp add: parse_multipart_def)
qed

text \<open>C37: A multipart body that the library prints is taken apart into the same parts, names, types and contents, whatever
  pieces it arrives in, and is accepted as complete, as long as the first piece has the whole first boundary line; the names are
  free of quotes, separators and blanks, and no content has the boundary in it.\<close>

theorem multipart_roundtrip:
  assumes "items \<noteq> []" and "\<forall>j \<in> set items. item_ok bd j"
    and "d @ concat ds = serialize_multipart_formdata items bd True" and "length bd + 4 \<le> length d"
  shows "\<exists>p. feed collect_content collect_header (d # ds) (new_parser bd) [] = (True, p, items) \<and> mp_is_valid p"
  using feed_body [OF assms(1) _ assms(3,4)] assms(2) item_ok_fits by blast

theorem multipart_roundtrip_witness:
  "\<exists>p. feed collect_content collect_header
      [''--b'' @ crlf @ ''Content-Dis'', ''position: form-data; name='' @ dquote ''k'' @ crlf @ crlf @ ''v'' @ [CHR 0x0D],
       [CHR 0x0A] @ ''-'', ''-b-'', ''-'' @ crlf] (new_parser ''b'') []
    = (True, p, [\<lparr>mp_name = ''k'', mp_content = ''v'', mp_filename = [], mp_content_type = []\<rparr>]) \<and> mp_is_valid p"
proof (rule multipart_roundtrip)
  show "\<forall>j \<in> set [\<lparr>mp_name = ''k'', mp_content = ''v'', mp_filename = [], mp_content_type = []\<rparr>]. item_ok ''b'' j"
    by (simp add: item_ok_def closing_def crlf_def name_char_def is_field_vchar_def is_vchar_def code_def)
qed (simp_all add: serialize_multipart_formdata_def serialize_multipart_formdata_item_begin_def
    serialize_multipart_formdata_finish_def crlf_def)

text \<open>A first piece that ends inside the first boundary is thrown away, and the part with it: the complete body is not accepted.\<close>

lemma split_first_boundary_lost:
  "(case feed collect_content collect_header
       [''--'', ''b'' @ crlf @ ''Content-Disposition: form-data; name='' @ dquote ''k'' @ crlf @ crlf @ ''v'' @ crlf @ ''--b--'' @ crlf]
       (new_parser ''b'') [] of (ok, p, parts) \<Rightarrow> ok \<and> parts = [] \<and> \<not> mp_is_valid p)"
  by code_simp

end
