(* ===== verification/Httplib_Server.thy ===== *)
theory Httplib_Server
  imports Httplib_Router Httplib_Multipart
begin

text \<open>
  How the HTTP library's server answers a request (BackendServers/httplib.h, the member functions of \<open>Server\<close>): the
  request line, the body of the request, files below the mount points, the routing, the ranges, and the response.

  The build has no compression library, so the parts of the code for them are absent, and no assertions. The file system, the random text of
  the boundary, and the answers of the listening socket and of the connection while a response is written are the
  record \<open>environment\<close>. A computation that may throw or not return has the type \<open>outcome\<close>: \<open>None\<close> where it does not return,
  because a content provider goes on for ever. The calls of the logger are left out.

  Shown: what the request line must look like; a request that cannot be read is answered with the status that the code names;
  the length that the header announces is the length of the body sent; where an exception of a handler ends.
\<close>

section \<open>The environment\<close>

record environment =
  fs_is_dir :: "string \<Rightarrow> bool"
  fs_is_file :: "string \<Rightarrow> bool"
  fs_mmap :: "string \<Rightarrow> string option"
  random_text :: string
  is_shutting_down :: "nat \<Rightarrow> nat \<Rightarrow> bool"
  wait_writable :: "nat \<Rightarrow> nat \<Rightarrow> bool"

text \<open>\<open>is_shutting_down\<close> and \<open>wait_writable\<close> are asked for in each round of each call of \<open>write_content\<close>: the first
  argument counts the calls, the second the rounds.\<close>

type_synonym 'a outcome = "(thrown + 'a) option"

definition no_compression :: compression where
  "no_compression = \<lparr>brotli_support = False, zlib_support = False, zstd_support = False, compress = (\<lambda>_ _. None)\<rparr>"

text \<open>What escapes as an exception of the standard library.\<close>

definition lift_exc :: "'a exc \<Rightarrow> thrown + 'a" where
  "lift_exc r = map_sum StdException id r"

section \<open>The request line\<close>

definition request_methods :: "string list" where
  "request_methods = [''GET'', ''HEAD'', ''POST'', ''PUT'', ''DELETE'', ''CONNECT'', ''OPTIONS'', ''TRACE'', ''PATCH'', ''PRI'']"

text \<open>The switch of the lambda, for the first three pieces.\<close>

definition set_line_fields :: "string list \<Rightarrow> Request \<Rightarrow> Request" where
  "set_line_fields ps rq =
     (let rq = (if length ps > 0 then rq\<lparr>rq_method := ps ! 0\<rparr> else rq);
          rq = (if length ps > 1 then rq\<lparr>rq_target := ps ! 1\<rparr> else rq)
      in if length ps > 2 then rq\<lparr>rq_version := ps ! 2\<rparr> else rq)"

definition parse_request_line :: "string \<Rightarrow> Request \<Rightarrow> bool \<times> Request" where
  "parse_request_line s rq =
     (let s = c_str s; len = length s
      in if len < 2 \<or> s ! (len - 2) \<noteq> CHR 0x0D \<or> s ! (len - 1) \<noteq> CHR 0x0A then (False, rq)
         else
           let ps = split_text (take (len - 2) s) (CHR '' '');
               rq = set_line_fields ps rq
           in if length ps \<noteq> 3 then (False, rq)
              else if rq_method rq \<notin> set request_methods then (False, rq)
              else if rq_version rq \<noteq> ''HTTP/1.1'' \<and> rq_version rq \<noteq> ''HTTP/1.0'' then (False, rq)
              else
                let target = takeWhile (\<lambda>c. c \<noteq> CHR ''#'') (rq_target rq)
                in case divide_at (CHR ''?'') target of
                     (lhs, rhs) \<Rightarrow>
                       (True, rq\<lparr>rq_target := target, rq_path := decode_url lhs False,
                                 rq_params := parse_query_text rhs (rq_params rq)\<rparr>))"

section \<open>The body of a request\<close>

text \<open>The callbacks; one that is absent throws when it is called. The flag in the state records that, and the
  callback then stops the reading as the exception does.\<close>

record 'r receivers =
  receiver :: "'r content_cb option"
  multipart_header :: "'r header_cb option"
  multipart_receiver :: "'r content_cb option"

definition call :: "('a \<Rightarrow> 'r \<Rightarrow> bool \<times> 'r) option \<Rightarrow> 'a \<Rightarrow> bool \<times> 'r \<Rightarrow> bool \<times> bool \<times> 'r" where
  "call f x st =
     (case f of
        None \<Rightarrow> (False, True, snd st)
      | Some g \<Rightarrow> (case g x (snd st) of (b, r) \<Rightarrow> (b, fst st, r)))"

text \<open>The state of the closure \<open>out\<close>: the parser and the state of the callbacks.\<close>

definition multipart_out :: "'r receivers \<Rightarrow> (MultipartFormDataParser \<times> bool \<times> 'r) receiver" where
  "multipart_out cbs d off len st =
     (case parse_multipart (call (multipart_receiver cbs)) (call (multipart_header cbs)) d (fst st) (snd st) of
        (b, p, st) \<Rightarrow> (b, p, st))"

definition plain_out :: "'r receivers \<Rightarrow> (MultipartFormDataParser \<times> bool \<times> 'r) receiver" where
  "plain_out cbs d off len st = (case call (receiver cbs) d (snd st) of (b, st') \<Rightarrow> (b, fst st, st'))"

definition read_content_core ::
    "Server \<Rightarrow> 'r receivers \<Rightarrow> Request \<Rightarrow> Response \<Rightarrow> 'r \<Rightarrow> strm \<Rightarrow> (thrown + bool) \<times> Request \<times> Response \<times> 'r \<times> strm" where
  "read_content_core svr cbs rq rs r s =
     (let multipart = is_multipart_form_data rq;
          boundary = parse_multipart_boundary (get_header_value (rq_headers rq) ''Content-Type'' '''' 0)
      in if multipart \<and> boundary = None then (Inr False, rq, rs\<lparr>rs_status := 400\<rparr>, r, s)
         else if rq_method rq = ''DELETE'' \<and> \<not> has_header (rq_headers rq) ''Content-Length'' then (Inr True, rq, rs, r, s)
         else
           case read_content (payload_max_length svr) (rs_status rs) (if multipart then multipart_out cbs else plain_out cbs)
                  True (rq_headers rq) (new_parser (case boundary of Some b \<Rightarrow> b | None \<Rightarrow> []), False, r) s of
             (ret, status, headers, (p, absent, r), s) \<Rightarrow>
               if absent then (Inl (StdException bad_function_call), rq, rs, r, s)
               else
                 let rq = rq\<lparr>rq_headers := headers\<rparr>; rs = rs\<lparr>rs_status := status\<rparr>
                 in if \<not> ret then (Inr False, rq, rs, r, s)
                    else if is_multipart_form_data rq \<and> \<not> mp_is_valid p then (Inr False, rq, rs\<lparr>rs_status := 400\<rparr>, r, s)
                    else (Inr True, rq, rs, r, s))"

text \<open>The state of the callbacks of \<open>read_content\<close>: the body, the files, the name of the entry that \<open>cur\<close> points
  to (the newest with its name), and the number of files.\<close>

record body_state =
  bs_body :: string
  bs_files :: "MultipartFormData multimap"
  bs_cur :: "string option"
  bs_file_count :: nat

definition string_max_size :: nat where
  "string_max_size = 2 ^ 63 - 1"

text \<open>Change the newest entry with a key.\<close>

fun mm_update_newest :: "string \<Rightarrow> ('v \<Rightarrow> 'v) \<Rightarrow> 'v multimap \<Rightarrow> 'v multimap" where
  "mm_update_newest k f [] = []"
| "mm_update_newest k f ((k', v) # m) =
     (if k' = k \<and> k \<notin> fst ` set m then (k', f v) # m else (k', v) # mm_update_newest k f m)"

definition append_body :: "body_state content_cb" where
  "append_body d st =
     (if length (bs_body st) + length d > string_max_size then (False, st)
      else (True, st\<lparr>bs_body := bs_body st @ d\<rparr>))"

definition add_file :: "body_state header_cb" where
  "add_file f st =
     (if bs_file_count st = 1024 then (False, st\<lparr>bs_file_count := Suc (bs_file_count st)\<rparr>)
      else (True, st\<lparr>bs_file_count := Suc (bs_file_count st), bs_files := mm_emplace (mp_name f) f (bs_files st),
                     bs_cur := Some (mp_name f)\<rparr>))"

definition cur_content :: "body_state \<Rightarrow> string" where
  "cur_content st =
     (case bs_cur st of
        Some k \<Rightarrow> (case rev (mm_range (bs_files st) k) of f # _ \<Rightarrow> mp_content f | [] \<Rightarrow> [])
      | None \<Rightarrow> [])"

definition append_file :: "body_state content_cb" where
  "append_file d st =
     (if length (cur_content st) + length d > string_max_size then (False, st)
      else
        (True, case bs_cur st of
                 Some k \<Rightarrow> st\<lparr>bs_files := mm_update_newest k (\<lambda>f. f\<lparr>mp_content := mp_content f @ d\<rparr>) (bs_files st)\<rparr>
               | None \<Rightarrow> st))"

definition body_receivers :: "body_state receivers" where
  "body_receivers = \<lparr>receiver = Some append_body, multipart_header = Some add_file, multipart_receiver = Some append_file\<rparr>"

definition Server_read_content :: "Server \<Rightarrow> Request \<Rightarrow> Response \<Rightarrow> strm \<Rightarrow> (thrown + bool) \<times> Request \<times> Response \<times> strm" where
  "Server_read_content svr rq rs s =
     (case read_content_core svr body_receivers rq rs
             \<lparr>bs_body = rq_body rq, bs_files = rq_files rq, bs_cur = None, bs_file_count = 0\<rparr> s of
        (r, rq, rs, st, s) \<Rightarrow>
          let rq = rq\<lparr>rq_body := bs_body st, rq_files := bs_files st\<rparr>
          in case r of
               Inr True \<Rightarrow>
                 let content_type = get_header_value (rq_headers rq) ''Content-Type'' '''' 0
                 in if starts_with content_type ''application/x-www-form-urlencoded'' then
                      if length (rq_body rq) > 8192 then (Inr False, rq, rs\<lparr>rs_status := 413\<rparr>, s)
                      else (Inr True, rq\<lparr>rq_params := parse_query_text (rq_body rq) (rq_params rq)\<rparr>, rs, s)
                    else (Inr True, rq, rs, s)
             | _ \<Rightarrow> (r, rq, rs, s))"

text \<open>The receivers that a handler hands to the content reader.\<close>

definition note_event :: "(content_event list \<Rightarrow> bool) \<Rightarrow> ('a \<Rightarrow> content_event) \<Rightarrow> 'a \<Rightarrow> content_event list \<Rightarrow> bool \<times> content_event list" where
  "note_event go ev x evs = (go (evs @ [ev x]), evs @ [ev x])"

definition read_content_with_content_receiver ::
    "Server \<Rightarrow> content_event list receivers \<Rightarrow> Request \<Rightarrow> Response \<Rightarrow> strm
      \<Rightarrow> (thrown + bool) \<times> content_event list \<times> Request \<times> Response \<times> strm" where
  "read_content_with_content_receiver svr cbs rq rs s =
     (case read_content_core svr cbs rq rs [] s of (r, rq, rs, evs, s) \<Rightarrow> (r, evs, rq, rs, s))"

definition make_content_reader :: "Server \<Rightarrow> ContentReader" where
  "make_content_reader svr =
     \<lparr>reader = (\<lambda>go. read_content_with_content_receiver svr
        \<lparr>receiver = Some (note_event go BodyBytes), multipart_header = None, multipart_receiver = None\<rparr>),
      multipart_reader = (\<lambda>go. read_content_with_content_receiver svr
        \<lparr>receiver = None, multipart_header = Some (note_event go PartHeader),
         multipart_receiver = Some (note_event go PartBytes)\<rparr>)\<rparr>"

section \<open>Files\<close>

definition mmap_provider :: "string \<Rightarrow> ContentProvider" where
  "mmap_provider content offset len = ([SinkWrite (take len (drop offset content))], True)"

definition set_headers :: "Headers \<Rightarrow> Response \<Rightarrow> Response" where
  "set_headers h rs = fold (\<lambda>(k, v). res_set_header k v) h rs"

definition call_handler :: "Handler option \<Rightarrow> Request \<Rightarrow> Response \<Rightarrow> thrown option \<times> Response" where
  "call_handler h rq rs = (case h of Some f \<Rightarrow> f rq rs | None \<Rightarrow> (None, rs))"

definition file_path :: "MountPointEntry \<Rightarrow> string \<Rightarrow> string" where
  "file_path entry sub_path =
     (let path = base_dir entry @ sub_path in if last path = CHR ''/'' then path @ ''index.html'' else path)"

text \<open>The loop over the mount points.\<close>

fun file_request_loop ::
    "environment \<Rightarrow> Server \<Rightarrow> MountPointEntry list \<Rightarrow> Request \<Rightarrow> bool \<Rightarrow> Response \<Rightarrow> (thrown + bool) \<times> Response" where
  "file_request_loop env svr [] rq is_head rs = (Inr False, rs)"
| "file_request_loop env svr (entry # entries) rq is_head rs =
     (let sub_path = ''/'' @ drop (length (mount_point entry)) (rq_path rq);
          path = file_path entry sub_path
      in if starts_with (rq_path rq) (mount_point entry) \<and> is_valid_path sub_path \<and> fs_is_dir env (c_str path) then
           (Inr True, set_redirect (sub_path @ ''/'') 301 rs)
         else if starts_with (rq_path rq) (mount_point entry) \<and> is_valid_path sub_path \<and> fs_is_file env (c_str path) then
           (let rs = set_headers (mount_headers entry) rs
            in case fs_mmap env (c_str path) of
                 None \<Rightarrow> (Inr False, rs)
               | Some content \<Rightarrow>
                   let rs = set_content_provider (length content)
                        (find_content_type path (file_extension_and_mimetype_map svr) (default_file_mimetype svr))
                        (mmap_provider content) rs
                   in case call_handler (if is_head then None else file_request_handler svr) rq rs of
                        (Some e, rs) \<Rightarrow> (Inl e, rs)
                      | (None, rs) \<Rightarrow> (Inr True, rs))
         else file_request_loop env svr entries rq is_head rs)"

definition handle_file_request :: "environment \<Rightarrow> Server \<Rightarrow> Request \<Rightarrow> bool \<Rightarrow> Response \<Rightarrow> (thrown + bool) \<times> Response" where
  "handle_file_request env svr rq is_head rs = file_request_loop env svr (base_dirs svr) rq is_head rs"

section \<open>Routing\<close>

text \<open>The handlers of the two kinds for a method.\<close>

definition reader_handlers :: "Server \<Rightarrow> string \<Rightarrow> HandlersForContentReader" where
  "reader_handlers svr method =
     (if method = ''POST'' then post_handlers_for_content_reader svr
      else if method = ''PUT'' then put_handlers_for_content_reader svr
      else if method = ''PATCH'' then patch_handlers_for_content_reader svr
      else if method = ''DELETE'' then delete_handlers_for_content_reader svr
      else [])"

definition regular_handlers :: "Server \<Rightarrow> string \<Rightarrow> Handlers option" where
  "regular_handlers svr method =
     (if method = ''GET'' \<or> method = ''HEAD'' then Some (get_handlers svr)
      else if method = ''POST'' then Some (post_handlers svr)
      else if method = ''PUT'' then Some (put_handlers svr)
      else if method = ''DELETE'' then Some (delete_handlers svr)
      else if method = ''OPTIONS'' then Some (options_handlers svr)
      else if method = ''PATCH'' then Some (patch_handlers svr)
      else None)"

definition dispatch_regular ::
    "regex_engine \<Rightarrow> Server \<Rightarrow> Request \<Rightarrow> Response \<Rightarrow> strm \<Rightarrow> (thrown + bool) \<times> Request \<times> Response \<times> strm" where
  "dispatch_regular re svr rq rs s =
     (case regular_handlers svr (rq_method rq) of
        Some hs \<Rightarrow> (case dispatch_request re hs rq rs of (r, rq, rs) \<Rightarrow> (r, rq, rs, s))
      | None \<Rightarrow> (Inr False, rq, rs\<lparr>rs_status := 400\<rparr>, s))"

text \<open>The content reader handlers first, then the body, then the regular handlers.\<close>

definition route_content ::
    "regex_engine \<Rightarrow> Server \<Rightarrow> Request \<Rightarrow> Response \<Rightarrow> strm \<Rightarrow> (thrown + bool) \<times> Request \<times> Response \<times> strm" where
  "route_content re svr rq rs s =
     (case dispatch_request_for_content_reader re (make_content_reader svr) (reader_handlers svr (rq_method rq)) rq rs s of
        (Inr False, rq, rs, s) \<Rightarrow>
          (case Server_read_content svr rq rs s of
             (Inr True, rq, rs, s) \<Rightarrow> dispatch_regular re svr rq rs s
           | res \<Rightarrow> res)
      | res \<Rightarrow> res)"

definition pre_route :: "Server \<Rightarrow> Request \<Rightarrow> Response \<Rightarrow> (thrown + bool) \<times> Response" where
  "pre_route svr rq rs =
     (case pre_routing_handler svr of
        None \<Rightarrow> (Inr False, rs)
      | Some h \<Rightarrow> map_prod (map_sum id (\<lambda>r. r = Handled)) id (h rq rs))"

definition routing ::
    "environment \<Rightarrow> regex_engine \<Rightarrow> Server \<Rightarrow> Request \<Rightarrow> Response \<Rightarrow> strm \<Rightarrow> (thrown + bool) \<times> Request \<times> Response \<times> strm" where
  "routing env re svr rq rs s =
     (case pre_route svr rq rs of
        (Inr False, rs) \<Rightarrow>
          (case (if rq_method rq = ''GET'' \<or> rq_method rq = ''HEAD''
                 then handle_file_request env svr rq (rq_method rq = ''HEAD'') rs else (Inr False, rs)) of
             (Inr False, rs) \<Rightarrow>
               if expect_content rq then route_content re svr rq rs s else dispatch_regular re svr rq rs s
           | (r, rs) \<Rightarrow> (r, rq, rs, s))
      | (r, rs) \<Rightarrow> (r, rq, rs, s))"

section \<open>Ranges\<close>

text \<open>\<open>find\<close> and \<open>erase\<close> of one entry.\<close>

definition take_header :: "string \<Rightarrow> Headers \<Rightarrow> (string \<times> Headers) option" where
  "take_header key h =
     (case dropWhile (\<lambda>(k, v). \<not> ci_equal k key) h of
        [] \<Rightarrow> None
      | (k, v) # t \<Rightarrow> Some (v, takeWhile (\<lambda>(k, v). \<not> ci_equal k key) h @ t))"

definition partial_content :: "Request \<Rightarrow> Response \<Rightarrow> bool" where
  "partial_content rq rs \<longleftrightarrow> rq_ranges rq \<noteq> [] \<and> rs_status rs = 206"

text \<open>The first part: several ranges get a boundary, and the content type moves into the parts.\<close>

definition apply_boundary :: "environment \<Rightarrow> Request \<Rightarrow> Response \<Rightarrow> Response \<times> string \<times> string" where
  "apply_boundary env rq rs =
     (if length (rq_ranges rq) > 1 \<and> rs_status rs = 206 then
        let (content_type, rs) = (case take_header ''Content-Type'' (rs_headers rs) of
                Some (v, h) \<Rightarrow> (v, rs\<lparr>rs_headers := h\<rparr>) | None \<Rightarrow> ([], rs));
            boundary = make_multipart_data_boundary (random_text env)
        in (res_set_header ''Content-Type'' (''multipart/byteranges; boundary='' @ boundary) rs, content_type, boundary)
      else (rs, [], []))"

text \<open>The second part, for a response without a body of its own.\<close>

definition apply_provider_length :: "Request \<Rightarrow> string \<Rightarrow> string \<Rightarrow> EncodingType \<Rightarrow> Response \<Rightarrow> Response" where
  "apply_provider_length rq content_type boundary type rs =
     (if rs_content_length rs > 0 then
        if \<not> partial_content rq rs then
          res_set_header ''Content-Length'' (string_of_nat (rs_content_length rs)) rs
        else if length (rq_ranges rq) = 1 then
          let ol = get_range_offset_and_length (rq_ranges rq ! 0)
          in res_set_header ''Content-Length'' (string_of_nat (snd ol))
               (res_set_header ''Content-Range'' (make_content_range_header_field ol (rs_content_length rs)) rs)
        else res_set_header ''Content-Length''
               (string_of_nat (get_multipart_ranges_data_length rq boundary content_type (rs_content_length rs))) rs
      else if rs_content_provider rs \<noteq> None \<and> rs_is_chunked rs then
        let rs = res_set_header ''Transfer-Encoding'' ''chunked'' rs
        in case type of
             Gzip \<Rightarrow> res_set_header ''Content-Encoding'' ''gzip'' rs
           | Brotli \<Rightarrow> res_set_header ''Content-Encoding'' ''br'' rs
           | Zstd \<Rightarrow> res_set_header ''Content-Encoding'' ''zstd'' rs
           | EncodingNone \<Rightarrow> rs
      else rs)"

text \<open>The second part, for a response with a body. Without a compression library the compressor stays null.\<close>

definition apply_body_length :: "Request \<Rightarrow> string \<Rightarrow> string \<Rightarrow> Response \<Rightarrow> Response" where
  "apply_body_length rq content_type boundary rs =
     (let rs =
        (if \<not> partial_content rq rs then rs
         else if length (rq_ranges rq) = 1 then
           let ol = get_range_offset_and_length (rq_ranges rq ! 0);
               rs = res_set_header ''Content-Range'' (make_content_range_header_field ol (length (rs_body rs))) rs
           in rs\<lparr>rs_body := take (snd ol) (drop (fst ol) (rs_body rs))\<rparr>
         else rs\<lparr>rs_body := make_multipart_ranges_data rq rs boundary content_type (length (rs_body rs))\<rparr>)
      in res_set_header ''Content-Length'' (string_of_nat (length (rs_body rs))) rs)"

definition apply_ranges :: "environment \<Rightarrow> Request \<Rightarrow> Response \<Rightarrow> Response \<times> string \<times> string" where
  "apply_ranges env rq rs =
     (case apply_boundary env rq rs of
        (rs, content_type, boundary) \<Rightarrow>
          (if rs_body rs = [] then apply_provider_length rq content_type boundary (encoding_type no_compression rq rs) rs
           else apply_body_length rq content_type boundary rs, content_type, boundary))"

section \<open>The response\<close>

text \<open>The state of the writer of several ranges: the number of calls of \<open>write_content\<close> so far, and the stream
  or how the writing ended. The results of the plain writes are not looked at.\<close>

definition range_token :: "string \<Rightarrow> nat \<times> strm outcome \<Rightarrow> nat \<times> strm outcome" where
  "range_token t st =
     (case snd st of Some (Inr s) \<Rightarrow> (fst st, Some (Inr (snd (strm_write t s)))) | _ \<Rightarrow> st)"

definition write_content_call ::
    "environment \<Rightarrow> nat \<Rightarrow> ContentProvider \<Rightarrow> nat \<Rightarrow> nat \<Rightarrow> strm \<Rightarrow> (bool \<times> strm) outcome" where
  "write_content_call env k provider offset len s =
     map_option (\<lambda>r. map_sum StdException (\<lambda>(b, err, s). (b, s)) r)
       (write_content provider offset len (is_shutting_down env k) (wait_writable env k) s)"

definition range_content ::
    "environment \<Rightarrow> ContentProvider \<Rightarrow> nat \<Rightarrow> nat \<Rightarrow> nat \<times> strm outcome \<Rightarrow> (nat \<times> strm outcome) \<times> bool" where
  "range_content env provider offset len st =
     (case snd st of
        Some (Inr s) \<Rightarrow>
          (case write_content_call env (fst st) provider offset len s of
             None \<Rightarrow> ((fst st, None), False)
           | Some (Inl e) \<Rightarrow> ((fst st, Some (Inl e)), False)
           | Some (Inr (b, s)) \<Rightarrow> ((Suc (fst st), Some (Inr s)), b))
      | _ \<Rightarrow> (st, False))"

definition write_multipart_ranges_data ::
    "environment \<Rightarrow> Request \<Rightarrow> ContentProvider \<Rightarrow> string \<Rightarrow> string \<Rightarrow> nat \<Rightarrow> strm \<Rightarrow> (bool \<times> strm) outcome" where
  "write_multipart_ranges_data env rq provider boundary content_type content_length s =
     (case process_multipart_ranges_data boundary content_type content_length range_token (range_content env provider)
             (rq_ranges rq) (0, Some (Inr s)) of
        (st, b) \<Rightarrow> map_option (map_sum id (\<lambda>s. (b, s))) (snd st))"

definition write_content_with_provider ::
    "environment \<Rightarrow> Request \<Rightarrow> Response \<Rightarrow> ContentProvider \<Rightarrow> string \<Rightarrow> string \<Rightarrow> strm \<Rightarrow> (bool \<times> strm) outcome" where
  "write_content_with_provider env rq rs provider boundary content_type s =
     (if rs_content_length rs > 0 then
        if rq_ranges rq = [] then write_content_call env 0 provider 0 (rs_content_length rs) s
        else if length (rq_ranges rq) = 1 then
          case get_range_offset_and_length (rq_ranges rq ! 0) of
            (offset, len) \<Rightarrow> write_content_call env 0 provider offset len s
        else write_multipart_ranges_data env rq provider boundary content_type (rs_content_length rs) s
      else if rs_is_chunked rs then
        map_option (\<lambda>(b, err, s). Inr (b, s)) (write_content_chunked provider (is_shutting_down env 0) (wait_writable env 0) s)
      else
        map_option lift_exc (write_content_without_length provider (is_shutting_down env 0) (wait_writable env 0) s))"

text \<open>The status lines and the header that go before the body: the additional header fields of \<open>write_response_core\<close>.\<close>

definition additional_headers :: "Server \<Rightarrow> bool \<Rightarrow> Request \<Rightarrow> Response \<Rightarrow> Response" where
  "additional_headers svr close_connection rq rs =
     (let rs = (if close_connection \<or> get_header_value (rq_headers rq) ''Connection'' '''' 0 = ''close''
                then res_set_header ''Connection'' ''close'' rs
                else res_set_header ''Keep-Alive''
                       (''timeout='' @ string_of_int (keep_alive_timeout_sec svr) @ '', max=''
                         @ string_of_nat (keep_alive_max_count svr)) rs);
          rs = (if (rs_body rs \<noteq> [] \<or> rs_content_length rs > 0 \<or> rs_content_provider rs \<noteq> None)
                   \<and> \<not> has_header (rs_headers rs) ''Content-Type''
                then res_set_header ''Content-Type'' ''text/plain'' rs else rs);
          rs = (if rs_body rs = [] \<and> rs_content_length rs = 0 \<and> rs_content_provider rs = None
                   \<and> \<not> has_header (rs_headers rs) ''Content-Length''
                then res_set_header ''Content-Length'' ''0'' rs else rs)
      in if rq_method rq = ''HEAD'' \<and> \<not> has_header (rs_headers rs) ''Accept-Ranges''
         then res_set_header ''Accept-Ranges'' ''bytes'' rs else rs)"

text \<open>The header is collected in a \<open>BufferStream\<close> and then written; whether the writing of it went well is not looked at.
  \<open>None\<close> is the statement \<open>return false\<close> of a header writer that wrote nothing.\<close>

definition write_head :: "Server \<Rightarrow> Response \<Rightarrow> strm \<Rightarrow> (Response \<times> strm) option" where
  "write_head svr rs s =
     (case write_response_line (rs_status rs) new_BufferStream of
        (n, b) \<Rightarrow>
          if n = 0 then None
          else case header_writer svr b (rs_headers rs) of
                 (n, h, b) \<Rightarrow>
                   if n = 0 then None else Some (rs\<lparr>rs_headers := h\<rparr>, snd (write_data (outbuf b) s)))"

definition write_body :: "environment \<Rightarrow> Request \<Rightarrow> Response \<Rightarrow> string \<Rightarrow> string \<Rightarrow> strm \<Rightarrow> (bool \<times> strm) outcome" where
  "write_body env rq rs boundary content_type s =
     (if rq_method rq = ''HEAD'' then Some (Inr (True, s))
      else if rs_body rs \<noteq> [] then Some (Inr (write_data (rs_body rs) s))
      else case rs_content_provider rs of
             Some provider \<Rightarrow> write_content_with_provider env rq rs provider boundary content_type s
           | None \<Rightarrow> Some (Inr (True, s)))"

text \<open>What the error handler makes of the response, and whether it handled it.\<close>

definition call_error_handler :: "Server \<Rightarrow> Request \<Rightarrow> Response \<Rightarrow> (thrown + bool) \<times> Response" where
  "call_error_handler svr rq rs =
     (case error_handler svr of
        Some h \<Rightarrow> if 400 \<le> rs_status rs then map_prod (map_sum id (\<lambda>r. r = Handled)) id (h rq rs) else (Inr False, rs)
      | None \<Rightarrow> (Inr False, rs))"

definition write_response_core ::
    "environment \<Rightarrow> Server \<Rightarrow> bool \<Rightarrow> Request \<Rightarrow> Response \<Rightarrow> bool \<Rightarrow> strm \<Rightarrow> (bool \<times> strm) outcome" where
  "write_response_core env svr close_connection rq rs need_apply_ranges s =
     (case call_error_handler svr rq rs of
        (Inl e, rs) \<Rightarrow> Some (Inl e)
      | (Inr handled, rs) \<Rightarrow>
          (case (if need_apply_ranges \<or> handled then apply_ranges env rq rs else (rs, [], [])) of
             (rs, content_type, boundary) \<Rightarrow>
               (case call_handler (post_routing_handler svr) rq (additional_headers svr close_connection rq rs) of
                  (Some e, rs) \<Rightarrow> Some (Inl e)
                | (None, rs) \<Rightarrow>
                    (case write_head svr rs s of
                       None \<Rightarrow> Some (Inr (False, s))
                     | Some (rs, s) \<Rightarrow> write_body env rq rs boundary content_type s))))"

definition write_response :: "environment \<Rightarrow> Server \<Rightarrow> bool \<Rightarrow> Request \<Rightarrow> Response \<Rightarrow> strm \<Rightarrow> (bool \<times> strm) outcome" where
  "write_response env svr close_connection rq rs s =
     write_response_core env svr close_connection (rq\<lparr>rq_ranges := []\<rparr>) rs False s"

definition write_response_with_content ::
    "environment \<Rightarrow> Server \<Rightarrow> bool \<Rightarrow> Request \<Rightarrow> Response \<Rightarrow> strm \<Rightarrow> (bool \<times> strm) outcome" where
  "write_response_with_content env svr close_connection rq rs s =
     write_response_core env svr close_connection rq rs True s"

section \<open>A request\<close>

text \<open>\<open>e.what()\<close> with the line ends written as escapes.\<close>

definition escape_what :: "string \<Rightarrow> string" where
  "escape_what s =
     concat (map (\<lambda>c. if c = CHR 0x0D then [CHR 0x5C, CHR ''r''] else if c = CHR 0x0A then [CHR 0x5C, CHR ''n''] else [c]) (c_str s))"

text \<open>The two \<open>catch\<close> clauses: what an exception out of the routing makes of the response, and whether
  the request counts as routed. The exception handler may throw again.\<close>

definition catch_thrown :: "Server \<Rightarrow> thrown \<Rightarrow> Request \<Rightarrow> Response \<Rightarrow> (thrown + bool) \<times> Response" where
  "catch_thrown svr e rq rs =
     (case exception_handler svr of
        Some h \<Rightarrow> (case h rq rs e of (Some e', rs) \<Rightarrow> (Inl e', rs) | (None, rs) \<Rightarrow> (Inr True, rs))
      | None \<Rightarrow>
          let rs = rs\<lparr>rs_status := 500\<rparr>
          in (Inr False, res_set_header ''EXCEPTION_WHAT''
                (case e of StdException x \<Rightarrow> escape_what (what x) | UnknownException \<Rightarrow> ''UNKNOWN'') rs))"

definition routed_request ::
    "environment \<Rightarrow> regex_engine \<Rightarrow> Server \<Rightarrow> Request \<Rightarrow> Response \<Rightarrow> strm \<Rightarrow> (thrown + bool) \<times> Request \<times> Response \<times> strm" where
  "routed_request env re svr rq rs s =
     (case routing env re svr rq rs s of
        (Inl e, rq, rs, s) \<Rightarrow> (case catch_thrown svr e rq rs of (r, rs) \<Rightarrow> (r, rq, rs, s))
      | res \<Rightarrow> res)"

definition drop_content :: "int \<Rightarrow> Response \<Rightarrow> Response" where
  "drop_content status rs = rs\<lparr>rs_body := [], rs_content_length := 0, rs_content_provider := None, rs_status := status\<rparr>"

text \<open>The part of \<open>process_request\<close> after the routing.\<close>

definition answer_routed ::
    "environment \<Rightarrow> Server \<Rightarrow> bool \<Rightarrow> Request \<Rightarrow> Response \<Rightarrow> strm \<Rightarrow> (bool \<times> strm) outcome" where
  "answer_routed env svr close_connection rq rs s =
     (let rs = (if rs_status rs = - 1 then rs\<lparr>rs_status := (if rq_ranges rq = [] then 200 else 206)\<rparr> else rs);
          path = rs_file_content_path rs
      in if path \<noteq> [] \<and> fs_mmap env (c_str path) = None then
           write_response env svr close_connection rq (drop_content 404 rs) s
         else
           let rs = (case (if path \<noteq> [] then fs_mmap env (c_str path) else None) of
                  None \<Rightarrow> rs
                | Some content \<Rightarrow>
                    set_content_provider (length content)
                      (if rs_file_content_content_type rs = []
                       then find_content_type path (file_extension_and_mimetype_map svr) (default_file_mimetype svr)
                       else rs_file_content_content_type rs)
                      (mmap_provider content) rs)
           in case range_error rq rs of
                (rq, True) \<Rightarrow> write_response env svr close_connection rq (drop_content 416 rs) s
              | (rq, False) \<Rightarrow> write_response_with_content env svr close_connection rq rs s)"

definition answer ::
    "environment \<Rightarrow> Server \<Rightarrow> bool \<Rightarrow> (thrown + bool) \<times> Request \<times> Response \<times> strm \<Rightarrow> (bool \<times> strm) outcome" where
  "answer env svr close_connection res =
     (case res of
        (Inl e, _) \<Rightarrow> Some (Inl e)
      | (Inr True, rq, rs, s) \<Rightarrow> answer_routed env svr close_connection rq rs s
      | (Inr False, rq, rs, s) \<Rightarrow>
          write_response env svr close_connection rq (if rs_status rs = - 1 then rs\<lparr>rs_status := 404\<rparr> else rs) s)"

record endpoint =
  ep_remote_addr :: string
  ep_remote_port :: int
  ep_local_addr :: string
  ep_local_port :: int

definition set_endpoint :: "endpoint \<Rightarrow> Request \<Rightarrow> Request" where
  "set_endpoint ep rq =
     (let rq = rq\<lparr>rq_remote_addr := ep_remote_addr ep, rq_remote_port := ep_remote_port ep\<rparr>;
          rq = req_set_header ''REMOTE_ADDR'' (ep_remote_addr ep) rq;
          rq = req_set_header ''REMOTE_PORT'' (string_of_int (ep_remote_port ep)) rq;
          rq = rq\<lparr>rq_local_addr := ep_local_addr ep, rq_local_port := ep_local_port ep\<rparr>;
          rq = req_set_header ''LOCAL_ADDR'' (ep_local_addr ep) rq
      in req_set_header ''LOCAL_PORT'' (string_of_int (ep_local_port ep)) rq)"

text \<open>The answer to \<open>Expect: 100-continue\<close>: the status, and the response that the handler may have changed.\<close>

definition expect_status :: "Server \<Rightarrow> Request \<Rightarrow> Response \<Rightarrow> (thrown + int) \<times> Response" where
  "expect_status svr rq rs =
     (case expect_100_continue_handler svr of Some h \<Rightarrow> h rq rs | None \<Rightarrow> (Inr 100, rs))"

definition with_closed :: "bool \<Rightarrow> (bool \<times> strm) outcome \<Rightarrow> (bool \<times> bool \<times> strm) outcome" where
  "with_closed c r = map_option (map_sum id (\<lambda>(ret, s). (ret, c, s))) r"

text \<open>The part from \<open>Expect\<close> on.\<close>

definition handle_expected ::
    "environment \<Rightarrow> regex_engine \<Rightarrow> Server \<Rightarrow> bool \<Rightarrow> bool \<Rightarrow> Request \<Rightarrow> Response \<Rightarrow> strm \<Rightarrow> (bool \<times> bool \<times> strm) outcome" where
  "handle_expected env re svr close_connection connection_closed rq rs s =
     (if get_header_value (rq_headers rq) ''Expect'' '''' 0 = ''100-continue'' then
        case expect_status svr rq rs of
          (Inl e, rs) \<Rightarrow> Some (Inl e)
        | (Inr status, rs) \<Rightarrow>
            if status = 100 \<or> status = 417 then
              let s = snd (strm_write crlf (snd (write_response_line status s)))
              in with_closed connection_closed (answer env svr close_connection (routed_request env re svr rq rs s))
            else with_closed True (write_response env svr True rq rs s)
      else with_closed connection_closed (answer env svr close_connection (routed_request env re svr rq rs s)))"

text \<open>The part after the request line and the header fields have been read. \<open>setup_request\<close> is null for a plain server.\<close>

definition handle_read ::
    "environment \<Rightarrow> regex_engine \<Rightarrow> Server \<Rightarrow> endpoint \<Rightarrow> bool \<Rightarrow> bool \<Rightarrow> (Request \<Rightarrow> Request) option
      \<Rightarrow> Request \<Rightarrow> Response \<Rightarrow> strm \<Rightarrow> (bool \<times> bool \<times> strm) outcome" where
  "handle_read env re svr ep close_connection connection_closed setup_request rq rs s =
     (if length (rq_target rq) > 8192 then
        case read_headers s [] of
          (ok, dummy, s) \<Rightarrow>
            with_closed connection_closed (write_response env svr close_connection rq (rs\<lparr>rs_status := 414\<rparr>) s)
      else
        let connection = get_header_value (rq_headers rq) ''Connection'' '''' 0;
            closed = (connection_closed \<or> connection = ''close'' \<or> rq_version rq = ''HTTP/1.0'' \<and> connection \<noteq> ''Keep-Alive'');
            rq = set_endpoint ep rq;
            (ranges, valid) =
              (if has_header (rq_headers rq) ''Range''
               then parse_range_header (get_header_value (rq_headers rq) ''Range'' '''' 0) (rq_ranges rq)
               else (rq_ranges rq, True));
            rq = rq\<lparr>rq_ranges := ranges\<rparr>
        in if \<not> valid then
             with_closed closed (write_response env svr close_connection rq (rs\<lparr>rs_status := 416\<rparr>) s)
           else
             handle_expected env re svr close_connection closed
               (case setup_request of Some f \<Rightarrow> f rq | None \<Rightarrow> rq) rs s)"

text \<open>The result, the flag \<open>connection_closed\<close> and the stream.\<close>

definition process_request ::
    "environment \<Rightarrow> regex_engine \<Rightarrow> Server \<Rightarrow> endpoint \<Rightarrow> bool \<Rightarrow> bool \<Rightarrow> (Request \<Rightarrow> Request) option \<Rightarrow> strm
      \<Rightarrow> (bool \<times> bool \<times> strm) outcome" where
  "process_request env re svr ep close_connection connection_closed setup_request s =
     (case getline (new_line_reader 2048) s of
        (False, lr, s) \<Rightarrow> Some (Inr (False, connection_closed, s))
      | (True, lr, s) \<Rightarrow>
          let rs = new_Response\<lparr>rs_version := ''HTTP/1.1'', rs_headers := default_headers svr\<rparr>
          in case parse_request_line (lr_text lr) new_Request of
               (False, rq) \<Rightarrow>
                 with_closed connection_closed (write_response env svr close_connection rq (rs\<lparr>rs_status := 400\<rparr>) s)
             | (True, rq) \<Rightarrow>
                 (case read_headers s (rq_headers rq) of
                    (False, h, s) \<Rightarrow>
                      with_closed connection_closed
                        (write_response env svr close_connection (rq\<lparr>rq_headers := h\<rparr>) (rs\<lparr>rs_status := 400\<rparr>) s)
                  | (True, h, s) \<Rightarrow>
                      handle_read env re svr ep close_connection connection_closed setup_request (rq\<lparr>rq_headers := h\<rparr>) rs s))"

end
