(* ===== verification/Httplib_Answers.thy ===== *)
theory Httplib_Answers
  imports Httplib_Server
begin

text \<open>
  What the server of the HTTP library puts on the wire: lemmas on the writing of a response when the connection takes
  all that is written, and the properties of \<open>process_request\<close> that rest on them.
\<close>

section \<open>Writing\<close>

lemma write_data_all [simp]: "wr_plan s = [] \<Longrightarrow> write_data d s = (True, s\<lparr>outbuf := outbuf s @ d\<rparr>)"
  by (subst write_data.simps, subst write_data.simps) (simp add: strm_write_def)

lemma strm_write_all: "wr_plan s = [] \<Longrightarrow> strm_write d s = (int (length d), s\<lparr>outbuf := outbuf s @ d\<rparr>)"
  by (simp add: strm_write_def)

definition header_text :: "Headers \<Rightarrow> string" where
  "header_text h = concat (map header_line h) @ crlf"

text \<open>A server that writes its headers in the usual way and lets no handler change a finished response.\<close>

definition plain_server :: "Server \<Rightarrow> bool" where
  "plain_server svr \<longleftrightarrow> header_writer svr = header_writer new_Server \<and> error_handler svr = None \<and> post_routing_handler svr = None"

lemma write_head_plain:
  assumes "header_writer svr = header_writer new_Server" and "wr_plan s = []"
  shows "write_head svr rs s = Some (rs, s\<lparr>outbuf := outbuf s @ response_line (rs_status rs) @ header_text (rs_headers rs)\<rparr>)"
proof -
  let ?b = "new_BufferStream\<lparr>outbuf := response_line (rs_status rs)\<rparr>"
  have line: "write_response_line (rs_status rs) new_BufferStream = (int (length (response_line (rs_status rs))), ?b)"
    by (simp add: write_response_line_def strm_write_def new_BufferStream_def)
  have hdr: "header_writer svr ?b (rs_headers rs)
      = (int (length (header_text (rs_headers rs))), rs_headers rs, ?b\<lparr>outbuf := outbuf ?b @ header_text (rs_headers rs)\<rparr>)"
    using write_header_lines_buffer [of ?b "rs_headers rs" 0]
    by (simp add: assms(1) new_Server_def write_headers_def header_text_def new_BufferStream_def)
  have "response_line (rs_status rs) \<noteq> []" "header_text (rs_headers rs) \<noteq> []"
    by (simp_all add: response_line_def header_text_def crlf_def)
  then show ?thesis using assms(2) unfolding write_head_def line prod.case hdr by simp
qed

lemma write_response_core_plain:
  assumes "plain_server svr" and "wr_plan s = []"
    and "(if need then apply_ranges env rq rs else (rs, [], [])) = (rs', content_type, boundary)"
  shows "write_response_core env svr c rq rs need s =
    (let rs = additional_headers svr c rq rs'
     in write_body env rq rs boundary content_type
          (s\<lparr>outbuf := outbuf s @ response_line (rs_status rs) @ header_text (rs_headers rs)\<rparr>))"
  using assms write_head_plain [of svr s]
  by (simp add: write_response_core_def call_error_handler_def call_handler_def plain_server_def Let_def
      split: if_splits prod.splits)

section \<open>Header fields\<close>

lemma digit_field: "c_isdigit c \<Longrightarrow> is_field_vchar c"
  by (auto simp: char_class_defs is_field_vchar_def is_vchar_def)

lemma field_value_number [simp]: "is_field_value (string_of_nat n)"
proof (rule is_field_valueI)
  have "hd (string_of_nat n) \<in> set (string_of_nat n)" "last (string_of_nat n) \<in> set (string_of_nat n)" by simp_all
  then show "is_field_vchar (hd (string_of_nat n))" "is_field_vchar (last (string_of_nat n))"
    using string_of_nat_digits digit_field by blast+
  show "\<And>c. c \<in> set (string_of_nat n) \<Longrightarrow> field_char c"
    using string_of_nat_digits digit_field by (auto simp: field_char_def)
qed simp

lemma res_set_header_fields [simp]:
  "rs_body (res_set_header k v rs) = rs_body rs" "rs_content_length (res_set_header k v rs) = rs_content_length rs"
  "rs_content_provider (res_set_header k v rs) = rs_content_provider rs" "rs_status (res_set_header k v rs) = rs_status rs"
  "rs_is_chunked (res_set_header k v rs) = rs_is_chunked rs" "rs_file_content_path (res_set_header k v rs) = rs_file_content_path rs"
  by (simp_all add: res_set_header_def)

lemma range_set_header:
  "headers_range (rs_headers (res_set_header k v rs)) key
     = (if ci_equal k key \<and> is_field_name k \<and> is_field_value v then [v] else []) @ headers_range (rs_headers rs) key"
  by (simp add: res_set_header_def set_header_in_def)

lemma range_set_other [simp]:
  "\<not> ci_equal k key \<Longrightarrow> headers_range (rs_headers (res_set_header k v rs)) key = headers_range (rs_headers rs) key"
  by (simp add: range_set_header)

lemma names_differ:
  "\<not> ci_equal ''Connection'' ''Content-Length''" "\<not> ci_equal ''Keep-Alive'' ''Content-Length''"
  "\<not> ci_equal ''Content-Type'' ''Content-Length''" "\<not> ci_equal ''Accept-Ranges'' ''Content-Length''"
  "\<not> ci_equal ''Content-Range'' ''Content-Length''" "\<not> ci_equal ''EXCEPTION_WHAT'' ''Content-Length''"
  "is_field_name ''Content-Length''" "ci_equal ''Content-Length'' ''Content-Length''"
  "is_field_value ''0''"
  by code_simp+

lemma type_names:
  "\<not> ci_equal ''Connection'' ''Content-Type''" "\<not> ci_equal ''Keep-Alive'' ''Content-Type''"
  "\<not> ci_equal ''Content-Length'' ''Content-Type''" "\<not> ci_equal ''Accept-Ranges'' ''Content-Type''"
  by code_simp+

lemma what_names:
  "\<not> ci_equal ''Connection'' ''EXCEPTION_WHAT''" "\<not> ci_equal ''Keep-Alive'' ''EXCEPTION_WHAT''"
  "\<not> ci_equal ''Content-Length'' ''EXCEPTION_WHAT''" "\<not> ci_equal ''Content-Type'' ''EXCEPTION_WHAT''"
  "\<not> ci_equal ''Accept-Ranges'' ''EXCEPTION_WHAT''"
  "is_field_name ''EXCEPTION_WHAT''" "ci_equal ''EXCEPTION_WHAT'' ''EXCEPTION_WHAT''"
  by code_simp+

lemma additional_headers_fields [simp]:
  "rs_body (additional_headers svr c rq rs) = rs_body rs"
  "rs_content_length (additional_headers svr c rq rs) = rs_content_length rs"
  "rs_content_provider (additional_headers svr c rq rs) = rs_content_provider rs"
  "rs_status (additional_headers svr c rq rs) = rs_status rs"
  "rs_is_chunked (additional_headers svr c rq rs) = rs_is_chunked rs"
  by (simp_all add: additional_headers_def Let_def)

lemma additional_headers_length:
  "headers_range (rs_headers (additional_headers svr c rq rs)) ''Content-Length'' =
     (if rs_body rs = [] \<and> rs_content_length rs = 0 \<and> rs_content_provider rs = None \<and> \<not> has_header (rs_headers rs) ''Content-Length''
      then [''0''] else headers_range (rs_headers rs) ''Content-Length'')"
  by (simp add: additional_headers_def Let_def range_set_header names_differ has_header_def)

text \<open>The length that a header announces, as a receiver reads it.\<close>

definition announces :: "Headers \<Rightarrow> nat \<Rightarrow> bool" where
  "announces h n \<longleftrightarrow> get_header_value_u64 h ''Content-Length'' (2 ^ 64 - 1) 0 = (n, False)"

lemma announces_number: "headers_range h ''Content-Length'' = string_of_nat n # vs \<Longrightarrow> n < 2 ^ 64 \<Longrightarrow> announces h n"
  using string_of_nat_digits [of _ n]
  by (auto simp: announces_def get_header_value_u64_def range_nth_def is_numeric_def list_all_iff)

section \<open>Content providers\<close>

text \<open>A provider serves a content when it answers every call with a piece of it that starts at the offset.\<close>

definition serves :: "ContentProvider \<Rightarrow> string \<Rightarrow> bool" where
  "serves p c \<longleftrightarrow> (\<forall>offset len. 0 < len \<and> offset + len \<le> length c \<longrightarrow>
     (\<exists>n. 0 < n \<and> n \<le> len \<and> p offset len = ([SinkWrite (take n (drop offset c))], True)))"

lemma mmap_serves: "serves (mmap_provider c) c"
  by (auto simp: serves_def mmap_provider_def)

text \<open>The server is not stopped, and the connection takes what is written.\<close>

definition undisturbed :: "environment \<Rightarrow> bool" where
  "undisturbed env \<longleftrightarrow> (\<forall>k i. \<not> is_shutting_down env k i \<and> wait_writable env k i)"

lemma write_content_loop_serves:
  assumes "serves p c" and "offset + n \<le> length c" and "wr_plan s = []" and "\<And>i. \<not> down i" and "\<And>i. ready i"
  shows "write_content_loop p down ready i (offset + n) offset s
    = Some (Inr (True, Error_Success, s\<lparr>outbuf := outbuf s @ take n (drop offset c)\<rparr>))"
  using assms(2,3)
proof (induction n arbitrary: i offset s rule: less_induct)
  case (less n)
  have const: "down = (\<lambda>_. False)" "ready = (\<lambda>_. True)" using assms(4,5) by auto
  show ?case
  proof (cases "n = 0")
    case True
    then show ?thesis by (subst write_content_loop.simps) simp
  next
    case False
    then obtain k where k: "0 < k" "k \<le> n" "p offset n = ([SinkWrite (take k (drop offset c))], True)"
      using assms(1) less.prems(1) by (force simp: serves_def)
    have len: "length (take k (drop offset c)) = k" using k(2) less.prems(1) by simp
    have cut: "take k (drop offset c) @ take (n - k) (drop (offset + k) c) = take n (drop offset c)"
      using k(2) by (metis add.commute drop_drop le_add_diff_inverse take_add)
    have "offset + k + (n - k) \<le> length c" "offset + k + (n - k) = offset + n" using k(2) less.prems(1) by simp_all
    then show ?thesis
      using False k(1) less.IH [of "n - k" "offset + k" "s\<lparr>outbuf := outbuf s @ take k (drop offset c)\<rparr>" "Suc i"]
        less.prems(2) len cut
      by (subst write_content_loop.simps) (simp add: k(3) const del: length_take length_drop)
  qed
qed

lemma write_content_call_serves:
  assumes "serves p c" and "offset + n \<le> length c" and "wr_plan s = []" and "undisturbed env"
  shows "write_content_call env k p offset n s = Some (Inr (True, s\<lparr>outbuf := outbuf s @ take n (drop offset c)\<rparr>))"
  using write_content_loop_serves [OF assms(1-3), of "is_shutting_down env k" "wait_writable env k"] assms(4)
  by (simp add: write_content_call_def write_content_def undisturbed_def)

lemma range_within:
  "within (int (length c)) r \<Longrightarrow> fst (get_range_offset_and_length r) + snd (get_range_offset_and_length r) \<le> length c"
  by (auto simp: within_def get_range_offset_and_length_def)

text \<open>The ranges written to the connection are the text that \<open>make_multipart_ranges_data\<close> makes of the content.\<close>

lemma multipart_written:
  assumes "serves p c" and "list_all (within (int (length c))) ranges" and "wr_plan s = []" and "undisturbed env"
  shows "\<exists>k'. process_multipart_ranges_data boundary ct cl range_token (range_content env p) ranges (k, Some (Inr (s\<lparr>outbuf := d\<rparr>)))
    = ((k', Some (Inr (s\<lparr>outbuf := fst (process_multipart_ranges_data boundary ct cl (\<lambda>t d. d @ t)
          (\<lambda>offset len d. (d @ take len (drop offset c), True)) ranges d)\<rparr>))), True)"
  using assms(2)
proof (induction ranges arbitrary: d k)
  case Nil
  then show ?case using assms(3) by (simp add: range_token_def strm_write_def)
next
  case (Cons r ranges)
  have t: "range_token t (k, Some (Inr (s\<lparr>outbuf := d\<rparr>))) = (k, Some (Inr (s\<lparr>outbuf := d @ t\<rparr>)))" for t d k
    using assms(3) by (simp add: range_token_def strm_write_def)
  have c: "range_content env p (fst (get_range_offset_and_length r)) (snd (get_range_offset_and_length r)) (k, Some (Inr (s\<lparr>outbuf := d\<rparr>)))
      = ((Suc k, Some (Inr (s\<lparr>outbuf := d @ take (snd (get_range_offset_and_length r)) (drop (fst (get_range_offset_and_length r)) c)\<rparr>))), True)" for d k
    using write_content_call_serves [OF assms(1) range_within, of r "s\<lparr>outbuf := d\<rparr>" env k] Cons.prems assms(3,4)
    by (simp add: range_content_def)
  have "list_all (within (int (length c))) ranges" using Cons.prems by simp
  then show ?case
    by (simp only: process_multipart_ranges_data.simps Let_def t c prod.case bool.case if_distrib [symmetric] Cons.IH split: if_split) simp
qed

section \<open>Announced and sent length\<close>

text \<open>The content of a response: its body, or what its provider serves.\<close>

definition content_is :: "Response \<Rightarrow> string \<Rightarrow> bool" where
  "content_is rs c \<longleftrightarrow> c \<noteq> [] \<and> (if rs_body rs \<noteq> [] then rs_body rs = c \<and> rs_content_length rs = 0
     else rs_content_length rs = length c \<and> (\<exists>p. rs_content_provider rs = Some p \<and> serves p c))"

definition ranges_text :: "string \<Rightarrow> string \<Rightarrow> nat \<Rightarrow> string \<Rightarrow> Ranges \<Rightarrow> string \<Rightarrow> string" where
  "ranges_text b ct cl c ranges d = fst (process_multipart_ranges_data b ct cl (\<lambda>t d. d @ t)
     (\<lambda>offset len d. (d @ take len (drop offset c), True)) ranges d)"

text \<open>What a request for ranges gets of a content.\<close>

definition payload :: "Ranges \<Rightarrow> string \<Rightarrow> string \<Rightarrow> string \<Rightarrow> string" where
  "payload ranges boundary content_type c =
     (case ranges of
        [] \<Rightarrow> c
      | [r] \<Rightarrow> (case get_range_offset_and_length r of (offset, len) \<Rightarrow> take len (drop offset c))
      | _ \<Rightarrow> ranges_text boundary content_type (length c) c ranges [])"

lemma ranges_text_grows: "\<exists>e. e \<noteq> [] \<and> (\<forall>d. ranges_text b ct cl c ranges d = d @ e)"
proof (induction ranges)
  case Nil
  then show ?case by (intro exI [of _ "''--'' @ b @ ''--''"]) (simp add: ranges_text_def)
next
  case (Cons r ranges)
  then obtain e where e: "\<And>d. ranges_text b ct cl c ranges d = d @ e" by blast
  let ?x = "''--'' @ b @ crlf @ (if ct \<noteq> [] then ''Content-Type: '' @ ct @ crlf else []) @ ''Content-Range: ''
    @ make_content_range_header_field (get_range_offset_and_length r) cl @ crlf @ crlf
    @ take (snd (get_range_offset_and_length r)) (drop (fst (get_range_offset_and_length r)) c) @ crlf"
  have "ranges_text b ct cl c (r # ranges) d = ranges_text b ct cl c ranges (d @ ?x)" for d
    by (simp add: ranges_text_def Let_def)
  then show ?case by (intro exI [of _ "?x @ e"]) (simp add: e)
qed

lemma ranges_text_append: "ranges_text b ct cl c ranges d = d @ ranges_text b ct cl c ranges []"
  using ranges_text_grows [of b ct cl c ranges] by auto

lemma payload_nonempty: "c \<noteq> [] \<Longrightarrow> list_all (within (int (length c))) ranges \<Longrightarrow> payload ranges b ct c \<noteq> []"
  using ranges_text_grows [of b ct "length c" c ranges] content_length_step [of c "hd ranges"]
  by (auto simp: payload_def get_range_offset_and_length_def within_def split: list.splits)

lemma payload_length:
  assumes "list_all (within (int (length c))) (rq_ranges rq)" and "length (rq_ranges rq) > 1"
  shows "get_multipart_ranges_data_length rq b ct (length c) = length (payload (rq_ranges rq) b ct c)"
  using assms multipart_sim [OF assms(1), of "[]" 0 b ct "length c"]
  by (auto simp: get_multipart_ranges_data_length_def payload_def ranges_text_def split: list.splits)

lemma take_header_range:
  assumes "take_header key h = Some (v, h')" and "\<not> ci_equal key k"
  shows "headers_range h' k = headers_range h k"
proof -
  obtain a b where ab: "a = takeWhile (\<lambda>(k, v). \<not> ci_equal k key) h" "b = dropWhile (\<lambda>(k, v). \<not> ci_equal k key) h" by simp
  then obtain x t where t: "b = (x, v) # t" "h' = a @ t"
    using assms(1) by (auto simp: take_header_def split: list.splits)
  have "ci_equal x key" using ab(2) t(1) by (metis (mono_tags, lifting) case_prod_conv hd_dropWhile list.distinct(1) list.sel(1))
  then have "\<not> ci_equal x k" using assms(2) ci_equal_cong ci_equal_sym by metis
  moreover have "h = a @ (x, v) # t" using ab t by (metis takeWhile_dropWhile_id)
  ultimately show ?thesis using t(2) by (simp add: headers_range_def)
qed

lemma apply_boundary_keeps:
  assumes "apply_boundary env rq rs = (rs', ct, b)"
  shows "rs_body rs' = rs_body rs" "rs_content_length rs' = rs_content_length rs" "rs_content_provider rs' = rs_content_provider rs"
    "rs_status rs' = rs_status rs"
    "headers_range (rs_headers rs') ''Content-Length'' = headers_range (rs_headers rs) ''Content-Length''"
  using assms take_header_range [OF _ names_differ(3), of "rs_headers rs"] names_differ(3)
  by (auto simp: apply_boundary_def Let_def split: if_splits option.splits)

text \<open>The ranges fit the content, and a response to them has the status for partial content.\<close>

definition ranges_fit :: "Request \<Rightarrow> Response \<Rightarrow> string \<Rightarrow> bool" where
  "ranges_fit rq rs c \<longleftrightarrow> (rq_ranges rq \<noteq> [] \<longrightarrow> rs_status rs = 206) \<and> list_all (within (int (length c))) (rq_ranges rq)"

lemma length_1_iff: "length xs = Suc 0 \<longleftrightarrow> (\<exists>x. xs = [x])"
  by (cases xs) auto

lemma apply_body_length_fit:
  assumes "rs_body rs = c" and "ranges_fit rq rs c"
  shows "rs_body (apply_body_length rq ct b rs) = payload (rq_ranges rq) b ct c"
    "rs_status (apply_body_length rq ct b rs) = rs_status rs"
    "headers_range (rs_headers (apply_body_length rq ct b rs)) ''Content-Length''
       = string_of_nat (length (payload (rq_ranges rq) b ct c)) # headers_range (rs_headers rs) ''Content-Length''"
proof -
  have "rs_body (apply_body_length rq ct b rs) = payload (rq_ranges rq) b ct c
    \<and> rs_status (apply_body_length rq ct b rs) = rs_status rs
    \<and> headers_range (rs_headers (apply_body_length rq ct b rs)) ''Content-Length''
       = string_of_nat (length (payload (rq_ranges rq) b ct c)) # headers_range (rs_headers rs) ''Content-Length''"
    using assms
    by (cases "rq_ranges rq" rule: remdups_adj.cases)
      (auto simp: apply_body_length_def Let_def partial_content_def payload_def ranges_fit_def range_set_header names_differ
        make_multipart_ranges_data_def ranges_text_def case_prod_unfold simp del: process_multipart_ranges_data.simps)
  then show "rs_body (apply_body_length rq ct b rs) = payload (rq_ranges rq) b ct c"
    "rs_status (apply_body_length rq ct b rs) = rs_status rs"
    "headers_range (rs_headers (apply_body_length rq ct b rs)) ''Content-Length''
       = string_of_nat (length (payload (rq_ranges rq) b ct c)) # headers_range (rs_headers rs) ''Content-Length''"
    by blast+
qed

lemma apply_provider_length_fit:
  assumes "rs_content_length rs = length c" and "c \<noteq> []" and "ranges_fit rq rs c"
  shows "headers_range (rs_headers (apply_provider_length rq ct b ty rs)) ''Content-Length''
       = string_of_nat (length (payload (rq_ranges rq) b ct c)) # headers_range (rs_headers rs) ''Content-Length''"
  using assms payload_length [of c rq b ct] content_length_step [of c "hd (rq_ranges rq)"]
  by (cases "rq_ranges rq" rule: remdups_adj.cases)
    (auto simp: apply_provider_length_def Let_def partial_content_def ranges_fit_def range_set_header names_differ payload_def
      case_prod_unfold)

lemma apply_provider_length_keeps [simp]:
  "rs_body (apply_provider_length rq ct b ty rs) = rs_body rs"
  "rs_content_length (apply_provider_length rq ct b ty rs) = rs_content_length rs"
  "rs_content_provider (apply_provider_length rq ct b ty rs) = rs_content_provider rs"
  "rs_status (apply_provider_length rq ct b ty rs) = rs_status rs"
  by (simp_all add: apply_provider_length_def Let_def split: EncodingType.splits)

text \<open>Writing the content of a response whose ranges have been applied.\<close>

lemma write_provider_fit:
  assumes "serves p c" and "rs_content_length rs = length c" and "c \<noteq> []" and "list_all (within (int (length c))) (rq_ranges rq)"
    and "wr_plan s = []" and "undisturbed env"
  shows "write_content_with_provider env rq rs p b ct s = Some (Inr (True, s\<lparr>outbuf := outbuf s @ payload (rq_ranges rq) b ct c\<rparr>))"
proof (cases "rq_ranges rq" rule: remdups_adj.cases)
  case 1
  then show ?thesis using assms write_content_call_serves [OF assms(1), of 0 "length c" s env 0]
    by (simp add: write_content_with_provider_def payload_def)
next
  case (2 r)
  then have "within (int (length c)) r" using assms(4) by simp
  from write_content_call_serves [OF assms(1) range_within [OF this] assms(5,6), of 0] show ?thesis
    using assms(2,3) 2 by (simp add: write_content_with_provider_def payload_def case_prod_unfold)
next
  case (3 r r' rr)
  from multipart_written [OF assms(1,4-6), of b ct "length c" 0 "outbuf s"]
  have "write_content_with_provider env rq rs p b ct s
      = Some (Inr (True, s\<lparr>outbuf := ranges_text b ct (length c) c (rq_ranges rq) (outbuf s)\<rparr>))"
    using assms(2,3) 3 by (auto simp: write_content_with_provider_def write_multipart_ranges_data_def ranges_text_def)
  then show ?thesis
    using 3 by (subst (asm) ranges_text_append) (simp add: payload_def)
qed

lemma write_content_framed:
  assumes "plain_server svr" and "undisturbed env" and "wr_plan s = []" and "rq_method rq \<noteq> ''HEAD''"
    and "content_is rs c" and "ranges_fit rq rs c"
  shows "\<exists>h b ct. write_response_with_content env svr close rq rs s
      = Some (Inr (True, s\<lparr>outbuf := outbuf s @ response_line (rs_status rs) @ header_text h @ payload (rq_ranges rq) b ct c\<rparr>))
    \<and> headers_range h ''Content-Length''
       = string_of_nat (length (payload (rq_ranges rq) b ct c)) # headers_range (rs_headers rs) ''Content-Length''"
proof -
  obtain r1 ct b where ab: "apply_boundary env rq rs = (r1, ct, b)" by (cases "apply_boundary env rq rs") auto
  note keeps = apply_boundary_keeps [OF ab]
  have fit: "ranges_fit rq r1 c" using assms(6) keeps(4) by (simp add: ranges_fit_def)
  have c: "c \<noteq> []" and cs: "payload (rq_ranges rq) b ct c \<noteq> []"
    using assms(5,6) payload_nonempty by (auto simp: content_is_def ranges_fit_def)
  let ?r2 = "if rs_body r1 = [] then apply_provider_length rq ct b (encoding_type no_compression rq r1) r1 else apply_body_length rq ct b r1"
  have ar: "apply_ranges env rq rs = (?r2, ct, b)" by (simp add: apply_ranges_def ab)
  have len: "headers_range (rs_headers ?r2) ''Content-Length''
      = string_of_nat (length (payload (rq_ranges rq) b ct c)) # headers_range (rs_headers rs) ''Content-Length''"
  proof (cases "rs_body rs = []")
    case True
    then have "rs_content_length r1 = length c" using assms(5) keeps(2) by (simp add: content_is_def)
    from apply_provider_length_fit [OF this c fit] show ?thesis using True keeps(1,5) by simp
  next
    case False
    then have "rs_body r1 = c" using assms(5) keeps(1) by (simp add: content_is_def)
    from apply_body_length_fit(3) [OF this fit] show ?thesis using False keeps(1,5) by simp
  qed
  have status: "rs_status ?r2 = rs_status rs"
  proof (cases "rs_body r1 = []")
    case False
    then have "rs_body r1 = c" using assms(5) keeps(1) by (simp add: content_is_def)
    from apply_body_length_fit(2) [OF this fit] show ?thesis using False keeps(4) by simp
  qed (simp add: keeps(4))
  let ?r3 = "additional_headers svr close rq ?r2"
  let ?s = "s\<lparr>outbuf := outbuf s @ response_line (rs_status ?r3) @ header_text (rs_headers ?r3)\<rparr>"
  have body: "write_body env rq ?r3 b ct ?s = Some (Inr (True, ?s\<lparr>outbuf := outbuf ?s @ payload (rq_ranges rq) b ct c\<rparr>))"
  proof (cases "rs_body rs = []")
    case True
    then obtain p where p: "rs_content_provider ?r3 = Some p" "serves p c" "rs_content_length ?r3 = length c" "rs_body ?r3 = []"
      using assms(5) keeps by (auto simp: content_is_def)
    have "list_all (within (int (length c))) (rq_ranges rq)" using fit by (simp add: ranges_fit_def)
    from write_provider_fit [OF p(2,3) c this _ assms(2), of ?s b ct] show ?thesis
      using p(1,4) assms(3,4) by (simp add: write_body_def)
  next
    case False
    then have "rs_body r1 = c" using assms(5) keeps(1) by (simp add: content_is_def)
    from apply_body_length_fit(1) [OF this fit] have "rs_body ?r3 = payload (rq_ranges rq) b ct c" using False keeps(1) by simp
    then show ?thesis using cs assms(3,4) by (simp add: write_body_def)
  qed
  have "write_response_with_content env svr close rq rs s = write_body env rq ?r3 b ct ?s"
    unfolding write_response_with_content_def
    using write_response_core_plain [OF assms(1,3), where need = True, of env rq rs ?r2 ct b close] ar by (simp add: Let_def)
  moreover have "headers_range (rs_headers ?r3) ''Content-Length''
      = string_of_nat (length (payload (rq_ranges rq) b ct c)) # headers_range (rs_headers rs) ''Content-Length''"
    using len by (simp add: additional_headers_length has_header_def)
  ultimately show ?thesis using body status by (intro exI [of _ "rs_headers ?r3"] exI [of _ b] exI [of _ ct]) simp
qed

lemma write_empty_response:
  assumes "plain_server svr" and "wr_plan s = []" and "rs_body rs = []" and "rs_content_length rs = 0"
    and "rs_content_provider rs = None" and "\<not> has_header (rs_headers rs) ''Content-Length''"
  shows "\<exists>h. write_response env svr close rq rs s
      = Some (Inr (True, s\<lparr>outbuf := outbuf s @ response_line (rs_status rs) @ header_text h\<rparr>))
    \<and> headers_range h ''Content-Length'' = [''0'']"
  using write_response_core_plain [OF assms(1,2), where need = False, of env "rq\<lparr>rq_ranges := []\<rparr>" rs rs "[]" "[]" close]
    assms(3-6)
  by (intro exI [of _ "rs_headers (additional_headers svr close (rq\<lparr>rq_ranges := []\<rparr>) rs)"])
    (simp add: write_response_def Let_def write_body_def additional_headers_length)

text \<open>The request with the ranges that the check leaves, when the response has the status for partial content.\<close>

abbreviation checked :: "Request \<Rightarrow> Response \<Rightarrow> Request \<times> bool" where
  "checked rq rs \<equiv> range_error rq (rs\<lparr>rs_status := 206\<rparr>)"

text \<open>The status of a response, when the handler may have set one.\<close>

definition sent_status :: "Request \<Rightarrow> Response \<Rightarrow> int" where
  "sent_status rq rs = (if rs_status rs = - 1 then if rq_ranges rq = [] then 200 else 206 else rs_status rs)"

lemma sent_status_update:
  "(if rs_status rs = - 1 then rs\<lparr>rs_status := (if rq_ranges rq = [] then 200 else 206)\<rparr> else rs) = rs\<lparr>rs_status := sent_status rq rs\<rparr>"
  by (cases rs) (simp add: sent_status_def)

text \<open>The two ends of a response to which a handler gave content.\<close>

lemma answer_bad_range:
  assumes "plain_server svr" and "wr_plan s = []" and "rs_status rs \<in> {- 1, 206}" and "rs_file_content_path rs = []"
    and "\<not> has_header (rs_headers rs) ''Content-Length''" and "checked rq rs = (rq', True)"
  shows "\<exists>h. answer_routed env svr close rq rs s
      = Some (Inr (True, s\<lparr>outbuf := outbuf s @ response_line 416 @ header_text h\<rparr>))
    \<and> headers_range h ''Content-Length'' = [string_of_nat 0] \<and> rq_ranges rq \<noteq> []"
proof -
  have ne: "rq_ranges rq \<noteq> []" using assms(6) by (auto simp: range_error_def)
  then have st: "sent_status rq rs = 206" using assms(3) by (auto simp: sent_status_def)
  have "answer_routed env svr close rq rs s = write_response env svr close rq' (drop_content 416 (rs\<lparr>rs_status := 206\<rparr>)) s"
    using assms(4,6) st unfolding answer_routed_def sent_status_update Let_def by simp
  moreover have "string_of_nat 0 = ''0''" by code_simp
  ultimately show ?thesis
    using write_empty_response [OF assms(1,2), of "drop_content 416 (rs\<lparr>rs_status := 206\<rparr>)" env close rq'] assms(5) ne
    by (simp add: drop_content_def)
qed

lemma answer_content:
  assumes "plain_server svr" and "undisturbed env" and "wr_plan s = []" and "rq_method rq \<noteq> ''HEAD''"
    and "content_is rs c" and "rs_status rs \<in> {- 1, 206} \<or> rq_ranges rq = []" and "rs_file_content_path rs = []"
    and "\<not> has_header (rs_headers rs) ''Content-Length''"
    and "st = sent_status rq rs" and "range_error rq (rs\<lparr>rs_status := st\<rparr>) = (rq', False)"
  shows "\<exists>h b ct. answer_routed env svr close rq rs s
      = Some (Inr (True, s\<lparr>outbuf := outbuf s @ response_line st @ header_text h @ payload (rq_ranges rq') b ct c\<rparr>))
    \<and> headers_range h ''Content-Length'' = [string_of_nat (length (payload (rq_ranges rq') b ct c))]"
proof -
  let ?rs = "rs\<lparr>rs_status := st\<rparr>"
  have m: "rq_method rq' \<noteq> ''HEAD''"
    using assms(4,10) by (auto simp: range_error_def Let_def split: if_splits prod.splits)
  have len: "length c = (if rs_content_length ?rs \<noteq> 0 then rs_content_length ?rs else length (rs_body ?rs))"
    using assms(5) by (auto simp: content_is_def split: if_splits)
  have "list_all (within (int (length c))) (rq_ranges rq')"
    using range_error_ok [OF assms(10) _ _ _ len] assms(6,9,10)
    by (cases "rq_ranges rq = []") (auto simp: range_error_def sent_status_def)
  then have fit: "ranges_fit rq' ?rs c"
    using assms(6,9,10) by (auto simp: ranges_fit_def range_error_def sent_status_def split: if_splits)
  have "content_is ?rs c" using assms(5) by (simp add: content_is_def)
  moreover have "answer_routed env svr close rq rs s = write_response_with_content env svr close rq' ?rs s"
    using assms(7,9,10) unfolding answer_routed_def sent_status_update Let_def by simp
  ultimately show ?thesis
    using write_content_framed [OF assms(1-3) m _ fit, of close] assms(8) by (simp add: has_header_def)
qed

section \<open>Properties\<close>

text \<open>C30: When a handler has given a response its content, as a body or as a provider (not as a file, and without a \<open>Content-Length\<close> of
  its own), what the server sends for a request other than \<open>HEAD\<close> is framed correctly: the status line, the header and then exactly as many
  bytes as the one \<open>Content-Length\<close> field says. Without ranges it is the content with the status that the handler set, or 200. With ranges, for a handler
  that set no status or 206, it is an empty response with status 416 when the content does not have them, and otherwise the range, or the ranges
  as multipart text, with status 206. The server has no header writer, error handler or post-routing handler of its own, and the connection
  takes what is written. (A handler that answers a request for ranges with another status gets a wrong frame; see
  \<open>status_with_range_misframed\<close>.)\<close>

theorem response_framing:
  assumes "plain_server svr" and "undisturbed env" and "wr_plan s = []" and "rq_method rq \<noteq> ''HEAD''"
    and "content_is rs c" and "rs_status rs \<in> {- 1, 206} \<or> rq_ranges rq = []" and "rs_file_content_path rs = []"
    and "\<not> has_header (rs_headers rs) ''Content-Length''"
  shows "\<exists>h b ct st d. answer_routed env svr close rq rs s
      = Some (Inr (True, s\<lparr>outbuf := outbuf s @ response_line st @ header_text h @ d\<rparr>))
    \<and> headers_range h ''Content-Length'' = [string_of_nat (length d)]
    \<and> (if rq_ranges rq = [] then st = (if rs_status rs = - 1 then 200 else rs_status rs) \<and> d = c
       else if snd (checked rq rs) then st = 416 \<and> d = []
       else st = 206 \<and> d = payload (rq_ranges (fst (checked rq rs))) b ct c)"
proof (cases "rq_ranges rq = []")
  case True
  then have re: "range_error rq (rs\<lparr>rs_status := sent_status rq rs\<rparr>) = (rq, False)" by (simp add: range_error_def)
  from answer_content [OF assms refl this, of close] True show ?thesis by (auto simp: payload_def sent_status_def)
next
  case False
  with assms(6) have st: "rs_status rs \<in> {- 1, 206}" "sent_status rq rs = 206" by (auto simp: sent_status_def)
  obtain rq' e where re: "checked rq rs = (rq', e)" by fastforce
  show ?thesis
  proof (cases e)
    case True
    with answer_bad_range [OF assms(1,3) st(1) assms(7,8), of rq rq' env close] re False show ?thesis by fastforce
  next
    case no: False
    with answer_content [OF assms st(2) [symmetric] re [unfolded eq_False [THEN iffD2, OF no]], of close] re False show ?thesis by auto
  qed
qed

section \<open>Reading a request\<close>

text \<open>A target as it stands in a request line.\<close>

definition target_ok :: "string \<Rightarrow> bool" where
  "target_ok t \<longleftrightarrow> t \<noteq> [] \<and> (\<forall>c \<in> set t. is_vchar c) \<and> int (length t) < 2 ^ 63"

definition line_request :: "string \<Rightarrow> string \<Rightarrow> Request" where
  "line_request method target =
     (let target = takeWhile (\<lambda>c. c \<noteq> CHR ''#'') target
      in new_Request\<lparr>rq_method := method, rq_version := ''HTTP/1.1'', rq_target := target,
           rq_path := decode_url (fst (divide_at (CHR ''?'') target)) False,
           rq_params := parse_query_text (snd (divide_at (CHR ''?'') target)) []\<rparr>)"

definition request_line :: "string \<Rightarrow> string \<Rightarrow> string" where
  "request_line method target = method @ '' '' @ target @ '' HTTP/1.1''"

lemma methods_vchar: "m \<in> set request_methods \<Longrightarrow> m \<noteq> [] \<and> (\<forall>c \<in> set m. is_vchar c) \<and> length m \<le> 7"
proof -
  have "list_all (\<lambda>m. m \<noteq> [] \<and> list_all is_vchar m \<and> length m \<le> 7) request_methods" by code_simp
  then show "m \<in> set request_methods \<Longrightarrow> m \<noteq> [] \<and> (\<forall>c \<in> set m. is_vchar c) \<and> length m \<le> 7"
    by (simp add: list_all_iff)
qed

lemma vchar_neq: "is_vchar c \<Longrightarrow> c \<noteq> CHR '' '' \<and> c \<noteq> CHR 0x00 \<and> c \<noteq> CHR 0x0A \<and> c \<noteq> CHR 0x0D \<and> \<not> is_space_or_tab c"
  by (auto simp: is_vchar_def is_space_or_tab_def code_def)

lemma http11_vchar: "\<forall>c \<in> set ''HTTP/1.1''. is_vchar c"
  by code_simp

lemma parse_request_line_text:
  assumes "m \<in> set request_methods" and "target_ok t"
  shows "parse_request_line (request_line m t @ crlf) new_Request = (True, line_request m t)"
proof -
  have v: "\<And>c. c \<in> set m \<union> set t \<union> set ''HTTP/1.1'' \<Longrightarrow> is_vchar c" and ne: "m \<noteq> []" "t \<noteq> []"
    using methods_vchar [OF assms(1)] assms(2) http11_vchar by (auto simp: target_ok_def)
  have strip: "strip m = m" "strip t = t" "strip ''HTTP/1.1'' = ''HTTP/1.1''"
    using v vchar_neq by (blast intro: strip_plain)+
  have sp: "CHR '' '' \<notin> set m" "CHR '' '' \<notin> set t" "CHR '' '' \<notin> set ''HTTP/1.1''" using v vchar_neq by blast+
  have "split_on (CHR '' '') (request_line m t) = [m, t, ''HTTP/1.1'']"
    using split_on_token [OF sp(1), of "t @ '' HTTP/1.1''"] split_on_token [OF sp(2), of "''HTTP/1.1''"] split_on_atom [OF sp(3)]
    by (simp add: request_line_def)
  then have split: "split_text (request_line m t) (CHR '' '') = [m, t, ''HTTP/1.1'']"
    using split_text_eq [of "request_line m t" "CHR '' ''"] assms(2) methods_vchar [OF assms(1)] strip ne
    by (simp add: request_line_def target_ok_def)
  have "CHR 0x00 \<notin> set (request_line m t @ crlf)"
    using v vchar_neq by (auto simp: request_line_def crlf_def)
  then have str: "c_str (request_line m t @ crlf) = request_line m t @ crlf" by (rule c_str_no_nul)
  show ?thesis
    unfolding parse_request_line_def str
    using assms(1)
    by (simp add: Let_def crlf_def nth_append split set_line_fields_def line_request_def new_Request_def case_prod_unfold)
qed

text \<open>The text of a request up to its body.\<close>

definition request_text :: "string \<Rightarrow> string \<Rightarrow> Headers \<Rightarrow> string" where
  "request_text method target h = request_line method target @ crlf @ header_text h"

definition sendable :: "Headers \<Rightarrow> bool" where
  "sendable h \<longleftrightarrow> (\<forall>kv \<in> set h. header_clean kv \<and> CHR ''%'' \<notin> set (snd kv) \<and> length (header_line kv) \<le> 8192)"

definition new_answer :: "Server \<Rightarrow> Response" where
  "new_answer svr = new_Response\<lparr>rs_version := ''HTTP/1.1'', rs_headers := default_headers svr\<rparr>"

lemma request_line_no_lf: "m \<in> set request_methods \<Longrightarrow> target_ok t \<Longrightarrow> CHR 0x0A \<notin> set (request_line m t)"
  using methods_vchar [of m] vchar_neq by (auto simp: request_line_def target_ok_def)

lemma process_request_text:
  assumes "m \<in> set request_methods" and "target_ok t" and "sendable h"
    and "strm_ok s" and "avail s = request_text m t h @ rest"
  obtains q where "process_request env re svr ep close closed setup s
      = handle_read env re svr ep close closed setup ((line_request m t)\<lparr>rq_headers := rev h\<rparr>) (new_answer svr) (s\<lparr>inq := q\<rparr>)"
    and "concat q = rest" and "[] \<notin> set q"
proof -
  obtain lr q1 where 1: "getline (new_line_reader 2048) s = (True, lr, s\<lparr>inq := q1\<rparr>)" "lr_text lr = request_line m t @ crlf"
    "concat q1 = header_text h @ rest" "[] \<notin> set q1"
    using getline_line [OF assms(4) _ request_line_no_lf [OF assms(1,2)], of "header_text h @ rest" "new_line_reader 2048"] assms(5)
    by (auto simp: request_text_def)
  obtain q where 2: "read_headers (s\<lparr>inq := q1\<rparr>) [] = (True, rev h, s\<lparr>inq := q\<rparr>)" "concat q = rest" "[] \<notin> set q"
    using read_headers_loop_lines [of "s\<lparr>inq := q1\<rparr>" h rest "new_line_reader 2048" "[]"] 1(3,4) assms(3)
    by (auto simp: read_headers_def header_text_def sendable_def avail_def)
  have "rq_headers (line_request m t) = []" by (simp add: line_request_def Let_def new_Request_def)
  then have "process_request env re svr ep close closed setup s
      = handle_read env re svr ep close closed setup ((line_request m t)\<lparr>rq_headers := rev h\<rparr>) (new_answer svr) (s\<lparr>inq := q\<rparr>)"
    by (simp add: process_request_def 1(1,2) 2(1) parse_request_line_text [OF assms(1,2)] new_answer_def)
  then show ?thesis using 2(2,3) that by blast
qed

section \<open>Requests that are refused\<close>

text \<open>What a client may send that the server answers on its own, with the status of the answer.\<close>

inductive refusal :: "string \<Rightarrow> int \<Rightarrow> bool" where
  bad_line: "CHR 0x0A \<notin> set line \<Longrightarrow> \<not> fst (parse_request_line (line @ crlf) new_Request) \<Longrightarrow> refusal (line @ crlf @ rest) 400"
| bad_field: "m \<in> set request_methods \<Longrightarrow> target_ok t \<Longrightarrow> sendable h \<Longrightarrow> x \<noteq> [] \<Longrightarrow> CHR 0x0A \<notin> set x \<Longrightarrow> parse_header x = None
    \<Longrightarrow> refusal (request_line m t @ crlf @ concat (map header_line h) @ x @ crlf @ rest) 400"
| long_target: "m \<in> set request_methods \<Longrightarrow> target_ok t \<Longrightarrow> sendable h \<Longrightarrow> 8192 < length (takeWhile (\<lambda>c. c \<noteq> CHR ''#'') t)
    \<Longrightarrow> refusal (request_text m t h @ rest) 414"
| bad_range: "m \<in> set request_methods \<Longrightarrow> target_ok t \<Longrightarrow> sendable h \<Longrightarrow> length t \<le> 8192
    \<Longrightarrow> has_header (rev h) ''Range'' \<Longrightarrow> \<not> snd (parse_range_header (get_header_value (rev h) ''Range'' '''' 0) [])
    \<Longrightarrow> refusal (request_text m t h @ rest) 416"

lemma with_closed_Some: "with_closed c (Some (Inr (b, s))) = Some (Inr (b, c, s))"
  by (simp add: with_closed_def)

lemma refused_response:
  assumes "plain_server svr" and "wr_plan s = []" and "\<not> has_header (default_headers svr) ''Content-Length''"
    and "P = with_closed c (write_response env svr close rq ((new_answer svr)\<lparr>rs_status := st\<rparr>) (s\<lparr>inq := q\<rparr>))"
  shows "\<exists>h' s'. P = Some (Inr (True, c, s')) \<and> outbuf s' = outbuf s @ response_line st @ header_text h'
    \<and> headers_range h' ''Content-Length'' = [''0'']"
  using write_empty_response [OF assms(1), of "s\<lparr>inq := q\<rparr>" "(new_answer svr)\<lparr>rs_status := st\<rparr>" env close rq] assms(2-4)
  by (auto simp: with_closed_Some new_answer_def new_Response_def)

lemma endpoint_names:
  "\<not> ci_equal ''REMOTE_ADDR'' ''Range''" "\<not> ci_equal ''REMOTE_PORT'' ''Range''"
  "\<not> ci_equal ''LOCAL_ADDR'' ''Range''" "\<not> ci_equal ''LOCAL_PORT'' ''Range''"
  "\<not> ci_equal ''REMOTE_ADDR'' ''Expect''" "\<not> ci_equal ''REMOTE_PORT'' ''Expect''"
  "\<not> ci_equal ''LOCAL_ADDR'' ''Expect''" "\<not> ci_equal ''LOCAL_PORT'' ''Expect''"
  "\<not> ci_equal ''REMOTE_ADDR'' ''Content-Length''" "\<not> ci_equal ''REMOTE_PORT'' ''Content-Length''"
  "\<not> ci_equal ''LOCAL_ADDR'' ''Content-Length''" "\<not> ci_equal ''LOCAL_PORT'' ''Content-Length''"
  "\<not> ci_equal ''REMOTE_ADDR'' ''Transfer-Encoding''" "\<not> ci_equal ''REMOTE_PORT'' ''Transfer-Encoding''"
  "\<not> ci_equal ''LOCAL_ADDR'' ''Transfer-Encoding''" "\<not> ci_equal ''LOCAL_PORT'' ''Transfer-Encoding''"
  by code_simp+

lemma endpoint_range [simp]:
  "headers_range (rq_headers (set_endpoint ep rq)) ''Range'' = headers_range (rq_headers rq) ''Range''"
  "headers_range (rq_headers (set_endpoint ep rq)) ''Expect'' = headers_range (rq_headers rq) ''Expect''"
  "headers_range (rq_headers (set_endpoint ep rq)) ''Content-Length'' = headers_range (rq_headers rq) ''Content-Length''"
  "headers_range (rq_headers (set_endpoint ep rq)) ''Transfer-Encoding'' = headers_range (rq_headers rq) ''Transfer-Encoding''"
  by (simp_all add: set_endpoint_def Let_def req_set_header_def set_header_in_def endpoint_names)

lemma endpoint_fields [simp]:
  "rq_ranges (set_endpoint ep rq) = rq_ranges rq" "rq_method (set_endpoint ep rq) = rq_method rq"
  "rq_path (set_endpoint ep rq) = rq_path rq" "rq_target (set_endpoint ep rq) = rq_target rq"
  by (simp_all add: set_endpoint_def Let_def req_set_header_def)

lemma line_request_fields [simp]:
  "rq_ranges (line_request m t) = []" "rq_method (line_request m t) = m"
  "rq_target (line_request m t) = takeWhile (\<lambda>c. c \<noteq> CHR ''#'') t"
  by (simp_all add: line_request_def Let_def new_Request_def)

lemma strm_read_inq: "\<exists>q. snd (strm_read n s) = s\<lparr>inq := q\<rparr>"
  by (cases s) (auto simp: strm_read_def split: list.splits)

lemma getline_loop_inq: "\<exists>q. snd (snd (getline_loop first prev lr s)) = s\<lparr>inq := q\<rparr>"
proof (induction first prev lr s rule: getline_loop.induct)
  case (1 first prev lr s)
  obtain d t where r: "strm_read 1 s = (d, t)" by fastforce
  then obtain q where q: "t = s\<lparr>inq := q\<rparr>" using strm_read_inq [of 1 s] by auto
  show ?case
  proof (cases "\<exists>b bs. d = Some (b # bs) \<and> \<not> (prev = CHR 0x0D \<and> b = CHR 0x0A)")
    case True
    then obtain b bs where b: "d = Some (b # bs)" "\<not> (prev = CHR 0x0D \<and> b = CHR 0x0A)" by blast
    from 1 [OF r [symmetric] b(1) refl refl b(2)] show ?thesis
      using r q b by (subst getline_loop.simps) (auto simp: Let_def)
  next
    case False
    then show ?thesis using r q
      by (subst getline_loop.simps) (auto simp: Let_def split: option.splits list.splits)
  qed
qed

lemma read_headers_loop_inq: "\<exists>q. snd (snd (read_headers_loop lr s h)) = s\<lparr>inq := q\<rparr>"
proof (induction lr s h rule: read_headers_loop.induct)
  case (1 lr s h)
  obtain b lr' t where g: "getline lr s = (b, lr', t)" by (cases "getline lr s") auto
  then obtain q where q: "t = s\<lparr>inq := q\<rparr>"
    using getline_loop_inq [of True "CHR 0x00" "lr\<lparr>lr_fixed := [], lr_growable := []\<rparr>" s] by (auto simp: getline_def)
  show ?case
  proof (cases b)
    case False
    then show ?thesis using g q by (subst read_headers_loop.simps) auto
  next
    case True
    note g = g [unfolded eqTrueI [OF True]]
    note IH = 1 [OF g [symmetric] refl refl]
    show ?thesis
      using IH q by (subst read_headers_loop.simps) (auto simp: g split: option.splits)
  qed
qed

text \<open>Every refusal leads to a response with its status.\<close>

lemma refusal_response:
  assumes "refusal (avail s) st" and "strm_ok s"
  shows "\<exists>c rq q. process_request env re svr ep close closed setup s
    = with_closed c (write_response env svr close rq ((new_answer svr)\<lparr>rs_status := st\<rparr>) (s\<lparr>inq := q\<rparr>))"
  using assms(1)
proof cases
  case (bad_line line rest)
  obtain lr q where "getline (new_line_reader 2048) s = (True, lr, s\<lparr>inq := q\<rparr>)" "lr_text lr = line @ crlf"
    using getline_line [OF assms(2) bad_line(1,3)] by blast
  then obtain rq where "process_request env re svr ep close closed setup s
      = with_closed closed (write_response env svr close rq ((new_answer svr)\<lparr>rs_status := 400\<rparr>) (s\<lparr>inq := q\<rparr>))"
    using bad_line(4) by (cases "parse_request_line (line @ crlf) new_Request") (auto simp: process_request_def new_answer_def)
  then show ?thesis unfolding bad_line(2) by blast
next
  case (bad_field m t h x rest)
  obtain lr q1 where 1: "getline (new_line_reader 2048) s = (True, lr, s\<lparr>inq := q1\<rparr>)" "lr_text lr = request_line m t @ crlf"
    "concat q1 = concat (map header_line h) @ x @ crlf @ rest" "[] \<notin> set q1"
    using getline_line [OF assms(2) bad_field(1) request_line_no_lf [OF bad_field(3,4)]] by blast
  obtain q h' where 2: "read_headers (s\<lparr>inq := q1\<rparr>) [] = (False, h', s\<lparr>inq := q\<rparr>)"
    using read_headers_loop_bad [of "s\<lparr>inq := q1\<rparr>" h x rest "new_line_reader 2048" "[]"] 1(3,4) bad_field(5-8)
    by (auto simp: read_headers_def sendable_def avail_def)
  have "rq_headers (line_request m t) = []" by (simp add: line_request_def Let_def new_Request_def)
  then have "process_request env re svr ep close closed setup s
      = with_closed closed (write_response env svr close ((line_request m t)\<lparr>rq_headers := h'\<rparr>) ((new_answer svr)\<lparr>rs_status := 400\<rparr>) (s\<lparr>inq := q\<rparr>))"
    by (simp add: process_request_def 1(1,2) 2 parse_request_line_text [OF bad_field(3,4)] new_answer_def)
  then show ?thesis unfolding bad_field(2) by blast
next
  case (long_target m t h rest)
  obtain q where q: "process_request env re svr ep close closed setup s
      = handle_read env re svr ep close closed setup ((line_request m t)\<lparr>rq_headers := rev h\<rparr>) (new_answer svr) (s\<lparr>inq := q\<rparr>)" "concat q = rest" "[] \<notin> set q"
    by (rule process_request_text [OF long_target(3-5) assms(2) long_target(1)])
  obtain ok h' q' where "read_headers (s\<lparr>inq := q\<rparr>) [] = (ok, h', s\<lparr>inq := q'\<rparr>)"
    using read_headers_loop_inq [of "new_line_reader 2048" "s\<lparr>inq := q\<rparr>" "[]"] by (cases "read_headers (s\<lparr>inq := q\<rparr>) []") (auto simp: read_headers_def)
  then have "process_request env re svr ep close closed setup s = with_closed closed
      (write_response env svr close ((line_request m t)\<lparr>rq_headers := rev h\<rparr>) ((new_answer svr)\<lparr>rs_status := 414\<rparr>) (s\<lparr>inq := q'\<rparr>))"
    using long_target(6) by (simp add: q(1) handle_read_def)
  then show ?thesis unfolding long_target(2) by blast
next
  case (bad_range m t h rest)
  obtain q where q: "process_request env re svr ep close closed setup s
      = handle_read env re svr ep close closed setup ((line_request m t)\<lparr>rq_headers := rev h\<rparr>) (new_answer svr) (s\<lparr>inq := q\<rparr>)" "concat q = rest" "[] \<notin> set q"
    by (rule process_request_text [OF bad_range(3-5) assms(2) bad_range(1)])
  have "length (takeWhile (\<lambda>c. c \<noteq> CHR ''#'') t) \<le> 8192" using bad_range(6) length_takeWhile_le le_trans by blast
  moreover obtain r where r: "parse_range_header (get_header_value (rev h) ''Range'' [] 0) [] = (r, False)"
    using bad_range(8) by (cases "parse_range_header (get_header_value (rev h) ''Range'' [] 0) []") simp
  ultimately obtain c rq where "process_request env re svr ep close closed setup s = with_closed c
      (write_response env svr close rq ((new_answer svr)\<lparr>rs_status := 416\<rparr>) (s\<lparr>inq := q\<rparr>))"
    using that bad_range(7) unfolding q(1) handle_read_def Let_def
    by (simp add: has_header_def get_header_value_def)
  then show ?thesis unfolding bad_range(2) by blast
qed

text \<open>C31: A request that the server cannot read gets an answer: 400 when the request line or a header field is malformed, 414 when the target has
  more than 8192 bytes, 416 when the header \<open>Range\<close> is malformed. The answer is complete, with an empty content, and
  the bytes may come in any pieces.\<close>

theorem refused_requests_answered:
  assumes "refusal (avail s) st" and "plain_server svr" and "strm_ok s" and "wr_plan s = []"
    and "\<not> has_header (default_headers svr) ''Content-Length''"
  shows "\<exists>c h s'. process_request env re svr ep close closed setup s = Some (Inr (True, c, s'))
    \<and> outbuf s' = outbuf s @ response_line st @ header_text h \<and> headers_range h ''Content-Length'' = [''0'']"
proof -
  obtain c rq q where "process_request env re svr ep close closed setup s
      = with_closed c (write_response env svr close rq ((new_answer svr)\<lparr>rs_status := st\<rparr>) (s\<lparr>inq := q\<rparr>))"
    using refusal_response [OF assms(1,3)] by blast
  from refused_response [OF assms(2,4,5) this] show ?thesis by blast
qed

section \<open>Requests that are served\<close>

text \<open>The fields that the server adds to a response that is a body.\<close>

definition usual_headers :: "Server \<Rightarrow> nat \<Rightarrow> Headers" where
  "usual_headers svr n =
     [(''Connection'', ''close''),
      (''Keep-Alive'', ''timeout='' @ string_of_int (keep_alive_timeout_sec svr) @ '', max='' @ string_of_nat (keep_alive_max_count svr)),
      (''Content-Type'', ''text/plain''), (''Content-Length'', string_of_nat n)]"

lemma set_header_usual:
  "set (rs_headers rs) \<subseteq> H \<Longrightarrow> (k, v) \<in> H \<Longrightarrow> set (rs_headers (res_set_header k v rs)) \<subseteq> H"
  by (simp add: res_set_header_def set_header_in_def headers_emplace_def)

lemma set_header_usual_if:
  "set (rs_headers rs) \<subseteq> H \<Longrightarrow> (k, v) \<in> H \<Longrightarrow> set (rs_headers (if b then res_set_header k v rs else rs)) \<subseteq> H"
  by (simp add: set_header_usual)

lemma additional_headers_usual:
  assumes "rq_method rq \<noteq> ''HEAD''" and "rs_body rs = [] \<Longrightarrow> n = 0"
  shows "set (rs_headers (additional_headers svr close rq rs)) \<subseteq> set (rs_headers rs) \<union> set (usual_headers svr n)"
proof -
  let ?H = "set (rs_headers rs) \<union> set (usual_headers svr n)"
  have z: "string_of_nat 0 = ''0''" by code_simp
  define r1 where "r1 = (if close \<or> get_header_value (rq_headers rq) ''Connection'' '''' 0 = ''close''
                then res_set_header ''Connection'' ''close'' rs
                else res_set_header ''Keep-Alive''
                       (''timeout='' @ string_of_int (keep_alive_timeout_sec svr) @ '', max=''
                         @ string_of_nat (keep_alive_max_count svr)) rs)"
  define r2 where "r2 = (if (rs_body r1 \<noteq> [] \<or> rs_content_length r1 > 0 \<or> rs_content_provider r1 \<noteq> None)
                   \<and> \<not> has_header (rs_headers r1) ''Content-Type''
                then res_set_header ''Content-Type'' ''text/plain'' r1 else r1)"
  define r3 where "r3 = (if rs_body r2 = [] \<and> rs_content_length r2 = 0 \<and> rs_content_provider r2 = None
                   \<and> \<not> has_header (rs_headers r2) ''Content-Length''
                then res_set_header ''Content-Length'' ''0'' r2 else r2)"
  have "set (rs_headers r1) \<subseteq> ?H"
    unfolding r1_def by (split if_split, intro conjI impI; rule set_header_usual) (simp_all add: usual_headers_def subset_eq)
  then have 2: "set (rs_headers r2) \<subseteq> ?H"
    unfolding r2_def by (rule set_header_usual_if) (simp add: usual_headers_def)
  have "set (rs_headers r3) \<subseteq> ?H"
  proof (cases "rs_body r2 = []")
    case True
    then have "n = 0" using assms(2) by (simp add: r2_def r1_def split: if_splits)
    then have "(''Content-Length'', ''0'') \<in> ?H" by (simp add: usual_headers_def z)
    from set_header_usual_if [OF 2 this] show ?thesis unfolding r3_def .
  qed (use 2 in \<open>simp add: r3_def\<close>)
  moreover have "additional_headers svr close rq rs = r3"
    using assms(1) unfolding additional_headers_def Let_def r1_def [symmetric] r2_def [symmetric] r3_def [symmetric] by simp
  ultimately show ?thesis by simp
qed

text \<open>The response to a request without ranges, when the content is a body.\<close>

lemma write_plain_content:
  assumes "plain_server svr" and "wr_plan s = []" and "rq_ranges rq = []" and "rq_method rq \<noteq> ''HEAD''"
    and "rs_content_length rs = 0" and "rs_content_provider rs = None" and "\<not> has_header (rs_headers rs) ''Content-Length''"
  shows "\<exists>h. write_response_with_content env svr close rq rs s
      = Some (Inr (True, s\<lparr>outbuf := outbuf s @ response_line (rs_status rs) @ header_text h @ rs_body rs\<rparr>))
    \<and> headers_range h ''Content-Length'' = [string_of_nat (length (rs_body rs))]
    \<and> (has_header (rs_headers rs) ''Content-Type'' \<longrightarrow> headers_range h ''Content-Type'' = headers_range (rs_headers rs) ''Content-Type'')
    \<and> set h \<subseteq> set (rs_headers rs) \<union> set (usual_headers svr (length (rs_body rs)))"
proof -
  let ?rs = "if rs_body rs = [] then rs else res_set_header ''Content-Length'' (string_of_nat (length (rs_body rs))) rs"
  have ar: "apply_ranges env rq rs = (?rs, [], [])"
    using assms(3,5,6) by (simp add: apply_ranges_def apply_boundary_def apply_provider_length_def apply_body_length_def partial_content_def)
  let ?r = "additional_headers svr close rq ?rs"
  have noh: "headers_range (rs_headers rs) ''Content-Length'' = []" using assms(7) by (simp add: has_header_def)
  have z: "string_of_nat 0 = ''0''" by code_simp
  have "headers_range (rs_headers ?r) ''Content-Length'' = [string_of_nat (length (rs_body rs))]"
    using noh assms(5-7) z by (simp add: additional_headers_length range_set_header names_differ)
  moreover have "headers_range (rs_headers ?r) ''Content-Type'' = headers_range (rs_headers rs) ''Content-Type''"
    if "has_header (rs_headers rs) ''Content-Type''"
    using that by (simp add: additional_headers_def Let_def range_set_header type_names has_header_def)
  moreover have "write_response_with_content env svr close rq rs s
      = Some (Inr (True, s\<lparr>outbuf := outbuf s @ response_line (rs_status rs) @ header_text (rs_headers ?r) @ rs_body rs\<rparr>))"
    using write_response_core_plain [OF assms(1,2), where need = True, of env rq rs ?rs "[]" "[]" close] ar assms(2,4,6)
    by (simp add: write_response_with_content_def Let_def write_body_def)
  moreover have "set (rs_headers ?rs) \<subseteq> set (rs_headers rs) \<union> set (usual_headers svr (length (rs_body rs)))"
    by (auto simp: res_set_header_def set_header_in_def headers_emplace_def usual_headers_def)
  moreover have "set (rs_headers ?r) \<subseteq> set (rs_headers ?rs) \<union> set (usual_headers svr (length (rs_body rs)))"
    by (rule additional_headers_usual [OF assms(4)]) (simp split: if_splits)
  ultimately show ?thesis by blast
qed

text \<open>The fields that change how a request is processed.\<close>

definition ordinary :: "Headers \<Rightarrow> bool" where
  "ordinary h \<longleftrightarrow> (\<forall>k \<in> {''Range'', ''Expect'', ''Content-Length'', ''Transfer-Encoding''}. headers_range (rev h) k = [])"

text \<open>A request as the handlers see it, before a matcher writes its captures.\<close>

definition received :: "endpoint \<Rightarrow> string \<Rightarrow> string \<Rightarrow> Headers \<Rightarrow> Request" where
  "received ep m t h = set_endpoint ep ((line_request m t)\<lparr>rq_headers := rev h\<rparr>)"

lemma received_plain:
  assumes "ordinary h"
  shows "get_header_value (rq_headers (received ep m t h)) ''Expect'' '''' 0 = ''''"
    "has_header (rq_headers (received ep m t h)) ''Range'' = False"
    "expect_content (received ep ''GET'' t h) = False" "rq_ranges (received ep m t h) = []" "rq_method (received ep m t h) = m"
proof -
  have "\<not> ci_equal '''' ''chunked''" by code_simp
  then show "expect_content (received ep ''GET'' t h) = False"
    using assms by (simp add: received_def ordinary_def expect_content_def is_chunked_transfer_encoding_def has_header_def
        get_header_value_def range_nth_def)
qed (use assms in \<open>simp_all add: received_def ordinary_def get_header_value_def has_header_def range_nth_def\<close>)

lemma handle_read_get:
  assumes "length t \<le> 8192" and "ordinary h" and "pre_routing_handler svr = None" and "base_dirs svr = []"
  obtains c where "handle_read env re svr ep close closed None ((line_request ''GET'' t)\<lparr>rq_headers := rev h\<rparr>) rs s
    = with_closed c (answer env svr close
        (case dispatch_request re (get_handlers svr) (received ep ''GET'' t h) rs of
           (Inl e, rq, rs) \<Rightarrow> (case catch_thrown svr e rq rs of (r, rs) \<Rightarrow> (r, rq, rs, s))
         | (r, rq, rs) \<Rightarrow> (r, rq, rs, s)))"
proof -
  have same: "(received ep ''GET'' t h)\<lparr>rq_ranges := []\<rparr> = received ep ''GET'' t h"
    using received_plain(4) [OF assms(2)] by (metis (no_types, lifting) Request.surjective Request.update_convs(13) Request.select_convs(13))
  have "length (takeWhile (\<lambda>c. c \<noteq> CHR ''#'') t) \<le> 8192" using assms(1) length_takeWhile_le le_trans by blast
  moreover have "routing env re svr (received ep ''GET'' t h) rs s
      = (case dispatch_request re (get_handlers svr) (received ep ''GET'' t h) rs of (r, rq, rs) \<Rightarrow> (r, rq, rs, s))"
    using assms(3,4) received_plain [OF assms(2)]
    by (simp add: routing_def pre_route_def handle_file_request_def dispatch_regular_def regular_handlers_def)
  moreover obtain r rq' rs' where d: "dispatch_request re (get_handlers svr) (received ep ''GET'' t h) rs = (r, rq', rs')"
    by (rule prod_cases3)
  ultimately have "\<exists>c. handle_read env re svr ep close closed None ((line_request ''GET'' t)\<lparr>rq_headers := rev h\<rparr>) rs s
    = with_closed c (answer env svr close
        (case r of Inl e \<Rightarrow> (case catch_thrown svr e rq' rs' of (r, rs) \<Rightarrow> (r, rq', rs, s)) | r \<Rightarrow> (r, rq', rs', s)))"
    using received_plain [OF assms(2), of ep] unfolding handle_read_def Let_def received_def [symmetric]
    by (cases r) (auto simp add: handle_expected_def routed_request_def d same)
  then show ?thesis using that d by (cases r) auto
qed

text \<open>A GET request without ranges is answered with the body that the responsible handler has made.\<close>

lemma get_request_served:
  assumes "target_ok t" and "length t \<le> 8192" and "sendable h" and "ordinary h" and "strm_ok s" and "wr_plan s = []"
    and "avail s = request_text ''GET'' t h @ rest"
    and "plain_server svr" and "pre_routing_handler svr = None" and "base_dirs svr = []"
    and "responsible re (get_handlers svr) (received ep ''GET'' t h) = Some (m, f)"
    and "f (snd (matches re m (received ep ''GET'' t h))) (new_answer svr) = (None, rs)"
    and "rs_content_length rs = 0" and "rs_content_provider rs = None" and "rs_file_content_path rs = []"
    and "\<not> has_header (rs_headers rs) ''Content-Length''"
  shows "\<exists>c h' s'. process_request env re svr ep close closed None s = Some (Inr (True, c, s'))
    \<and> outbuf s' = outbuf s @ response_line (if rs_status rs = - 1 then 200 else rs_status rs) @ header_text h' @ rs_body rs
    \<and> avail s' = rest \<and> headers_range h' ''Content-Length'' = [string_of_nat (length (rs_body rs))]
    \<and> (has_header (rs_headers rs) ''Content-Type'' \<longrightarrow> headers_range h' ''Content-Type'' = headers_range (rs_headers rs) ''Content-Type'')
    \<and> set h' \<subseteq> set (rs_headers rs) \<union> set (usual_headers svr (length (rs_body rs)))"
proof -
  let ?rq = "snd (matches re m (received ep ''GET'' t h))"
  let ?st = "if rs_status rs = - 1 then 200 else rs_status rs"
  have "''GET'' \<in> set request_methods" by (simp add: request_methods_def)
  then obtain q where q: "process_request env re svr ep close closed None s
      = handle_read env re svr ep close closed None ((line_request ''GET'' t)\<lparr>rq_headers := rev h\<rparr>) (new_answer svr) (s\<lparr>inq := q\<rparr>)"
    "concat q = rest" "[] \<notin> set q"
    by (rule process_request_text [OF _ assms(1,3,5,7)])
  have d: "dispatch_request re (get_handlers svr) (received ep ''GET'' t h) (new_answer svr) = (Inr True, ?rq, rs)"
    by (simp add: dispatch_first_match assms(11,12))
  obtain c where c: "process_request env re svr ep close closed None s
      = with_closed c (answer env svr close (Inr True, ?rq, rs, s\<lparr>inq := q\<rparr>))"
    using handle_read_get [OF assms(2,4,9,10), of env re ep close closed "new_answer svr" "s\<lparr>inq := q\<rparr>" thesis] q(1) d by simp
  obtain ms pp where "?rq = (received ep ''GET'' t h)\<lparr>rq_matches := ms, rq_path_params := pp\<rparr>" using mt.frame by blast
  then have rq: "rq_ranges ?rq = []" "rq_method ?rq = ''GET''" using received_plain(4,5) [OF assms(4), of ep "''GET''" t] by auto
  have a: "answer env svr close (Inr True, ?rq, rs, s\<lparr>inq := q\<rparr>)
      = write_response_with_content env svr close ?rq (rs\<lparr>rs_status := ?st\<rparr>) (s\<lparr>inq := q\<rparr>)"
    using rq(1) assms(15) by (cases rs) (simp add: answer_def answer_routed_def Let_def range_error_def)
  from write_plain_content [OF assms(8), of "s\<lparr>inq := q\<rparr>" ?rq "rs\<lparr>rs_status := ?st\<rparr>" env close] rq assms(6,13,14,16)
  obtain h' where h': "write_response_with_content env svr close ?rq (rs\<lparr>rs_status := ?st\<rparr>) (s\<lparr>inq := q\<rparr>)
      = Some (Inr (True, s\<lparr>inq := q, outbuf := outbuf s @ response_line ?st @ header_text h' @ rs_body rs\<rparr>))"
    "headers_range h' ''Content-Length'' = [string_of_nat (length (rs_body rs))]"
    "has_header (rs_headers rs) ''Content-Type'' \<longrightarrow> headers_range h' ''Content-Type'' = headers_range (rs_headers rs) ''Content-Type''"
    "set h' \<subseteq> set (rs_headers rs) \<union> set (usual_headers svr (length (rs_body rs)))"
    by auto
  show ?thesis unfolding c a h'(1) with_closed_Some
    using h'(2-4) q(2)
    by (intro exI [of _ c] exI [of _ h']
        exI [of _ "s\<lparr>inq := q, outbuf := outbuf s @ response_line ?st @ header_text h' @ rs_body rs\<rparr>"]) (simp add: avail_def)
qed

section \<open>Exceptions of handlers\<close>

text \<open>An exception that leaves the routing (a handler, the pre-routing handler or the file handler threw it, or a callback was missing)
  goes no further when no exception handler is set and no content has been set yet: the server answers with status 500 and an empty
  content, and the text of the exception, with its line ends escaped, is a header field wherever it may stand in one.\<close>

theorem exceptions_answered:
  assumes "routing env re svr rq rs s = (Inl e, rq', rs', s')" and "exception_handler svr = None" and "plain_server svr"
    and "wr_plan s' = []" and "rs_body rs' = []" and "rs_content_length rs' = 0" and "rs_content_provider rs' = None"
    and "\<not> has_header (rs_headers rs') ''Content-Length''"
    and "w = (case e of StdException x \<Rightarrow> escape_what (what x) | UnknownException \<Rightarrow> ''UNKNOWN'')"
  shows "\<exists>h. answer env svr close (routed_request env re svr rq rs s)
      = Some (Inr (True, s'\<lparr>outbuf := outbuf s' @ response_line 500 @ header_text h\<rparr>))
    \<and> headers_range h ''Content-Length'' = [''0'']
    \<and> (is_field_value w \<longrightarrow> w \<in> set (headers_range h ''EXCEPTION_WHAT''))"
proof -
  let ?rs = "res_set_header ''EXCEPTION_WHAT'' w (rs'\<lparr>rs_status := 500\<rparr>)"
  have "answer env svr close (routed_request env re svr rq rs s) = write_response env svr close rq' ?rs s'"
    by (simp add: routed_request_def assms(1,2,9) catch_thrown_def answer_def Let_def)
  moreover have "write_response env svr close rq' ?rs s' = (let r = additional_headers svr close (rq'\<lparr>rq_ranges := []\<rparr>) ?rs
      in Some (Inr (True, s'\<lparr>outbuf := outbuf s' @ response_line 500 @ header_text (rs_headers r)\<rparr>)))"
    using write_response_core_plain [OF assms(3,4), where need = False, of env "rq'\<lparr>rq_ranges := []\<rparr>" ?rs ?rs "[]" "[]" close] assms(5,7)
    by (simp add: write_response_def Let_def write_body_def)
  moreover have "headers_range (rs_headers (additional_headers svr close (rq'\<lparr>rq_ranges := []\<rparr>) ?rs)) ''Content-Length'' = [''0'']"
    using assms(5-8) by (simp add: additional_headers_length has_header_def names_differ)
  moreover have "w \<in> set (headers_range (rs_headers (additional_headers svr close (rq'\<lparr>rq_ranges := []\<rparr>) ?rs)) ''EXCEPTION_WHAT'')"
    if "is_field_value w"
    using that by (simp add: additional_headers_def Let_def range_set_header what_names)
  ultimately show ?thesis by (auto simp: Let_def)
qed

text \<open>Once the handler has set a content, the answer to its exception still carries it, and no field announces its length, so that
  the receiver cannot tell where it ends.\<close>

lemma exception_content_unframed:
  assumes "routing env re svr rq rs s = (Inl e, rq', rs', s')" and "exception_handler svr = None" and "plain_server svr"
    and "wr_plan s' = []" and "rs_body rs' \<noteq> []" and "rq_method rq' \<noteq> ''HEAD''"
    and "\<not> has_header (rs_headers rs') ''Content-Length''"
  shows "\<exists>h. answer env svr close (routed_request env re svr rq rs s)
      = Some (Inr (True, s'\<lparr>outbuf := outbuf s' @ response_line 500 @ header_text h @ rs_body rs'\<rparr>))
    \<and> headers_range h ''Content-Length'' = []"
proof -
  let ?rs = "snd (catch_thrown svr e rq' rs')"
  have rs: "rs_status ?rs = 500" "rs_body ?rs = rs_body rs'" "headers_range (rs_headers ?rs) ''Content-Length'' = []"
    using assms(7) by (simp_all add: catch_thrown_def assms(2) Let_def names_differ has_header_def)
  have "answer env svr close (routed_request env re svr rq rs s) = write_response env svr close rq' ?rs s'"
    by (simp add: routed_request_def assms(1,2) catch_thrown_def answer_def Let_def)
  moreover have "write_response env svr close rq' ?rs s' = (let r = additional_headers svr close (rq'\<lparr>rq_ranges := []\<rparr>) ?rs
      in Some (Inr (True, s'\<lparr>outbuf := outbuf s' @ response_line 500 @ header_text (rs_headers r) @ rs_body rs'\<rparr>)))"
    using write_response_core_plain [OF assms(3,4), where need = False, of env "rq'\<lparr>rq_ranges := []\<rparr>" ?rs ?rs "[]" "[]" close] assms(4-6) rs
    by (simp add: write_response_def Let_def write_body_def)
  moreover have "headers_range (rs_headers (additional_headers svr close (rq'\<lparr>rq_ranges := []\<rparr>) ?rs)) ''Content-Length'' = []"
    using assms(5) rs by (simp add: additional_headers_length)
  ultimately show ?thesis by (auto simp: Let_def)
qed

text \<open>The header fields of a request with a long target are read, and then the code reads a header once more. The next request on
  the connection loses its request line to it.\<close>

lemma long_target_swallows_next:
  assumes "m \<in> set request_methods" and "target_ok t" and "sendable h" and "8192 < length (takeWhile (\<lambda>c. c \<noteq> CHR ''#'') t)"
    and "m' \<in> set request_methods" and "target_ok t'" and "CHR '':'' \<notin> set (request_line m' t')"
    and "strm_ok s" and "avail s = request_text m t h @ request_line m' t' @ crlf @ rest"
    and "plain_server svr" and "wr_plan s = []" and "\<not> has_header (default_headers svr) ''Content-Length''"
  shows "\<exists>s'. process_request env re svr ep close closed setup s = Some (Inr (True, closed, s')) \<and> avail s' = rest"
proof -
  obtain q where q: "process_request env re svr ep close closed setup s
      = handle_read env re svr ep close closed setup ((line_request m t)\<lparr>rq_headers := rev h\<rparr>) (new_answer svr) (s\<lparr>inq := q\<rparr>)"
    "concat q = request_line m' t' @ crlf @ rest" "[] \<notin> set q"
    by (rule process_request_text [OF assms(1-3,8,9)])
  let ?x = "request_line m' t'"
  let ?y = "rev (dropWhile is_space_or_tab (rev ?x))"
  have "set ?y \<subseteq> set ?x" by (metis set_dropWhileD set_rev subsetI)
  then have d: "dropWhile (\<lambda>c. c \<noteq> CHR '':'') ?y = []" using assms(7) by (auto simp: dropWhile_eq_Nil_conv)
  have "parse_header ?x = None" unfolding parse_header_def Let_def d by simp
  then obtain q' where q': "read_headers (s\<lparr>inq := q\<rparr>) [] = (False, [], s\<lparr>inq := q'\<rparr>)" "concat q' = rest"
    using read_headers_loop_bad [of "s\<lparr>inq := q\<rparr>" "[]" ?x rest "new_line_reader 2048" "[]"] q(2,3)
      request_line_no_lf [OF assms(5,6)] methods_vchar [OF assms(5)]
    by (auto simp: read_headers_def avail_def request_line_def)
  then have "process_request env re svr ep close closed setup s = with_closed closed
      (write_response env svr close ((line_request m t)\<lparr>rq_headers := rev h\<rparr>) ((new_answer svr)\<lparr>rs_status := 414\<rparr>) (s\<lparr>inq := q'\<rparr>))"
    using assms(4) by (simp add: q(1) handle_read_def)
  then show ?thesis
    using write_empty_response [OF assms(10), of "s\<lparr>inq := q'\<rparr>" "(new_answer svr)\<lparr>rs_status := 414\<rparr>" env close
        "(line_request m t)\<lparr>rq_headers := rev h\<rparr>"] assms(11,12) q'(2)
    by (auto simp: with_closed_Some new_answer_def new_Response_def avail_def)
qed

section \<open>Further observations\<close>

text \<open>A handler that sets the status 200 itself and serves its content by a provider: for a request with a range the field
  \<open>Content-Length\<close> announces the whole content, but only the range is sent.\<close>

lemma status_with_range_misframed:
  assumes "plain_server svr" and "undisturbed env" and "wr_plan s = []" and "rq_method rq \<noteq> ''HEAD''"
    and "rs_body rs = []" and "rs_content_length rs = length c" and "c \<noteq> []" and "rs_content_provider rs = Some p" and "serves p c"
    and "rs_status rs = 200" and "rq_ranges rq = [r]" and "within (int (length c)) r"
    and "\<not> has_header (rs_headers rs) ''Content-Length''"
  shows "\<exists>h. write_response_with_content env svr close rq rs s
      = Some (Inr (True, s\<lparr>outbuf := outbuf s @ response_line 200 @ header_text h @ payload [r] [] [] c\<rparr>))
    \<and> headers_range h ''Content-Length'' = [string_of_nat (length c)]
    \<and> length (payload [r] [] [] c) = snd (get_range_offset_and_length r)"
proof -
  let ?rs = "res_set_header ''Content-Length'' (string_of_nat (length c)) rs"
  have ar: "apply_ranges env rq rs = (?rs, [], [])"
    using assms(5-7,10,11) by (simp add: apply_ranges_def apply_boundary_def apply_provider_length_def partial_content_def)
  let ?r = "additional_headers svr close rq ?rs"
  have "headers_range (rs_headers ?r) ''Content-Length'' = [string_of_nat (length c)]"
    using assms(6,7,13) by (simp add: additional_headers_length range_set_header names_differ has_header_def)
  moreover have "write_response_with_content env svr close rq rs s
      = Some (Inr (True, s\<lparr>outbuf := outbuf s @ response_line 200 @ header_text (rs_headers ?r) @ payload [r] [] [] c\<rparr>))"
    using write_response_core_plain [OF assms(1,3), where need = True, of env rq rs ?rs "[]" "[]" close] ar assms(3-8,10-12)
      write_provider_fit [OF assms(9), of ?r rq "s\<lparr>outbuf := outbuf s @ response_line 200 @ header_text (rs_headers ?r)\<rparr>" env "[]" "[]"] assms(2)
    by (simp add: write_response_with_content_def Let_def write_body_def)
  moreover have "length (payload [r] [] [] c) = snd (get_range_offset_and_length r)"
    using content_length_step [OF assms(12)] by (simp add: payload_def case_prod_unfold del: length_take length_drop)
  ultimately show ?thesis by blast
qed

text \<open>After the answer 417 the request is processed as if it had been accepted, so that a second answer follows.\<close>

lemma expectation_failed_goes_on:
  assumes "get_header_value (rq_headers rq) ''Expect'' '''' 0 = ''100-continue''" and "expect_status svr rq rs = (Inr 417, rs')"
    and "wr_plan s = []"
  shows "handle_expected env re svr close closed rq rs s
    = with_closed closed (answer env svr close
        (routed_request env re svr rq rs' (s\<lparr>outbuf := outbuf s @ response_line 417 @ crlf\<rparr>)))"
  using assms by (simp add: handle_expected_def write_response_line_def strm_write_def)

text \<open>The redirection to a directory below a mount point leaves the mount point out, and what is left begins with two slashes, so
  that a browser takes the name of the directory for the name of a host.\<close>

lemma redirect_loses_mount_point:
  assumes "base_dirs svr = [\<lparr>mount_point = ''/pub'', base_dir = ''/srv'', mount_headers = []\<rparr>]"
    and "rq_path rq = ''/pub/docs''" and "fs_is_dir env ''/srv//docs''"
  shows "handle_file_request env svr rq False new_Response
    = (Inr True, new_Response\<lparr>rs_headers := [(''Location'', ''//docs/'')], rs_status := 301\<rparr>)"
proof -
  have "is_valid_path ''//docs''" "c_str ''/srv//docs'' = ''/srv//docs''" "is_field_value ''//docs/''" "is_field_name ''Location''"
    "starts_with ''/pub/docs'' ''/pub''"
    by code_simp+
  then show ?thesis
    using assms by (simp add: handle_file_request_def file_path_def set_redirect_def res_set_header_def set_header_in_def
        headers_emplace_def new_Response_def)
qed

section \<open>Witnesses\<close>

definition demo_environment :: environment where
  "demo_environment = \<lparr>fs_is_dir = (\<lambda>_. False), fs_is_file = (\<lambda>_. False), fs_mmap = (\<lambda>_. None), random_text = ''r'',
     is_shutting_down = (\<lambda>_ _. False), wait_writable = (\<lambda>_ _. True)\<rparr>"

definition demo_in :: "string list \<Rightarrow> strm" where
  "demo_in q = \<lparr>inq = q, in_closed = False, outbuf = [], wr_plan = []\<rparr>"

definition demo_re :: regex_engine where
  "demo_re = \<lparr>re_valid = (\<lambda>_. True), re_match = (\<lambda>p t. if p = t then Some [t] else None)\<rparr>"

definition demo_ep :: endpoint where
  "demo_ep = \<lparr>ep_remote_addr = ''10.0.0.2'', ep_remote_port = 5000, ep_local_addr = ''10.0.0.1'', ep_local_port = 9001\<rparr>"

lemma demo_plain: "plain_server new_Server" "undisturbed demo_environment" "wr_plan (demo_in q) = []" "outbuf (demo_in q) = []"
  by (simp_all add: plain_server_def new_Server_def undisturbed_def demo_environment_def demo_in_def)

theorem response_framing_witness:
  "\<exists>h. answer_routed demo_environment new_Server False (new_Request\<lparr>rq_method := ''GET'', rq_ranges := [(2, 4)]\<rparr>)
         (set_content ''0123456789'' ''text/plain'' new_Response) (demo_in [])
       = Some (Inr (True, (demo_in [])\<lparr>outbuf := response_line 206 @ header_text h @ ''234''\<rparr>))
     \<and> headers_range h ''Content-Length'' = [''3'']"
proof -
  let ?rq = "new_Request\<lparr>rq_method := ''GET'', rq_ranges := [(2, 4)]\<rparr>"
  let ?rs = "set_content ''0123456789'' ''text/plain'' new_Response"
  have n: "\<not> has_header (rs_headers ?rs) ''Content-Length''" "string_of_nat 3 = ''3''" by code_simp+
  have c: "checked ?rq ?rs = (?rq, False)"
    by (simp add: range_error_def new_Request_def new_Response_def set_content_def res_set_header_def complete_range_def)
  have p: "payload (rq_ranges ?rq) b ct ''0123456789'' = ''234''" for b ct
    by (simp add: payload_def get_range_offset_and_length_def)
  have "content_is ?rs ''0123456789''" "rs_status ?rs \<in> {- 1, 206} \<or> rq_ranges ?rq = []" "rs_file_content_path ?rs = []"
    by (simp_all add: content_is_def set_content_def res_set_header_def new_Response_def)
  from response_framing [where s = "demo_in []" and rq = ?rq and close = False, OF demo_plain(1-3) _ this n(1)] obtain h b ct d where
    "answer_routed demo_environment new_Server False ?rq ?rs (demo_in [])
       = Some (Inr (True, (demo_in [])\<lparr>outbuf := response_line 206 @ header_text h @ d\<rparr>))"
    "headers_range h ''Content-Length'' = [string_of_nat (length d)]" "d = ''234''"
    unfolding c using p by (auto simp: demo_plain(4))
  then show ?thesis using n(2) by (intro exI [of _ h]) (simp add: eval_nat_numeral)
qed

theorem refused_requests_answered_witness:
  "\<exists>c h s'. process_request demo_environment demo_re new_Server demo_ep False False None (demo_in [''BA'', ''D'' @ crlf]) = Some (Inr (True, c, s'))
     \<and> outbuf s' = response_line 400 @ header_text h \<and> headers_range h ''Content-Length'' = [''0'']"
proof -
  have "\<not> fst (parse_request_line (''BAD'' @ crlf) new_Request)" by code_simp
  then have "refusal (''BAD'' @ crlf @ []) 400" by (intro bad_line) simp_all
  then have "refusal (avail (demo_in [''BA'', ''D'' @ crlf])) 400" by (simp add: avail_def demo_in_def)
  from refused_requests_answered [OF this demo_plain(1) _ demo_plain(3)] show ?thesis
    by (simp add: strm_ok_def demo_in_def new_Server_def has_header_def headers_range_def)
qed

theorem exceptions_answered_witness:
  "\<exists>h. answer demo_environment (new_Server\<lparr>get_handlers := [(Regex ''/x'', \<lambda>rq rs. (Some (StdException (runtime_error ''no'')), rs))]\<rparr>) False
         (routed_request demo_environment demo_re (new_Server\<lparr>get_handlers := [(Regex ''/x'', \<lambda>rq rs. (Some (StdException (runtime_error ''no'')), rs))]\<rparr>)
            (new_Request\<lparr>rq_method := ''GET'', rq_path := ''/x''\<rparr>) new_Response (demo_in []))
       = Some (Inr (True, (demo_in [])\<lparr>outbuf := response_line 500 @ header_text h\<rparr>))
     \<and> ''no'' \<in> set (headers_range h ''EXCEPTION_WHAT'')"
proof -
  let ?svr = "new_Server\<lparr>get_handlers := [(Regex ''/x'', \<lambda>rq rs. (Some (StdException (runtime_error ''no'')), rs))]\<rparr>"
  let ?rq = "new_Request\<lparr>rq_method := ''GET'', rq_path := ''/x''\<rparr>"
  have f: "\<not> expect_content ?rq" "escape_what ''no'' = ''no''" "is_field_value ''no''" by code_simp+
  have "\<exists>rq'. routing demo_environment demo_re ?svr ?rq new_Response (demo_in [])
      = (Inl (StdException (runtime_error ''no'')), rq', new_Response, demo_in [])"
    using f(1) by (simp add: routing_def pre_route_def handle_file_request_def dispatch_regular_def regular_handlers_def new_Server_def
        matches_def match_regex_def demo_re_def new_Request_def)
  then obtain rq' where r: "routing demo_environment demo_re ?svr ?rq new_Response (demo_in [])
      = (Inl (StdException (runtime_error ''no'')), rq', new_Response, demo_in [])" by blast
  have "plain_server ?svr" "exception_handler ?svr = None" by (simp_all add: plain_server_def new_Server_def)
  from exceptions_answered [OF r this(2,1) demo_plain(3) _ _ _ _ refl, where close = False] obtain h where
    "answer demo_environment ?svr False (routed_request demo_environment demo_re ?svr ?rq new_Response (demo_in []))
       = Some (Inr (True, (demo_in [])\<lparr>outbuf := response_line 500 @ header_text h\<rparr>))"
    "''no'' \<in> set (headers_range h ''EXCEPTION_WHAT'')"
    by (auto simp: f(2,3) new_Response_def has_header_def headers_range_def [of "[]"] demo_plain)
  then show ?thesis by blast
qed

end
