(* ===== verification/Httplib_Pool.thy ===== *)
theory Httplib_Pool
  imports Prelude "HOL-Library.Multiset"
begin

text \<open>
  The thread pool of the HTTP library's server (BackendServers/httplib.h, classes \<open>TaskQueue\<close> and \<open>ThreadPool\<close>). Each section that holds
  the mutex is one step; a worker that waits for the condition variable is a worker that cannot move yet. The jobs that were accepted,
  handed out and finished are recorded.

  Shown: jobs are handed out in the order in which they were accepted, each once; when \<open>shutdown\<close> has joined the
  workers every accepted job has been run to its end; the joining cannot get stuck.
\<close>

section \<open>The pool\<close>

datatype 'j worker = Waiting | Running 'j | Ended

record 'j pool =
  threads :: "'j worker list"
  jobs :: "'j list"
  shutdown_flag :: bool
  max_queued_requests :: nat
  accepted :: "'j list"
  started :: "'j list"
  finished :: "'j list"

definition new_ThreadPool :: "nat \<Rightarrow> nat \<Rightarrow> 'j pool" where
  "new_ThreadPool n mqr =
     \<lparr>threads = replicate n Waiting, jobs = [], shutdown_flag = False, max_queued_requests = mqr,
      accepted = [], started = [], finished = []\<rparr>"

definition enqueue :: "'j \<Rightarrow> 'j pool \<Rightarrow> bool \<times> 'j pool" where
  "enqueue fn p =
     (if max_queued_requests p > 0 \<and> length (jobs p) \<ge> max_queued_requests p then (False, p)
      else (True, p\<lparr>jobs := jobs p @ [fn], accepted := accepted p @ [fn]\<rparr>))"

text \<open>The first section of \<open>shutdown\<close>; the rest of it waits until every worker has ended.\<close>

definition request_shutdown :: "'j pool \<Rightarrow> 'j pool" where
  "request_shutdown p = p\<lparr>shutdown_flag := True\<rparr>"

definition joined :: "'j pool \<Rightarrow> bool" where
  "joined p \<longleftrightarrow> list_all (\<lambda>w. w = Ended) (threads p)"

text \<open>The section of a worker: \<open>None\<close> while the condition of the wait does not hold.\<close>

definition worker_take :: "nat \<Rightarrow> 'j pool \<Rightarrow> 'j pool option" where
  "worker_take i p =
     (if jobs p = [] \<and> \<not> shutdown_flag p then None
      else if shutdown_flag p \<and> jobs p = [] then Some (p\<lparr>threads := (threads p)[i := Ended]\<rparr>)
      else Some (p\<lparr>threads := (threads p)[i := Running (hd (jobs p))], jobs := tl (jobs p),
                   started := started p @ [hd (jobs p)]\<rparr>))"

text \<open>The end of the call \<open>fn()\<close>.\<close>

definition worker_return :: "nat \<Rightarrow> 'j \<Rightarrow> 'j pool \<Rightarrow> 'j pool" where
  "worker_return i fn p = p\<lparr>threads := (threads p)[i := Waiting], finished := finished p @ [fn]\<rparr>"

inductive worker_step :: "'j pool \<Rightarrow> 'j pool \<Rightarrow> bool" where
  take_job: "i < length (threads p) \<Longrightarrow> threads p ! i = Waiting \<Longrightarrow> worker_take i p = Some p' \<Longrightarrow> worker_step p p'"
| return_job: "i < length (threads p) \<Longrightarrow> threads p ! i = Running fn \<Longrightarrow> worker_step p (worker_return i fn p)"

text \<open>A run of the pool; the server calls \<open>shutdown\<close> after its last \<open>enqueue\<close>.\<close>

inductive pool_run :: "nat \<Rightarrow> nat \<Rightarrow> 'j pool \<Rightarrow> bool" for n mqr where
  start: "pool_run n mqr (new_ThreadPool n mqr)"
| enq: "pool_run n mqr p \<Longrightarrow> \<not> shutdown_flag p \<Longrightarrow> pool_run n mqr (snd (enqueue fn p))"
| shut: "pool_run n mqr p \<Longrightarrow> pool_run n mqr (request_shutdown p)"
| work: "pool_run n mqr p \<Longrightarrow> worker_step p p' \<Longrightarrow> pool_run n mqr p'"

section \<open>The invariant\<close>

fun running :: "'j worker \<Rightarrow> 'j list" where
  "running (Running fn) = [fn]"
| "running _ = []"

definition in_progress :: "'j pool \<Rightarrow> 'j multiset" where
  "in_progress p = mset (concat (map running (threads p)))"

definition pool_inv :: "nat \<Rightarrow> nat \<Rightarrow> 'j pool \<Rightarrow> bool" where
  "pool_inv n mqr p \<longleftrightarrow>
     length (threads p) = n \<and> max_queued_requests p = mqr
     \<and> accepted p = started p @ jobs p
     \<and> mset (started p) = mset (finished p) + in_progress p
     \<and> (mqr > 0 \<longrightarrow> length (jobs p) \<le> mqr)
     \<and> (Ended \<in> set (threads p) \<longrightarrow> shutdown_flag p \<and> jobs p = [])"

lemma concat_running_update:
  "i < length ws \<Longrightarrow> mset (concat (map running (ws[i := w]))) + mset (running (ws ! i)) = mset (concat (map running ws)) + mset (running w)"
proof (induction ws arbitrary: i)
  case (Cons v ws)
  then show ?case by (cases i) (auto simp: ac_simps)
qed simp

lemma Ended_update: "Ended \<in> set (ws[i := w]) \<Longrightarrow> w \<noteq> Ended \<Longrightarrow> Ended \<in> set ws"
  using set_update_subset_insert by fastforce

lemma worker_step_inv:
  assumes "worker_step p p'" and "pool_inv n mqr p"
  shows "pool_inv n mqr p'"
  using assms
proof cases
  case (take_job i)
  then show ?thesis
    using assms(2) concat_running_update [of i "threads p" "Running (hd (jobs p))"] concat_running_update [of i "threads p" Ended]
      Ended_update [of "threads p" i "Running (hd (jobs p))"]
    by (auto simp: pool_inv_def worker_take_def in_progress_def split: if_splits)
next
  case (return_job i fn)
  then show ?thesis
    using assms(2) concat_running_update [of i "threads p" Waiting] Ended_update [of "threads p" i Waiting]
    by (auto simp: pool_inv_def worker_return_def in_progress_def)
qed

lemma pool_run_inv: "pool_run n mqr p \<Longrightarrow> pool_inv n mqr p"
proof (induction rule: pool_run.induct)
  case start
  then show ?case by (simp add: pool_inv_def new_ThreadPool_def in_progress_def)
next
  case (enq p fn)
  then show ?case by (auto simp: pool_inv_def enqueue_def in_progress_def)
next
  case (shut p)
  then show ?case by (simp add: pool_inv_def request_shutdown_def in_progress_def)
qed (rule worker_step_inv)

section \<open>Ending\<close>

fun weight :: "'j worker \<Rightarrow> nat" where
  "weight Waiting = 1" | "weight (Running fn) = 2" | "weight Ended = 0"

definition work_left :: "'j pool \<Rightarrow> nat" where
  "work_left p = 2 * length (jobs p) + sum_list (map weight (threads p))"

lemma weight_update: "i < length ws \<Longrightarrow> sum_list (map weight (ws[i := w])) + weight (ws ! i) = sum_list (map weight ws) + weight w"
proof (induction ws arbitrary: i)
  case (Cons v ws)
  then show ?case by (cases i) auto
qed simp

lemma worker_step_less: "worker_step p p' \<Longrightarrow> work_left p' < work_left p"
proof (induction rule: worker_step.induct)
  case (take_job i p p')
  then show ?case
    using weight_update [of i "threads p" "Running (hd (jobs p))"] weight_update [of i "threads p" Ended]
    by (cases "jobs p") (auto simp: worker_take_def work_left_def split: if_splits)
next
  case (return_job i p fn)
  then show ?case using weight_update [of i "threads p" Waiting] by (auto simp: worker_return_def work_left_def)
qed

lemma worker_step_exists:
  assumes "shutdown_flag p" and "\<not> joined p"
  shows "\<exists>p'. worker_step p p'"
proof -
  obtain i where i: "i < length (threads p)" "threads p ! i \<noteq> Ended"
    using assms(2) by (auto simp: joined_def list_all_length)
  then show ?thesis
  proof (cases "threads p ! i")
    case Waiting
    have "\<exists>p'. worker_take i p = Some p'" using assms(1) by (simp add: worker_take_def)
    with i(1) Waiting show ?thesis by (blast intro: take_job)
  qed (auto intro: return_job)
qed

lemma worker_step_flag: "worker_step p p' \<Longrightarrow> shutdown_flag p' = shutdown_flag p \<and> accepted p' = accepted p"
  by (induction rule: worker_step.induct) (auto simp: worker_take_def worker_return_def split: if_splits)

lemma steps_join:
  assumes "shutdown_flag p"
  shows "\<exists>k p'. (worker_step ^^ k) p p' \<and> joined p' \<and> k \<le> work_left p"
  using assms
proof (induction "work_left p" arbitrary: p rule: less_induct)
  case less
  show ?case
  proof (cases "joined p")
    case True
    then show ?thesis by (intro exI [of _ 0] exI [of _ p]) simp
  next
    case False
    then obtain q where q: "worker_step p q" using worker_step_exists less.prems by blast
    then obtain k p' where "(worker_step ^^ k) q p'" "joined p'" "k \<le> work_left q"
      using less.hyps [OF worker_step_less [OF q]] worker_step_flag [OF q] less.prems by blast
    moreover have "Suc k \<le> work_left p" using calculation(3) worker_step_less [OF q] by simp
    ultimately show ?thesis using relpowp_Suc_I2 [of worker_step p q] q by blast
  qed
qed

section \<open>Properties\<close>

text \<open>C32: At every moment of a run the jobs that were handed out, followed by those in the queue, are the accepted jobs in their order, so none
  is lost, doubled or overtaken; a queue with a limit never exceeds it; and once \<open>shutdown\<close> has joined the workers, every accepted
  job has been run to its end.\<close>

theorem pool_runs_every_job:
  assumes "pool_run n mqr p"
  shows "accepted p = started p @ jobs p \<and> (mqr > 0 \<longrightarrow> length (jobs p) \<le> mqr)
    \<and> (joined p \<and> 0 < n \<longrightarrow> jobs p = [] \<and> mset (finished p) = mset (accepted p))"
proof -
  have inv: "pool_inv n mqr p" using pool_run_inv [OF assms] .
  have "jobs p = []" "in_progress p = {#}" if "joined p" "0 < n"
  proof -
    have t: "threads p = replicate n Ended"
      using that(1) inv by (auto simp: joined_def pool_inv_def list_all_iff intro!: replicate_eqI)
    then have "Ended \<in> set (threads p)" using that(2) by simp
    then show "jobs p = []" using inv by (simp add: pool_inv_def)
    have "concat (map running (replicate n (Ended :: 'a worker))) = []" by (induction n) auto
    then show "in_progress p = {#}" by (simp add: in_progress_def t)
  qed
  then show ?thesis using inv by (auto simp: pool_inv_def)
qed

text \<open>\<open>shutdown\<close> returns: from every state in which it was called, the workers' steps are bounded by the work that is left,
  whatever their order, and as long as a worker has not ended some worker can move.\<close>

theorem pool_shutdown_returns:
  "shutdown_flag p \<longrightarrow>
     (\<forall>p'. worker_step p p' \<longrightarrow> work_left p' < work_left p \<and> shutdown_flag p')
     \<and> (\<not> joined p \<longrightarrow> (\<exists>p'. worker_step p p'))
     \<and> (\<exists>k p'. (worker_step ^^ k) p p' \<and> joined p' \<and> k \<le> work_left p)"
  using worker_step_less worker_step_flag worker_step_exists steps_join by blast

section \<open>Witnesses\<close>

text \<open>One worker, one job, from the start to the end of \<open>shutdown\<close>.\<close>

definition demo_enqueued :: "nat pool" where
  "demo_enqueued = request_shutdown (snd (enqueue 7 (new_ThreadPool 1 0)))"

definition demo_ended :: "nat pool" where
  "demo_ended = (worker_return 0 7 (the (worker_take 0 demo_enqueued)))\<lparr>threads := [Ended]\<rparr>"

lemma demo_enqueued_run: "pool_run 1 0 demo_enqueued"
  unfolding demo_enqueued_def by (intro shut enq start) (simp add: new_ThreadPool_def)

lemma demo_ended_run: "pool_run 1 0 demo_ended"
proof -
  note defs = demo_ended_def demo_enqueued_def request_shutdown_def enqueue_def new_ThreadPool_def worker_take_def worker_return_def
  let ?p1 = "the (worker_take 0 demo_enqueued)"
  have "worker_step demo_enqueued ?p1" by (rule take_job [of 0]) (simp_all add: defs)
  then have "pool_run 1 0 ?p1" by (rule work [OF demo_enqueued_run])
  moreover have "worker_step ?p1 (worker_return 0 7 ?p1)" by (rule return_job) (simp_all add: defs)
  ultimately have "pool_run 1 0 (worker_return 0 7 ?p1)" by (rule work)
  moreover have "worker_step (worker_return 0 7 ?p1) demo_ended" by (rule take_job [of 0]) (simp_all add: defs)
  ultimately show ?thesis by (rule work)
qed

theorem pool_runs_every_job_witness:
  "joined demo_ended \<and> accepted demo_ended = [7] \<and> mset (finished demo_ended) = mset (accepted demo_ended)"
proof -
  have "joined demo_ended" "accepted demo_ended = [7]"
    by (simp_all add: demo_ended_def demo_enqueued_def request_shutdown_def enqueue_def new_ThreadPool_def worker_take_def worker_return_def joined_def)
  then show ?thesis using pool_runs_every_job [OF demo_ended_run] by simp
qed

theorem pool_shutdown_returns_witness:
  "shutdown_flag demo_enqueued \<and> (\<exists>k p'. (worker_step ^^ k) demo_enqueued p' \<and> joined p' \<and> k \<le> 3)"
proof -
  have "shutdown_flag demo_enqueued" "work_left demo_enqueued = 3"
    by (simp_all add: demo_enqueued_def request_shutdown_def enqueue_def new_ThreadPool_def work_left_def)
  then show ?thesis using pool_shutdown_returns [of demo_enqueued] by auto
qed

end
