(* ===== verification/Httplib_Connection.thy ===== *)
theory Httplib_Connection
  imports Httplib_Server Httplib_Pool
begin

text \<open>
  Connections of the HTTP library's server (BackendServers/httplib.h): \<open>SocketStream\<close> with its read buffer, the waiting for
  the next request on a connection, the loop over the requests of a connection, and the life of the server (\<open>bind\<close>, \<open>listen\<close>, \<open>stop\<close>).

  The kernel's side of a socket is a stream as in \<^theory_text>\<open>Httplib_Stream\<close>. The results of \<open>select\<close>, of the clock and of \<open>accept\<close> are given
  by the environment, round by round; a loop that never ends has the value \<open>None\<close>.

  Shown: the buffer neither loses nor reorders bytes (the locale \<open>byte_source\<close>, for the kernel's stream and for \<open>SocketStream\<close>), the waiting
  ends, a connection serves no more requests than allowed and announces the last, and every accepted connection is handed to the pool or, with
  the pool's queue full, closed.
\<close>

section \<open>SocketStream\<close>

record SocketStream =
  ss_sock :: strm
  ss_read_buff :: string
  ss_read_buff_off :: nat
  ss_read_buff_content_size :: nat

definition read_buff_size :: nat where
  "read_buff_size = 4096"

definition new_SocketStream :: "strm \<Rightarrow> SocketStream" where
  "new_SocketStream k = \<lparr>ss_sock = k, ss_read_buff = replicate read_buff_size (CHR 0x00), ss_read_buff_off = 0, ss_read_buff_content_size = 0\<rparr>"

definition is_readable :: "SocketStream \<Rightarrow> bool" where
  "is_readable ss \<longleftrightarrow> ss_read_buff_off ss < ss_read_buff_content_size ss"

text \<open>The time that a wait may take, in seconds and microseconds; \<open>min\<close> and the division of C++ on \<open>time_t\<close>.\<close>

definition calc_actual_timeout :: "int \<Rightarrow> int \<Rightarrow> int \<Rightarrow> int \<Rightarrow> int \<times> int" where
  "calc_actual_timeout max_timeout_msec duration_msec timeout_sec timeout_usec =
     (let timeout_msec = timeout_sec * 1000 + (if timeout_usec \<ge> 0 then timeout_usec div 1000 else - (- timeout_usec div 1000));
          actual_timeout_msec = max 0 (min (max_timeout_msec - duration_msec) timeout_msec)
      in (actual_timeout_msec div 1000, actual_timeout_msec mod 1000 * 1000))"

text \<open>\<open>select\<close> reports a socket that has bytes or was closed by the peer; on another one it times out.\<close>

definition wait_readable :: "SocketStream \<Rightarrow> bool" where
  "wait_readable ss \<longleftrightarrow> inq (ss_sock ss) \<noteq> [] \<or> in_closed (ss_sock ss)"

text \<open>\<open>memcpy\<close> of the received bytes to the start of the buffer.\<close>

definition fill_buff :: "string \<Rightarrow> string \<Rightarrow> string" where
  "fill_buff d buff = d @ drop (length d) buff"

definition ss_read :: "nat \<Rightarrow> SocketStream \<Rightarrow> string option \<times> SocketStream" where
  "ss_read sz ss =
     (let sz = min sz (2 ^ 63 - 1); off = ss_read_buff_off ss
      in if off < ss_read_buff_content_size ss then
           let remaining_size = ss_read_buff_content_size ss - off;
               n = (if sz \<le> remaining_size then sz else remaining_size)
           in (Some (take n (drop off (ss_read_buff ss))), ss\<lparr>ss_read_buff_off := off + n\<rparr>)
         else if \<not> wait_readable ss then (None, ss)
         else
           let ss = ss\<lparr>ss_read_buff_off := 0, ss_read_buff_content_size := 0\<rparr>
           in if sz < read_buff_size then
                case strm_read read_buff_size (ss_sock ss) of
                  (None, k) \<Rightarrow> (None, ss\<lparr>ss_sock := k\<rparr>)
                | (Some d, k) \<Rightarrow>
                    let ss = ss\<lparr>ss_sock := k, ss_read_buff := fill_buff d (ss_read_buff ss)\<rparr>
                    in if length d \<le> sz then (Some d, ss)
                       else (Some (take sz (ss_read_buff ss)), ss\<lparr>ss_read_buff_off := sz, ss_read_buff_content_size := length d\<rparr>)
              else case strm_read sz (ss_sock ss) of (r, k) \<Rightarrow> (r, ss\<lparr>ss_sock := k\<rparr>))"

text \<open>The bytes still to come: what is left in the buffer and what the kernel holds.\<close>

definition ss_view :: "SocketStream \<Rightarrow> string" where
  "ss_view ss = drop (ss_read_buff_off ss) (take (ss_read_buff_content_size ss) (ss_read_buff ss)) @ avail (ss_sock ss)"

definition ss_ok :: "SocketStream \<Rightarrow> bool" where
  "ss_ok ss \<longleftrightarrow> strm_ok (ss_sock ss) \<and> length (ss_read_buff ss) = read_buff_size \<and> ss_read_buff_content_size ss \<le> read_buff_size"

section \<open>Sources of bytes\<close>

text \<open>What the readers of lines and bodies rely on: a read takes bytes from the front and takes at least one if there is one.\<close>

locale byte_source =
  fixes rd :: "nat \<Rightarrow> 's \<Rightarrow> string option \<times> 's" and content :: "'s \<Rightarrow> string" and ok :: "'s \<Rightarrow> bool"
  assumes consumes: "ok s \<Longrightarrow> rd n s = (Some d, s') \<Longrightarrow> content s = d @ content s' \<and> length d \<le> n \<and> ok s'"
    and progress: "ok s \<Longrightarrow> 0 < n \<Longrightarrow> content s \<noteq> [] \<Longrightarrow> \<exists>d s'. rd n s = (Some d, s') \<and> d \<noteq> []"
    and failure: "ok s \<Longrightarrow> rd n s = (None, s') \<Longrightarrow> content s = [] \<and> content s' = [] \<and> ok s'"
begin

text \<open>The pieces that a sequence of reads of the given sizes returns.\<close>

fun reads :: "nat list \<Rightarrow> 's \<Rightarrow> string list \<times> 's" where
  "reads [] s = ([], s)"
| "reads (n # ns) s =
     (case rd n s of
        (None, s) \<Rightarrow> ([], s)
      | (Some d, s) \<Rightarrow> (case reads ns s of (ds, s) \<Rightarrow> (d # ds, s)))"

lemma reads_in_order: "ok s \<Longrightarrow> reads ns s = (ds, s') \<Longrightarrow> content s = concat ds @ content s' \<and> ok s'"
proof (induction ns arbitrary: s ds s')
  case (Cons n ns)
  obtain r t where r: "rd n s = (r, t)" by fastforce
  show ?case
  proof (cases r)
    case None
    with Cons.prems r failure [of s n t] show ?thesis by auto
  next
    case (Some d)
    obtain ds2 u where u: "reads ns t = (ds2, u)" by fastforce
    have "content s = d @ content t \<and> ok t" using consumes Cons.prems(1) r Some by blast
    with Cons.IH [OF _ u] Cons.prems(2) r Some u show ?thesis by auto
  qed
qed simp

text \<open>Enough reads of at least one byte each use up the content.\<close>

lemma reads_exhaust: "ok s \<Longrightarrow> list_all (\<lambda>n. 0 < n) ns \<Longrightarrow> length (content s) \<le> length ns \<Longrightarrow> content (snd (reads ns s)) = []"
proof (induction ns arbitrary: s)
  case (Cons n ns)
  obtain r t where r: "rd n s = (r, t)" by fastforce
  show ?case
  proof (cases r)
    case None
    with Cons.prems r failure [of s n t] show ?thesis by simp
  next
    case (Some d)
    have c: "content s = d @ content t" "ok t" using consumes Cons.prems(1) r Some by blast+
    have "length (content t) \<le> length ns"
    proof (cases "content s = []")
      case False
      then have "d \<noteq> []" using progress [of s n] Cons.prems(1,2) r Some by auto
      then show ?thesis using c(1) Cons.prems(3) by (cases d) auto
    qed (use c in simp)
    with Cons.IH [OF c(2)] Cons.prems(2) r Some show ?thesis by (cases "reads ns t") simp
  qed
qed simp

end

interpretation ks: byte_source strm_read avail strm_ok
proof unfold_locales
  show "avail s = d @ avail s' \<and> length d \<le> n \<and> strm_ok s'" if "strm_ok s" "strm_read n s = (Some d, s')" for s n d s'
    using that strm_read_consumes [OF that(2)]
    by (auto simp: strm_read_def strm_ok_def split: list.splits if_splits)
  show "\<exists>d s'. strm_read n s = (Some d, s') \<and> d \<noteq> []" if "strm_ok s" "0 < n" "avail s \<noteq> []" for s n
    using strm_read_some [OF that(1,3,2)] by blast
  show "avail s = [] \<and> avail s' = [] \<and> strm_ok s'" if "strm_ok s" "strm_read n s = (None, s')" for s n s'
    using that by (auto simp: strm_read_def avail_def split: list.splits if_splits)
qed

lemma strm_ok_readable: "strm_ok k \<Longrightarrow> avail k \<noteq> [] \<Longrightarrow> inq k \<noteq> []"
  by (auto simp: avail_def)

lemma buffered_read:
  assumes "off < cs" and "cs \<le> length b" and "n \<le> cs - off"
  shows "drop off (take cs b) = take n (drop off b) @ drop (off + n) (take cs b)"
proof -
  have "take n (drop off (take cs b)) = take n (drop off b)" using assms(3) by (simp add: drop_take min_absorb1)
  then show ?thesis using append_take_drop_id [of n "drop off (take cs b)"] by (simp add: add.commute)
qed

lemma ss_read_law:
  assumes "ss_ok ss" and "ss_read n ss = (r, ss')"
  shows "ss_ok ss' \<and> (case r of
      Some d \<Rightarrow> ss_view ss = d @ ss_view ss' \<and> length d \<le> n \<and> (0 < n \<and> ss_view ss \<noteq> [] \<longrightarrow> d \<noteq> [])
    | None \<Rightarrow> ss_view ss = [] \<and> ss_view ss' = [])"
proof (cases "ss_read_buff_off ss < ss_read_buff_content_size ss")
  case True
  let ?off = "ss_read_buff_off ss" and ?cs = "ss_read_buff_content_size ss" and ?b = "ss_read_buff ss"
  let ?m = "min (min n (2 ^ 63 - 1)) (?cs - ?off)"
  have r: "r = Some (take ?m (drop ?off ?b))" "ss' = ss\<lparr>ss_read_buff_off := ?off + ?m\<rparr>"
    using assms(2) True by (auto simp: ss_read_def Let_def min_def split: if_splits)
  have cs: "?cs \<le> length ?b" using assms(1) by (simp add: ss_ok_def)
  have "0 < n \<longrightarrow> 0 < ?m" using True by simp
  then show ?thesis
    using r assms(1) buffered_read [OF True cs, of ?m] True cs by (auto simp: ss_view_def ss_ok_def)
next
  case False
  let ?sz = "min n (2 ^ 63 - 1)" and ?k = "ss_sock ss"
  have buf: "ss_view ss = avail ?k" using False by (simp add: ss_view_def)
  have ok: "strm_ok ?k" "length (ss_read_buff ss) = read_buff_size" using assms(1) by (simp_all add: ss_ok_def)
  have drained: "ss_view (ss\<lparr>ss_read_buff_off := 0, ss_read_buff_content_size := 0, ss_sock := k, ss_read_buff := b\<rparr>) = avail k" for k b
    by (simp add: ss_view_def)
  show ?thesis
  proof (cases "wait_readable ss")
    case no: False
    then have "r = None" "ss' = ss" using assms(2) False by (simp_all add: ss_read_def Let_def)
    then show ?thesis using no assms(1) buf strm_ok_readable [OF ok(1)] by (auto simp: wait_readable_def)
  next
    case wait: True
    show ?thesis
    proof (cases "?sz < read_buff_size")
      case small: True
      obtain r1 k where k: "strm_read read_buff_size ?k = (r1, k)" by fastforce
      show ?thesis
      proof (cases r1)
        case None
        have res: "r = None" "ss' = ss\<lparr>ss_read_buff_off := 0, ss_read_buff_content_size := 0, ss_sock := k\<rparr>"
          using assms(2) False wait small k None by (simp_all add: ss_read_def Let_def)
        show ?thesis using ks.failure [OF ok(1) k [unfolded None]] res ok buf by (simp add: ss_ok_def ss_view_def)
      next
        case (Some d)
        note c = ks.consumes [OF ok(1) k [unfolded Some]]
        have fill: "length (fill_buff d (ss_read_buff ss)) = read_buff_size" "take (length d) (fill_buff d (ss_read_buff ss)) = d"
          using c ok(2) by (simp_all add: fill_buff_def)
        have nonempty: "d \<noteq> []" if "avail ?k \<noteq> []"
          using ks.progress [OF ok(1) _ that, of read_buff_size] k Some by (auto simp: read_buff_size_def)
        show ?thesis
        proof (cases "length d \<le> ?sz")
          case True
          have res: "r = Some d" "ss' = ss\<lparr>ss_read_buff_off := 0, ss_read_buff_content_size := 0, ss_sock := k, ss_read_buff := fill_buff d (ss_read_buff ss)\<rparr>"
            using assms(2) False wait small k Some True by (simp_all add: ss_read_def Let_def)
          show ?thesis using True c nonempty buf fill(1) by (auto simp: res ss_ok_def drained)
        next
          case long: False
          have res: "r = Some (take ?sz (fill_buff d (ss_read_buff ss)))"
            "ss' = ss\<lparr>ss_read_buff_off := 0, ss_read_buff_content_size := 0, ss_sock := k, ss_read_buff := fill_buff d (ss_read_buff ss),
              ss_read_buff_off := ?sz, ss_read_buff_content_size := length d\<rparr>"
            using assms(2) False wait small k Some long by (auto simp: ss_read_def Let_def split: if_splits)
          have "take m (fill_buff d b) = take m d" if "m \<le> length d" for m b using that by (simp add: fill_buff_def)
          from this [of ?sz] have "take ?sz (fill_buff d (ss_read_buff ss)) = take ?sz d" using long by (meson nat_le_linear)
          note res = res [unfolded this]
          have "0 < n \<longrightarrow> 0 < ?sz" by simp
          then show ?thesis using long c buf fill by (auto simp: res ss_ok_def ss_view_def)
        qed
      qed
    next
      case large: False
      obtain r1 k where k: "strm_read ?sz ?k = (r1, k)" by fastforce
      have res: "r = r1" "ss' = ss\<lparr>ss_read_buff_off := 0, ss_read_buff_content_size := 0, ss_sock := k\<rparr>"
        using assms(2) False wait large k by (simp_all add: ss_read_def Let_def)
      show ?thesis
        using ks.consumes [OF ok(1), of ?sz _ k] ks.failure [OF ok(1), of ?sz k] ks.progress [OF ok(1), of ?sz] k buf ok(2)
        by (cases r1) (auto simp: res ss_ok_def ss_view_def)
    qed
  qed
qed

interpretation so: byte_source ss_read ss_view ss_ok
proof unfold_locales
  show "ss_view s = d @ ss_view s' \<and> length d \<le> n \<and> ss_ok s'" if "ss_ok s" "ss_read n s = (Some d, s')" for s n d s'
    using ss_read_law [OF that] by simp
  show "ss_view s = [] \<and> ss_view s' = [] \<and> ss_ok s'" if "ss_ok s" "ss_read n s = (None, s')" for s n s'
    using ss_read_law [OF that] by simp
  show "\<exists>d s'. ss_read n s = (Some d, s') \<and> d \<noteq> []" if "ss_ok s" "0 < n" "ss_view s \<noteq> []" for s n
  proof -
    obtain r s' where r: "ss_read n s = (r, s')" by fastforce
    with ss_read_law [OF that(1) r] that(2,3) show ?thesis by (cases r) simp_all
  qed
qed

section \<open>Waiting for the next request\<close>

text \<open>What the rounds of \<open>keep_alive\<close> see: is the listening socket open, the result of \<open>select\<close>, the clock in microseconds.\<close>

record poll =
  pl_svr_open :: "nat \<Rightarrow> bool"
  pl_select :: "nat \<Rightarrow> int"
  pl_now :: "nat \<Rightarrow> int"

definition keepalive_interval_usec :: int where
  "keepalive_interval_usec = 10000"

partial_function (option) keep_alive_loop :: "poll \<Rightarrow> int \<Rightarrow> int \<Rightarrow> nat \<Rightarrow> bool option" where
  "keep_alive_loop p begun timeout i =
     (if \<not> pl_svr_open p i then Some False
      else if pl_select p i < 0 then Some False
      else if pl_select p i = 0 then
        if pl_now p i - begun > timeout then Some False else keep_alive_loop p begun timeout (Suc i)
      else Some True)"

definition keep_alive :: "poll \<Rightarrow> int \<Rightarrow> bool option" where
  "keep_alive p timeout_sec =
     (if pl_select p 0 > 0 then Some True
      else keep_alive_loop p (pl_now p 0 - keepalive_interval_usec) (timeout_sec * 1000000) 1)"

section \<open>The requests of a connection\<close>

text \<open>The loop counts down; \<open>alive\<close> and \<open>callback\<close> get the number of the round. The callback gets \<open>close_connection\<close> and gives
  the result, \<open>connection_closed\<close> and the state.\<close>

fun server_socket_loop ::
    "(nat \<Rightarrow> bool option) \<Rightarrow> (nat \<Rightarrow> bool \<Rightarrow> 's \<Rightarrow> (bool \<times> bool \<times> 's) outcome) \<Rightarrow> nat \<Rightarrow> nat \<Rightarrow> bool \<Rightarrow> 's \<Rightarrow> (bool \<times> 's) outcome" where
  "server_socket_loop alive callback 0 i ret st = Some (Inr (ret, st))"
| "server_socket_loop alive callback (Suc cnt) i ret st =
     (case alive i of
        None \<Rightarrow> None
      | Some False \<Rightarrow> Some (Inr (ret, st))
      | Some True \<Rightarrow>
          (case callback i (Suc cnt = 1) st of
             None \<Rightarrow> None
           | Some (Inl e) \<Rightarrow> Some (Inl e)
           | Some (Inr (ret, connection_closed, st)) \<Rightarrow>
               if \<not> ret \<or> connection_closed then Some (Inr (ret, st))
               else server_socket_loop alive callback cnt (Suc i) ret st))"

definition process_server_socket_core ::
    "(nat \<Rightarrow> poll) \<Rightarrow> nat \<Rightarrow> int \<Rightarrow> (nat \<Rightarrow> bool \<Rightarrow> 's \<Rightarrow> (bool \<times> bool \<times> 's) outcome) \<Rightarrow> 's \<Rightarrow> (bool \<times> 's) outcome" where
  "process_server_socket_core polls max_count timeout_sec callback st =
     server_socket_loop (\<lambda>i. keep_alive (polls i) timeout_sec) callback max_count 0 False st"

text \<open>Each round makes a stream of its own on the socket. \<open>arrivals\<close> gives the bytes that the stream of a round finds on the socket, and
  whether the peer has closed it; what a stream has in its buffer when the round ends is gone with it.\<close>

definition fresh_stream :: "string list \<times> bool \<Rightarrow> strm \<Rightarrow> strm" where
  "fresh_stream a s = s\<lparr>inq := fst a, in_closed := snd a\<rparr>"

definition process_server_socket ::
    "(nat \<Rightarrow> poll) \<Rightarrow> (nat \<Rightarrow> string list \<times> bool) \<Rightarrow> nat \<Rightarrow> int \<Rightarrow> (nat \<Rightarrow> strm \<Rightarrow> bool \<Rightarrow> (bool \<times> bool \<times> strm) outcome)
      \<Rightarrow> strm \<Rightarrow> (bool \<times> strm) outcome" where
  "process_server_socket polls arrivals max_count timeout_sec callback s =
     process_server_socket_core polls max_count timeout_sec
       (\<lambda>i close_connection s. callback i (fresh_stream (arrivals i) s) close_connection) s"

text \<open>The result with the stream of what was written; the socket is shut down and closed in any case.\<close>

definition process_and_close_socket ::
    "(nat \<Rightarrow> environment) \<Rightarrow> (nat \<Rightarrow> poll) \<Rightarrow> (nat \<Rightarrow> string list \<times> bool) \<Rightarrow> regex_engine \<Rightarrow> Server \<Rightarrow> endpoint \<Rightarrow> strm \<Rightarrow> (bool \<times> strm) outcome" where
  "process_and_close_socket envs polls arrivals re svr ep s =
     process_server_socket polls arrivals (keep_alive_max_count svr) (keep_alive_timeout_sec svr)
       (\<lambda>i s close_connection. process_request (envs i) re svr ep close_connection False None s) s"

section \<open>The life of the server\<close>

text \<open>What the system makes of \<open>create_server_socket\<close> and \<open>getsockname\<close>: the family and the port.\<close>

datatype sock_family = AF_INET | AF_INET6 | AF_OTHER

definition is_valid :: "Server \<Rightarrow> bool" where
  "is_valid svr = True"

definition bind_internal :: "bool \<Rightarrow> (sock_family \<times> int) option \<Rightarrow> int \<Rightarrow> Server \<Rightarrow> int \<times> Server" where
  "bind_internal created sockname port svr =
     (if is_decommissioned svr then (- 1, svr)
      else if \<not> is_valid svr then (- 1, svr)
      else
        let svr = svr\<lparr>svr_sock := created\<rparr>
        in if \<not> created then (- 1, svr)
           else if port = 0 then
             (case sockname of
                None \<Rightarrow> (- 1, svr)
              | Some (AF_INET, p) \<Rightarrow> (p, svr)
              | Some (AF_INET6, p) \<Rightarrow> (p, svr)
              | Some (AF_OTHER, p) \<Rightarrow> (- 1, svr))
           else (port, svr))"

definition bind_to_port :: "bool \<Rightarrow> (sock_family \<times> int) option \<Rightarrow> int \<Rightarrow> Server \<Rightarrow> bool \<times> Server" where
  "bind_to_port created sockname port svr =
     (case bind_internal created sockname port svr of
        (ret, svr) \<Rightarrow> (ret \<ge> 0, if ret = - 1 then svr\<lparr>is_decommissioned := True\<rparr> else svr))"

definition bind_to_any_port :: "bool \<Rightarrow> (sock_family \<times> int) option \<Rightarrow> Server \<Rightarrow> int \<times> Server" where
  "bind_to_any_port created sockname svr =
     (case bind_internal created sockname 0 svr of
        (ret, svr) \<Rightarrow> (ret, if ret = - 1 then svr\<lparr>is_decommissioned := True\<rparr> else svr))"

definition stop :: "Server \<Rightarrow> Server" where
  "stop svr = (if is_running svr then svr\<lparr>svr_sock := False\<rparr> else svr)\<lparr>is_decommissioned := False\<rparr>"

definition decommission :: "Server \<Rightarrow> Server" where
  "decommission svr = svr\<lparr>is_decommissioned := True\<rparr>"

text \<open>\<open>wait_until_ready\<close> looks at the server once a millisecond.\<close>

partial_function (option) wait_until_ready :: "(nat \<Rightarrow> Server) \<Rightarrow> nat \<Rightarrow> nat option" where
  "wait_until_ready svrs i =
     (if \<not> is_running (svrs i) \<and> \<not> is_decommissioned (svrs i) then wait_until_ready svrs (Suc i) else Some i)"

text \<open>What happens in a round of the accept loop: \<open>select\<close> times out, a connection comes in, \<open>accept\<close> fails with one of the errors that the code
  goes on after, or with another one. Meanwhile other threads may call \<open>stop\<close> or \<open>decommission\<close>, and workers may move.\<close>

datatype 'k accept_event = SelectTimeout | Accepted 'k | TooManyFiles | Interrupted | AcceptError

datatype other_step = CallStop | CallDecommission | WorkerTake nat | WorkerReturn nat

text \<open>The calls of the loop on sockets: the time-outs of a new connection, \<open>shutdown_socket\<close> and \<open>close_socket\<close>, and the closing of the
  listening socket. The state also records the connections that the pool did not take, each with the length of the queue then.\<close>

datatype 'k sock_call = SetTimeouts 'k | ShutdownSocket 'k | CloseSocket 'k | CloseListener

record 'k listen_state =
  ls_svr :: Server
  ls_pool :: "'k pool"
  ls_calls :: "'k sock_call list"
  ls_rejected :: "('k \<times> nat) list"

definition pool_move :: "other_step \<Rightarrow> 'k pool \<Rightarrow> 'k pool" where
  "pool_move st p =
     (case st of
        WorkerTake i \<Rightarrow>
          if i < length (threads p) \<and> threads p ! i = Waiting then (case worker_take i p of Some p' \<Rightarrow> p' | None \<Rightarrow> p) else p
      | WorkerReturn i \<Rightarrow>
          if i < length (threads p) then (case threads p ! i of Running fn \<Rightarrow> worker_return i fn p | _ \<Rightarrow> p) else p
      | _ \<Rightarrow> p)"

definition other_move :: "other_step \<Rightarrow> 'k listen_state \<Rightarrow> 'k listen_state" where
  "other_move st ls =
     (case st of
        CallStop \<Rightarrow> ls\<lparr>ls_svr := stop (ls_svr ls)\<rparr>
      | CallDecommission \<Rightarrow> ls\<lparr>ls_svr := decommission (ls_svr ls)\<rparr>
      | _ \<Rightarrow> ls\<lparr>ls_pool := pool_move st (ls_pool ls)\<rparr>)"

text \<open>The body of the loop: whether it goes on, and the result \<open>ret\<close>.\<close>

definition accept_round :: "'k accept_event \<Rightarrow> 'k listen_state \<Rightarrow> bool \<times> bool \<times> 'k listen_state" where
  "accept_round ev ls =
     (case ev of
        Accepted k \<Rightarrow>
          let ls = ls\<lparr>ls_calls := ls_calls ls @ [SetTimeouts k]\<rparr>
          in (case enqueue k (ls_pool ls) of
                (True, pool) \<Rightarrow> (True, True, ls\<lparr>ls_pool := pool\<rparr>)
              | (False, pool) \<Rightarrow>
                  (True, True, ls\<lparr>ls_pool := pool, ls_calls := ls_calls ls @ [ShutdownSocket k, CloseSocket k],
                     ls_rejected := ls_rejected ls @ [(k, length (jobs pool))]\<rparr>))
      | AcceptError \<Rightarrow>
          if svr_sock (ls_svr ls) then (False, False, ls\<lparr>ls_calls := ls_calls ls @ [CloseListener]\<rparr>)
          else (False, True, ls)
      | _ \<Rightarrow> (True, True, ls))"

text \<open>A round: what others do before the test of the loop and after it, and what the system calls give. The loop ends with the
  listening socket closed or with an error; when the rounds are used up it is still running (\<open>None\<close>). \<open>SelectTimeout\<close> only comes from a server
  with an idle interval.\<close>

fun accept_loop :: "(other_step list \<times> other_step list \<times> 'k accept_event) list \<Rightarrow> 'k listen_state \<Rightarrow> (bool \<times> 'k listen_state) option" where
  "accept_loop [] ls = None"
| "accept_loop ((before, during, ev) # rounds) ls =
     (let ls = fold other_move before ls
      in if \<not> svr_sock (ls_svr ls) then Some (True, ls)
         else case accept_round ev (fold other_move during ls) of
                (True, _, ls) \<Rightarrow> accept_loop rounds ls
              | (False, ret, ls) \<Rightarrow> Some (ret, ls))"

text \<open>The state after the call of \<open>shutdown\<close>; the joining of the workers that is part of this call is shown to end in
  \<open>Httplib_Pool\<close>.\<close>

definition listen_internal ::
    "nat \<Rightarrow> nat \<Rightarrow> (other_step list \<times> other_step list \<times> 'k accept_event) list \<Rightarrow> Server \<Rightarrow> (bool \<times> 'k listen_state) option" where
  "listen_internal n mqr rounds svr =
     (let ls = \<lparr>ls_svr = svr, ls_pool = new_ThreadPool n mqr, ls_calls = [], ls_rejected = []\<rparr>
      in if is_decommissioned svr then Some (False, ls)
         else
           case accept_loop rounds (ls\<lparr>ls_svr := svr\<lparr>is_running := True\<rparr>\<rparr>) of
             None \<Rightarrow> None
           | Some (ret, ls) \<Rightarrow>
               Some (ret, ls\<lparr>ls_pool := request_shutdown (ls_pool ls),
                             ls_svr := (ls_svr ls)\<lparr>is_running := False, is_decommissioned := \<not> ret\<rparr>\<rparr>))"

definition listen ::
    "bool \<Rightarrow> (sock_family \<times> int) option \<Rightarrow> int \<Rightarrow> nat \<Rightarrow> nat \<Rightarrow> (other_step list \<times> other_step list \<times> 'k accept_event) list
      \<Rightarrow> Server \<Rightarrow> (bool \<times> 'k listen_state) option" where
  "listen created sockname port n mqr rounds svr =
     (case bind_to_port created sockname port svr of
        (True, svr) \<Rightarrow> listen_internal n mqr rounds svr
      | (False, svr) \<Rightarrow> Some (False, \<lparr>ls_svr = svr, ls_pool = new_ThreadPool n mqr, ls_calls = [], ls_rejected = []\<rparr>))"

section \<open>Waiting: lemmas\<close>

lemma keep_alive_loop_ends:
  "i \<le> k \<Longrightarrow> pl_now p k - begun > timeout \<Longrightarrow> \<exists>b. keep_alive_loop p begun timeout i = Some b"
proof (induction "k - i" arbitrary: i)
  case 0
  then show ?case by (subst keep_alive_loop.simps) auto
next
  case (Suc d)
  then have "\<exists>b. keep_alive_loop p begun timeout (Suc i) = Some b" using Suc.hyps(1) [of "Suc i"] by simp
  then show ?case by (subst keep_alive_loop.simps) auto
qed

lemma keep_alive_loop_ready:
  assumes "keep_alive_loop p begun timeout i = Some b"
  shows "b \<longrightarrow> (\<exists>k\<ge>i. pl_select p k > 0 \<and> (\<forall>j. i \<le> j \<and> j < k \<longrightarrow> pl_now p j - begun \<le> timeout))"
proof (rule keep_alive_loop.raw_induct [where P = "\<lambda>p begun timeout i b. b \<longrightarrow>
    (\<exists>k\<ge>i. pl_select p k > 0 \<and> (\<forall>j. i \<le> j \<and> j < k \<longrightarrow> pl_now p j - begun \<le> timeout))", OF _ assms], goal_cases)
  case (1 f p begun timeout i b)
  show ?case
  proof (cases "pl_svr_open p i \<and> pl_select p i = 0 \<and> pl_now p i - begun \<le> timeout")
    case True
    then have f: "f p begun timeout (Suc i) = Some b" using 1(2) by simp
    show ?thesis
    proof
      assume b
      with 1(1) [OF f] obtain k where k: "Suc i \<le> k" "0 < pl_select p k" "\<And>j. Suc i \<le> j \<Longrightarrow> j < k \<Longrightarrow> pl_now p j - begun \<le> timeout"
        by auto
      have "pl_now p j - begun \<le> timeout" if "i \<le> j" "j < k" for j
        using that k(3) [of j] True by (cases "i = j") auto
      with k(1,2) show "\<exists>k\<ge>i. pl_select p k > 0 \<and> (\<forall>j. i \<le> j \<and> j < k \<longrightarrow> pl_now p j - begun \<le> timeout)"
        by (intro exI [of _ k]) auto
    qed
  next
    case False
    then show ?thesis using 1(2) by (auto split: if_splits intro!: exI [of _ i])
  qed
qed

section \<open>The accept loop: lemmas\<close>

lemma pool_move_run: "pool_run n mqr p \<Longrightarrow> pool_run n mqr (pool_move st p)"
  by (auto simp: pool_move_def split: other_step.split option.split worker.split intro: pool_run.work worker_step.intros)

lemma pool_move_keeps [simp]: "accepted (pool_move st p) = accepted p" "shutdown_flag (pool_move st p) = shutdown_flag p"
  by (auto simp: pool_move_def worker_take_def worker_return_def split: other_step.splits option.splits worker.splits if_splits)

text \<open>The events that the loop gets to, and whether it ends within the given rounds: before a round whose first moves stop the server, or that
  follows one in which it was stopped, and at an error.\<close>

fun accept_events :: "(other_step list \<times> other_step list \<times> 'k accept_event) list \<Rightarrow> 'k accept_event list \<times> bool" where
  "accept_events [] = ([], False)"
| "accept_events ((before, during, ev) # rounds) =
     (if CallStop \<in> set before then ([], True)
      else if ev = AcceptError then ([ev], True)
      else if CallStop \<in> set during then ([ev], rounds \<noteq> [])
      else case accept_events rounds of (evs, e) \<Rightarrow> (ev # evs, e))"

definition connections :: "'k accept_event list \<Rightarrow> 'k list" where
  "connections evs = List.map_filter (\<lambda>ev. case ev of Accepted k \<Rightarrow> Some k | _ \<Rightarrow> None) evs"

text \<open>The connections with time-outs set, shut down, and closed by a list of calls.\<close>

definition timed_conns :: "'k sock_call list \<Rightarrow> 'k list" where
  "timed_conns cs = List.map_filter (\<lambda>c. case c of SetTimeouts k \<Rightarrow> Some k | _ \<Rightarrow> None) cs"

definition shut_conns :: "'k sock_call list \<Rightarrow> 'k list" where
  "shut_conns cs = List.map_filter (\<lambda>c. case c of ShutdownSocket k \<Rightarrow> Some k | _ \<Rightarrow> None) cs"

definition closed_conns :: "'k sock_call list \<Rightarrow> 'k list" where
  "closed_conns cs = List.map_filter (\<lambda>c. case c of CloseSocket k \<Rightarrow> Some k | _ \<Rightarrow> None) cs"

lemma map_filter_append: "List.map_filter f (xs @ ys) = List.map_filter f xs @ List.map_filter f ys"
  by (simp add: List.map_filter_def)

lemma sock_call_simps [simp]:
  "timed_conns [] = []" "timed_conns (xs @ ys) = timed_conns xs @ timed_conns ys"
  "timed_conns (SetTimeouts k # xs) = k # timed_conns xs" "timed_conns (ShutdownSocket k # xs) = timed_conns xs" "timed_conns (CloseSocket k # xs) = timed_conns xs" "timed_conns (CloseListener # xs) = timed_conns xs"
  "shut_conns [] = []" "shut_conns (xs @ ys) = shut_conns xs @ shut_conns ys"
  "shut_conns (SetTimeouts k # xs) = shut_conns xs" "shut_conns (ShutdownSocket k # xs) = k # shut_conns xs" "shut_conns (CloseSocket k # xs) = shut_conns xs" "shut_conns (CloseListener # xs) = shut_conns xs"
  "closed_conns [] = []" "closed_conns (xs @ ys) = closed_conns xs @ closed_conns ys"
  "closed_conns (SetTimeouts k # xs) = closed_conns xs" "closed_conns (ShutdownSocket k # xs) = closed_conns xs" "closed_conns (CloseSocket k # xs) = k # closed_conns xs" "closed_conns (CloseListener # xs) = closed_conns xs"
  by (simp_all add: timed_conns_def shut_conns_def closed_conns_def map_filter_append List.map_filter_simps)

lemma shuffles_snoc: "zs \<in> shuffles xs ys \<Longrightarrow> zs @ [z] \<in> shuffles (xs @ [z]) ys"
proof (induction zs arbitrary: xs ys)
  case (Cons a zs)
  then show ?case by (auto simp: Cons_in_shuffles_iff)
qed simp

text \<open>The invariant of the loop, with the connections \<open>ks\<close> that came in so far: the pool is in a run that has not been shut down, the connections
  are those in the pool and the rejected ones, each in order, and the rejected ones, and only they, are shut down and closed.\<close>

definition listen_inv :: "nat \<Rightarrow> nat \<Rightarrow> 'k list \<Rightarrow> 'k listen_state \<Rightarrow> bool" where
  "listen_inv n mqr ks ls \<longleftrightarrow> pool_run n mqr (ls_pool ls) \<and> \<not> shutdown_flag (ls_pool ls)
     \<and> ks \<in> shuffles (accepted (ls_pool ls)) (map fst (ls_rejected ls))
     \<and> (\<forall>(k, q) \<in> set (ls_rejected ls). 0 < mqr \<and> mqr \<le> q)
     \<and> timed_conns (ls_calls ls) = ks \<and> shut_conns (ls_calls ls) = map fst (ls_rejected ls) \<and> closed_conns (ls_calls ls) = map fst (ls_rejected ls)"

lemma other_move_inv: "listen_inv n mqr ks ls \<Longrightarrow> listen_inv n mqr ks (other_move st ls)"
  by (cases st) (auto simp: listen_inv_def other_move_def pool_move_run)

lemma other_moves_inv: "listen_inv n mqr ks ls \<Longrightarrow> listen_inv n mqr ks (fold other_move sts ls)"
  by (induction sts arbitrary: ls) (auto simp: other_move_inv)

lemma other_moves_svr:
  "is_running (ls_svr ls) \<Longrightarrow> ls_calls (fold other_move sts ls) = ls_calls ls \<and> is_running (ls_svr (fold other_move sts ls))
    \<and> (svr_sock (ls_svr (fold other_move sts ls)) \<longleftrightarrow> svr_sock (ls_svr ls) \<and> CallStop \<notin> set sts)"
proof (induction sts arbitrary: ls)
  case (Cons st sts)
  have "ls_calls (other_move st ls) = ls_calls ls" "is_running (ls_svr (other_move st ls))"
    "svr_sock (ls_svr (other_move st ls)) \<longleftrightarrow> svr_sock (ls_svr ls) \<and> CallStop \<noteq> st"
    using Cons.prems by (auto simp: other_move_def stop_def decommission_def split: other_step.split)
  then show ?case using Cons.IH [of "other_move st ls"] by auto
qed simp

lemma accept_round_taken:
  assumes "enqueue k (ls_pool ls) = (True, pool)" and "listen_inv n mqr ks ls"
  shows "listen_inv n mqr (ks @ [k]) (ls\<lparr>ls_calls := ls_calls ls @ [SetTimeouts k], ls_pool := pool\<rparr>)"
proof -
  have "pool_run n mqr (snd (enqueue k (ls_pool ls)))" using assms(2) by (auto simp: listen_inv_def intro: pool_run.enq)
  moreover have "accepted pool = accepted (ls_pool ls) @ [k]" "shutdown_flag pool = shutdown_flag (ls_pool ls)"
    using assms(1) by (auto simp: enqueue_def split: if_splits)
  moreover have "ks @ [k] \<in> shuffles (accepted (ls_pool ls) @ [k]) (map fst (ls_rejected ls))"
    using assms(2) by (intro shuffles_snoc) (simp add: listen_inv_def)
  ultimately show ?thesis using assms by (simp add: listen_inv_def)
qed

lemma accept_round_rejected:
  assumes "enqueue k (ls_pool ls) = (False, pool)" and "listen_inv n mqr ks ls"
  shows "listen_inv n mqr (ks @ [k]) (ls\<lparr>ls_calls := ls_calls ls @ [SetTimeouts k, ShutdownSocket k, CloseSocket k], ls_pool := pool,
    ls_rejected := ls_rejected ls @ [(k, length (jobs pool))]\<rparr>)"
proof -
  have "max_queued_requests (ls_pool ls) = mqr" using assms(2) pool_run_inv by (auto simp: listen_inv_def pool_inv_def)
  then have "pool = ls_pool ls" "0 < mqr" "mqr \<le> length (jobs pool)"
    using assms(1) by (auto simp: enqueue_def split: if_splits)
  moreover have "ks @ [k] \<in> shuffles (accepted (ls_pool ls)) (map fst (ls_rejected ls) @ [k])"
    using assms(2) shuffles_snoc [of ks "map fst (ls_rejected ls)" "accepted (ls_pool ls)" k]
    by (simp add: listen_inv_def shuffles_commutes [of "accepted (ls_pool ls)"])
  ultimately show ?thesis using assms(2) by (simp add: listen_inv_def)
qed

lemma accept_round_inv:
  assumes "listen_inv n mqr ks ls" and "accept_round ev ls = (go_on, ret, ls')"
  shows "listen_inv n mqr (ks @ connections [ev]) ls' \<and> ls_svr ls' = ls_svr ls \<and> (go_on \<longleftrightarrow> ev \<noteq> AcceptError)
    \<and> (ret \<longleftrightarrow> \<not> (ev = AcceptError \<and> svr_sock (ls_svr ls)))
    \<and> (CloseListener \<in> set (ls_calls ls') \<longleftrightarrow> CloseListener \<in> set (ls_calls ls) \<or> \<not> ret)"
proof (cases ev)
  case (Accepted k)
  obtain b pool where e: "enqueue k (ls_pool ls) = (b, pool)" by fastforce
  have c: "connections [ev] = [k]" using Accepted by (simp add: connections_def List.map_filter_simps)
  show ?thesis
  proof (cases b)
    case True
    then have b: "b = True" by simp
    then have l: "ls' = ls\<lparr>ls_calls := ls_calls ls @ [SetTimeouts k], ls_pool := pool\<rparr>" "go_on" "ret"
      using assms(2) Accepted e by (simp_all add: accept_round_def Let_def)
    show ?thesis
      using accept_round_taken [OF e [unfolded b] assms(1)] l(2,3) Accepted unfolding c l(1) by simp
  next
    case False
    then have b: "b = False" by simp
    then have l: "ls' = ls\<lparr>ls_calls := ls_calls ls @ [SetTimeouts k, ShutdownSocket k, CloseSocket k], ls_pool := pool,
        ls_rejected := ls_rejected ls @ [(k, length (jobs pool))]\<rparr>" "go_on" "ret"
      using assms(2) Accepted e by (auto simp: accept_round_def Let_def)
    show ?thesis
      using accept_round_rejected [OF e [unfolded b] assms(1)] l(2,3) Accepted unfolding c l(1) by simp
  qed
next
  case AcceptError
  then have c: "ks @ connections [ev] = ks" by (simp add: connections_def List.map_filter_simps)
  have l: "listen_inv n mqr ks (ls\<lparr>ls_calls := ls_calls ls @ [CloseListener]\<rparr>)"
    using assms(1) by (simp add: listen_inv_def)
  show ?thesis
    unfolding c using assms(1) l assms(2) [symmetric] AcceptError
    by (cases "svr_sock (ls_svr ls)") (simp_all add: accept_round_def)
qed (use assms in \<open>auto simp: accept_round_def connections_def List.map_filter_simps\<close>)

lemma connections_Cons: "connections (ev # evs) = connections [ev] @ connections evs"
  by (cases ev) (simp_all add: connections_def List.map_filter_simps)

lemma accept_loop_inv:
  assumes "listen_inv n mqr ks ls" and "is_running (ls_svr ls)" and "svr_sock (ls_svr ls)" and "CloseListener \<notin> set (ls_calls ls)"
    and "accept_events rounds = (evs, ended)"
  shows "case accept_loop rounds ls of
      None \<Rightarrow> \<not> ended
    | Some (ret, ls') \<Rightarrow> ended \<and> listen_inv n mqr (ks @ connections evs) ls' \<and> (CloseListener \<in> set (ls_calls ls') \<longleftrightarrow> \<not> ret)"
  using assms
proof (induction rounds arbitrary: ls ks evs)
  case (Cons r rounds)
  obtain before during ev where r: "r = (before, during, ev)" by (rule prod_cases3)
  let ?l1 = "fold other_move before ls"
  let ?l2 = "fold other_move during ?l1"
  have i1: "listen_inv n mqr ks ?l1" using Cons.prems(1) by (rule other_moves_inv)
  have s1: "is_running (ls_svr ?l1)" "svr_sock (ls_svr ?l1) \<longleftrightarrow> CallStop \<notin> set before" "ls_calls ?l1 = ls_calls ls"
    using other_moves_svr [OF Cons.prems(2), of before] Cons.prems(3) by simp_all
  have s2: "is_running (ls_svr ?l2)" "svr_sock (ls_svr ?l2) \<longleftrightarrow> CallStop \<notin> set before \<and> CallStop \<notin> set during" "ls_calls ?l2 = ls_calls ls"
    using other_moves_svr [OF s1(1), of during] s1 by simp_all
  obtain b ret1 l3 where a: "accept_round ev ?l2 = (b, ret1, l3)" by (rule prod_cases3)
  note i3 = accept_round_inv [OF other_moves_inv [OF i1] a]
  show ?case
  proof (cases "CallStop \<in> set before")
    case True
    then show ?thesis using i1 s1 Cons.prems(4,5) by (auto simp: r connections_def List.map_filter_simps)
  next
    case sock: False
    show ?thesis
    proof (cases "ev = AcceptError")
      case True
      then show ?thesis using sock s1 s2 i3 a Cons.prems(4,5) by (auto simp: r)
    next
      case go: False
      have l: "accept_loop (r # rounds) ls = accept_loop rounds l3" using sock s1 a i3 go by (simp add: r)
      have c3: "CloseListener \<notin> set (ls_calls l3)" using i3 s2 go Cons.prems(4) by auto
      show ?thesis
      proof (cases "CallStop \<in> set during")
        case True
        then have e: "evs = [ev]" "ended \<longleftrightarrow> rounds \<noteq> []" using sock go Cons.prems(5) by (auto simp: r)
        have shut: "\<not> svr_sock (ls_svr l3)" "is_running (ls_svr l3)" using i3 s2 True by simp_all
        show ?thesis
        proof (cases rounds)
          case Nil
          then show ?thesis using l e by simp
        next
          case (Cons r2 rs)
          obtain before2 during2 ev2 where r2: "r2 = (before2, during2, ev2)" by (rule prod_cases3)
          have "accept_loop rounds l3 = Some (True, fold other_move before2 l3)"
            using other_moves_svr [OF shut(2), of before2] shut(1) by (simp add: Cons r2)
          then show ?thesis
            using l e Cons c3 other_moves_inv [of n mqr "ks @ connections [ev]" l3 before2] i3 other_moves_svr [OF shut(2), of before2] by simp
        qed
      next
        case False
        then obtain evs2 where e: "accept_events rounds = (evs2, ended)" "evs = ev # evs2"
          using sock go Cons.prems(5) by (auto simp: r split: prod.splits)
        have "listen_inv n mqr (ks @ connections [ev]) l3" "is_running (ls_svr l3)" "svr_sock (ls_svr l3)"
          using i3 s2 sock False by simp_all
        from Cons.IH [OF this c3 e(1)] show ?thesis unfolding l e(2) connections_Cons [of ev evs2] append_assoc .
      qed
    qed
  qed
qed simp

section \<open>Properties\<close>

text \<open>Whatever the sizes of the reads and however the bytes arrive, what \<open>SocketStream\<close> returns is the bytes of the socket, in their order and without
  a gap, and enough reads return all of them.\<close>

theorem socket_stream_in_order:
  assumes "strm_ok k" and "so.reads ns (new_SocketStream k) = (ds, ss)"
  shows "avail k = concat ds @ ss_view ss
    \<and> (list_all (\<lambda>n. 0 < n) ns \<and> length (avail k) \<le> length ns \<longrightarrow> concat ds = avail k)"
proof -
  have ok: "ss_ok (new_SocketStream k)" and v: "ss_view (new_SocketStream k) = avail k"
    using assms(1) by (simp_all add: ss_ok_def ss_view_def new_SocketStream_def)
  show ?thesis using so.reads_in_order [OF ok assms(2)] so.reads_exhaust [OF ok, of ns] assms(2) by (auto simp: v)
qed

text \<open>What a stream has read ahead is lost with it: when two requests arrive in one piece of at most 4096 bytes, reading the first byte of the first
  moves both into the buffer, and the stream that the next round makes finds nothing.\<close>

lemma read_ahead_lost:
  assumes "inq k = [c # rest]" and "rest \<noteq> []" and "length rest < 4096"
  shows "fst (ss_read 1 (new_SocketStream k)) = Some [c]"
    "ss_view (snd (ss_read 1 (new_SocketStream k))) = rest"
    "ss_view (new_SocketStream (ss_sock (snd (ss_read 1 (new_SocketStream k))))) = []"
  using assms
  by (auto simp: ss_read_def Let_def new_SocketStream_def wait_readable_def strm_read_def read_buff_size_def fill_buff_def ss_view_def avail_def)

text \<open>The wait for the next request on a connection ends: when the clock has passed the time-out in some round, \<open>keep_alive\<close>
  has returned; and it reports a request only when \<open>select\<close> found one and the time-out had not passed before.\<close>

theorem keep_alive_ends:
  "(k \<ge> 1 \<and> pl_now p k - pl_now p 0 + keepalive_interval_usec > sec * 1000000 \<longrightarrow> (\<exists>b. keep_alive p sec = Some b))
   \<and> (keep_alive p sec = Some True \<longrightarrow>
        (\<exists>i. pl_select p i > 0 \<and> (\<forall>j. 0 < j \<and> j < i \<longrightarrow> pl_now p j - pl_now p 0 + keepalive_interval_usec \<le> sec * 1000000)))"
proof (intro conjI impI)
  assume "k \<ge> 1 \<and> pl_now p k - pl_now p 0 + keepalive_interval_usec > sec * 1000000"
  then show "\<exists>b. keep_alive p sec = Some b"
    using keep_alive_loop_ends [of 1 k "sec * 1000000" p "pl_now p 0 - keepalive_interval_usec"] by (auto simp: keep_alive_def)
next
  assume a: "keep_alive p sec = Some True"
  show "\<exists>i. pl_select p i > 0 \<and> (\<forall>j. 0 < j \<and> j < i \<longrightarrow> pl_now p j - pl_now p 0 + keepalive_interval_usec \<le> sec * 1000000)"
  proof (cases "pl_select p 0 > 0")
    case False
    then have "keep_alive_loop p (pl_now p 0 - keepalive_interval_usec) (sec * 1000000) 1 = Some True" using a by (simp add: keep_alive_def)
    from keep_alive_loop_ready [OF this] show ?thesis by (auto simp: algebra_simps)
  qed auto
qed

lemma server_socket_loop_cong:
  "(\<And>j st. j < cnt \<Longrightarrow> cb (i + j) (Suc j = cnt) st = cb' (i + j) (Suc j = cnt) st)
     \<Longrightarrow> server_socket_loop alive cb cnt i ret st = server_socket_loop alive cb' cnt i ret st"
proof (induction cnt arbitrary: i ret st)
  case (Suc cnt)
  have "cb i (Suc cnt = 1) st = cb' i (Suc cnt = 1) st" using Suc.prems [of 0] by simp
  moreover have "server_socket_loop alive cb cnt (Suc i) r t = server_socket_loop alive cb' cnt (Suc i) r t" for r t
    using Suc.prems [of "Suc j" for j] by (intro Suc.IH) auto
  ultimately show ?case by (simp split: option.split sum.split bool.split prod.split)
qed simp

text \<open>A connection gets at most as many requests as \<open>keep_alive_max_count\<close> says, and exactly the last of them is told that the connection closes: the
  outcome depends on the callback only for these rounds and with this flag.\<close>

theorem connection_request_limit:
  assumes "\<And>i st. i < max_count \<Longrightarrow> cb i (Suc i = max_count) st = cb' i (Suc i = max_count) st"
  shows "process_server_socket_core polls max_count sec cb st = process_server_socket_core polls max_count sec cb' st"
  unfolding process_server_socket_core_def using assms by (intro server_socket_loop_cong) simp

text \<open>C39: \<open>listen\<close> with a bound socket returns exactly when the server is stopped or \<open>accept\<close> fails for good. Until then it
  has set the time-outs of every connection that \<open>accept\<close> returned, in order, and each of them was either handed to the pool, in order, or shut down and
  closed, and the latter only because the queue of the pool was full at this moment. The pool has been told to shut down, so that
  (as shown for the pool) all that were handed over are served before it returns; the server is no longer running, and it is out of service and
  has closed its own socket exactly when the result is false.\<close>

theorem listen_serves_or_closes:
  assumes "svr_sock svr" and "\<not> is_decommissioned svr" and "accept_events rounds = (evs, ended)"
  shows "case listen_internal n mqr rounds svr of
      None \<Rightarrow> \<not> ended
    | Some (ret, ls) \<Rightarrow> ended
        \<and> timed_conns (ls_calls ls) = connections evs
        \<and> connections evs \<in> shuffles (accepted (ls_pool ls)) (closed_conns (ls_calls ls))
        \<and> shut_conns (ls_calls ls) = closed_conns (ls_calls ls)
        \<and> closed_conns (ls_calls ls) = map fst (ls_rejected ls) \<and> (\<forall>(k, q) \<in> set (ls_rejected ls). 0 < mqr \<and> mqr \<le> q)
        \<and> pool_run n mqr (ls_pool ls) \<and> shutdown_flag (ls_pool ls) \<and> \<not> is_running (ls_svr ls)
        \<and> (is_decommissioned (ls_svr ls) \<longleftrightarrow> \<not> ret) \<and> (CloseListener \<in> set (ls_calls ls) \<longleftrightarrow> \<not> ret)"
proof -
  let ?l0 = "\<lparr>ls_svr = svr\<lparr>is_running := True\<rparr>, ls_pool = new_ThreadPool n mqr :: 'a pool, ls_calls = [], ls_rejected = []\<rparr>"
  have "listen_inv n mqr [] ?l0"
    by (simp add: listen_inv_def new_ThreadPool_def [of n mqr, symmetric] pool_run.start) (simp add: new_ThreadPool_def)
  from accept_loop_inv [OF this _ _ _ assms(3)] assms(1)
  have l: "case accept_loop rounds ?l0 of None \<Rightarrow> \<not> ended
    | Some (ret, ls') \<Rightarrow> ended \<and> listen_inv n mqr (connections evs) ls' \<and> (CloseListener \<in> set (ls_calls ls') \<longleftrightarrow> \<not> ret)"
    unfolding append_Nil by simp
  show ?thesis
  proof (cases "accept_loop rounds ?l0")
    case None
    then show ?thesis using l assms(2) by (simp add: listen_internal_def Let_def)
  next
    case (Some p)
    obtain ret l1 where p: "p = (ret, l1)" by fastforce
    then show ?thesis
      using Some l assms(2) pool_run.shut [of n mqr "ls_pool l1"] by (simp add: listen_internal_def Let_def listen_inv_def request_shutdown_def)
  qed
qed

section \<open>Witnesses\<close>

declare so.reads.simps [simp del]

theorem socket_stream_in_order_witness:
  "\<exists>ds ss. so.reads [1, 2, 9] (new_SocketStream \<lparr>inq = [''ab'', ''c''], in_closed = True, outbuf = [], wr_plan = []\<rparr>) = (ds, ss)
     \<and> concat ds = ''abc''"
proof -
  let ?k = "\<lparr>inq = [''ab'', ''c''], in_closed = True, outbuf = [], wr_plan = []\<rparr>"
  obtain ds ss where r: "so.reads [1, 2, 9] (new_SocketStream ?k) = (ds, ss)" by (rule prod.exhaust)
  have "strm_ok ?k" "avail ?k = ''abc''" by (simp_all add: strm_ok_def avail_def)
  moreover have "list_all (\<lambda>n. 0 < n) [1, 2, 9 :: nat]" "length (avail ?k) \<le> length [1, 2, 9 :: nat]" by (simp_all add: avail_def)
  ultimately have "concat ds = ''abc''" using socket_stream_in_order [OF _ r] by metis
  then show ?thesis using r by blast
qed

definition demo_poll :: poll where
  "demo_poll = \<lparr>pl_svr_open = (\<lambda>_. True), pl_select = (\<lambda>_. 0), pl_now = (\<lambda>i. int i * 1000000)\<rparr>"

theorem keep_alive_ends_witness:
  "\<exists>b. keep_alive demo_poll 5 = Some b"
  using keep_alive_ends [where k = 6 and p = demo_poll and sec = 5] by (simp add: demo_poll_def keepalive_interval_usec_def)

theorem connection_request_limit_witness:
  "process_server_socket_core (\<lambda>_. demo_poll) 1 5 (\<lambda>i b st. Some (Inr (True, False, if b then st else st + 1))) (0 :: nat)
     = process_server_socket_core (\<lambda>_. demo_poll) 1 5 (\<lambda>i b st. Some (Inr (True, False, st))) 0"
  by (rule connection_request_limit) simp

text \<open>Two connections for a pool with one worker, that has not moved yet, and room for one job.\<close>

theorem listen_serves_or_closes_witness:
  "\<exists>ls. listen_internal 1 1 [([], [], Accepted (7 :: nat)), ([], [], Accepted 8), ([], [CallStop], AcceptError)]
        (new_Server\<lparr>svr_sock := True\<rparr>) = Some (True, ls)
     \<and> [7, 8] \<in> shuffles (accepted (ls_pool ls)) (closed_conns (ls_calls ls)) \<and> accepted (ls_pool ls) = [7] \<and> ls_rejected ls = [(8, 1)]"
proof -
  let ?rounds = "[([], [], Accepted (7 :: nat)), ([], [], Accepted 8), ([], [CallStop], AcceptError)]"
  have e: "accept_events ?rounds = ([Accepted 7, Accepted 8, AcceptError], True)" by simp
  obtain ls where ls: "listen_internal 1 1 ?rounds (new_Server\<lparr>svr_sock := True\<rparr>) = Some (True, ls)"
    "accepted (ls_pool ls) = [7]" "ls_rejected ls = [(8, 1)]"
    by (simp add: listen_internal_def Let_def new_Server_def accept_round_def enqueue_def new_ThreadPool_def other_move_def stop_def request_shutdown_def)
  with listen_serves_or_closes [of "new_Server\<lparr>svr_sock := True\<rparr>", OF _ _ e, of 1 1] show ?thesis
    by (simp add: new_Server_def connections_def List.map_filter_simps)
qed

end
