(* ===== verification/Backend_Server.thy ===== *)
theory Backend_Server
  imports Backend_Api Httplib_Answers
begin

text \<open>
  The test backend on the HTTP library: \<open>main\<close> of BackendServers/BackendApi.cpp registers four handlers with the library's
  server. Shown: what a GET request gets on the wire is what \<open>api_get\<close> of \<^typ>\<open>api_settings\<close> says, for every path
  without line ends. What the expression engine makes of the four expressions is the hypothesis \<open>api_regex\<close>.
\<close>

section \<open>Registration\<close>

definition status_handler :: "api_settings \<Rightarrow> Handler" where
  "status_handler cfg rq rs = (None, set_content (statusMessage cfg) ''text/plain'' rs)"

definition company_name_handler :: "api_settings \<Rightarrow> Handler" where
  "company_name_handler cfg rq rs = (None, set_content (defaultCompanyName cfg) ''text/plain'' rs)"

text \<open>\<open>req.matches[1].str()\<close> is empty where there is no such group.\<close>

definition companies_handler :: Handler where
  "companies_handler rq rs =
     (case company_handler (if 1 < length (rq_matches rq) then rq_matches rq ! 1 else []) of
        (status, content_type, json_response) \<Rightarrow> (None, (set_content json_response content_type rs)\<lparr>rs_status := int status\<rparr>))"

definition fallback_handler :: Handler where
  "fallback_handler rq rs = (None, set_content ''Not Found'' ''text/plain'' (rs\<lparr>rs_status := 404\<rparr>))"

definition api_patterns :: "string list" where
  "api_patterns = [''/status'', ''/company'', ''/companies/([^/]+)'', ''.*'']"

definition exc_then :: "'a exc \<Rightarrow> ('a \<Rightarrow> 'b exc) \<Rightarrow> 'b exc" where
  "exc_then r f = (case r of Inl e \<Rightarrow> Inl e | Inr x \<Rightarrow> f x)"

definition api_server :: "regex_engine \<Rightarrow> api_settings \<Rightarrow> Server exc" where
  "api_server re cfg =
     exc_then (Get re (api_patterns ! 0) (status_handler cfg) new_Server) (\<lambda>svr.
     exc_then (Get re (api_patterns ! 1) (company_name_handler cfg) svr) (\<lambda>svr.
     exc_then (Get re (api_patterns ! 2) companies_handler svr)
       (Get re (api_patterns ! 3) fallback_handler)))"

section \<open>The expressions\<close>

definition one_line :: "string \<Rightarrow> bool" where
  "one_line p \<longleftrightarrow> CHR 0x0A \<notin> set p \<and> CHR 0x0D \<notin> set p"

text \<open>What ECMAScript says of the four expressions on a whole text.\<close>

definition api_regex :: "regex_engine \<Rightarrow> bool" where
  "api_regex re \<longleftrightarrow>
     list_all (re_valid re) api_patterns
     \<and> (\<forall>p. re_match re (api_patterns ! 0) p = (if p = ''/status'' then Some [p] else None))
     \<and> (\<forall>p. re_match re (api_patterns ! 1) p = (if p = ''/company'' then Some [p] else None))
     \<and> (\<forall>p. re_match re (api_patterns ! 2) p = (case match_company p of Some i \<Rightarrow> Some [p, i] | None \<Rightarrow> None))
     \<and> (\<forall>p. re_match re (api_patterns ! 3) p = (if one_line p then Some [p] else None))"

definition api_handlers :: "api_settings \<Rightarrow> Handlers" where
  "api_handlers cfg = [(Regex (api_patterns ! 0), status_handler cfg), (Regex (api_patterns ! 1), company_name_handler cfg),
     (Regex (api_patterns ! 2), companies_handler), (Regex (api_patterns ! 3), fallback_handler)]"

lemma api_server_handlers:
  assumes "api_regex re"
  shows "api_server re cfg = Inr (new_Server\<lparr>get_handlers := api_handlers cfg\<rparr>)"
proof -
  have "list_all (\<lambda>p. find_str ''/:'' p = None) api_patterns" by code_simp
  then have "make_matcher re (api_patterns ! i) = Inr (Regex (api_patterns ! i))" if "i < 4" for i
    using assms that by (auto simp: make_matcher_def api_regex_def list_all_length api_patterns_def [THEN arg_cong, of length])
  then show ?thesis
    by (simp add: api_server_def exc_then_def Get_def add_handler_def api_handlers_def new_Server_def)
qed

text \<open>The response that the responsible handler makes.\<close>

lemma api_dispatch:
  assumes "api_regex re" and "one_line (rq_path rq)"
  shows "\<exists>m f. responsible re (api_handlers cfg) rq = Some (m, f)
    \<and> f (snd (matches re m rq)) rs =
        (None, case api_get cfg (rq_path rq) of (st, ct, body) \<Rightarrow>
           (set_content body ct rs)\<lparr>rs_status := (if rq_path rq \<in> {''/status'', ''/company''} then rs_status rs else int st)\<rparr>)"
proof (cases "rq_path rq \<in> {''/status'', ''/company''}")
  case True
  then show ?thesis
    using assms by (auto simp: responsible_def api_handlers_def matches_def match_regex_def api_regex_def api_get_def
        status_handler_def company_name_handler_def set_content_def res_set_header_def)
next
  case False
  then show ?thesis
    using assms
    by (cases "match_company (rq_path rq)")
      (auto simp: responsible_def api_handlers_def matches_def match_regex_def api_regex_def api_get_def
        companies_handler_def fallback_handler_def set_content_def res_set_header_def split: prod.splits)
qed

lemma api_type_ok: "is_field_value (fst (snd (api_get cfg p)))"
proof -
  have "list_all is_field_value [''text/plain'', ''application/json'', v1_type, v2_type]" by code_simp
  then show ?thesis by (auto simp: api_get_def company_handler_def split: option.splits)
qed

lemma content_type_name: "is_field_name ''Content-Type''" "ci_equal ''Content-Type'' ''Content-Type''"
  by code_simp+

section \<open>The backend on the wire\<close>

text \<open>The answer, with the fields that may stand in its header.\<close>

lemma backend_answer:
  assumes "api_regex re" and "api_server re cfg = Inr svr"
    and "target_ok t" and "length t \<le> 8192" and "sendable h" and "ordinary h"
    and "strm_ok s" and "wr_plan s = []" and "avail s = request_text ''GET'' t h @ rest"
    and "path = rq_path (line_request ''GET'' t)" and "one_line path"
  shows "\<exists>c h' s'. process_request env re svr ep close closed None s = Some (Inr (True, c, s')) \<and> avail s' = rest
    \<and> (case api_get cfg path of (st, ct, body) \<Rightarrow>
         outbuf s' = outbuf s @ response_line (int st) @ header_text h' @ body
         \<and> headers_range h' ''Content-Length'' = [string_of_nat (length body)] \<and> headers_range h' ''Content-Type'' = [ct]
         \<and> set h' \<subseteq> insert (''Content-Type'', ct) (set (usual_headers new_Server (length body))))"
proof -
  have svr: "svr = new_Server\<lparr>get_handlers := api_handlers cfg\<rparr>" using assms(1,2) api_server_handlers by simp
  have plain: "plain_server svr" "pre_routing_handler svr = None" "base_dirs svr = []" "new_answer svr = new_Response\<lparr>rs_version := ''HTTP/1.1''\<rparr>"
    by (simp_all add: svr plain_server_def new_Server_def new_answer_def new_Response_def)
  let ?rq = "received ep ''GET'' t h"
  have path: "rq_path ?rq = path" by (simp add: received_def assms(10))
  obtain st ct body where api: "api_get cfg path = (st, ct, body)" by (rule prod_cases3)
  let ?rs = "(set_content body ct (new_answer svr))\<lparr>rs_status := (if path \<in> {''/status'', ''/company''} then rs_status (new_answer svr) else int st)\<rparr>"
  obtain m f where r: "responsible re (get_handlers svr) ?rq = Some (m, f)" "f (snd (matches re m ?rq)) (new_answer svr) = (None, ?rs)"
    using api_dispatch [OF assms(1), of ?rq cfg "new_answer svr"] assms(11) by (auto simp: path api svr)
  have st: "(if rs_status ?rs = - 1 then 200 else rs_status ?rs) = int st"
    using api by (auto simp: plain(4) new_Response_def api_get_def)
  have ct: "headers_range (rs_headers ?rs) ''Content-Type'' = [ct]" "headers_range (rs_headers ?rs) ''Content-Length'' = []"
    using api_type_ok [of cfg path] api
    by (simp_all add: set_content_def range_set_header content_type_name names_differ plain(4) new_Response_def headers_range_def headers_erase_def
        res_set_header_def set_header_in_def headers_emplace_def)
  obtain c h' s' where "process_request env re svr ep close closed None s = Some (Inr (True, c, s'))"
    "outbuf s' = outbuf s @ response_line (int st) @ header_text h' @ rs_body ?rs" "avail s' = rest"
    "headers_range h' ''Content-Length'' = [string_of_nat (length (rs_body ?rs))]" "headers_range h' ''Content-Type'' = [ct]"
    "set h' \<subseteq> set (rs_headers ?rs) \<union> set (usual_headers svr (length (rs_body ?rs)))"
    using get_request_served [OF assms(3-9) plain(1-3) r, of env close closed, unfolded st] ct
    by (auto simp: has_header_def plain(4) new_Response_def set_content_def)
  moreover have "set (rs_headers ?rs) \<subseteq> {(''Content-Type'', ct)}"
    by (auto simp: set_content_def res_set_header_def set_header_in_def headers_emplace_def headers_erase_def plain(4) new_Response_def)
  moreover have "usual_headers svr = usual_headers new_Server" by (simp add: fun_eq_iff svr usual_headers_def)
  ultimately show ?thesis by (fastforce simp: api set_content_def)
qed

text \<open>C26: The test backend built on the HTTP library: the server that \<open>main\<close> makes answers a GET request, however its
  bytes are cut into pieces, with exactly one complete response, which has the status, the content type and the body that the route
  table of the backend names for the path, and a \<open>Content-Length\<close> that is the length of that body; the bytes after the request are
  left for the next one.\<close>

theorem backend_answers_on_wire:
  assumes "api_regex re" and "api_server re cfg = Inr svr"
    and "target_ok t" and "length t \<le> 8192" and "sendable h" and "ordinary h"
    and "strm_ok s" and "wr_plan s = []" and "avail s = request_text ''GET'' t h @ rest"
    and "path = rq_path (line_request ''GET'' t)" and "one_line path"
  shows "\<exists>c h' s'. process_request env re svr ep close closed None s = Some (Inr (True, c, s')) \<and> avail s' = rest
    \<and> (case api_get cfg path of (st, ct, body) \<Rightarrow>
         outbuf s' = outbuf s @ response_line (int st) @ header_text h' @ body
         \<and> headers_range h' ''Content-Length'' = [string_of_nat (length body)] \<and> headers_range h' ''Content-Type'' = [ct])"
  using backend_answer [OF assms, of env ep close closed] unfolding case_prod_beta by blast

definition demo_api_re :: regex_engine where
  "demo_api_re = \<lparr>re_valid = (\<lambda>_. True),
     re_match = (\<lambda>r p. if r = api_patterns ! 2 then (case match_company p of Some i \<Rightarrow> Some [p, i] | None \<Rightarrow> None)
       else if r = api_patterns ! 3 then (if one_line p then Some [p] else None)
       else if p = r then Some [p] else None)\<rparr>"

lemma demo_api_regex: "api_regex demo_api_re"
  by (simp add: api_regex_def demo_api_re_def api_patterns_def)

theorem backend_answers_on_wire_witness:
  "\<exists>c h' s'. process_request demo_environment demo_api_re
         (new_Server\<lparr>get_handlers := api_handlers (api_settings_of [])\<rparr>) demo_ep False False None
         (demo_in [''GE'', ''T /companies/2345 HTTP/1.1'' @ crlf @ ''Host: b'' @ crlf @ crlf]) = Some (Inr (True, c, s'))
     \<and> headers_range h' ''Content-Type'' = [''application/x-company-v2'']
     \<and> outbuf s' = response_line 200 @ header_text h' @ snd (snd (api_get (api_settings_of []) ''/companies/2345''))"
proof -
  let ?s = "demo_in [''GE'', ''T /companies/2345 HTTP/1.1'' @ crlf @ ''Host: b'' @ crlf @ crlf]"
  have f: "target_ok ''/companies/2345''" "sendable [(''Host'', ''b'')]" "ordinary [(''Host'', ''b'')]"
    "rq_path (line_request ''GET'' ''/companies/2345'') = ''/companies/2345''" "one_line ''/companies/2345''"
    "api_get (api_settings_of []) ''/companies/2345'' = (200, ''application/x-company-v2'', snd (snd (api_get (api_settings_of []) ''/companies/2345'')))"
    by code_simp+
  have a: "avail ?s = request_text ''GET'' ''/companies/2345'' [(''Host'', ''b'')] @ []" by code_simp
  have s: "strm_ok ?s" by (simp add: strm_ok_def demo_in_def crlf_def)
  obtain body where b: "api_get (api_settings_of []) ''/companies/2345'' = (200, ''application/x-company-v2'', body)" using f(6) by blast
  have n: "length ''/companies/2345'' \<le> 8192" by simp
  from backend_answers_on_wire [OF demo_api_regex api_server_handlers [OF demo_api_regex, of "api_settings_of []"] f(1) n f(2,3) s
      demo_plain(3) a f(4) [symmetric] f(5), of demo_environment demo_ep False False, unfolded b prod.case demo_plain(4)]
  show ?thesis unfolding b by auto
qed

end
