(* ===== verification/Httplib_Client.thy ===== *)
theory Httplib_Client
  imports Httplib_Answers
begin

text \<open>
  The client of the HTTP library (BackendServers/httplib.h, class \<open>ClientImpl\<close>), as far as one exchange on an open
  connection: its settings, how a request is written and how the response is read.

  The build has no SSL and no compression library, so the parts of the code for them are absent, and no assertions. A content
  provider is a \<open>std::function\<close> with a state of its own, which the request keeps. The callbacks of the caller act on a
  state of his that is handed through. The calls of the logger are left out.
\<close>

section \<open>Requests and responses of the client\<close>

text \<open>The members that only the client uses extend the records of \<^theory_text>\<open>Httplib_Messages\<close>. A provider may throw.\<close>

type_synonym 'p provider = "nat \<Rightarrow> nat \<Rightarrow> 'p \<Rightarrow> (sink_call list \<times> bool) exc \<times> 'p"

record ClientResponse = Response +
  rs_reason :: string
  rs_location :: string

type_synonym 'u progress = "nat \<Rightarrow> nat \<Rightarrow> 'u \<Rightarrow> bool \<times> 'u"

record ('u, 'p) ClientRequest = Request +
  cr_response_handler :: "(ClientResponse \<Rightarrow> 'u \<Rightarrow> bool \<times> 'u) option"
  cr_content_receiver :: "'u receiver option"
  cr_progress :: "'u progress option"
  cr_redirect_count :: nat
  cr_content_length :: nat
  cr_content_provider :: "('p provider \<times> 'p) option"
  cr_is_chunked :: bool

definition new_ClientResponse :: ClientResponse where
  "new_ClientResponse = Response.extend new_Response \<lparr>rs_reason = [], rs_location = []\<rparr>"

definition new_ClientRequest :: "('u, 'p) ClientRequest" where
  "new_ClientRequest = Request.extend new_Request
     \<lparr>cr_response_handler = None, cr_content_receiver = None, cr_progress = None, cr_redirect_count = 20,
      cr_content_length = 0, cr_content_provider = None, cr_is_chunked = False\<rparr>"

section \<open>The client's settings\<close>

text \<open>\<open>cl_socket\<close> is the open connection, if there is one; \<open>cl_thread\<close> is 0 where the code has no thread.\<close>

record ClientImpl =
  cl_host :: string
  cl_port :: int
  cl_host_and_port :: string
  cl_socket :: "nat option"
  cl_in_flight :: nat
  cl_thread :: nat
  cl_should_be_closed :: bool
  cl_addr_map :: "(string, string) smap"
  cl_default_headers :: Headers
  cl_header_writer :: "strm \<Rightarrow> Headers \<Rightarrow> int \<times> Headers \<times> strm"
  cl_client_cert_path :: string
  cl_client_key_path :: string
  cl_connection_timeout_sec :: int
  cl_connection_timeout_usec :: int
  cl_read_timeout_sec :: int
  cl_read_timeout_usec :: int
  cl_write_timeout_sec :: int
  cl_write_timeout_usec :: int
  cl_max_timeout_msec :: int
  cl_basic_auth_username :: string
  cl_basic_auth_password :: string
  cl_bearer_token :: string
  cl_keep_alive :: bool
  cl_follow_location :: bool
  cl_url_encode :: bool
  cl_address_family :: int
  cl_tcp_nodelay :: bool
  cl_ipv6_v6only :: bool
  cl_compress :: bool
  cl_decompress :: bool
  cl_interface :: string
  cl_proxy_host :: string
  cl_proxy_port :: int
  cl_proxy_username :: string
  cl_proxy_password :: string
  cl_proxy_bearer_token :: string

definition escape_abstract_namespace_unix_domain :: "string \<Rightarrow> string" where
  "escape_abstract_namespace_unix_domain s =
     (case s of c # d # r \<Rightarrow> (if c = CHR 0x00 then CHR ''@'' # d # r else s) | _ \<Rightarrow> s)"

definition unescape_abstract_namespace_unix_domain :: "string \<Rightarrow> string" where
  "unescape_abstract_namespace_unix_domain s =
     (case s of c # d # r \<Rightarrow> (if c = CHR ''@'' then CHR 0x00 # d # r else s) | _ \<Rightarrow> s)"

definition adjust_host_string :: "string \<Rightarrow> string" where
  "adjust_host_string host = (if CHR '':'' \<in> set host then ''['' @ host @ '']'' else host)"

definition new_ClientImpl_with_cert :: "string \<Rightarrow> int \<Rightarrow> string \<Rightarrow> string \<Rightarrow> ClientImpl" where
  "new_ClientImpl_with_cert host port client_cert_path client_key_path =
     (let host = escape_abstract_namespace_unix_domain host
      in \<lparr>cl_host = host, cl_port = port, cl_host_and_port = adjust_host_string host @ '':'' @ string_of_int port,
          cl_socket = None, cl_in_flight = 0, cl_thread = 0, cl_should_be_closed = False, cl_addr_map = [],
          cl_default_headers = [], cl_header_writer = (\<lambda>s h. case write_headers h s of (n, s) \<Rightarrow> (n, h, s)),
          cl_client_cert_path = client_cert_path, cl_client_key_path = client_key_path,
          cl_connection_timeout_sec = 300, cl_connection_timeout_usec = 0, cl_read_timeout_sec = 300, cl_read_timeout_usec = 0,
          cl_write_timeout_sec = 5, cl_write_timeout_usec = 0, cl_max_timeout_msec = 0,
          cl_basic_auth_username = [], cl_basic_auth_password = [], cl_bearer_token = [],
          cl_keep_alive = False, cl_follow_location = False, cl_url_encode = True,
          cl_address_family = 0, cl_tcp_nodelay = False, cl_ipv6_v6only = False, cl_compress = False, cl_decompress = True,
          cl_interface = [], cl_proxy_host = [], cl_proxy_port = - 1, cl_proxy_username = [], cl_proxy_password = [],
          cl_proxy_bearer_token = []\<rparr>)"

definition new_ClientImpl :: "string \<Rightarrow> int \<Rightarrow> ClientImpl" where
  "new_ClientImpl host port = new_ClientImpl_with_cert host port [] []"

definition new_ClientImpl_default_port :: "string \<Rightarrow> ClientImpl" where
  "new_ClientImpl_default_port host = new_ClientImpl_with_cert host 80 [] []"

text \<open>\<open>copy_settings(rhs)\<close>: the settings that a client takes over from another.\<close>

definition copy_settings :: "ClientImpl \<Rightarrow> ClientImpl \<Rightarrow> ClientImpl" where
  "copy_settings rhs c = c
     \<lparr>cl_client_cert_path := cl_client_cert_path rhs, cl_client_key_path := cl_client_key_path rhs,
      cl_connection_timeout_sec := cl_connection_timeout_sec rhs,
      cl_read_timeout_sec := cl_read_timeout_sec rhs, cl_read_timeout_usec := cl_read_timeout_usec rhs,
      cl_write_timeout_sec := cl_write_timeout_sec rhs, cl_write_timeout_usec := cl_write_timeout_usec rhs,
      cl_max_timeout_msec := cl_max_timeout_msec rhs,
      cl_basic_auth_username := cl_basic_auth_username rhs, cl_basic_auth_password := cl_basic_auth_password rhs,
      cl_bearer_token := cl_bearer_token rhs,
      cl_keep_alive := cl_keep_alive rhs, cl_follow_location := cl_follow_location rhs, cl_url_encode := cl_url_encode rhs,
      cl_address_family := cl_address_family rhs, cl_tcp_nodelay := cl_tcp_nodelay rhs, cl_ipv6_v6only := cl_ipv6_v6only rhs,
      cl_compress := cl_compress rhs, cl_decompress := cl_decompress rhs, cl_interface := cl_interface rhs,
      cl_proxy_host := cl_proxy_host rhs, cl_proxy_port := cl_proxy_port rhs,
      cl_proxy_username := cl_proxy_username rhs, cl_proxy_password := cl_proxy_password rhs,
      cl_proxy_bearer_token := cl_proxy_bearer_token rhs\<rparr>"

section \<open>One exchange\<close>

text \<open>What the functions of the client get by reference: the request, the response, the error, and the state of the
  caller's callbacks.\<close>

record ('u, 'p) exchange =
  x_req :: "('u, 'p) ClientRequest"
  x_res :: ClientResponse
  x_err :: Error
  x_user :: 'u

section \<open>Writing the content\<close>

text \<open>A call of the provider; an empty \<open>std::function\<close> throws. \<open>ready\<close> gives the answers of \<open>wait_writable\<close> in each round. The loops
  end only when the provider says so. The result is the exception, or the error with \<open>Success\<close> for the result \<open>true\<close>; of what a
  round that throws had written there is no account.\<close>

type_synonym 'p content = "('p provider \<times> 'p) option"

definition call_provider :: "'p content \<Rightarrow> nat \<Rightarrow> nat \<Rightarrow> std_exn + (sink_call list \<times> bool) \<times> 'p content" where
  "call_provider prov offset len =
     (case prov of
        None \<Rightarrow> Inl bad_function_call
      | Some (f, st) \<Rightarrow> (case f offset len st of (Inl e, st) \<Rightarrow> Inl e | (Inr r, st) \<Rightarrow> Inr (r, Some (f, st))))"

partial_function (option) client_content_loop ::
    "(nat \<Rightarrow> bool) \<Rightarrow> nat \<Rightarrow> nat \<Rightarrow> nat \<Rightarrow> 'p content \<Rightarrow> strm \<Rightarrow> ((std_exn + Error) \<times> 'p content \<times> strm) option" where
  "client_content_loop ready i end_offset offset prov s =
     (if offset < end_offset then
        if \<not> ready i then Some (Inr Error_Write, prov, s)
        else case call_provider prov offset (end_offset - offset) of
               Inl e \<Rightarrow> Some (Inl e, prov, s)
             | Inr ((calls, ret), prov) \<Rightarrow>
                 (case content_sink calls offset True s of
                    Inl e \<Rightarrow> Some (Inl e, prov, s)
                  | Inr (offset, ok, s) \<Rightarrow>
                      if \<not> ret then Some (Inr Error_Canceled, prov, s)
                      else if \<not> ok then Some (Inr Error_Write, prov, s)
                      else client_content_loop ready (Suc i) end_offset offset prov s)
      else Some (Inr Error_Success, prov, s))"

partial_function (option) client_chunked_loop ::
    "(nat \<Rightarrow> bool) \<Rightarrow> nat \<Rightarrow> nat \<Rightarrow> bool \<Rightarrow> 'p content \<Rightarrow> strm \<Rightarrow> ((std_exn + Error) \<times> 'p content \<times> strm) option" where
  "client_chunked_loop ready i offset data_available prov s =
     (if data_available then
        if \<not> ready i then Some (Inr Error_Write, prov, s)
        else case call_provider prov offset 0 of
               Inl e \<Rightarrow> Some (Inl e, prov, s)
             | Inr ((calls, ret), prov) \<Rightarrow>
                 (case chunk_sink calls offset data_available True s of
                    (offset, data_available, ok, s) \<Rightarrow>
                      if \<not> ret then Some (Inr Error_Canceled, prov, s)
                      else if \<not> ok then Some (Inr Error_Write, prov, s)
                      else client_chunked_loop ready (Suc i) offset data_available prov s)
      else Some (Inr Error_Success, prov, s))"

definition Client_write_content_with_provider ::
    "(nat \<Rightarrow> bool) \<Rightarrow> ('u, 'p) ClientRequest \<Rightarrow> strm \<Rightarrow> ((std_exn + Error) \<times> 'p content \<times> strm) option" where
  "Client_write_content_with_provider ready rq s =
     (if cr_is_chunked rq then client_chunked_loop ready 0 0 True (cr_content_provider rq) s
      else client_content_loop ready 0 (0 + cr_content_length rq) 0 (cr_content_provider rq) s)"

section \<open>Writing the request\<close>

definition cl_set_header :: "string \<Rightarrow> string \<Rightarrow> ('u, 'p) ClientRequest \<Rightarrow> ('u, 'p) ClientRequest" where
  "cl_set_header key val rq = rq\<lparr>rq_headers := set_header_in key val (rq_headers rq)\<rparr>"

definition unless_header :: "string \<Rightarrow> string \<Rightarrow> ('u, 'p) ClientRequest \<Rightarrow> ('u, 'p) ClientRequest" where
  "unless_header key val rq = (if has_header (rq_headers rq) key then rq else cl_set_header key val rq)"

definition connection_headers :: "ClientImpl \<Rightarrow> bool \<Rightarrow> ('u, 'p) ClientRequest \<Rightarrow> ('u, 'p) ClientRequest" where
  "connection_headers cli close_connection rq =
     (let rq = (if close_connection then unless_header ''Connection'' ''close'' rq else rq);
          rq = unless_header ''Host'' (if cl_port cli = 80 then cl_host cli else cl_host_and_port cli) rq;
          rq = unless_header ''Accept'' ''*/*'' rq
      in if cr_content_receiver rq = None then
           unless_header ''User-Agent'' ''cpp-httplib/0.20.0'' (unless_header ''Accept-Encoding'' '''' rq)
         else rq)"

definition content_headers :: "('u, 'p) ClientRequest \<Rightarrow> ('u, 'p) ClientRequest" where
  "content_headers rq =
     (if rq_body rq = [] then
        if cr_content_provider rq \<noteq> None then
          if \<not> cr_is_chunked rq then unless_header ''Content-Length'' (string_of_nat (cr_content_length rq)) rq else rq
        else if rq_method rq = ''POST'' \<or> rq_method rq = ''PUT'' \<or> rq_method rq = ''PATCH'' then
          cl_set_header ''Content-Length'' ''0'' rq
        else rq
      else unless_header ''Content-Length'' (string_of_nat (length (rq_body rq))) (unless_header ''Content-Type'' ''text/plain'' rq))"

text \<open>These entries go in without the check of \<open>set_header\<close>.\<close>

definition insert_unless_header :: "string \<times> string \<Rightarrow> ('u, 'p) ClientRequest \<Rightarrow> ('u, 'p) ClientRequest" where
  "insert_unless_header kv rq =
     (if has_header (rq_headers rq) (fst kv) then rq else rq\<lparr>rq_headers := headers_emplace (fst kv) (snd kv) (rq_headers rq)\<rparr>)"

definition authentication_headers :: "ClientImpl \<Rightarrow> ('u, 'p) ClientRequest \<Rightarrow> ('u, 'p) ClientRequest" where
  "authentication_headers cli rq =
     (let rq = (if cl_basic_auth_password cli \<noteq> [] \<or> cl_basic_auth_username cli \<noteq> [] then
                  insert_unless_header
                    (make_basic_authentication_header (cl_basic_auth_username cli) (cl_basic_auth_password cli) False) rq
                else rq);
          rq = (if cl_proxy_username cli \<noteq> [] \<and> cl_proxy_password cli \<noteq> [] then
                  insert_unless_header
                    (make_basic_authentication_header (cl_proxy_username cli) (cl_proxy_password cli) True) rq
                else rq);
          rq = (if cl_bearer_token cli \<noteq> [] then
                  insert_unless_header (make_bearer_token_authentication_header (cl_bearer_token cli) False) rq
                else rq)
      in if cl_proxy_bearer_token cli \<noteq> [] then
           insert_unless_header (make_bearer_token_authentication_header (cl_proxy_bearer_token cli) True) rq
         else rq)"

definition prepare_headers :: "ClientImpl \<Rightarrow> bool \<Rightarrow> ('u, 'p) ClientRequest \<Rightarrow> ('u, 'p) ClientRequest" where
  "prepare_headers cli close_connection rq =
     authentication_headers cli (content_headers (connection_headers cli close_connection rq))"

definition request_target :: "ClientImpl \<Rightarrow> ('u, 'p) ClientRequest \<Rightarrow> string" where
  "request_target cli rq =
     (let path_with_query = (if rq_params rq = [] then rq_path rq else append_query_params (rq_path rq) (rq_params rq))
      in if cl_url_encode cli then encode_url path_with_query else path_with_query)"

text \<open>The request line and the header, collected in a \<open>BufferStream\<close>; the header writer gets the headers by reference.\<close>

definition collect_head :: "ClientImpl \<Rightarrow> ('u, 'p) ClientRequest \<Rightarrow> Headers \<times> string" where
  "collect_head cli rq =
     (case write_request_line (rq_method rq) (request_target cli rq) new_BufferStream of
        (n, b) \<Rightarrow> (case cl_header_writer cli b (rq_headers rq) of (n, h, b) \<Rightarrow> (h, outbuf b)))"

definition write_request_body ::
    "(nat \<Rightarrow> bool) \<Rightarrow> strm \<Rightarrow> ('u, 'p) exchange \<Rightarrow> ((std_exn + bool) \<times> strm \<times> ('u, 'p) exchange) option" where
  "write_request_body ready s x =
     (if rq_body (x_req x) = [] then
        case Client_write_content_with_provider ready (x_req x) s of
          None \<Rightarrow> None
        | Some (Inl e, prov, s) \<Rightarrow> Some (Inl e, s, x\<lparr>x_req := (x_req x)\<lparr>cr_content_provider := prov\<rparr>\<rparr>)
        | Some (Inr err, prov, s) \<Rightarrow>
            Some (Inr (err = Error_Success), s, x\<lparr>x_req := (x_req x)\<lparr>cr_content_provider := prov\<rparr>, x_err := err\<rparr>)
      else case write_data (rq_body (x_req x)) s of
             (True, s) \<Rightarrow> Some (Inr True, s, x)
           | (False, s) \<Rightarrow> Some (Inr False, s, x\<lparr>x_err := Error_Write\<rparr>))"

definition Client_write_request ::
    "ClientImpl \<Rightarrow> (nat \<Rightarrow> bool) \<Rightarrow> bool \<Rightarrow> strm \<Rightarrow> ('u, 'p) exchange \<Rightarrow> ((std_exn + bool) \<times> strm \<times> ('u, 'p) exchange) option" where
  "Client_write_request cli ready close_connection s x =
     (let rq = prepare_headers cli close_connection (x_req x)
      in case collect_head cli rq of
           (h, d) \<Rightarrow>
             let x = x\<lparr>x_req := rq\<lparr>rq_headers := h\<rparr>\<rparr>
             in case write_data d s of
                  (False, s) \<Rightarrow> Some (Inr False, s, x\<lparr>x_err := Error_Write\<rparr>)
                | (True, s) \<Rightarrow> write_request_body ready s x)"

section \<open>Reading the response\<close>

text \<open>The match of \<^verbatim>\<open>(HTTP/1\.[01]) (\d{3})(?: (.*?))?\r\n\<close>: the version, the digits of the status, and the reason. The dot
  stands for any character but a line end.\<close>

definition match_response_line :: "string \<Rightarrow> (string \<times> string \<times> string) option" where
  "match_response_line t =
     (let version = take 8 t; digits = take 3 (drop 9 t); r = drop 12 t
      in if (version = ''HTTP/1.0'' \<or> version = ''HTTP/1.1'') \<and> take 1 (drop 8 t) = '' ''
            \<and> length digits = 3 \<and> list_all c_isdigit digits then
           if r = crlf then Some (version, digits, [])
           else if take 1 r = '' '' then
             let reason = takeWhile (\<lambda>c. c \<noteq> CHR 0x0A \<and> c \<noteq> CHR 0x0D) (drop 1 r)
             in if drop (length reason) (drop 1 r) = crlf then Some (version, digits, reason) else None
           else None
         else None)"

definition set_response_line :: "string \<times> string \<times> string \<Rightarrow> ClientResponse \<Rightarrow> ClientResponse" where
  "set_response_line m rs =
     (case m of (version, digits, reason) \<Rightarrow>
        rs\<lparr>rs_version := version, rs_status := int (nat_of_digits digits), rs_reason := reason\<rparr>)"

text \<open>The loop that skips interim responses; \<open>res\<close> has the status of the last one.\<close>

function skip_continue :: "line_reader \<Rightarrow> strm \<Rightarrow> ClientResponse \<Rightarrow> bool \<times> strm \<times> ClientResponse" where
  "skip_continue lr s rs =
     (if rs_status rs \<noteq> 100 then (True, s, rs)
      else
        case getline lr s of
          (False, lr, s) \<Rightarrow> (False, s, rs)
        | (True, lr, s) \<Rightarrow>
            (case getline lr s of
               (False, lr, s) \<Rightarrow> (False, s, rs)
             | (True, lr, s) \<Rightarrow>
                 (case match_response_line (c_str (lr_text lr)) of
                    None \<Rightarrow> (False, s, rs)
                  | Some m \<Rightarrow> skip_continue lr s (set_response_line m rs))))"
  by auto
termination
  by (relation "measure (\<lambda>(lr, s, rs). length (avail s))") (auto dest!: getline_less [OF sym])

declare skip_continue.simps [simp del]

definition read_response_line :: "string \<Rightarrow> strm \<Rightarrow> ClientResponse \<Rightarrow> bool \<times> strm \<times> ClientResponse" where
  "read_response_line method s rs =
     (case getline (new_line_reader 2048) s of
        (False, lr, s) \<Rightarrow> (False, s, rs)
      | (True, lr, s) \<Rightarrow>
          (case match_response_line (c_str (lr_text lr)) of
             None \<Rightarrow> (method = ''CONNECT'', s, rs)
           | Some m \<Rightarrow> skip_continue lr s (set_response_line m rs)))"

text \<open>The closures \<open>out\<close> and \<open>progress\<close>. Their state: the body, the error, and the state of the caller's callbacks.\<close>

definition response_out :: "'u receiver option \<Rightarrow> bool \<Rightarrow> (string \<times> Error \<times> 'u) receiver" where
  "response_out content_receiver redirect d off len st =
     (case st of (body, err, u) \<Rightarrow>
        (case content_receiver of
           None \<Rightarrow> (True, body @ d, err, u)
         | Some f \<Rightarrow>
             if redirect then (True, st)
             else case f d off len u of (ret, u) \<Rightarrow> (ret, body, (if ret then err else Error_Canceled), u)))"

definition response_progress :: "'u progress option \<Rightarrow> bool \<Rightarrow> (string \<times> Error \<times> 'u) progress" where
  "response_progress prog redirect cur tot st =
     (case st of (body, err, u) \<Rightarrow>
        (case prog of
           None \<Rightarrow> (True, st)
         | Some f \<Rightarrow>
             if redirect then (True, st)
             else case f cur tot u of (ret, u) \<Rightarrow> (ret, body, (if ret then err else Error_Canceled), u)))"

text \<open>\<open>read_content\<close> of a response. Only the reading of a content with a length reports its progress, after each piece that
  the receiver took.\<close>

definition then_progress :: "'r receiver \<Rightarrow> 'r progress \<Rightarrow> 'r receiver" where
  "then_progress out progress d off len st =
     (case out d off len st of (False, st) \<Rightarrow> (False, st) | (True, st) \<Rightarrow> progress (off + length d) len st)"

definition read_response_content ::
    "bool \<Rightarrow> 'r receiver \<Rightarrow> 'r progress \<Rightarrow> Headers \<Rightarrow> 'r \<Rightarrow> strm \<Rightarrow> bool \<times> Headers \<times> 'r \<times> strm" where
  "read_response_content decompress out progress headers st s =
     (case read_content (2 ^ 64 - 1) 0
             (if is_chunked_transfer_encoding headers \<or> \<not> has_header headers ''Content-Length'' then out else then_progress out progress)
             decompress headers st s of
        (ret, dummy_status, headers, st, s) \<Rightarrow> (ret, headers, st, s))"

definition is_redirect :: "ClientImpl \<Rightarrow> ClientResponse \<Rightarrow> bool" where
  "is_redirect cli rs \<longleftrightarrow> 300 < rs_status rs \<and> rs_status rs < 400 \<and> rs_status rs \<noteq> 304 \<and> cl_follow_location cli"

definition call_response_handler :: "bool \<Rightarrow> ('u, 'p) exchange \<Rightarrow> bool \<times> ('u, 'p) exchange" where
  "call_response_handler redirect x =
     (case cr_response_handler (x_req x) of
        Some h \<Rightarrow>
          if redirect then (True, x)
          else (case h (x_res x) (x_user x) of
                  (True, u) \<Rightarrow> (True, x\<lparr>x_user := u\<rparr>)
                | (False, u) \<Rightarrow> (False, x\<lparr>x_user := u, x_err := Error_Canceled\<rparr>))
      | None \<Rightarrow> (True, x))"

text \<open>The announced length that no string can have. (Otherwise the memory for the body is reserved.)\<close>

definition body_too_long :: "('u, 'p) exchange \<Rightarrow> bool" where
  "body_too_long x \<longleftrightarrow> has_header (rs_headers (x_res x)) ''Content-Length'' \<and> cr_content_receiver (x_req x) = None
     \<and> fst (get_header_value_u64 (rs_headers (x_res x)) ''Content-Length'' 0 0) > string_max_size"

definition read_response_body :: "ClientImpl \<Rightarrow> strm \<Rightarrow> ('u, 'p) exchange \<Rightarrow> bool \<times> strm \<times> ('u, 'p) exchange" where
  "read_response_body cli s x =
     (let redirect = is_redirect cli (x_res x)
      in case call_response_handler redirect x of
           (False, x) \<Rightarrow> (False, s, x)
         | (True, x) \<Rightarrow>
             if body_too_long x then (False, s, x\<lparr>x_err := Error_Read\<rparr>)
             else if rs_status (x_res x) = 304 then (True, s, x)
             else
               case read_response_content (cl_decompress cli) (response_out (cr_content_receiver (x_req x)) redirect)
                      (response_progress (cr_progress (x_req x)) redirect) (rs_headers (x_res x))
                      (rs_body (x_res x), x_err x, x_user x) s of
                 (ret, h, (body, err, u), s) \<Rightarrow>
                   let x = x\<lparr>x_res := (x_res x)\<lparr>rs_headers := h, rs_body := body\<rparr>, x_err := err, x_user := u\<rparr>
                   in if ret then (True, s, x)
                      else (False, s, if x_err x \<noteq> Error_Canceled then x\<lparr>x_err := Error_Read\<rparr> else x))"

definition read_response :: "ClientImpl \<Rightarrow> strm \<Rightarrow> ('u, 'p) exchange \<Rightarrow> bool \<times> strm \<times> ('u, 'p) exchange" where
  "read_response cli s x =
     (case read_response_line (rq_method (x_req x)) s (x_res x) of
        (False, s, rs) \<Rightarrow> (False, s, x\<lparr>x_res := rs, x_err := Error_Read\<rparr>)
      | (True, s, rs) \<Rightarrow>
          (case read_headers s (rs_headers rs) of
             (False, h, s) \<Rightarrow> (False, s, x\<lparr>x_res := rs\<lparr>rs_headers := h\<rparr>, x_err := Error_Read\<rparr>)
           | (True, h, s) \<Rightarrow>
               let x = x\<lparr>x_res := rs\<lparr>rs_headers := h\<rparr>\<rparr>
               in if rs_status rs \<noteq> 204 \<and> rq_method (x_req x) \<noteq> ''HEAD'' \<and> rq_method (x_req x) \<noteq> ''CONNECT''
                  then read_response_body cli s x else (True, s, x)))"

definition Client_process_request ::
    "ClientImpl \<Rightarrow> (nat \<Rightarrow> bool) \<Rightarrow> bool \<Rightarrow> strm \<Rightarrow> ('u, 'p) exchange \<Rightarrow> ((std_exn + bool) \<times> strm \<times> ('u, 'p) exchange) option" where
  "Client_process_request cli ready close_connection s x =
     (case Client_write_request cli ready close_connection s x of
        Some (Inr True, s, x) \<Rightarrow> (case read_response cli s x of (ret, s, x) \<Rightarrow> Some (Inr ret, s, x))
      | r \<Rightarrow> r)"

end
