(* ===== verification/Httplib_Client_Wire.thy ===== *)
theory Httplib_Client_Wire
  imports Httplib_Client
begin

text \<open>
  The HTTP library's client on the wire: what \<open>write_request\<close> sends when the connection takes all of it, and what
  \<open>read_response_line\<close>, \<open>read_headers\<close> and \<open>read_content\<close> make of a response, in whatever segments it arrives.
\<close>

section \<open>The status line\<close>

lemma string_of_nat_step: "string_of_nat n = (if n < 10 then [char_of (48 + n)] else string_of_nat (n div 10) @ [char_of (48 + n mod 10)])"
  by (subst string_of_nat.simps) simp

lemma string_of_nat_length_le: "n < 10 ^ Suc k \<Longrightarrow> length (string_of_nat n) \<le> Suc k"
proof (induction k arbitrary: n)
  case 0
  then show ?case by (subst string_of_nat_step) simp
next
  case (Suc k)
  then have "n div 10 < 10 ^ Suc k" by (simp add: less_mult_imp_div_less)
  from Suc.IH [OF this] show ?case by (subst string_of_nat_step) simp
qed

lemma string_of_nat_three: "100 \<le> n \<Longrightarrow> n < 1000 \<Longrightarrow> length (string_of_nat n) = 3"
proof -
  assume "100 \<le> n" "n < 1000"
  then have "\<not> n < 10" "\<not> n div 10 < 10" "n div 10 div 10 < 10" by linarith+
  then show ?thesis by (subst string_of_nat_step, subst string_of_nat_step, subst string_of_nat_step) simp
qed

lemma status_message_plain: "c \<in> set (status_message st) \<Longrightarrow> c \<noteq> CHR 0x0A \<and> c \<noteq> CHR 0x0D \<and> c \<noteq> CHR 0x00"
proof -
  have "list_all (\<lambda>m. list_all (\<lambda>c. c \<noteq> CHR 0x0A \<and> c \<noteq> CHR 0x0D \<and> c \<noteq> CHR 0x00) m) (''Internal Server Error'' # map snd status_messages)"
    by code_simp
  moreover have "status_message st \<in> set (''Internal Server Error'' # map snd status_messages)"
    by (auto simp: status_message_def split: option.splits dest!: map_of_SomeD intro: rev_image_eqI)
  ultimately show "c \<in> set (status_message st) \<Longrightarrow> c \<noteq> CHR 0x0A \<and> c \<noteq> CHR 0x0D \<and> c \<noteq> CHR 0x00"
    unfolding list_all_iff by blast
qed

definition status_line :: "int \<Rightarrow> string" where
  "status_line st = ''HTTP/1.1 '' @ string_of_int st @ '' '' @ status_message st"

lemma response_line_status: "response_line st = status_line st @ crlf"
  by (simp add: response_line_def status_line_def)

lemma digit_plain: "c_isdigit c \<Longrightarrow> c \<noteq> CHR 0x0A \<and> c \<noteq> CHR 0x0D \<and> c \<noteq> CHR 0x00"
  by (auto simp: c_isdigit_def code_def)

lemma status_line_plain:
  assumes "100 \<le> st" and "c \<in> set (status_line st)"
  shows "c \<noteq> CHR 0x0A \<and> c \<noteq> CHR 0x0D \<and> c \<noteq> CHR 0x00"
proof -
  have "\<And>c. c \<in> set (string_of_int st) \<Longrightarrow> c_isdigit c"
    using assms(1) string_of_nat_digits by (auto simp: string_of_int_def)
  then show ?thesis using assms(2) digit_plain status_message_plain by (auto simp: status_line_def)
qed

lemma match_response_line_status:
  assumes "100 \<le> st" and "st < 1000"
  shows "match_response_line (response_line st) = Some (''HTTP/1.1'', string_of_int st, status_message st)"
proof -
  define n where "n = nat st"
  have n: "string_of_int st = string_of_nat n" "100 \<le> n" "n < 1000" using assms by (simp_all add: string_of_int_def n_def)
  obtain a b c where abc: "string_of_nat n = [a, b, c]"
    using string_of_nat_three [OF n(2,3)] by (auto simp: numeral_3_eq_3 length_Suc_conv)
  have d: "c_isdigit a" "c_isdigit b" "c_isdigit c" using string_of_nat_digits [of _ n] abc by simp_all
  have m: "takeWhile (\<lambda>c. c \<noteq> CHR 0x0A \<and> c \<noteq> CHR 0x0D) (status_message st @ crlf) = status_message st"
    using status_message_plain [of _ st] by (subst takeWhile_append2) (auto simp: crlf_def)
  show ?thesis
    using m d by (simp add: match_response_line_def response_line_def n(1) abc crlf_def numeral_eq_Suc Let_def)
qed

lemma getline_status:
  assumes "strm_ok s" and "avail s = response_line st @ rest" and "100 \<le> st"
  obtains lr' q where "getline lr s = (True, lr', s\<lparr>inq := q\<rparr>)" "c_str (lr_text lr') = response_line st" "concat q = rest" "[] \<notin> set q"
proof -
  have "CHR 0x0A \<notin> set (status_line st)" using status_line_plain [OF assms(3)] by blast
  then obtain lr' q where g: "getline lr s = (True, lr', s\<lparr>inq := q\<rparr>)" "lr_text lr' = status_line st @ crlf" "concat q = rest" "[] \<notin> set q"
    using getline_line [OF assms(1), of "status_line st" rest lr] assms(2) by (auto simp: response_line_status)
  have "CHR 0x00 \<notin> set (status_line st @ crlf)" using status_line_plain [OF assms(3)] by (auto simp: crlf_def)
  then have "c_str (lr_text lr') = response_line st" by (simp add: g(2) c_str_no_nul response_line_status)
  with g that show ?thesis by blast
qed

text \<open>The interim responses that a server sends before the final one.\<close>

definition interim :: "nat \<Rightarrow> string" where
  "interim k = concat (replicate k (response_line 100 @ crlf))"

lemma digits_value: "100 \<le> st \<Longrightarrow> int (nat_of_digits (string_of_int st)) = st"
  by (simp add: string_of_int_def)

lemma set_response_line_status:
  "100 \<le> st \<Longrightarrow> set_response_line (''HTTP/1.1'', string_of_int st, status_message st) rs
     = rs\<lparr>rs_version := ''HTTP/1.1'', rs_status := st, rs_reason := status_message st\<rparr>"
  by (simp add: set_response_line_def digits_value)

lemma skip_continue_interim:
  assumes "strm_ok s" and "avail s = crlf @ interim k @ response_line st @ rest" and "100 < st" and "st < 1000" and "rs_status rs = 100"
  shows "\<exists>q. skip_continue lr s rs
      = (True, s\<lparr>inq := q\<rparr>, rs\<lparr>rs_version := ''HTTP/1.1'', rs_status := st, rs_reason := status_message st\<rparr>)
    \<and> concat q = rest \<and> [] \<notin> set q"
  using assms
proof (induction k arbitrary: s rs lr)
  case 0
  obtain lr1 q1 where 1: "getline lr s = (True, lr1, s\<lparr>inq := q1\<rparr>)" "concat q1 = response_line st @ rest" "[] \<notin> set q1"
    using getline_line [OF 0(1), of "[]" "response_line st @ rest" lr] 0(2) by (auto simp: interim_def)
  obtain lr2 q2 where 2: "getline lr1 (s\<lparr>inq := q1\<rparr>) = (True, lr2, s\<lparr>inq := q2\<rparr>)" "c_str (lr_text lr2) = response_line st"
    "concat q2 = rest" "[] \<notin> set q2"
    by (rule getline_status [where lr = lr1 and s = "s\<lparr>inq := q1\<rparr>" and st = st and rest = rest]) (use 1 0 in auto)
  show ?case
    using 0 2 match_response_line_status [of st] set_response_line_status [of st]
    by (subst skip_continue.simps) (simp add: 1(1) 2(1), subst skip_continue.simps, auto)
next
  case (Suc k)
  let ?rest = "crlf @ interim k @ response_line st @ rest"
  obtain lr1 q1 where 1: "getline lr s = (True, lr1, s\<lparr>inq := q1\<rparr>)" "concat q1 = response_line 100 @ ?rest" "[] \<notin> set q1"
    using getline_line [OF Suc.prems(1), of "[]" "response_line 100 @ ?rest" lr] Suc.prems(2) by (auto simp: interim_def)
  obtain lr2 q2 where 2: "getline lr1 (s\<lparr>inq := q1\<rparr>) = (True, lr2, s\<lparr>inq := q2\<rparr>)" "c_str (lr_text lr2) = response_line 100"
    "concat q2 = ?rest" "[] \<notin> set q2"
    by (rule getline_status [where lr = lr1 and s = "s\<lparr>inq := q1\<rparr>" and st = 100 and rest = ?rest]) (use 1 in auto)
  let ?rs = "rs\<lparr>rs_version := ''HTTP/1.1'', rs_status := 100, rs_reason := status_message 100\<rparr>"
  have "skip_continue lr s rs = skip_continue lr2 (s\<lparr>inq := q2\<rparr>) ?rs"
    using Suc.prems(5) 2(2) match_response_line_status [of 100] set_response_line_status [of 100]
    by (subst skip_continue.simps) (simp add: 1(1) 2(1))
  then show ?case
    using Suc.IH [of "s\<lparr>inq := q2\<rparr>" ?rs lr2] 2(3,4) Suc.prems(3,4) by simp
qed

lemma read_response_line_text:
  assumes "strm_ok s" and "avail s = interim k @ response_line st @ rest" and "100 < st" and "st < 1000"
  shows "\<exists>q. read_response_line m s rs
      = (True, s\<lparr>inq := q\<rparr>, rs\<lparr>rs_version := ''HTTP/1.1'', rs_status := st, rs_reason := status_message st\<rparr>)
    \<and> concat q = rest \<and> [] \<notin> set q"
proof (cases k)
  case 0
  obtain lr q where 1: "getline (new_line_reader 2048) s = (True, lr, s\<lparr>inq := q\<rparr>)" "c_str (lr_text lr) = response_line st"
    "concat q = rest" "[] \<notin> set q"
    by (rule getline_status [where s = s and st = st and rest = rest]) (use assms 0 in \<open>auto simp: interim_def\<close>)
  show ?thesis
    using assms 1(2-4) match_response_line_status [of st] set_response_line_status [of st]
    by (simp add: read_response_line_def 1(1), subst skip_continue.simps, auto)
next
  case (Suc k')
  let ?rest = "crlf @ interim k' @ response_line st @ rest"
  obtain lr q where 1: "getline (new_line_reader 2048) s = (True, lr, s\<lparr>inq := q\<rparr>)" "c_str (lr_text lr) = response_line 100"
    "concat q = ?rest" "[] \<notin> set q"
    by (rule getline_status [where s = s and st = 100 and rest = ?rest]) (use assms Suc in \<open>auto simp: interim_def\<close>)
  let ?rs = "rs\<lparr>rs_version := ''HTTP/1.1'', rs_status := 100, rs_reason := status_message 100\<rparr>"
  have "read_response_line m s rs = skip_continue lr (s\<lparr>inq := q\<rparr>) ?rs"
    using 1(2) match_response_line_status [of 100] set_response_line_status [of 100] by (simp add: read_response_line_def 1(1))
  then show ?thesis
    using skip_continue_interim [of "s\<lparr>inq := q\<rparr>" k' st rest ?rs lr] 1(3,4) assms(3,4) by simp
qed

section \<open>The content\<close>

text \<open>A receiver that works on an image of the state of another gives the image of its results.\<close>

definition receiver_image :: "'r receiver \<Rightarrow> 't receiver \<Rightarrow> ('r \<Rightarrow> 't) \<Rightarrow> bool" where
  "receiver_image out out' f \<longleftrightarrow> (\<forall>d off len st. out' d off len (f st) = (case out d off len st of (b, st) \<Rightarrow> (b, f st)))"

lemma image_call: "receiver_image out out' f \<Longrightarrow> out' d off len (f st) = (case out d off len st of (b, st) \<Rightarrow> (b, f st))"
  by (simp add: receiver_image_def)

lemma image_length_loop:
  "receiver_image out out' f \<Longrightarrow> progress = None \<Longrightarrow>
   read_length_loop len r progress out' (f st) s = (case read_length_loop len r progress out st s of (b, st, s) \<Rightarrow> (b, f st, s))"
proof (induction len r progress out st s rule: read_length_loop.induct)
  case (1 len r progress out st s)
  note step = read_length_loop.simps [of len r]
  show ?case
  proof (cases "r < len")
    case False
    then show ?thesis by (simp add: step)
  next
    case True
    obtain d t where rd: "strm_read (min (len - r) RECV_BUFSIZ) s = (d, t)" by fastforce
    show ?thesis
    proof (cases "\<exists>x. d = Some x \<and> x \<noteq> []")
      case False
      then show ?thesis using True rd by (cases d) (auto simp: step)
    next
      case yes: True
      then obtain x where x: "d = Some x" "x \<noteq> []" by auto
      obtain b st2 where o: "out x r len st = (b, st2)" by fastforce
      show ?thesis
        using True rd x o 1(2,3) "1.IH" [OF True rd [symmetric] x(1,2) o [symmetric]] image_call [OF 1(2), of x r len st]
        by (cases b) (simp_all add: step [of None out st s] step [of None out' "f st" s])
    qed
  qed
qed

lemma image_with_length:
  assumes "receiver_image out out' f"
  shows "read_content_with_length len None out' (f st) s = (case read_content_with_length len None out st s of (b, st, s) \<Rightarrow> (b, f st, s))"
  unfolding read_content_with_length_def by (rule image_length_loop [OF assms refl])

lemma image_to_end:
  "receiver_image out out' f \<Longrightarrow> read_to_end_loop r out' (f st) s = (case read_to_end_loop r out st s of (b, st, s) \<Rightarrow> (b, f st, s))"
proof (induction r out st s rule: read_to_end_loop.induct)
  case (1 r out st s)
  note step = read_to_end_loop.simps [of r]
  obtain d t where rd: "strm_read RECV_BUFSIZ s = (d, t)" by fastforce
  show ?case
  proof (cases "\<exists>x. d = Some x \<and> x \<noteq> []")
    case False
    then show ?thesis using rd by (cases d) (auto simp: step)
  next
    case True
    then obtain x where x: "d = Some x" "x \<noteq> []" by auto
    obtain b st2 where o: "out x r 0 st = (b, st2)" by fastforce
    show ?thesis
      using rd x o 1(2) "1.IH" [OF rd [symmetric] x(1,2) o [symmetric]] image_call [OF 1(2), of x r 0 st]
      by (cases b) (simp_all add: step [of out st s] step [of out' "f st" s])
  qed
qed

lemma image_chunks:
  "receiver_image out out' f \<Longrightarrow> chunk_loop lr out' (f st) s = (case chunk_loop lr out st s of (b, lr, st, s) \<Rightarrow> (b, lr, f st, s))"
proof (induction lr out st s rule: chunk_loop.induct)
  case (1 lr out st s)
  note step = chunk_loop.simps [of lr]
  show ?case
  proof (cases "strtoul16 (c_str (lr_text lr))")
    case None
    then show ?thesis by (simp add: step)
  next
    case (Some n)
    obtain b st2 s2 where w: "read_content_with_length n None out st s = (b, st2, s2)" by (rule prod_cases3)
    obtain b1 lr1 s3 where g1: "getline lr s2 = (b1, lr1, s3)" by (rule prod_cases3)
    obtain b2 lr2 s4 where g2: "getline lr1 s3 = (b2, lr2, s4)" by (rule prod_cases3)
    have ih: "chunk_loop lr2 out' (f st2) s4 = (case chunk_loop lr2 out st2 s4 of (b, lr, st, s) \<Rightarrow> (b, lr, f st, s))"
      if "n \<noteq> 2 ^ 64 - 1" "n \<noteq> 0" "b" "b1" "b2" "c_str (lr_text lr1) = crlf"
      using "1.IH" [OF Some that(1,2) w [symmetric] _ refl g1 [symmetric] _ refl _ g2 [symmetric] _ refl 1(2)] that by simp
    show ?thesis
      using Some w g1 g2 ih image_with_length [OF 1(2), of n st s]
      by (cases "n = 2 ^ 64 - 1 \<or> n = 0"; cases b; cases b1; cases b2; cases "c_str (lr_text lr1) = crlf")
        (auto simp: step [of out st s] step [of out' "f st" s])
  qed
qed

lemma image_chunked:
  assumes "receiver_image out out' f"
  shows "read_content_chunked headers out' (f st) s = (case read_content_chunked headers out st s of (b, h, st, s) \<Rightarrow> (b, h, f st, s))"
  by (simp add: read_content_chunked_def image_chunks [OF assms] split: prod.splits bool.splits)

lemma image_content:
  assumes "receiver_image out out' f"
  shows "read_content n status out' decompress headers (f st) s =
     (case read_content n status out decompress headers st s of (ret, status, h, st, s) \<Rightarrow> (ret, status, h, f st, s))"
  by (simp add: read_content_def read_content_body_def Let_def image_chunked [OF assms] image_with_length [OF assms] read_content_without_length_def
      image_to_end [OF assms] split: prod.splits)

text \<open>The whole rest of a connection that the peer has closed.\<close>

lemma read_to_end_app:
  assumes "strm_ok s" and "in_closed s"
  shows "\<exists>q. read_to_end_loop r app st s = (True, st @ avail s, s\<lparr>inq := q\<rparr>) \<and> concat q = [] \<and> [] \<notin> set q"
  using assms
proof (induction "length (avail s)" arbitrary: r st s rule: less_induct)
  case less
  show ?case
  proof (cases "avail s = []")
    case True
    then have "inq s = []" using less.prems(1) by (cases "inq s") (auto simp: avail_def strm_ok_def)
    then show ?thesis
      using less.prems(2) True by (subst read_to_end_loop.simps) (cases s, auto simp: strm_read_def)
  next
    case False
    have "0 < RECV_BUFSIZ" by (simp add: RECV_BUFSIZ_def)
    then obtain d q where d: "strm_read RECV_BUFSIZ s = (Some d, s\<lparr>inq := q\<rparr>)" "d \<noteq> []" "avail s = d @ concat q" "[] \<notin> set q"
      using strm_read_some [OF less.prems(1) False] by blast
    then obtain q2 where "read_to_end_loop (r + length d) app (st @ d) (s\<lparr>inq := q\<rparr>) = (True, st @ avail s, s\<lparr>inq := q2\<rparr>)"
      "concat q2 = []" "[] \<notin> set q2"
      using less.hyps [of "s\<lparr>inq := q\<rparr>" "r + length d" "st @ d"] less.prems(2) by auto
    then show ?thesis using d by (subst read_to_end_loop.simps) (auto simp: app_def)
  qed
qed

text \<open>The ways in which a response can say where its content ends: \<open>framed h body wire closes\<close> has the header, the content, the bytes
  on the wire, and whether the connection must be closed after them.\<close>

inductive framed :: "Headers \<Rightarrow> string \<Rightarrow> string \<Rightarrow> bool \<Rightarrow> bool" where
  by_length: "\<not> is_chunked_transfer_encoding h \<Longrightarrow> headers_range h ''Content-Length'' = [string_of_nat (length body)]
    \<Longrightarrow> length body \<le> string_max_size \<Longrightarrow> framed h body body closes"
| by_chunks: "is_chunked_transfer_encoding h \<Longrightarrow> \<not> has_header h ''Content-Length''
    \<Longrightarrow> (\<And>d. d \<in> set ds \<Longrightarrow> d \<noteq> [] \<and> length d < 2 ^ 64 - 1)
    \<Longrightarrow> framed h (concat ds) (concat (map chunk_text ds) @ ''0'' @ crlf @ crlf) closes"
| by_close: "\<not> is_chunked_transfer_encoding h \<Longrightarrow> \<not> has_header h ''Content-Length'' \<Longrightarrow> framed h body body True"

lemma content_length_value:
  "headers_range h ''Content-Length'' = [string_of_nat n] \<Longrightarrow> n \<le> string_max_size
    \<Longrightarrow> get_header_value_u64 h ''Content-Length'' def 0 = (n, False) \<and> has_header h ''Content-Length''"
  using string_of_nat_digits [of _ n]
  by (auto simp: get_header_value_u64_def range_nth_def is_numeric_def list_all_iff has_header_def string_max_size_def)

lemma read_framed:
  assumes "framed h body wire closes" and "strm_ok s" and "avail s = wire @ rest" and "closes \<longrightarrow> rest = [] \<and> in_closed s"
    and "decompress \<longrightarrow> \<not> unsupported_encoding h"
  shows "\<exists>status q. read_content (2 ^ 64 - 1) 0 app decompress h st s = (True, status, h, st @ body, s\<lparr>inq := q\<rparr>) \<and> concat q = rest \<and> [] \<notin> set q"
  using assms
proof cases
  case by_length
  note cl = content_length_value [OF by_length(3,4), of "2 ^ 64 - 1"]
  have le: "\<not> length body > 2 ^ 64 - 1" using by_length(4) by (simp add: string_max_size_def)
  show ?thesis
  proof (cases "body = []")
    case True
    then show ?thesis
      using cl le by_length(1,2) assms(2,3,5)
      by (auto simp: read_content_def read_content_body_def avail_def strm_ok_def intro!: exI [of _ "inq s"])
  next
    case False
    then show ?thesis
      using read_with_length_app [OF assms(2), of body rest st] cl le by_length(1,2) assms(3,5)
      by (auto simp: read_content_def read_content_body_def)
  qed
next
  case (by_chunks ds)
  then show ?thesis
    using read_chunked_app [OF assms(2), of ds rest h st] assms(3,5)
    by (auto simp: read_content_def read_content_body_def)
next
  case by_close
  then show ?thesis
    using read_to_end_app [OF assms(2), of 0 st] assms(3-5)
    by (auto simp: read_content_def read_content_body_def read_content_without_length_def)
qed

section \<open>A response\<close>

text \<open>A request whose response goes into the body: no callbacks.\<close>

definition plain_request :: "('u, 'p) ClientRequest \<Rightarrow> bool" where
  "plain_request rq \<longleftrightarrow> cr_response_handler rq = None \<and> cr_content_receiver rq = None \<and> cr_progress rq = None"

lemma response_out_image:
  "receiver_image app (response_out None redirect) (\<lambda>body. (body, err, u))"
  "receiver_image app (then_progress (response_out None redirect) (response_progress None redirect)) (\<lambda>body. (body, err, u))"
  by (simp_all add: receiver_image_def app_def response_out_def then_progress_def response_progress_def)

lemma read_response_content_framed:
  assumes "framed h body wire closes" and "strm_ok s" and "avail s = wire @ rest" and "closes \<longrightarrow> rest = [] \<and> in_closed s"
    and "decompress \<longrightarrow> \<not> unsupported_encoding h"
  shows "\<exists>q. read_response_content decompress (response_out None redirect) (response_progress None redirect) h ([], err, u) s
      = (True, h, (body, err, u), s\<lparr>inq := q\<rparr>) \<and> concat q = rest \<and> [] \<notin> set q"
proof -
  obtain status q where q: "read_content (2 ^ 64 - 1) 0 app decompress h [] s = (True, status, h, body, s\<lparr>inq := q\<rparr>)"
    "concat q = rest" "[] \<notin> set q"
    using read_framed [OF assms, of "[]"] by auto
  note images = response_out_image [of redirect err u, THEN image_content, of "2 ^ 64 - 1" 0 decompress h "[]" s, unfolded q(1)]
  then have "read_response_content decompress (response_out None redirect) (response_progress None redirect) h ([], err, u) s
      = (True, h, (body, err, u), s\<lparr>inq := q\<rparr>)"
    by (simp add: read_response_content_def)
  with q(2,3) show ?thesis by blast
qed

lemma new_ClientResponse_fields [simp]:
  "rs_headers new_ClientResponse = []" "rs_body new_ClientResponse = []" "rs_location new_ClientResponse = []"
  by (simp_all add: new_ClientResponse_def new_Response_def Response.defs)

text \<open>The response that a text makes of a new one.\<close>

definition response_of :: "int \<Rightarrow> Headers \<Rightarrow> string \<Rightarrow> ClientResponse" where
  "response_of st h body = new_ClientResponse
     \<lparr>rs_version := ''HTTP/1.1'', rs_status := st, rs_reason := status_message st, rs_headers := rev h, rs_body := body\<rparr>"

lemma read_response_framed:
  assumes "strm_ok s" and "avail s = interim k @ response_line st @ header_text h @ wire @ rest"
    and "100 < st" and "st < 1000" and "st \<noteq> 204" and "st \<noteq> 304" and "sendable h"
    and "framed (rev h) body wire closes" and "closes \<longrightarrow> rest = [] \<and> in_closed s"
    and "cl_decompress cli \<longrightarrow> \<not> unsupported_encoding (rev h)"
    and "plain_request (x_req x)" and "rq_method (x_req x) \<notin> {''HEAD'', ''CONNECT''}" and "x_res x = new_ClientResponse"
  shows "\<exists>s'. read_response cli s x = (True, s', x\<lparr>x_res := response_of st h body\<rparr>) \<and> avail s' = rest \<and> outbuf s' = outbuf s"
proof -
  let ?rs = "new_ClientResponse\<lparr>rs_version := ''HTTP/1.1'', rs_status := st, rs_reason := status_message st\<rparr>"
  obtain q1 where 1: "read_response_line (rq_method (x_req x)) s (x_res x) = (True, s\<lparr>inq := q1\<rparr>, ?rs)"
    "concat q1 = header_text h @ wire @ rest" "[] \<notin> set q1"
    using read_response_line_text [OF assms(1,2), of "rq_method (x_req x)" "x_res x"] assms(3,4,13) by auto
  obtain q2 where 2: "read_headers (s\<lparr>inq := q1\<rparr>) [] = (True, rev h, s\<lparr>inq := q2\<rparr>)" "concat q2 = wire @ rest" "[] \<notin> set q2"
    using read_headers_loop_lines [of "s\<lparr>inq := q1\<rparr>" h "wire @ rest" "new_line_reader 2048" "[]"] 1(2,3) assms(7)
    by (auto simp: read_headers_def header_text_def sendable_def avail_def)
  let ?x = "x\<lparr>x_res := ?rs\<lparr>rs_headers := rev h\<rparr>\<rparr>"
  obtain q3 where 3: "read_response_content (cl_decompress cli) (response_out None (is_redirect cli (?rs\<lparr>rs_headers := rev h\<rparr>)))
        (response_progress None (is_redirect cli (?rs\<lparr>rs_headers := rev h\<rparr>))) (rev h) ([], x_err x, x_user x) (s\<lparr>inq := q2\<rparr>)
      = (True, rev h, (body, x_err x, x_user x), s\<lparr>inq := q3\<rparr>)" "concat q3 = rest"
    using read_response_content_framed [OF assms(8), of "s\<lparr>inq := q2\<rparr>" rest "cl_decompress cli" _ "x_err x" "x_user x"] 2(2,3) assms(9,10)
    by (auto simp: avail_def)
  have long: "\<not> body_too_long ?x"
    using assms(8) content_length_value [of "rev h" "length body" 0] by cases (auto simp: body_too_long_def)
  have "read_response cli s x = read_response_body cli (s\<lparr>inq := q2\<rparr>) ?x"
    using assms(5,12) by (simp add: read_response_def 1(1) 2(1))
  also have "\<dots> = (True, s\<lparr>inq := q3\<rparr>, x\<lparr>x_res := response_of st h body\<rparr>)"
    using assms(6,11) long 3(1)
    by (cases x) (simp add: read_response_body_def call_response_handler_def plain_request_def response_of_def Let_def)
  finally show ?thesis using 3(2) by (auto simp: avail_def)
qed

section \<open>A request\<close>

definition plain_writer :: "ClientImpl \<Rightarrow> bool" where
  "plain_writer cli \<longleftrightarrow> cl_header_writer cli = cl_header_writer (new_ClientImpl [] 80)"

lemma collect_head_plain:
  assumes "plain_writer cli"
  shows "collect_head cli rq = (rq_headers rq, request_text (rq_method rq) (request_target cli rq) (rq_headers rq))"
proof -
  have w: "cl_header_writer cli = (\<lambda>s h. case write_headers h s of (n, s) \<Rightarrow> (n, h, s))"
    using assms by (simp add: plain_writer_def new_ClientImpl_def new_ClientImpl_with_cert_def Let_def)
  show ?thesis
    by (simp add: collect_head_def w write_request_line_def strm_write_def new_BufferStream_def write_headers_def
        write_header_lines_buffer request_text_def request_line_def header_text_def)
qed

text \<open>No provider: the content is the body.\<close>

definition body_only :: "('u, 'p) ClientRequest \<Rightarrow> bool" where
  "body_only rq \<longleftrightarrow> cr_content_provider rq = None \<and> cr_content_length rq = 0 \<and> \<not> cr_is_chunked rq"

lemma header_changes [simp]:
  "cr_content_provider (cl_set_header k v rq) = cr_content_provider rq" "cr_content_length (cl_set_header k v rq) = cr_content_length rq"
  "cr_is_chunked (cl_set_header k v rq) = cr_is_chunked rq" "rq_body (cl_set_header k v rq) = rq_body rq"
  "rq_method (cl_set_header k v rq) = rq_method rq" "rq_path (cl_set_header k v rq) = rq_path rq"
  "rq_params (cl_set_header k v rq) = rq_params rq" "cr_content_receiver (cl_set_header k v rq) = cr_content_receiver rq"
  "cr_response_handler (cl_set_header k v rq) = cr_response_handler rq" "cr_progress (cl_set_header k v rq) = cr_progress rq"
  "cr_redirect_count (cl_set_header k v rq) = cr_redirect_count rq"
  by (simp_all add: cl_set_header_def)

text \<open>The preparation of a request changes its header only.\<close>

definition same_but_headers :: "('u, 'p) ClientRequest \<Rightarrow> ('u, 'p) ClientRequest \<Rightarrow> bool" where
  "same_but_headers rq rq' \<longleftrightarrow> (\<exists>h. rq' = rq\<lparr>rq_headers := h\<rparr>)"

lemma same_refl [simp]: "same_but_headers rq rq"
  unfolding same_but_headers_def by (rule exI [of _ "rq_headers rq"]) simp

lemma same_trans: "same_but_headers a b \<Longrightarrow> same_but_headers b c \<Longrightarrow> same_but_headers a c"
  by (auto simp: same_but_headers_def)

lemma same_set: "same_but_headers a b \<Longrightarrow> same_but_headers a (cl_set_header k v b)"
  by (auto simp: same_but_headers_def cl_set_header_def)

lemma same_unless: "same_but_headers a b \<Longrightarrow> same_but_headers a (unless_header k v b)"
  by (auto simp: same_but_headers_def unless_header_def cl_set_header_def)

lemma same_insert: "same_but_headers a b \<Longrightarrow> same_but_headers a (insert_unless_header kv b)"
  by (auto simp: same_but_headers_def insert_unless_header_def)

lemmas same_intros = same_set same_unless same_insert

lemma prepare_headers_same: "same_but_headers rq (prepare_headers cli close_connection rq)"
proof -
  have "same_but_headers rq (connection_headers cli close_connection rq)" for rq :: "('u, 'p) ClientRequest"
    by (simp add: connection_headers_def Let_def same_intros)
  moreover have "same_but_headers rq (content_headers rq)" for rq :: "('u, 'p) ClientRequest"
    by (simp add: content_headers_def same_intros)
  moreover have "same_but_headers rq (authentication_headers cli rq)" for rq :: "('u, 'p) ClientRequest"
    by (simp add: authentication_headers_def Let_def same_intros)
  ultimately show ?thesis unfolding prepare_headers_def using same_trans by blast
qed

lemma prepared_fields:
  "rq' = prepare_headers cli close_connection rq \<Longrightarrow> rq_method rq' = rq_method rq
    \<and> cr_content_provider rq' = cr_content_provider rq \<and> cr_content_length rq' = cr_content_length rq
    \<and> cr_is_chunked rq' = cr_is_chunked rq \<and> cr_content_receiver rq' = cr_content_receiver rq
    \<and> cr_response_handler rq' = cr_response_handler rq \<and> cr_progress rq' = cr_progress rq
    \<and> rq_body rq' = rq_body rq \<and> cr_redirect_count rq' = cr_redirect_count rq \<and> request_target c rq' = request_target c rq"
  using prepare_headers_same [of rq cli close_connection] by (auto simp: same_but_headers_def request_target_def)

lemma write_body_plain:
  assumes "body_only (x_req y)" and "wr_plan w = []"
  shows "write_request_body ready w y
    = Some (Inr True, w\<lparr>outbuf := outbuf w @ rq_body (x_req y)\<rparr>, y\<lparr>x_err := (if rq_body (x_req y) = [] then Error_Success else x_err y)\<rparr>)"
proof (cases "rq_body (x_req y) = []")
  case True
  have "Client_write_content_with_provider ready (x_req y) w = Some (Inr Error_Success, None, w)"
    using assms(1) by (simp add: Client_write_content_with_provider_def body_only_def client_content_loop.simps)
  moreover have "(x_req y)\<lparr>cr_content_provider := None\<rparr> = x_req y" using assms(1) by (cases "x_req y") (simp add: body_only_def)
  ultimately show ?thesis using True by (simp add: write_request_body_def)
qed (use assms in \<open>simp add: write_request_body_def\<close>)

lemma write_request_plain:
  assumes "plain_writer cli" and "body_only (x_req x)" and "wr_plan s = []" and "rq = prepare_headers cli close_connection (x_req x)"
  shows "Client_write_request cli ready close_connection s x
    = Some (Inr True,
        s\<lparr>outbuf := outbuf s @ request_text (rq_method rq) (request_target cli rq) (rq_headers rq) @ rq_body rq\<rparr>,
        x\<lparr>x_req := rq, x_err := (if rq_body rq = [] then Error_Success else x_err x)\<rparr>)"
proof -
  have b: "body_only (x_req (x\<lparr>x_req := rq\<rparr>))"
    using assms(2) prepared_fields [OF assms(4)] by (simp add: body_only_def)
  let ?w = "s\<lparr>outbuf := outbuf s @ request_text (rq_method rq) (request_target cli rq) (rq_headers rq)\<rparr>"
  have "Client_write_request cli ready close_connection s x = write_request_body ready ?w (x\<lparr>x_req := rq\<rparr>)"
    using assms(3) unfolding Client_write_request_def assms(4) [symmetric] collect_head_plain [OF assms(1)] Let_def by simp
  then show ?thesis using write_body_plain [OF b, of ?w ready] assms(3) by simp
qed

text \<open>C29: One exchange of the client: on a connection that takes what is written, a request without a provider goes out as its request
  line, the prepared header and the body. The response that comes in is read correctly in whatever segments it arrives and however its
  content is framed (by a length, in chunks, or by the close of the connection): any number of interim responses is skipped, status, reason and
  header fields are taken over, exactly the content becomes the body, and what follows the response is left on the connection.\<close>

theorem client_exchange:
  assumes "plain_writer cli" and "body_only (x_req x)" and "wr_plan s = []" and "rq = prepare_headers cli close_connection (x_req x)"
    and "strm_ok s" and "avail s = interim k @ response_line st @ header_text h @ wire @ rest"
    and "100 < st" and "st < 1000" and "st \<noteq> 204" and "st \<noteq> 304" and "sendable h"
    and "framed (rev h) body wire closes" and "closes \<longrightarrow> rest = [] \<and> in_closed s"
    and "cl_decompress cli \<longrightarrow> \<not> unsupported_encoding (rev h)"
    and "plain_request (x_req x)" and "rq_method (x_req x) \<notin> {''HEAD'', ''CONNECT''}" and "x_res x = new_ClientResponse"
  shows "\<exists>s'. Client_process_request cli ready close_connection s x = Some (Inr True, s',
        x\<lparr>x_req := rq, x_err := (if rq_body rq = [] then Error_Success else x_err x), x_res := response_of st h body\<rparr>)
    \<and> outbuf s' = outbuf s @ request_text (rq_method rq) (request_target cli rq) (rq_headers rq) @ rq_body rq
    \<and> avail s' = rest"
proof -
  let ?s = "s\<lparr>outbuf := outbuf s @ request_text (rq_method rq) (request_target cli rq) (rq_headers rq) @ rq_body rq\<rparr>"
  let ?x = "x\<lparr>x_req := rq, x_err := (if rq_body rq = [] then Error_Success else x_err x)\<rparr>"
  have f: "plain_request (x_req ?x)" "rq_method (x_req ?x) \<notin> {''HEAD'', ''CONNECT''}" "x_res ?x = new_ClientResponse"
    using assms(15-17) prepared_fields [OF assms(4)] by (simp_all add: plain_request_def)
  obtain s' where "read_response cli ?s ?x = (True, s', ?x\<lparr>x_res := response_of st h body\<rparr>)" "avail s' = rest" "outbuf s' = outbuf ?s"
    using read_response_framed [of ?s k st h wire rest body closes cli ?x] assms(5-14) f by (auto simp: strm_ok_def)
  then show ?thesis
    by (simp add: Client_process_request_def write_request_plain [OF assms(1-4)])
qed

definition demo_client :: ClientImpl where
  "demo_client = new_ClientImpl ''h'' 80"

definition demo_exchange :: "(unit, unit) ClientRequest \<Rightarrow> (unit, unit) exchange" where
  "demo_exchange rq = \<lparr>x_req = rq, x_res = new_ClientResponse, x_err = Error_Success, x_user = ()\<rparr>"

theorem client_exchange_witness:
  "\<exists>s' x. Client_process_request demo_client (\<lambda>_. True) True
         (demo_in [response_line 100 @ [CHR 0x0D], [CHR 0x0A] @ response_line 200, ''Transfer-Encoding: chunked'' @ crlf @ crlf @ ''2'',
            crlf @ ''a'', ''b'' @ crlf @ ''0'' @ crlf, crlf @ ''more''])
         (demo_exchange (new_ClientRequest\<lparr>rq_method := ''GET'', rq_path := ''/a b''\<rparr>)) = Some (Inr True, s', x)
     \<and> rs_status (x_res x) = 200 \<and> rs_body (x_res x) = ''ab'' \<and> avail s' = ''more''
     \<and> take 16 (outbuf s') = ''GET /a%20b HTTP/''"
proof -
  let ?s = "demo_in [response_line 100 @ [CHR 0x0D], [CHR 0x0A] @ response_line 200, ''Transfer-Encoding: chunked'' @ crlf @ crlf @ ''2'',
            crlf @ ''a'', ''b'' @ crlf @ ''0'' @ crlf, crlf @ ''more'']"
  let ?rq = "new_ClientRequest\<lparr>rq_method := ''GET'', rq_path := ''/a b''\<rparr> :: (unit, unit) ClientRequest"
  let ?h = "[(''Transfer-Encoding'', ''chunked'')]"
  have hex: "from_i_to_hex (Suc (Suc 0)) = ''2''" by code_simp
  have a: "avail ?s = interim 1 @ response_line 200 @ header_text ?h @ (concat (map chunk_text [''ab'']) @ ''0'' @ crlf @ crlf) @ ''more''"
    by (simp add: avail_def demo_in_def interim_def header_text_def header_line_def chunk_text_def hex crlf_def)
  have f: "is_chunked_transfer_encoding (rev ?h)" "\<not> has_header (rev ?h) ''Content-Length''" "\<not> unsupported_encoding (rev ?h)" "sendable ?h"
    by code_simp+
  have fr: "framed (rev ?h) (concat [''ab'']) (concat (map chunk_text [''ab'']) @ ''0'' @ crlf @ crlf) False"
    by (rule by_chunks [OF f(1,2)]) simp
  have rq: "body_only (x_req (demo_exchange ?rq))" "plain_request (x_req (demo_exchange ?rq))" "rq_method (x_req (demo_exchange ?rq)) = ''GET''"
    "x_res (demo_exchange ?rq) = new_ClientResponse" "rq_body (x_req (demo_exchange ?rq)) = []" "rq_path (x_req (demo_exchange ?rq)) = ''/a b''"
    "rq_params (x_req (demo_exchange ?rq)) = []"
    by (simp_all add: demo_exchange_def body_only_def plain_request_def new_ClientRequest_def new_Request_def Request.defs)
  have w: "plain_writer demo_client" "cl_url_encode demo_client"
    by (simp_all add: demo_client_def plain_writer_def new_ClientImpl_def new_ClientImpl_with_cert_def Let_def)
  have s: "strm_ok ?s" by (simp add: strm_ok_def demo_in_def crlf_def response_line_def)
  obtain s' where s': "Client_process_request demo_client (\<lambda>_. True) True ?s (demo_exchange ?rq) = Some (Inr True, s',
      (demo_exchange ?rq)\<lparr>x_req := prepare_headers demo_client True ?rq, x_err := Error_Success, x_res := response_of 200 ?h ''ab''\<rparr>)"
    "outbuf s' = request_text ''GET'' (request_target demo_client (prepare_headers demo_client True ?rq)) (rq_headers (prepare_headers demo_client True ?rq))"
    "avail s' = ''more''"
    using client_exchange [where x = "demo_exchange ?rq" and close_connection = True and ready = "\<lambda>_. True",
        OF w(1) rq(1) demo_plain(3) refl s a _ _ _ _ f(4) fr _ _ rq(2)] rq(3-5) f(3)
      prepared_fields [OF refl, where rq = ?rq and cli = demo_client and close_connection = True]
    by (auto simp: demo_exchange_def demo_plain(4))
  have "request_target demo_client (prepare_headers demo_client True ?rq) = encode_url ''/a b''"
    using rq(6,7) prepared_fields [OF refl, where rq = ?rq and cli = demo_client and close_connection = True and c = demo_client]
    by (simp add: request_target_def demo_exchange_def w(2))
  moreover have "encode_url ''/a b'' = ''/a%20b''" by code_simp
  ultimately show ?thesis using s' by (intro exI) (auto simp: response_of_def request_text_def request_line_def)
qed

end
