(* ===== verification/Httplib_Exchange.thy ===== *)
theory Httplib_Exchange
  imports Httplib_Client_Wire Backend_Server
begin

text \<open>
  The two ends of the HTTP library together: the client of \<^theory_text>\<open>Httplib_Client\<close> sends a GET request to the server that the test backend
  sets up (\<^theory_text>\<open>Backend_Server\<close>), and reads its response. Shown: the client returns what the backend's route table names for the path it was
  called with, however the bytes are cut into segments in either direction.
\<close>

section \<open>What the client sends\<close>

text \<open>A client with its default settings, but for the host and keep-alive.\<close>

definition default_client :: "ClientImpl \<Rightarrow> bool" where
  "default_client cli \<longleftrightarrow> plain_writer cli \<and> cl_url_encode cli \<and> cl_decompress cli
     \<and> cl_basic_auth_username cli = [] \<and> cl_basic_auth_password cli = [] \<and> cl_bearer_token cli = []
     \<and> cl_proxy_username cli = [] \<and> cl_proxy_bearer_token cli = []"

definition host_field :: "ClientImpl \<Rightarrow> string" where
  "host_field cli = (if cl_port cli = 80 then cl_host cli else cl_host_and_port cli)"

text \<open>The header of a GET request without fields of its own.\<close>

definition default_fields :: "ClientImpl \<Rightarrow> bool \<Rightarrow> Headers" where
  "default_fields cli close_connection =
     [(''User-Agent'', ''cpp-httplib/0.20.0''), (''Accept-Encoding'', ''''), (''Accept'', ''*/*''), (''Host'', host_field cli)]
     @ (if close_connection then [(''Connection'', ''close'')] else [])"

lemma default_names:
  "\<not> ci_equal ''Connection'' ''Host''" "\<not> ci_equal ''Connection'' ''Accept''" "\<not> ci_equal ''Connection'' ''Accept-Encoding''"
  "\<not> ci_equal ''Connection'' ''User-Agent''" "\<not> ci_equal ''Host'' ''Accept''" "\<not> ci_equal ''Host'' ''Accept-Encoding''"
  "\<not> ci_equal ''Host'' ''User-Agent''" "\<not> ci_equal ''Accept'' ''Accept-Encoding''" "\<not> ci_equal ''Accept'' ''User-Agent''"
  "\<not> ci_equal ''Accept-Encoding'' ''User-Agent''"
  by code_simp+

lemma default_values:
  "is_field_name ''Connection''" "is_field_value ''close''" "is_field_name ''Host''" "is_field_name ''Accept''" "is_field_value ''*/*''"
  "is_field_name ''Accept-Encoding''" "is_field_value ''''" "is_field_name ''User-Agent''" "is_field_value ''cpp-httplib/0.20.0''"
  by code_simp+

definition get_request :: "string \<Rightarrow> ('u, 'p) ClientRequest" where
  "get_request path = new_ClientRequest\<lparr>rq_method := ''GET'', rq_path := path\<rparr>"

lemma get_request_fields [simp]:
  "rq_method (get_request path) = ''GET''" "rq_path (get_request path) = path" "rq_params (get_request path) = []"
  "rq_headers (get_request path) = []" "rq_body (get_request path) = []" "plain_request (get_request path)" "body_only (get_request path)"
  "cr_content_receiver (get_request path) = None" "cr_content_provider (get_request path) = None"
  by (simp_all add: get_request_def new_ClientRequest_def new_Request_def Request.defs plain_request_def body_only_def)

lemma unless_header_added:
  "headers_range (rq_headers rq) k = [] \<Longrightarrow> is_field_name k \<Longrightarrow> is_field_value v
    \<Longrightarrow> unless_header k v rq = rq\<lparr>rq_headers := (k, v) # rq_headers rq\<rparr>"
  by (simp add: unless_header_def has_header_def cl_set_header_def set_header_in_def headers_emplace_def)

lemma range_Cons: "headers_range ((k, v) # h) key = (if ci_equal k key then v # headers_range h key else headers_range h key)"
  by (simp add: headers_range_def)

lemma prepared_get:
  assumes "default_client cli" and "is_field_value (host_field cli)"
  shows "prepare_headers cli close_connection (get_request path) = (get_request path)\<lparr>rq_headers := default_fields cli close_connection\<rparr>"
proof -
  have nil: "headers_range [] k = []" for k by (simp add: headers_range_def)
  have c: "connection_headers cli close_connection (get_request path) = (get_request path)\<lparr>rq_headers := default_fields cli close_connection\<rparr>"
    using assms(2)
    by (cases close_connection)
      (simp_all add: connection_headers_def Let_def unless_header_added range_Cons nil default_names default_values default_fields_def host_field_def)
  show ?thesis
    using assms(1) unfolding prepare_headers_def c
    by (simp add: content_headers_def authentication_headers_def default_client_def)
qed

lemma default_fields_ordinary: "ordinary (default_fields cli close_connection)"
proof -
  have "list_all (\<lambda>k. list_all (\<lambda>n. \<not> ci_equal n k) [''User-Agent'', ''Accept-Encoding'', ''Accept'', ''Host'', ''Connection''])
      [''Range'', ''Expect'', ''Content-Length'', ''Transfer-Encoding'']"
    by code_simp
  then show ?thesis by (simp add: ordinary_def default_fields_def headers_range_def)
qed

text \<open>A host that may stand in a header field, and a path of characters that are sent as they are or encoded.\<close>

definition host_ok :: "ClientImpl \<Rightarrow> bool" where
  "host_ok cli \<longleftrightarrow> is_field_value (host_field cli) \<and> CHR ''%'' \<notin> set (host_field cli) \<and> length (host_field cli) \<le> 8000"

definition path_char :: "char \<Rightarrow> bool" where
  "path_char c \<longleftrightarrow> 32 \<le> code c \<and> code c \<noteq> 127 \<and> c \<noteq> CHR ''%'' \<and> c \<noteq> CHR ''?'' \<and> c \<noteq> CHR ''#''"

definition path_ok :: "string \<Rightarrow> bool" where
  "path_ok p \<longleftrightarrow> p \<noteq> [] \<and> (\<forall>c \<in> set p. path_char c) \<and> 3 * length p \<le> 8192"

lemma default_fields_sendable:
  assumes "host_ok cli"
  shows "sendable (default_fields cli close_connection)"
proof -
  have "sendable [(''User-Agent'', ''cpp-httplib/0.20.0''), (''Accept-Encoding'', ''''), (''Accept'', ''*/*''), (''Connection'', ''close'')]"
    by code_simp
  moreover have "sendable [(''Host'', host_field cli)]"
    using assms default_values(3) by (simp add: sendable_def header_clean_def header_line_def host_ok_def crlf_def)
  ultimately show ?thesis by (auto simp: sendable_def default_fields_def)
qed

lemma encoded_char:
  assumes "path_char c"
  shows "(\<forall>x \<in> set (encode_url_char c). is_vchar x \<and> x \<noteq> CHR ''?'' \<and> x \<noteq> CHR ''#'') \<and> encode_url_char c \<noteq> [] \<and> length (encode_url_char c) \<le> 3"
proof -
  have h: "is_vchar (hex_upper n) \<and> hex_upper n \<noteq> CHR ''?'' \<and> hex_upper n \<noteq> CHR ''#''" if "n < 16" for n
  proof -
    have "list_all (\<lambda>n. is_vchar (hex_upper n) \<and> hex_upper n \<noteq> CHR ''?'' \<and> hex_upper n \<noteq> CHR ''#'') [0..<16]" by code_simp
    then show ?thesis using that by (simp add: list_all_iff)
  qed
  have k: "code c div 16 < 16" "code c mod 16 < 16" using code_less [of c] by (simp_all add: less_mult_imp_div_less)
  have lits: "list_all (list_all (\<lambda>x. is_vchar x \<and> x \<noteq> CHR ''?'' \<and> x \<noteq> CHR ''#'')) [''%20'', ''%2B'', ''%0D'', ''%0A'', ''%27'', ''%2C'', ''%3B'', ''%'']"
    by code_simp
  show ?thesis
  proof (cases "code c \<ge> 128")
    case True
    then show ?thesis using lits h [OF k(1)] h [OF k(2)]
      by (auto simp: encode_url_char_def percent_byte_def)
  next
    case False
    have "c \<noteq> CHR '' '' \<Longrightarrow> is_vchar c"
    proof -
      have "code c = 32 \<Longrightarrow> c = char_of (32 :: nat)" by (metis char_of_char code_def)
      moreover have "char_of (32 :: nat) = CHR '' ''" by code_simp
      moreover assume "c \<noteq> CHR '' ''"
      ultimately have "code c \<noteq> 32" by metis
      then show ?thesis using assms False by (simp add: is_vchar_def path_char_def)
    qed
    then show ?thesis using False lits assms by (auto simp: encode_url_char_def path_char_def)
  qed
qed

lemma encoded_path:
  assumes "path_ok p"
  shows "target_ok (encode_url p)" "length (encode_url p) \<le> 8192" "rq_path (line_request ''GET'' (encode_url p)) = p" "one_line p"
proof -
  have "\<not> path_char (CHR 0x00)" "\<not> path_char (CHR ''%'')" "\<not> path_char (CHR 0x0A)" "\<not> path_char (CHR 0x0D)" by code_simp+
  then have nul: "CHR 0x00 \<notin> set p" "CHR ''%'' \<notin> set p" "CHR 0x0A \<notin> set p" "CHR 0x0D \<notin> set p"
    using assms unfolding path_ok_def by blast+
  then have e: "encode_url p = concat (map encode_url_char p)" by (simp add: encode_url_def c_str_no_nul)
  have x: "is_vchar x \<and> x \<noteq> CHR ''?'' \<and> x \<noteq> CHR ''#''" if "x \<in> set (encode_url p)" for x
  proof -
    obtain c where "c \<in> set p" "x \<in> set (encode_url_char c)" using \<open>x \<in> set (encode_url p)\<close> by (auto simp: e)
    then show ?thesis using assms encoded_char [of c] by (simp add: path_ok_def)
  qed
  have "length (concat (map encode_url_char q)) \<le> 3 * length q" if "\<forall>c \<in> set q. path_char c" for q
    using that
  proof (induction q)
    case (Cons c q)
    then show ?case using encoded_char [of c] by simp
  qed simp
  then have len: "length (encode_url p) \<le> 3 * length p" using assms by (simp add: e path_ok_def)
  then show l: "length (encode_url p) \<le> 8192" using assms by (simp add: path_ok_def)
  have "concat (map encode_url_char p) \<noteq> []" using assms encoded_char [of "hd p"] by (cases p) (simp_all add: path_ok_def)
  then have "encode_url p \<noteq> []" by (simp only: e not_False_eq_True)
  then show "target_ok (encode_url p)" using x l by (simp add: target_ok_def)
  have t: "takeWhile (\<lambda>c. c \<noteq> CHR ''#'') (encode_url p) = encode_url p" using x by (simp add: takeWhile_eq_all_conv)
  have "CHR ''?'' \<notin> set (encode_url p)" using x by blast
  then have "fst (divide_at (CHR ''?'') (encode_url p)) = encode_url p"
    by (simp add: divide_at_def find_char_None_iff [THEN iffD2])
  then show "rq_path (line_request ''GET'' (encode_url p)) = p"
    using decode_encode_url [OF nul(2), of False] nul(1) by (simp add: line_request_def Let_def t c_str_no_nul)
  show "one_line p" using nul(3,4) by (simp add: one_line_def)
qed

section \<open>What the backend answers\<close>

lemma no_field: "(\<And>kv. kv \<in> set h \<Longrightarrow> \<not> ci_equal (fst kv) key) \<Longrightarrow> headers_range h key = []"
  by (auto simp: headers_range_def filter_empty_conv)

lemma range_rev: "headers_range (rev h) key = rev (headers_range h key)"
  by (simp add: headers_range_def rev_filter rev_map)

lemma number_plain: "CHR ''%'' \<notin> set (string_of_nat n)"
proof -
  have "\<not> c_isdigit (CHR ''%'')" by code_simp
  then show ?thesis using string_of_nat_digits by blast
qed

text \<open>The fields of an answer are sent and framed as the client expects them.\<close>

lemma usual_headers_sendable:
  assumes "n \<le> string_max_size"
  shows "sendable (usual_headers new_Server n)"
proof -
  have s: "sendable [(''Connection'', ''close''), (''Keep-Alive'', ''timeout=5, max=100''), (''Content-Type'', ''text/plain'')]"
    by code_simp
  have k: "string_of_int 5 = ''5''" "string_of_nat 100 = ''100''" by code_simp+
  have "n < 10 ^ Suc 18" using assms by (simp add: string_max_size_def)
  from string_of_nat_length_le [OF this] have "length (header_line (''Content-Length'', string_of_nat n)) \<le> 8192"
    by (simp add: header_line_def crlf_def)
  then have "sendable [(''Content-Length'', string_of_nat n)]"
    using number_plain names_differ(7) by (simp add: sendable_def header_clean_def)
  with s k show ?thesis by (simp add: sendable_def usual_headers_def new_Server_def)
qed

lemma answer_fields:
  assumes "set h \<subseteq> insert (''Content-Type'', ct) (set (usual_headers new_Server n))" and "n \<le> string_max_size"
    and "headers_range h ''Content-Length'' = [string_of_nat n]" and "ct \<in> {''text/plain'', ''application/json'', v1_type, v2_type}"
    and "n = length body"
  shows "sendable h" "framed (rev h) body body False" "\<not> unsupported_encoding (rev h)"
proof -
  have "list_all (\<lambda>ct. sendable [(''Content-Type'', ct)]) [''text/plain'', ''application/json'', v1_type, v2_type]" by code_simp
  then have "sendable [(''Content-Type'', ct)]" using assms(4) by auto
  with usual_headers_sendable [OF assms(2)] assms(1) show "sendable h" by (auto simp: sendable_def)
  have n: "fst kv \<in> {''Connection'', ''Keep-Alive'', ''Content-Type'', ''Content-Length''}" if "kv \<in> set h" for kv
    using that assms(1) by (auto simp: usual_headers_def)
  have "list_all (\<lambda>k. \<not> ci_equal k ''Transfer-Encoding'' \<and> \<not> ci_equal k ''Content-Encoding'')
      [''Connection'', ''Keep-Alive'', ''Content-Type'', ''Content-Length'']"
    by code_simp
  then have "\<not> ci_equal (fst kv) ''Transfer-Encoding'' \<and> \<not> ci_equal (fst kv) ''Content-Encoding''" if "kv \<in> set h" for kv
    using n [OF that] by auto
  then have "headers_range h ''Transfer-Encoding'' = []" "headers_range h ''Content-Encoding'' = []"
    by (simp_all add: no_field)
  moreover have "\<not> ci_equal '''' ''chunked''" "find_str ''br'' '''' = None" by code_simp+
  ultimately have "\<not> is_chunked_transfer_encoding (rev h)" and u: "\<not> unsupported_encoding (rev h)"
    by (simp_all add: is_chunked_transfer_encoding_def unsupported_encoding_def get_header_value_def range_rev range_nth_def)
  moreover have "headers_range (rev h) ''Content-Length'' = [string_of_nat (length body)]" using assms(3,5) by (simp add: range_rev)
  ultimately show "framed (rev h) body body False" using assms(2,5) by (auto intro: by_length)
  show "\<not> unsupported_encoding (rev h)" by (rule u)
qed

lemma api_answer:
  assumes "api_get cfg path = (st, ct, body)"
  shows "st = 200 \<or> st = 404" "ct \<in> {''text/plain'', ''application/json'', v1_type, v2_type}"
  using assms by (auto simp: api_get_def company_handler_def split: option.splits if_splits)

section \<open>The exchange\<close>

text \<open>The client's side: the request is written, and an answer with the fields of the test backend's server is read.\<close>

lemma client_reads_answer:
  assumes "default_client cli" and "host_ok cli" and "x_req x = get_request p" and "x_res x = new_ClientResponse"
    and "api_get cfg p = (st, ct, body)" and "length body \<le> string_max_size"
    and h: "headers_range h ''Content-Length'' = [string_of_nat (length body)]" "headers_range h ''Content-Type'' = [ct]"
      "set h \<subseteq> insert (''Content-Type'', ct) (set (usual_headers new_Server (length body)))"
    and s: "strm_ok s" "wr_plan s = []" "avail s = (response_line (int st) @ header_text h @ body) @ later"
  shows "\<exists>s' x'. Client_process_request cli ready close_connection s x = Some (Inr True, s', x')
    \<and> outbuf s' = outbuf s @ request_text ''GET'' (encode_url p) (default_fields cli close_connection) \<and> avail s' = later
    \<and> rs_status (x_res x') = int st \<and> rs_body (x_res x') = body \<and> headers_range (rs_headers (x_res x')) ''Content-Type'' = [ct]"
proof -
  let ?rq = "prepare_headers cli close_connection (x_req x)"
  let ?h = "default_fields cli close_connection"
  have prep: "?rq = (get_request p)\<lparr>rq_headers := ?h\<rparr>"
    using prepared_get [OF assms(1)] assms(2) by (simp add: assms(3) host_ok_def)
  have plain: "plain_writer cli" "cl_url_encode cli" using assms(1) by (simp_all add: default_client_def)
  have target: "request_target cli ((get_request p)\<lparr>rq_headers := ?h\<rparr>) = encode_url p" by (simp add: request_target_def plain(2))
  have same: "plain_request ((get_request p)\<lparr>rq_headers := ?h\<rparr>)"
    by (simp add: plain_request_def get_request_def new_ClientRequest_def Request.defs)
  note fields = answer_fields [OF h(3) assms(6) h(1) api_answer(2) [OF assms(5)] refl]
  have a: "avail s = interim 0 @ response_line (int st) @ header_text h @ body @ later" using s(3) by (simp add: interim_def)
  let ?s = "s\<lparr>outbuf := outbuf s @ request_text ''GET'' (encode_url p) ?h\<rparr>"
  let ?x = "x\<lparr>x_req := ?rq, x_err := Error_Success\<rparr>"
  have w: "Client_write_request cli ready close_connection s x = Some (Inr True, ?s, ?x)"
    using write_request_plain [OF plain(1) _ s(2) refl, of x ready close_connection, unfolded prep]
    by (simp add: assms(3) target prep [unfolded assms(3)])
  obtain s' where "read_response cli ?s ?x = (True, s', ?x\<lparr>x_res := response_of (int st) h body\<rparr>)" "avail s' = later" "outbuf s' = outbuf ?s"
    using read_response_framed [of ?s 0 "int st" h body later body False cli ?x] s(1) a fields api_answer(1) [OF assms(5)] assms(4)
    by (auto simp: strm_ok_def prep same)
  then show ?thesis
    using h(2) by (simp add: Client_process_request_def w response_of_def range_rev)
qed

text \<open>C27: The client and the test backend understand each other. For every path of characters that may be sent (percent sign,
  question mark and number sign apart), the request that the client writes is answered by the backend, and from those bytes, in whatever segments
  they travel in either direction, the client returns success with the status, the content type and the body that the backend's route
  table names for exactly that path. Neither end reads beyond its message.\<close>

theorem client_gets_from_backend:
  assumes "api_regex re" and "api_server re cfg = Inr svr" and "default_client cli" and "host_ok cli" and "path_ok p"
    and "api_get cfg p = (st, ct, body)" and "length body \<le> string_max_size" and "x_req x = get_request p" and "x_res x = new_ClientResponse"
  shows "\<exists>q. \<forall>t rest. strm_ok t \<and> wr_plan t = [] \<and> avail t = q @ rest \<longrightarrow>
    (\<exists>c t' r. process_request env re svr ep close closed None t = Some (Inr (True, c, t')) \<and> avail t' = rest \<and> outbuf t' = outbuf t @ r
      \<and> (\<forall>s more. strm_ok s \<and> wr_plan s = [] \<and> avail s = r @ more \<longrightarrow>
           (\<exists>s' x'. Client_process_request cli ready close_connection s x = Some (Inr True, s', x')
             \<and> outbuf s' = outbuf s @ q \<and> avail s' = more
             \<and> rs_status (x_res x') = int st \<and> rs_body (x_res x') = body \<and> headers_range (rs_headers (x_res x')) ''Content-Type'' = [ct])))"
proof -
  let ?q = "request_text ''GET'' (encode_url p) (default_fields cli close_connection)"
  have "\<exists>c t' r. process_request env re svr ep close closed None t = Some (Inr (True, c, t')) \<and> avail t' = rest \<and> outbuf t' = outbuf t @ r
      \<and> (\<forall>s more. strm_ok s \<and> wr_plan s = [] \<and> avail s = r @ more \<longrightarrow>
           (\<exists>s' x'. Client_process_request cli ready close_connection s x = Some (Inr True, s', x')
             \<and> outbuf s' = outbuf s @ ?q \<and> avail s' = more
             \<and> rs_status (x_res x') = int st \<and> rs_body (x_res x') = body \<and> headers_range (rs_headers (x_res x')) ''Content-Type'' = [ct]))"
    if t: "strm_ok t \<and> wr_plan t = [] \<and> avail t = ?q @ rest" for t rest
  proof -
    obtain c h t' where srv: "process_request env re svr ep close closed None t = Some (Inr (True, c, t'))" "avail t' = rest"
      "outbuf t' = outbuf t @ response_line (int st) @ header_text h @ body" "headers_range h ''Content-Length'' = [string_of_nat (length body)]"
      "headers_range h ''Content-Type'' = [ct]" "set h \<subseteq> insert (''Content-Type'', ct) (set (usual_headers new_Server (length body)))"
      using backend_answer [OF assms(1,2) encoded_path(1,2) [OF assms(5)] default_fields_sendable [OF assms(4), of close_connection] default_fields_ordinary,
          where s = t and rest = rest and path = p and env = env and ep = ep and close = close and closed = closed] t encoded_path(3,4) [OF assms(5)] assms(6)
      by auto
    note client = client_reads_answer [OF assms(3,4,8,9,6,7) srv(4-6), of _ _ ready close_connection]
    show ?thesis using srv(1-3) client by (intro exI [of _ c] exI [of _ t'] exI [of _ "response_line (int st) @ header_text h @ body"]) blast
  qed
  then show ?thesis by blast
qed

theorem client_gets_from_backend_witness:
  "\<exists>q c t' r s' x'.
     process_request demo_environment demo_api_re (new_Server\<lparr>get_handlers := api_handlers (api_settings_of [])\<rparr>) demo_ep False False None
         (demo_in [q @ ''x'']) = Some (Inr (True, c, t')) \<and> outbuf t' = r
     \<and> Client_process_request demo_client (\<lambda>_. True) True (demo_in [r @ ''y'']) (demo_exchange (get_request ''/companies/2345'')) = Some (Inr True, s', x')
     \<and> outbuf s' = q \<and> rs_status (x_res x') = 200 \<and> rs_body (x_res x') = snd (snd (api_get (api_settings_of []) ''/companies/2345''))"
proof -
  have f: "path_ok ''/companies/2345''"
    "fst (api_get (api_settings_of []) ''/companies/2345'') = 200"
    by code_simp+
  have f3: "length (snd (snd (api_get (api_settings_of []) ''/companies/2345''))) \<le> 100"
    by (simp add: api_get_def match_company_def company_handler_def starts_with_iff)
  obtain ct body where b: "api_get (api_settings_of []) ''/companies/2345'' = (200, ct, body)"
    using f(2) by (cases "api_get (api_settings_of []) ''/companies/2345''") auto
  have len: "length body \<le> string_max_size" using f3 b by (simp add: string_max_size_def)
  have c: "default_client demo_client"
    by (simp add: demo_client_def default_client_def plain_writer_def new_ClientImpl_def new_ClientImpl_with_cert_def Let_def)
  have h: "host_ok demo_client"
  proof -
    have "cl_host demo_client = ''h''" "cl_port demo_client = 80"
      by (simp_all add: demo_client_def new_ClientImpl_def new_ClientImpl_with_cert_def Let_def escape_abstract_namespace_unix_domain_def)
    moreover have "is_field_value ''h''" by code_simp
    ultimately show ?thesis by (simp add: host_ok_def host_field_def)
  qed
  have x: "x_req (demo_exchange (get_request ''/companies/2345'')) = get_request ''/companies/2345''"
    "x_res (demo_exchange (get_request ''/companies/2345'')) = new_ClientResponse"
    by (simp_all add: demo_exchange_def)
  have d: "strm_ok (demo_in [a @ [e]])" "avail (demo_in [a @ [e]]) = a @ [e]" for a e
    by (simp_all add: strm_ok_def demo_in_def avail_def)
  from client_gets_from_backend [OF demo_api_regex api_server_handlers [OF demo_api_regex] c h f(1) b len x,
      of demo_environment demo_ep False False "\<lambda>_. True" True]
  obtain q where q: "\<And>t rest. strm_ok t \<and> wr_plan t = [] \<and> avail t = q @ rest \<Longrightarrow>
    \<exists>c t' r. process_request demo_environment demo_api_re (new_Server\<lparr>get_handlers := api_handlers (api_settings_of [])\<rparr>) demo_ep False False None t
        = Some (Inr (True, c, t')) \<and> avail t' = rest \<and> outbuf t' = outbuf t @ r
      \<and> (\<forall>s more. strm_ok s \<and> wr_plan s = [] \<and> avail s = r @ more \<longrightarrow>
           (\<exists>s' x'. Client_process_request demo_client (\<lambda>_. True) True s (demo_exchange (get_request ''/companies/2345'')) = Some (Inr True, s', x')
             \<and> outbuf s' = outbuf s @ q \<and> avail s' = more
             \<and> rs_status (x_res x') = int 200 \<and> rs_body (x_res x') = body \<and> headers_range (rs_headers (x_res x')) ''Content-Type'' = [ct]))"
    by blast
  from q [of "demo_in [q @ ''x'']" "''x''"] d(1) d(2) demo_plain(3) obtain c t' r where
    r: "process_request demo_environment demo_api_re (new_Server\<lparr>get_handlers := api_handlers (api_settings_of [])\<rparr>) demo_ep False False None
      (demo_in [q @ ''x'']) = Some (Inr (True, c, t'))" "outbuf t' = r"
    "\<And>s more. strm_ok s \<and> wr_plan s = [] \<and> avail s = r @ more \<Longrightarrow>
           \<exists>s' x'. Client_process_request demo_client (\<lambda>_. True) True s (demo_exchange (get_request ''/companies/2345'')) = Some (Inr True, s', x')
             \<and> outbuf s' = outbuf s @ q \<and> avail s' = more
             \<and> rs_status (x_res x') = int 200 \<and> rs_body (x_res x') = body \<and> headers_range (rs_headers (x_res x')) ''Content-Type'' = [ct]"
    by (auto simp: demo_plain(4))
  from r(3) [of "demo_in [r @ ''y'']" "''y''"] d demo_plain(3) show ?thesis
    using r(1,2) b by (fastforce simp: demo_plain(4))
qed

end
