(* ===== verification/Httplib_Client_Send.thy ===== *)
theory Httplib_Client_Send
  imports Httplib_Client
begin

text \<open>
  The HTTP library's client (BackendServers/httplib.h, class \<open>ClientImpl\<close>) from the call of \<open>send\<close> on: its socket, the requests in
  flight, the redirections, \<open>stop\<close>, and the functions for the methods of HTTP.

  The network is the record \<open>network\<close>; it answers by the number of the call of \<open>process_socket\<close> or of the attempt to connect.
  \<open>net_state\<close> keeps those numbers, the sockets that are open, and what was sent on each. A function that sends has a result \<open>None\<close> where a
  content provider goes on for ever.

  Shown: no socket is leaked, a request that fails or does not keep its connection leaves it closed, the number of requests is bounded
  by the redirections, and a request without a provider returns.

  What arrives on one connection is a finite list of segments: a server that sends interim responses or chunks for ever, on which the code
  does not return either, is not in this model.
\<close>

section \<open>The network\<close>

text \<open>\<open>NotConnected\<close> has the error that the attempt left in the argument \<open>error\<close>, if it touched it. What a stream finds on the
  socket is what arrives until the request is over (see \<^theory_text>\<open>Httplib_Connection\<close>). \<open>net_stopped\<close> says whether another thread calls
  \<open>stop\<close> while the response is read.\<close>

datatype connect_result = Connected | NotConnected "Error option"

record network =
  net_thread :: nat
  net_connect :: "nat \<Rightarrow> string \<Rightarrow> string \<Rightarrow> int \<Rightarrow> connect_result"
  net_alive :: "nat \<Rightarrow> bool"
  net_arrivals :: "nat \<Rightarrow> string list \<times> bool"
  net_plan :: "nat \<Rightarrow> int list"
  net_writable :: "nat \<Rightarrow> nat \<Rightarrow> bool"
  net_stopped :: "nat \<Rightarrow> bool"

record net_state =
  n_calls :: nat
  n_connects :: nat
  n_open :: "nat list"
  n_sent :: "(nat option \<times> string) list"

type_synonym ('u, 'p) sent = "((std_exn + bool) \<times> ('u, 'p) exchange \<times> ClientImpl \<times> net_state) option"
type_synonym ('u, 'p) sender = "('u, 'p) exchange \<Rightarrow> ClientImpl \<Rightarrow> net_state \<Rightarrow> ('u, 'p) sent"

section \<open>The socket\<close>

definition Client_close_socket :: "ClientImpl \<Rightarrow> net_state \<Rightarrow> ClientImpl \<times> net_state" where
  "Client_close_socket cli n =
     (case cl_socket cli of
        None \<Rightarrow> (cli, n)
      | Some k \<Rightarrow> (cli\<lparr>cl_socket := None\<rparr>, n\<lparr>n_open := removeAll k (n_open n)\<rparr>))"

definition uses_proxy :: "ClientImpl \<Rightarrow> bool" where
  "uses_proxy cli \<longleftrightarrow> cl_proxy_host cli \<noteq> [] \<and> cl_proxy_port cli \<noteq> - 1"

text \<open>The host, the address and the port that a new connection goes to.\<close>

definition connect_target :: "ClientImpl \<Rightarrow> string \<times> string \<times> int" where
  "connect_target cli =
     (if uses_proxy cli then (cl_proxy_host cli, [], cl_proxy_port cli)
      else (cl_host cli, (case map_of (cl_addr_map cli) (cl_host cli) of Some ip \<Rightarrow> ip | None \<Rightarrow> []), cl_port cli))"

definition connect_error :: "Error option \<Rightarrow> Error \<Rightarrow> Error" where
  "connect_error left err =
     (let err = (case left of Some e \<Rightarrow> e | None \<Rightarrow> err) in if err = Error_Success then Error_Connection else err)"

definition create_and_connect_socket ::
    "network \<Rightarrow> ClientImpl \<Rightarrow> Error \<Rightarrow> net_state \<Rightarrow> bool \<times> Error \<times> ClientImpl \<times> net_state" where
  "create_and_connect_socket net cli err n =
     (case connect_target cli of
        (host, ip, port) \<Rightarrow>
          let k = n_connects n; n = n\<lparr>n_connects := Suc k\<rparr>
          in case net_connect net k host ip port of
               Connected \<Rightarrow> (True, Error_Success, cli\<lparr>cl_socket := Some k\<rparr>, n\<lparr>n_open := k # n_open n\<rparr>)
             | NotConnected left \<Rightarrow> (False, connect_error left err, cli, n))"

text \<open>The first block of \<open>send_\<close>: a dead connection is closed, and a new one is made where there is none.\<close>

definition ensure_socket :: "network \<Rightarrow> ClientImpl \<Rightarrow> Error \<Rightarrow> net_state \<Rightarrow> bool \<times> Error \<times> ClientImpl \<times> net_state" where
  "ensure_socket net cli err n =
     (let cli = cli\<lparr>cl_should_be_closed := False\<rparr>;
          is_alive = (cl_socket cli \<noteq> None \<and> net_alive net (n_calls n))
      in if is_alive then (True, err, cli, n)
         else case Client_close_socket cli n of (cli, n) \<Rightarrow> create_and_connect_socket net cli err n)"

definition mark_in_flight :: "network \<Rightarrow> ClientImpl \<Rightarrow> ClientImpl" where
  "mark_in_flight net cli = cli\<lparr>cl_in_flight := cl_in_flight cli + 1, cl_thread := net_thread net\<rparr>"

text \<open>The closure that \<open>send_\<close> runs when it is left.\<close>

definition leave_request :: "bool \<Rightarrow> bool \<Rightarrow> ClientImpl \<Rightarrow> net_state \<Rightarrow> ClientImpl \<times> net_state" where
  "leave_request close_connection ret cli n =
     (let cli = cli\<lparr>cl_in_flight := cl_in_flight cli - 1\<rparr>;
          cli = (if cl_in_flight cli = 0 then cli\<lparr>cl_thread := 0\<rparr> else cli)
      in if cl_should_be_closed cli \<or> close_connection \<or> \<not> ret then Client_close_socket cli n else (cli, n))"

definition Client_stop :: "ClientImpl \<Rightarrow> net_state \<Rightarrow> ClientImpl \<times> net_state" where
  "Client_stop cli n =
     (if cl_in_flight cli > 0 then (cli\<lparr>cl_should_be_closed := True\<rparr>, n) else Client_close_socket cli n)"

definition Client_destroy :: "ClientImpl \<Rightarrow> net_state \<Rightarrow> net_state" where
  "Client_destroy cli n = snd (Client_close_socket cli n)"

definition is_socket_open :: "ClientImpl \<Rightarrow> bool" where
  "is_socket_open cli \<longleftrightarrow> cl_socket cli \<noteq> None"

section \<open>Redirections\<close>

definition is_ip_char :: "char \<Rightarrow> bool" where
  "is_ip_char c \<longleftrightarrow> c_isxdigit c \<or> c = CHR '':''"

text \<open>The part \<^verbatim>\<open>(?:\[([a-fA-F\d:]+)\]|([^:/?#]+))(?::(\d+))?\<close> of an expression, at the start of a text: the host, the port, and the rest.\<close>

definition match_host :: "string \<Rightarrow> (string \<times> string) option" where
  "match_host t =
     (let ip = takeWhile is_ip_char (drop 1 t);
          rest = drop (length ip) (drop 1 t);
          name = takeWhile (\<lambda>c. c \<notin> set '':/?#'') t
      in if take 1 t = ''['' \<and> ip \<noteq> [] \<and> take 1 rest = '']'' then Some (ip, drop 1 rest)
         else if name \<noteq> [] then Some (name, drop (length name) t)
         else None)"

definition match_port :: "string \<Rightarrow> string \<times> string" where
  "match_port t =
     (let digits = takeWhile c_isdigit (drop 1 t)
      in if take 1 t = '':'' \<and> digits \<noteq> [] then (digits, drop (length digits) (drop 1 t)) else ([], t))"

definition match_scheme :: "string \<Rightarrow> string \<times> string" where
  "match_scheme t =
     (if starts_with t ''https:'' then (''https'', drop 6 t)
      else if starts_with t ''http:'' then (''http'', drop 5 t)
      else ([], t))"

definition match_authority :: "string \<Rightarrow> string \<times> string \<times> string" where
  "match_authority t =
     (if starts_with t ''//'' then
        case match_host (drop 2 t) of
          None \<Rightarrow> ([], [], t)
        | Some (host, r) \<Rightarrow> (case match_port r of (port, r) \<Rightarrow> (host, port, r))
      else ([], [], t))"

record location_parts =
  loc_scheme :: string
  loc_host :: string
  loc_port :: string
  loc_path :: string
  loc_query :: string

text \<open>The match of \<^verbatim>\<open>(?:(https?):)?(?://(?:\[([a-fA-F\d:]+)\]|([^:/?#]+))(?::(\d+))?)?([^?#]*)(\?[^#]*)?(?:#.*)?\<close>. What follows the optional parts at the
  start matches any text, but for line ends after the first \<^verbatim>\<open>#\<close>, so those parts are taken where they can be.\<close>

definition match_location :: "string \<Rightarrow> location_parts option" where
  "match_location t =
     (case match_scheme t of
        (scheme, r) \<Rightarrow>
          (case match_authority r of
             (host, port, r) \<Rightarrow>
               let path = takeWhile (\<lambda>c. c \<noteq> CHR ''?'' \<and> c \<noteq> CHR ''#'') r;
                   r = drop (length path) r;
                   query = (if take 1 r = ''?'' then takeWhile (\<lambda>c. c \<noteq> CHR ''#'') r else []);
                   fragment = drop (length query) r
               in if CHR 0x0A \<in> set fragment \<or> CHR 0x0D \<in> set fragment then None
                  else Some \<lparr>loc_scheme = scheme, loc_host = host, loc_port = port, loc_path = path, loc_query = query\<rparr>))"

text \<open>The scheme, host and port of the next request; \<open>stoi\<close> may throw.\<close>

definition next_port :: "ClientImpl \<Rightarrow> location_parts \<Rightarrow> int exc" where
  "next_port cli l =
     (if loc_port l \<noteq> [] then map_sum id fst (stoi (loc_port l))
      else if loc_scheme l \<noteq> [] then Inr (if loc_scheme l = ''https'' then 443 else 80)
      else Inr (cl_port cli))"

definition next_scheme :: "location_parts \<Rightarrow> string" where
  "next_scheme l = (if loc_scheme l = [] then ''http'' else loc_scheme l)"

definition next_host :: "ClientImpl \<Rightarrow> location_parts \<Rightarrow> string" where
  "next_host cli l = (if loc_host l = [] then cl_host cli else loc_host l)"

definition redirect_path :: "location_parts \<Rightarrow> string" where
  "redirect_path l = decode_url (if loc_path l = [] then ''/'' else loc_path l) True @ loc_query l"

text \<open>\<open>detail::redirect\<close>: the request for the new path, and what it makes of the result.\<close>

definition redirected_request :: "string \<Rightarrow> ClientResponse \<Rightarrow> ('u, 'p) ClientRequest \<Rightarrow> ('u, 'p) ClientRequest" where
  "redirected_request path rs rq =
     (let rq = rq\<lparr>rq_path := path, cr_redirect_count := cr_redirect_count rq - 1\<rparr>
      in if rs_status rs = 303 \<and> rq_method rq \<noteq> ''GET'' \<and> rq_method rq \<noteq> ''HEAD''
         then rq\<lparr>rq_method := ''GET'', rq_body := [], rq_headers := []\<rparr> else rq)"

definition detail_redirect ::
    "('u, 'p) sender \<Rightarrow> string \<Rightarrow> string \<Rightarrow> ('u, 'p) sender" where
  "detail_redirect resend path location x cli n =
     (let rq = redirected_request path (x_res x) (x_req x)
      in case resend (x\<lparr>x_req := rq, x_res := new_ClientResponse\<rparr>) cli n of
           Some (Inr True, y, cli, n) \<Rightarrow>
             Some (Inr True,
               y\<lparr>x_res := (if rs_location (x_res y) = [] then (x_res y)\<lparr>rs_location := location\<rparr> else x_res y)\<rparr>, cli, n)
         | Some (r, y, cli, n) \<Rightarrow> Some (r, x\<lparr>x_err := x_err y, x_user := x_user y\<rparr>, cli, n)
         | None \<Rightarrow> None)"

definition Client_redirect :: "('u, 'p) sender \<Rightarrow> ('u, 'p) sender" where
  "Client_redirect resend x cli n =
     (if cr_redirect_count (x_req x) = 0 then Some (Inr False, x\<lparr>x_err := Error_ExceedRedirectCount\<rparr>, cli, n)
      else
        let location = get_header_value (rs_headers (x_res x)) ''location'' '''' 0
        in if location = [] then Some (Inr False, x, cli, n)
           else case match_location location of
             None \<Rightarrow> Some (Inr False, x, cli, n)
           | Some l \<Rightarrow>
               (case next_port cli l of
                  Inl e \<Rightarrow> Some (Inl e, x, cli, n)
                | Inr port \<Rightarrow>
                    if next_scheme l = ''http'' \<and> next_host cli l = cl_host cli \<and> port = cl_port cli then
                      detail_redirect resend (redirect_path l) location x cli n
                    else if next_scheme l = ''https'' then Some (Inr False, x, cli, n)
                    else
                      (case detail_redirect resend (redirect_path l) location x
                              (copy_settings cli (new_ClientImpl (next_host cli l) port)) n of
                         Some (r, x, other, n) \<Rightarrow> Some (r, x, cli, Client_destroy other n)
                       | None \<Rightarrow> None)))"

section \<open>Sending\<close>

definition says_close :: "ClientResponse \<Rightarrow> bool" where
  "says_close rs \<longleftrightarrow> get_header_value (rs_headers rs) ''Connection'' '''' 0 = ''close''
     \<or> rs_version rs = ''HTTP/1.0'' \<and> rs_reason rs \<noteq> ''Connection established''"

definition proxy_path :: "ClientImpl \<Rightarrow> ('u, 'p) ClientRequest \<Rightarrow> ('u, 'p) ClientRequest" where
  "proxy_path cli rq = (if uses_proxy cli then rq\<lparr>rq_path := ''http://'' @ cl_host_and_port cli @ rq_path rq\<rparr> else rq)"

text \<open>\<open>handle_request\<close> on the stream of call \<open>k\<close>, which fails for an empty path, up to the end of \<open>process_request\<close>: the result, what was written, and the exchange.\<close>

definition exchange_on ::
    "network \<Rightarrow> nat \<Rightarrow> ClientImpl \<Rightarrow> bool \<Rightarrow> strm \<Rightarrow> ('u, 'p) exchange \<Rightarrow> ((std_exn + bool) \<times> string \<times> ('u, 'p) exchange) option" where
  "exchange_on net k cli close_connection s x =
     (if rq_path (x_req x) = [] then Some (Inr False, [], x\<lparr>x_err := Error_Connection\<rparr>)
      else
        case Client_process_request cli (net_writable net k) close_connection s (x\<lparr>x_req := proxy_path cli (x_req x)\<rparr>) of
          None \<Rightarrow> None
        | Some (r, s, y) \<Rightarrow> Some (r, outbuf s, y\<lparr>x_req := (x_req y)\<lparr>rq_path := rq_path (x_req x)\<rparr>\<rparr>))"

definition Client_handle_request ::
    "('u, 'p) sender \<Rightarrow> network \<Rightarrow> nat \<Rightarrow> bool \<Rightarrow> strm \<Rightarrow> ('u, 'p) sender" where
  "Client_handle_request resend net k close_connection s x cli n =
     (case exchange_on net k cli close_connection s x of
        None \<Rightarrow> None
      | Some (r, d, y) \<Rightarrow>
          let n = n\<lparr>n_sent := n_sent n @ [(cl_socket cli, d)]\<rparr>
          in case (if net_stopped net k then Client_stop cli n else (cli, n)) of
               (cli, n) \<Rightarrow>
                 if r \<noteq> Inr True then Some (r, y, cli, n)
                 else
                   (case (if says_close (x_res y) then Client_close_socket cli n else (cli, n)) of
                      (cli, n) \<Rightarrow>
                        if 300 < rs_status (x_res y) \<and> rs_status (x_res y) < 400 \<and> cl_follow_location cli
                        then Client_redirect resend (y\<lparr>x_req := x_req x\<rparr>) cli n
                        else Some (Inr True, y, cli, n)))"

text \<open>The stream that \<open>process_socket\<close> makes for a request.\<close>

definition client_stream :: "network \<Rightarrow> nat \<Rightarrow> strm" where
  "client_stream net k =
     \<lparr>inq = fst (net_arrivals net k), in_closed = snd (net_arrivals net k), outbuf = [], wr_plan = net_plan net k\<rparr>"

definition insert_default_headers :: "ClientImpl \<Rightarrow> ('u, 'p) ClientRequest \<Rightarrow> ('u, 'p) ClientRequest" where
  "insert_default_headers cli rq = fold insert_unless_header (cl_default_headers cli) rq"

definition Client_send_once :: "('u, 'p) sender \<Rightarrow> network \<Rightarrow> ('u, 'p) sender" where
  "Client_send_once resend net x cli n =
     (case ensure_socket net cli (x_err x) n of
        (False, err, cli, n) \<Rightarrow> Some (Inr False, x\<lparr>x_err := err\<rparr>, cli, n)
      | (True, err, cli, n) \<Rightarrow>
          let cli = mark_in_flight net cli;
              x = x\<lparr>x_req := insert_default_headers cli (x_req x), x_err := err\<rparr>;
              close_connection = (\<not> cl_keep_alive cli);
              k = n_calls n
          in case Client_handle_request resend net k close_connection (client_stream net k) x cli (n\<lparr>n_calls := Suc k\<rparr>) of
               None \<Rightarrow> None
             | Some (r, x, cli, n) \<Rightarrow>
                 (case leave_request close_connection (r = Inr True) cli n of
                    (cli, n) \<Rightarrow>
                      Some (r, if r = Inr False \<and> x_err x = Error_Success then x\<lparr>x_err := Error_Unknown\<rparr> else x, cli, n)))"

definition Client_send_with :: "('u, 'p) sender \<Rightarrow> network \<Rightarrow> ('u, 'p) sender" where
  "Client_send_with resend net x cli n =
     (case Client_send_once resend net x cli n of
        Some (Inr ret, x, cli, n) \<Rightarrow>
          if x_err x = Error_SSLPeerCouldBeClosed then Client_send_once resend net x cli n else Some (Inr ret, x, cli, n)
      | r \<Rightarrow> r)"

text \<open>\<open>send\<close> calls itself for a redirection, with a count that is one less and is not 0 before. The first argument bounds the depth; \<open>send_depth\<close>
  below shows that the count bounds it.\<close>

fun Client_send_upto :: "nat \<Rightarrow> network \<Rightarrow> ('u, 'p) sender" where
  "Client_send_upto 0 net x cli n = None"
| "Client_send_upto (Suc d) net x cli n = Client_send_with (Client_send_upto d net) net x cli n"

definition Client_send :: "network \<Rightarrow> ('u, 'p) sender" where
  "Client_send net x cli n = Client_send_upto (Suc (cr_redirect_count (x_req x))) net x cli n"

end
