(* ===== verification/Httplib_Client_Safety.thy ===== *)
theory Httplib_Client_Safety
  imports Httplib_Client_Send Httplib_Client_Wire
begin

text \<open>
  What holds of the HTTP library's client over the whole of \<open>send\<close>, redirections included: who owns the open sockets, how many requests are made,
  and that \<open>send\<close> returns. The lemmas go up the calls of the code: the operations on the socket, one exchange, \<open>redirect\<close>, \<open>send_\<close>, \<open>send\<close>;
  the induction is over the depth of the redirections.
\<close>

section \<open>Ownership of sockets\<close>

text \<open>The open sockets are the one of the client and those of others, which are never the client's.\<close>

definition owns :: "nat set \<Rightarrow> ClientImpl \<Rightarrow> net_state \<Rightarrow> bool" where
  "owns others cli n \<longleftrightarrow> distinct (n_open n) \<and> set (n_open n) = others \<union> set_option (cl_socket cli)
     \<and> others \<inter> set_option (cl_socket cli) = {} \<and> (\<forall>k \<in> set (n_open n). k < n_connects n)"

lemma owns_change:
  "cl_socket cli' = cl_socket cli \<Longrightarrow> n_open n' = n_open n \<Longrightarrow> n_connects n' = n_connects n \<Longrightarrow> owns R cli' n' \<longleftrightarrow> owns R cli n"
  by (simp add: owns_def)

text \<open>What is the same before and after: the settings and the number of requests in flight.\<close>

definition same_client :: "ClientImpl \<Rightarrow> ClientImpl \<Rightarrow> bool" where
  "same_client cli cli' \<longleftrightarrow> cl_keep_alive cli' = cl_keep_alive cli \<and> cl_in_flight cli' = cl_in_flight cli"

lemma same_client_refl [simp]: "same_client cli cli"
  by (simp add: same_client_def)

lemma same_client_trans: "same_client a b \<Longrightarrow> same_client b c \<Longrightarrow> same_client a c"
  by (simp add: same_client_def)

lemma close_owns:
  assumes "owns R cli n" and "Client_close_socket cli n = (cli', n')"
  shows "owns R cli' n'" "same_client cli cli'" "cl_socket cli' = None" "n_calls n' = n_calls n"
  using assms by (auto simp: Client_close_socket_def owns_def same_client_def distinct_removeAll split: option.splits)

lemma create_owns:
  assumes "owns R cli n" and "cl_socket cli = None" and "create_and_connect_socket net cli err n = (ok, err', cli', n')"
  shows "owns R cli' n'" "same_client cli cli'" "\<not> ok \<Longrightarrow> cl_socket cli' = None" "n_calls n' = n_calls n"
  using assms
  by (auto simp: create_and_connect_socket_def owns_def same_client_def Let_def less_Suc_eq split: connect_result.splits prod.splits)

lemma ensure_owns:
  assumes "owns R cli n" and "ensure_socket net cli err n = (ok, err', cli', n')"
  shows "owns R cli' n'" "same_client cli cli'" "\<not> ok \<Longrightarrow> cl_socket cli' = None" "n_calls n' = n_calls n"
proof -
  let ?c = "cli\<lparr>cl_should_be_closed := False\<rparr>"
  have o: "owns R ?c n" and sc: "same_client cli ?c" using assms(1) by (simp_all add: owns_change [of ?c cli] same_client_def)
  obtain c1 n1 where close: "Client_close_socket ?c n = (c1, n1)" by fastforce
  note c = close_owns [OF o close]
  consider "ok" "cli' = ?c" "n' = n" | "create_and_connect_socket net c1 err n1 = (ok, err', cli', n')"
    using assms(2) close by (auto simp: ensure_socket_def Let_def split: if_splits)
  then have "owns R cli' n' \<and> same_client cli cli' \<and> (\<not> ok \<longrightarrow> cl_socket cli' = None) \<and> n_calls n' = n_calls n"
  proof cases
    case 1
    then show ?thesis using o sc by simp
  next
    case 2
    from create_owns [OF c(1,3) 2] c(2,4) sc same_client_trans show ?thesis by (metis (no_types))
  qed
  then show "owns R cli' n'" "same_client cli cli'" "\<not> ok \<Longrightarrow> cl_socket cli' = None" "n_calls n' = n_calls n" by blast+
qed

lemma stop_owns:
  assumes "owns R cli n" and "Client_stop cli n = (cli', n')"
  shows "owns R cli' n' \<and> same_client cli cli' \<and> n_calls n' = n_calls n"
proof (cases "cl_in_flight cli > 0")
  case True
  then have "cli' = cli\<lparr>cl_should_be_closed := True\<rparr>" "n' = n" using assms(2) by (simp_all add: Client_stop_def)
  then show ?thesis using assms(1) by (simp add: owns_def same_client_def)
next
  case False
  then have "Client_close_socket cli n = (cli', n')" using assms(2) by (simp add: Client_stop_def)
  from close_owns [OF assms(1) this] show ?thesis by blast
qed

lemma leave_owns:
  assumes "owns R cli n" and "leave_request close_connection ret cli n = (cli', n')"
  shows "owns R cli' n'" "cl_keep_alive cli' = cl_keep_alive cli" "cl_in_flight cli' = cl_in_flight cli - 1"
    "close_connection \<or> \<not> ret \<Longrightarrow> cl_socket cli' = None" "n_calls n' = n_calls n"
proof -
  define c1 where "c1 = (let cli = cli\<lparr>cl_in_flight := cl_in_flight cli - 1\<rparr>
    in if cl_in_flight cli = 0 then cli\<lparr>cl_thread := 0\<rparr> else cli)"
  have c1: "cl_socket c1 = cl_socket cli" "cl_keep_alive c1 = cl_keep_alive cli" "cl_in_flight c1 = cl_in_flight cli - 1"
    by (simp_all add: c1_def Let_def)
  then have o: "owns R c1 n" using assms(1) owns_change by blast
  have "leave_request close_connection ret cli n
      = (if cl_should_be_closed c1 \<or> close_connection \<or> \<not> ret then Client_close_socket c1 n else (c1, n))"
    by (simp add: leave_request_def Let_def c1_def)
  then have "owns R cli' n' \<and> cl_keep_alive cli' = cl_keep_alive cli \<and> cl_in_flight cli' = cl_in_flight cli - 1
    \<and> (close_connection \<or> \<not> ret \<longrightarrow> cl_socket cli' = None) \<and> n_calls n' = n_calls n"
    using o c1 close_owns [OF o, of cli' n'] assms(2) by (auto simp: same_client_def split: if_splits)
  then show "owns R cli' n'" "cl_keep_alive cli' = cl_keep_alive cli" "cl_in_flight cli' = cl_in_flight cli - 1"
    "close_connection \<or> \<not> ret \<Longrightarrow> cl_socket cli' = None" "n_calls n' = n_calls n" by blast+
qed

section \<open>The error value\<close>

text \<open>Without SSL nothing sets the error that makes \<open>send\<close> try again.\<close>

abbreviation retry :: Error where
  "retry \<equiv> Error_SSLPeerCouldBeClosed"

definition no_ssl :: "network \<Rightarrow> bool" where
  "no_ssl net \<longleftrightarrow> (\<forall>k host ip port. net_connect net k host ip port \<noteq> NotConnected (Some retry))"

lemma ensure_error:
  "no_ssl net \<Longrightarrow> err \<noteq> retry \<Longrightarrow> ensure_socket net cli err n = (ok, err', cli', n') \<Longrightarrow> err' \<noteq> retry"
  by (auto simp: ensure_socket_def create_and_connect_socket_def connect_error_def no_ssl_def Let_def
      split: if_splits prod.splits connect_result.splits option.splits)

lemma content_loop_error:
  assumes "client_content_loop ready i e offset P s = Some (Inr err, P', s')"
  shows "err \<noteq> retry"
proof (rule client_content_loop.raw_induct [where P = "\<lambda>ready i e offset P s r. \<forall>err P' s'. r = (Inr err, P', s') \<longrightarrow> err \<noteq> retry",
      OF _ assms, THEN spec, THEN spec, THEN spec, THEN mp, OF _ refl], goal_cases)
  case (1 loop ready i e offset P s r)
  then show ?case
    by (auto split: if_splits sum.splits prod.splits)
qed

lemma chunked_loop_error:
  assumes "client_chunked_loop ready i offset da P s = Some (Inr err, P', s')"
  shows "err \<noteq> retry"
proof (rule client_chunked_loop.raw_induct [where P = "\<lambda>ready i offset da P s r. \<forall>err P' s'. r = (Inr err, P', s') \<longrightarrow> err \<noteq> retry",
      OF _ assms, THEN spec, THEN spec, THEN spec, THEN mp, OF _ refl], goal_cases)
  case (1 loop ready i offset da P s r)
  then show ?case
    by (auto split: if_splits sum.splits prod.splits)
qed

text \<open>What a receiver keeps of its state is kept while a content is read.\<close>

definition keeps :: "('r \<Rightarrow> bool) \<Rightarrow> 'r receiver \<Rightarrow> bool" where
  "keeps I out \<longleftrightarrow> (\<forall>d off len st. I st \<longrightarrow> I (snd (out d off len st)))"

lemma keepsD: "keeps I out \<Longrightarrow> I st \<Longrightarrow> out d off len st = (b, st') \<Longrightarrow> I st'"
  by (metis keeps_def snd_conv)

lemma length_loop_keeps:
  "keeps I out \<Longrightarrow> I st \<Longrightarrow> read_length_loop len r progress out st s = (b, st', s') \<Longrightarrow> I st'"
proof (induction len r progress out st s rule: read_length_loop.induct)
  case (1 len r progress out st s)
  show ?case
  proof (cases "st' = st")
    case False
    obtain d t where rd: "strm_read (min (len - r) RECV_BUFSIZ) s = (d, t)" by fastforce
    from False 1(4) rd obtain x c st2 where x: "r < len" "d = Some x" "x \<noteq> []" "out x r len st = (c, st2)"
      by (subst (asm) read_length_loop.simps) (auto split: if_splits option.splits prod.splits bool.splits)
    have i: "I st2" by (rule keepsD [OF 1(2,3) x(4)])
    from 1(4) rd x consider "st' = st2"
      | "c" "\<not> (case progress of Some p \<Rightarrow> \<not> p (r + length x) len | None \<Rightarrow> False)" "read_length_loop len (r + length x) progress out st2 t = (b, st', s')"
      by (subst (asm) read_length_loop.simps) (auto simp: Let_def split: if_splits bool.splits)
    then show ?thesis
    proof cases
      case 2
      show ?thesis
        using "1.IH" [OF x(1) rd [symmetric] x(2,3) x(4) [symmetric] _ refl 2(2)] 2 1(2) i by simp
    qed (simp add: i)
  qed (use 1(3) in simp)
qed

lemma to_end_keeps: "keeps I out \<Longrightarrow> I st \<Longrightarrow> read_to_end_loop r out st s = (b, st', s') \<Longrightarrow> I st'"
proof (induction r out st s rule: read_to_end_loop.induct)
  case (1 r out st s)
  show ?case
  proof (cases "st' = st")
    case False
    obtain d t where rd: "strm_read RECV_BUFSIZ s = (d, t)" by fastforce
    from False 1(4) rd obtain x c st2 where x: "d = Some x" "x \<noteq> []" "out x r 0 st = (c, st2)"
      by (subst (asm) read_to_end_loop.simps) (auto split: if_splits option.splits prod.splits bool.splits)
    have i: "I st2" by (rule keepsD [OF 1(2,3) x(3)])
    from 1(4) rd x consider "st' = st2" | "c" "read_to_end_loop (r + length x) out st2 t = (b, st', s')"
      by (subst (asm) read_to_end_loop.simps) (auto split: if_splits bool.splits)
    then show ?thesis
      using "1.IH" [OF rd [symmetric] x(1,2) x(3) [symmetric]] 1(2) i by cases auto
  qed (use 1(3) in simp)
qed

lemma chunks_keep: "keeps I out \<Longrightarrow> I st \<Longrightarrow> chunk_loop lr out st s = (b, lr', st', s') \<Longrightarrow> I st'"
proof (induction lr out st s rule: chunk_loop.induct)
  case (1 lr out st s)
  show ?case
  proof (cases "st' = st")
    case False
    with 1(4) obtain n where n: "strtoul16 (c_str (lr_text lr)) = Some n" "n \<noteq> 2 ^ 64 - 1" "n \<noteq> 0"
      by (subst (asm) chunk_loop.simps) (auto split: option.splits if_splits)
    obtain c st2 s2 where w: "read_content_with_length n None out st s = (c, st2, s2)" by (rule prod_cases3)
    have i: "I st2" using length_loop_keeps [OF 1(2,3)] w by (simp add: read_content_with_length_def)
    obtain b1 lr1 s3 where g1: "getline lr s2 = (b1, lr1, s3)" by (rule prod_cases3)
    obtain b2 lr2 s4 where g2: "getline lr1 s3 = (b2, lr2, s4)" by (rule prod_cases3)
    from 1(4) n w g1 g2 consider "st' = st2"
      | "c" "b1" "b2" "c_str (lr_text lr1) = crlf" "chunk_loop lr2 out st2 s4 = (b, lr', st', s')"
      by (subst (asm) chunk_loop.simps) (auto split: if_splits bool.splits)
    then show ?thesis
    proof cases
      case 2
      show ?thesis
        using "1.IH" [OF n w [symmetric] _ refl g1 [symmetric] _ refl _ g2 [symmetric] _ refl 1(2) i] 2 by simp
    qed (simp add: i)
  qed (use 1(3) in simp)
qed

lemma content_chunked_keeps:
  assumes "keeps I out" and "I st" and "read_content_chunked h out st s = (ret, h', st', s')"
  shows "I st'"
proof -
  obtain b lr s1 where g: "getline (new_line_reader 16) s = (b, lr, s1)" by (rule prod_cases3)
  obtain b2 lr2 st2 s2 where c: "chunk_loop lr out st s1 = (b2, lr2, st2, s2)" by (rule prod_cases4)
  have i: "I st2" by (rule chunks_keep [OF assms(1,2) c])
  from assms(3) g c have "st' = st \<or> st' = st2"
    by (auto simp: read_content_chunked_def split: prod.splits bool.splits)
  then show ?thesis using i assms(2) by blast
qed

lemma content_body_keeps:
  assumes "keeps I out" and "I st" and "read_content_body n status out h st s = (ret, status', h', st', s')"
  shows "I st'"
proof -
  obtain b1 h1 st1 s1 where c: "read_content_chunked h out st s = (b1, h1, st1, s1)" by (rule prod_cases4)
  obtain b2 st2 s2 where e: "read_content_without_length out st s = (b2, st2, s2)" by (rule prod_cases3)
  obtain len bad where v: "get_header_value_u64 h ''Content-Length'' (2 ^ 64 - 1) 0 = (len, bad)" by fastforce
  obtain b3 st3 s3 where w: "read_content_with_length len None out st s = (b3, st3, s3)" by (rule prod_cases3)
  have i: "I st1" "I st2" "I st3"
    using content_chunked_keeps [OF assms(1,2) c] to_end_keeps [OF assms(1,2)] length_loop_keeps [OF assms(1,2)] e w
    unfolding read_content_without_length_def read_content_with_length_def by blast+
  have "st' = st \<or> st' = st1 \<or> st' = st2 \<or> st' = st3"
    using assms(3) unfolding read_content_body_def Let_def c e v w
    by (auto simp: w split: if_splits)
  then show ?thesis using i assms(2) by blast
qed

lemma content_keeps:
  assumes "keeps I out" and "I st" and "read_content n status out decompress h st s = (ret, status', h', st', s')"
  shows "I st'"
proof (cases "decompress \<and> unsupported_encoding h")
  case True
  then show ?thesis using assms(2,3) by (simp add: read_content_def)
next
  case False
  have "read_content_body n status out h st s = (ret, status', h', st', s')" using assms(3) unfolding read_content_def if_not_P [OF False] .
  then show ?thesis by (rule content_body_keeps [OF assms(1,2)])
qed

lemma response_keeps_error:
  "keeps (\<lambda>(body, err, u). err \<noteq> retry) (response_out f redirect)"
  "keeps (\<lambda>(body, err, u). err \<noteq> retry) (then_progress (response_out f redirect) (response_progress p redirect))"
  by (auto simp: keeps_def response_out_def then_progress_def response_progress_def split: option.splits prod.splits bool.splits)

lemma response_content_error:
  assumes "read_response_content decompress (response_out f redirect) (response_progress p redirect) h (body, err, u) s = (ret, h', (body', err', u'), s')"
    and "err \<noteq> retry"
  shows "err' \<noteq> retry"
proof -
  define out where "out = (if is_chunked_transfer_encoding h \<or> \<not> has_header h ''Content-Length'' then response_out f redirect
       else then_progress (response_out f redirect) (response_progress p redirect))"
  have k: "keeps (\<lambda>(body, err, u). err \<noteq> retry) out" by (simp add: out_def response_keeps_error)
  have "\<exists>status. read_content (2 ^ 64 - 1) 0 out decompress h (body, err, u) s = (ret, status, h', (body', err', u'), s')"
    using assms(1) unfolding read_response_content_def out_def [symmetric] by (auto split: prod.splits)
  then obtain status where "read_content (2 ^ 64 - 1) 0 out decompress h (body, err, u) s = (ret, status, h', (body', err', u'), s')" ..
  from content_keeps [OF k _ this] assms(2) show ?thesis by simp
qed

lemma response_handler_error:
  "call_response_handler redirect x = (b, y) \<Longrightarrow> x_err x \<noteq> retry \<Longrightarrow> x_err y \<noteq> retry"
  by (auto simp: call_response_handler_def split: option.splits if_splits prod.splits bool.splits)

lemma response_body_error:
  assumes "read_response_body cli s x = (ret, s', y)" and "x_err x \<noteq> retry"
  shows "x_err y \<noteq> retry"
proof -
  let ?r = "is_redirect cli (x_res x)"
  obtain b z where h: "call_response_handler ?r x = (b, z)" by fastforce
  have z: "x_err z \<noteq> retry" by (rule response_handler_error [OF h assms(2)])
  obtain ret2 h2 st2 s2 where c: "read_response_content (cl_decompress cli) (response_out (cr_content_receiver (x_req z)) ?r)
      (response_progress (cr_progress (x_req z)) ?r) (rs_headers (x_res z)) (rs_body (x_res z), x_err z, x_user z) s = (ret2, h2, st2, s2)"
    by (rule prod_cases4)
  obtain body err u where st2: "st2 = (body, err, u)" by (rule prod_cases3)
  have err: "err \<noteq> retry" by (rule response_content_error [OF c [unfolded st2] z])
  show ?thesis
    using assms(1) z err unfolding read_response_body_def Let_def h
    by (cases b) (auto simp: c st2 split: if_splits)
qed

lemma read_response_error:
  assumes "read_response cli s x = (ret, s', y)" and "x_err x \<noteq> retry"
  shows "x_err y \<noteq> retry"
proof -
  obtain b s1 rs where l: "read_response_line (rq_method (x_req x)) s (x_res x) = (b, s1, rs)" by (rule prod_cases3)
  obtain b2 h s2 where g: "read_headers s1 (rs_headers rs) = (b2, h, s2)" by (rule prod_cases3)
  have r: "x_err y \<noteq> retry" if "read_response_body cli s2 (x\<lparr>x_res := rs\<lparr>rs_headers := h\<rparr>\<rparr>) = (ret, s', y)"
    by (rule response_body_error [OF that]) (use assms(2) in simp)
  show ?thesis
    using assms r unfolding read_response_def l by (cases b; cases b2) (auto simp: g Let_def split: if_splits)
qed

lemma write_body_error:
  assumes "write_request_body ready s x = Some (Inr ret, s', y)" and "x_err x \<noteq> retry"
  shows "x_err y \<noteq> retry"
proof (cases "rq_body (x_req x) = []")
  case True
  with assms(1) obtain err prov where w: "Client_write_content_with_provider ready (x_req x) s = Some (Inr err, prov, s')" and y: "x_err y = err"
    by (auto simp: write_request_body_def split: option.splits sum.splits prod.splits)
  show ?thesis
    using w content_loop_error chunked_loop_error unfolding y Client_write_content_with_provider_def
    by (cases "cr_is_chunked (x_req x)") (simp_all, blast+)
next
  case False
  obtain ok t where d: "write_data (rq_body (x_req x)) s = (ok, t)" by fastforce
  show ?thesis using assms False d by (cases ok) (auto simp: write_request_body_def)
qed

lemma write_request_error:
  assumes "Client_write_request cli ready cc s x = Some (Inr ret, s', y)" and "x_err x \<noteq> retry"
  shows "x_err y \<noteq> retry"
proof -
  obtain h d where c: "collect_head cli (prepare_headers cli cc (x_req x)) = (h, d)" by fastforce
  obtain ok t where w: "write_data d s = (ok, t)" by fastforce
  show ?thesis
  proof (cases ok)
    case True
    have "write_request_body ready t (x\<lparr>x_req := (prepare_headers cli cc (x_req x))\<lparr>rq_headers := h\<rparr>\<rparr>) = Some (Inr ret, s', y)"
      using assms(1) True unfolding Client_write_request_def Let_def by (simp add: c w)
    from write_body_error [OF this] assms(2) show ?thesis by simp
  next
    case False
    then show ?thesis using assms(1) unfolding Client_write_request_def Let_def by (auto simp: c w)
  qed
qed

lemma process_request_error:
  assumes "Client_process_request cli ready cc s x = Some (Inr ret, s', y)" and "x_err x \<noteq> retry"
  shows "x_err y \<noteq> retry"
proof -
  obtain b t z where w: "Client_write_request cli ready cc s x = Some (Inr b, t, z)"
    using assms(1) by (auto simp: Client_process_request_def split: option.splits prod.splits sum.splits bool.splits)
  have z: "x_err z \<noteq> retry" by (rule write_request_error [OF w assms(2)])
  show ?thesis
  proof (cases b)
    case True
    then have "\<exists>ret. read_response cli t z = (ret, s', y)"
      using assms(1) w by (auto simp: Client_process_request_def split: prod.splits)
    then show ?thesis using read_response_error z by blast
  next
    case False
    then show ?thesis using assms(1) w z by (simp add: Client_process_request_def)
  qed
qed

lemma exchange_on_error:
  assumes "exchange_on net k cli cc s x = Some (Inr ret, d, y)" and "x_err x \<noteq> retry"
  shows "x_err y \<noteq> retry"
proof (cases "rq_path (x_req x) = []")
  case False
  then obtain t z where p: "Client_process_request cli (net_writable net k) cc s (x\<lparr>x_req := proxy_path cli (x_req x)\<rparr>) = Some (Inr ret, t, z)"
    and "x_err y = x_err z"
    using assms(1) by (auto simp: exchange_on_def split: option.splits)
  moreover have "x_err z \<noteq> retry" by (rule process_request_error [OF p]) (use assms(2) in simp)
  ultimately show ?thesis by simp
qed (use assms in \<open>auto simp: exchange_on_def\<close>)

section \<open>A request with its redirections\<close>

text \<open>What holds after a call that got the client \<open>cli\<close> and may make \<open>q\<close> requests, and what is asked of the function that sends.\<close>

definition served :: "nat set \<Rightarrow> ClientImpl \<Rightarrow> net_state \<Rightarrow> nat \<Rightarrow> ('u, 'p) sent \<Rightarrow> bool" where
  "served R cli n q res \<longleftrightarrow>
     (\<forall>r y cli' n'. res = Some (r, y, cli', n') \<longrightarrow>
        owns R cli' n' \<and> same_client cli cli' \<and> (\<forall>ret. r = Inr ret \<longrightarrow> x_err y \<noteq> retry) \<and> n_calls n' \<le> n_calls n + q)"

definition safe_sender :: "('u, 'p) sender \<Rightarrow> bool" where
  "safe_sender f \<longleftrightarrow>
     (\<forall>R x cli n. owns R cli n \<longrightarrow> x_err x \<noteq> retry \<longrightarrow> served R cli n (Suc (cr_redirect_count (x_req x))) (f x cli n))"

lemma served_Some:
  "served R cli n q (Some (r, y, cli', n')) \<longleftrightarrow>
     owns R cli' n' \<and> same_client cli cli' \<and> (\<forall>ret. r = Inr ret \<longrightarrow> x_err y \<noteq> retry) \<and> n_calls n' \<le> n_calls n + q"
  by (simp add: served_def)

lemma served_None [simp]: "served R cli n q None"
  by (simp add: served_def)

lemma safe_senderD:
  "safe_sender f \<Longrightarrow> owns R cli n \<Longrightarrow> x_err x \<noteq> retry \<Longrightarrow> served R cli n (Suc (cr_redirect_count (x_req x))) (f x cli n)"
  by (simp add: safe_sender_def)

lemma redirected_count: "cr_redirect_count (redirected_request path rs rq) = cr_redirect_count rq - 1"
  by (simp add: redirected_request_def Let_def)

text \<open>Where the request does not succeed, only the error and the caller's state come back.\<close>

lemma detail_redirect_failed:
  assumes "f (x\<lparr>x_req := redirected_request path (x_res x) (x_req x), x_res := new_ClientResponse\<rparr>) cli n = Some (r, y, cli', n')"
    and "r \<noteq> Inr True"
  shows "detail_redirect f path loc x cli n = Some (r, x\<lparr>x_err := x_err y, x_user := x_user y\<rparr>, cli', n')"
  using assms by (cases r) (simp_all add: detail_redirect_def)

lemma detail_redirect_served:
  assumes "safe_sender f" and "owns R cli n" and "x_err x \<noteq> retry" and "cr_redirect_count (x_req x) \<noteq> 0"
  shows "served R cli n (cr_redirect_count (x_req x)) (detail_redirect f path loc x cli n)"
proof -
  let ?x = "x\<lparr>x_req := redirected_request path (x_res x) (x_req x), x_res := new_ClientResponse\<rparr>"
  have s: "served R cli n (cr_redirect_count (x_req x)) (f ?x cli n)"
    using safe_senderD [OF assms(1,2), of ?x] assms(3,4) by (simp add: redirected_count)
  show ?thesis
  proof (cases "f ?x cli n")
    case (Some v)
    obtain r y cli' n' where v: "v = (r, y, cli', n')" by (rule prod_cases4)
    consider "r = Inr True" | "r \<noteq> Inr True" by blast
    then show ?thesis
    proof cases
      case 1
      then show ?thesis using s Some v by (simp add: detail_redirect_def served_Some)
    next
      case 2
      then show ?thesis using s Some v by (simp add: served_Some detail_redirect_failed)
    qed
  qed (simp add: detail_redirect_def)
qed

text \<open>A redirection to another server is sent by a client of its own; its socket is closed when it is destroyed.\<close>

lemma other_client_owns:
  assumes "owns R cli n"
  shows "owns (R \<union> set_option (cl_socket cli)) (copy_settings cli (new_ClientImpl host port)) n"
  using assms by (simp add: owns_def copy_settings_def new_ClientImpl_def new_ClientImpl_with_cert_def Let_def)

lemma destroy_owns:
  assumes "owns (R \<union> set_option (cl_socket cli)) other n" and "R \<inter> set_option (cl_socket cli) = {}"
  shows "owns R cli (Client_destroy other n)" "n_calls (Client_destroy other n) = n_calls n"
proof -
  obtain c m where cm: "Client_close_socket other n = (c, m)" by fastforce
  note o = close_owns [OF assms(1) cm]
  show "owns R cli (Client_destroy other n)" "n_calls (Client_destroy other n) = n_calls n"
    using o(1,3,4) assms(2) by (auto simp: Client_destroy_def cm owns_def)
qed

lemma redirect_served:
  assumes "safe_sender f" and "owns R cli n" and "x_err x \<noteq> retry"
  shows "served R cli n (cr_redirect_count (x_req x)) (Client_redirect f x cli n)"
proof (cases "cr_redirect_count (x_req x) = 0")
  case False
  let ?q = "cr_redirect_count (x_req x)"
  have stay: "served R cli n ?q (Some (r, x, cli, n))" for r
    using assms(2,3) by (simp add: served_Some)
  have same: "served R cli n ?q (detail_redirect f path loc x cli n)" for path loc
    by (rule detail_redirect_served [OF assms False])
  have other: "served R cli n ?q (Some (r, y, cli, Client_destroy other n'))"
    if "detail_redirect f path loc x (copy_settings cli (new_ClientImpl host port)) n = Some (r, y, other, n')" for path loc host port r y other n'
  proof -
    have "served (R \<union> set_option (cl_socket cli)) (copy_settings cli (new_ClientImpl host port)) n ?q (Some (r, y, other, n'))"
      using detail_redirect_served [OF assms(1) other_client_owns [OF assms(2)] assms(3) False] that by metis
    then show ?thesis
      using destroy_owns [of R cli other n'] assms(2) by (simp add: served_Some owns_def)
  qed
  show ?thesis
    using False stay same other by (auto simp: Client_redirect_def Let_def split: option.splits sum.splits prod.splits)
qed (use assms in \<open>simp add: Client_redirect_def served_Some\<close>)

lemma handle_request_served:
  assumes "safe_sender f" and "owns R cli n" and "x_err x \<noteq> retry"
  shows "served R cli n (cr_redirect_count (x_req x)) (Client_handle_request f net k cc s x cli n)"
proof (cases "exchange_on net k cli cc s x")
  case (Some v)
  obtain r d y where v: "v = (r, d, y)" by (rule prod_cases3)
  define n1 where "n1 = n\<lparr>n_sent := n_sent n @ [(cl_socket cli, d)]\<rparr>"
  have o1: "owns R cli n1" and k1: "n_calls n1 = n_calls n"
    using assms(2) owns_change [of cli cli n1 n] by (simp_all add: n1_def)
  obtain c2 n2 where e2: "(if net_stopped net k then Client_stop cli n1 else (cli, n1)) = (c2, n2)" by fastforce
  have o2: "owns R c2 n2" "same_client cli c2" "n_calls n2 = n_calls n"
    using stop_owns [OF o1] o1 k1 e2 by (auto split: if_splits)
  obtain c3 n3 where e3: "(if says_close (x_res y) then Client_close_socket c2 n2 else (c2, n2)) = (c3, n3)" by fastforce
  have o3: "owns R c3 n3" "same_client cli c3" "n_calls n3 = n_calls n"
  proof (atomize (full), cases "says_close (x_res y)")
    case True
    then have "Client_close_socket c2 n2 = (c3, n3)" using e3 by simp
    note c = close_owns [OF o2(1) this]
    from c(1) same_client_trans [OF o2(2) c(2)] c(4) o2(3)
    show "owns R c3 n3 \<and> same_client cli c3 \<and> n_calls n3 = n_calls n" by simp
  qed (use o2 e3 in simp)
  have h: "Client_handle_request f net k cc s x cli n
      = (if r \<noteq> Inr True then Some (r, y, c2, n2)
         else if 300 < rs_status (x_res y) \<and> rs_status (x_res y) < 400 \<and> cl_follow_location c3
         then Client_redirect f (y\<lparr>x_req := x_req x\<rparr>) c3 n3 else Some (Inr True, y, c3, n3))"
    unfolding Client_handle_request_def Some v Let_def option.case prod.case n1_def [symmetric] e2 e3 by (rule refl)
  have err: "x_err y \<noteq> retry" if "r = Inr ret" for ret
    using exchange_on_error Some assms(3) unfolding v that by blast
  have rd: "served R cli n (cr_redirect_count (x_req x)) (Client_redirect f (y\<lparr>x_req := x_req x\<rparr>) c3 n3)" if "r = Inr True"
    using redirect_served [OF assms(1) o3(1), of "y\<lparr>x_req := x_req x\<rparr>"] err [OF that] o3(2,3) same_client_trans [OF o3(2)]
    by (auto simp: served_def)
  show ?thesis unfolding h using o2 o3 err rd by (auto simp: served_Some)
qed (simp add: Client_handle_request_def)

lemma send_once_served:
  assumes "safe_sender f" and "no_ssl net" and "owns R cli n" and "x_err x \<noteq> retry"
  shows "served R cli n (Suc (cr_redirect_count (x_req x))) (Client_send_once f net x cli n)"
    and "Client_send_once f net x cli n = Some (r, y, cli', n') \<Longrightarrow> \<not> cl_keep_alive cli \<or> r \<noteq> Inr True \<Longrightarrow> cl_socket cli' = None"
proof -
  obtain ok err c1 n1 where e: "ensure_socket net cli (x_err x) n = (ok, err, c1, n1)" by (rule prod_cases4)
  note o1 = ensure_owns [OF assms(3) e]
  have err: "err \<noteq> retry" by (rule ensure_error [OF assms(2,4) e])
  define x1 where "x1 = x\<lparr>x_req := insert_default_headers c1 (x_req x), x_err := err\<rparr>"
  define c2 where "c2 = mark_in_flight net c1"
  define n2 where "n2 = n1\<lparr>n_calls := Suc (n_calls n1)\<rparr>"
  have o2: "owns R c2 n2" using o1(1) owns_change [of c2 c1 n2 n1] by (simp add: c2_def n2_def mark_in_flight_def)
  have q: "cr_redirect_count (x_req x1) = cr_redirect_count (x_req x)"
  proof -
    have "cr_redirect_count (fold insert_unless_header h rq) = cr_redirect_count rq" for h and rq :: "('a, 'b) ClientRequest"
      by (induction h arbitrary: rq) (simp_all add: insert_unless_header_def)
    then show ?thesis by (simp add: x1_def insert_default_headers_def)
  qed
  have s: "served R c2 n2 (cr_redirect_count (x_req x)) (Client_handle_request f net k cc s x1 c2 n2)" for k cc s
    using handle_request_served [OF assms(1) o2, of x1] err q by (simp add: x1_def)
  have "served R cli n (Suc (cr_redirect_count (x_req x))) (Client_send_once f net x cli n) \<and>
    (\<forall>r y cli' n'. Client_send_once f net x cli n = Some (r, y, cli', n') \<longrightarrow> \<not> cl_keep_alive cli \<or> r \<noteq> Inr True \<longrightarrow> cl_socket cli' = None)"
  proof (cases ok)
    case False
    then show ?thesis using e o1 err by (auto simp: Client_send_once_def served_Some)
  next
    case True
    let ?h = "Client_handle_request f net (n_calls n1) (\<not> cl_keep_alive c2) (client_stream net (n_calls n1)) x1 c2 n2"
    have eq: "Client_send_once f net x cli n = (case ?h of None \<Rightarrow> None
       | Some (r, x, cli, n) \<Rightarrow> (case leave_request (\<not> cl_keep_alive c2) (r = Inr True) cli n of
           (cli, n) \<Rightarrow> Some (r, if r = Inr False \<and> x_err x = Error_Success then x\<lparr>x_err := Error_Unknown\<rparr> else x, cli, n)))"
      unfolding Client_send_once_def Let_def e
      using True by (simp add: x1_def c2_def n2_def insert_default_headers_def mark_in_flight_def cong: option.case_cong)
    show ?thesis
    proof (cases ?h)
      case (Some v)
      obtain r y c3 n3 where v: "v = (r, y, c3, n3)" by (rule prod_cases4)
      obtain c4 n4 where l: "leave_request (\<not> cl_keep_alive c2) (r = Inr True) c3 n3 = (c4, n4)" by fastforce
      have s3: "owns R c3 n3" "same_client c2 c3" "\<forall>ret. r = Inr ret \<longrightarrow> x_err y \<noteq> retry" "n_calls n3 \<le> n_calls n2 + cr_redirect_count (x_req x)"
        using s [of "n_calls n1" "\<not> cl_keep_alive c2" "client_stream net (n_calls n1)"] Some v by (simp_all add: served_Some)
      note o4 = leave_owns [OF s3(1) l]
      have sc: "same_client cli c4" "cl_keep_alive c2 = cl_keep_alive cli"
        using o1(2) s3(2) o4(2,3) by (simp_all add: same_client_def c2_def mark_in_flight_def)
      have res: "Client_send_once f net x cli n
          = Some (r, if r = Inr False \<and> x_err y = Error_Success then y\<lparr>x_err := Error_Unknown\<rparr> else y, c4, n4)"
        using eq Some v l by simp
      show ?thesis unfolding res
        using o4(1,4,5) sc s3(3,4) o1(4) by (auto simp: served_Some n2_def)
    qed (simp add: eq)
  qed
  then show "served R cli n (Suc (cr_redirect_count (x_req x))) (Client_send_once f net x cli n)"
    and "Client_send_once f net x cli n = Some (r, y, cli', n') \<Longrightarrow> \<not> cl_keep_alive cli \<or> r \<noteq> Inr True \<Longrightarrow> cl_socket cli' = None"
    by blast+
qed

lemma send_with_once:
  assumes "safe_sender f" and "no_ssl net" and "owns R cli n" and "x_err x \<noteq> retry"
  shows "Client_send_with f net x cli n = Client_send_once f net x cli n"
  using send_once_served(1) [OF assms]
  by (auto simp: Client_send_with_def served_def split: option.splits sum.splits prod.splits)

lemma send_upto_safe: "no_ssl net \<Longrightarrow> safe_sender (Client_send_upto d net)"
proof (induction d)
  case 0
  show ?case by (simp add: safe_sender_def)
next
  case (Suc d)
  note s = Suc.IH [OF Suc.prems]
  show ?case
    unfolding safe_sender_def Client_send_upto.simps
    using send_with_once [OF s Suc.prems] send_once_served(1) [OF s Suc.prems] by auto
qed

section \<open>Termination\<close>

text \<open>A request without a provider cannot be kept from its end: the redirections are counted down.\<close>

definition settled :: "nat \<Rightarrow> ('u, 'p) sent \<Rightarrow> bool" where
  "settled q res \<longleftrightarrow>
     (\<exists>r y cli n. res = Some (r, y, cli, n) \<and> cr_content_provider (x_req y) = None \<and> cr_redirect_count (x_req y) < q)"

definition settles :: "nat \<Rightarrow> ('u, 'p) sender \<Rightarrow> bool" where
  "settles q f \<longleftrightarrow>
     (\<forall>x cli n. cr_content_provider (x_req x) = None \<longrightarrow> cr_redirect_count (x_req x) < q \<longrightarrow> settled q (f x cli n))"

lemma settledI:
  "cr_content_provider (x_req y) = None \<Longrightarrow> cr_redirect_count (x_req y) < q \<Longrightarrow> settled q (Some (r, y, cli, n))"
  by (simp add: settled_def)

text \<open>What no step of an exchange changes.\<close>

definition fixed_part :: "('u, 'p) ClientRequest \<Rightarrow> 'p content \<times> nat" where
  "fixed_part rq = (cr_content_provider rq, cr_redirect_count rq)"

lemma fixed_cl_set_header [simp]: "fixed_part (cl_set_header k v rq) = fixed_part rq"
  by (simp add: fixed_part_def cl_set_header_def)

lemma fixed_unless_header [simp]: "fixed_part (unless_header k v rq) = fixed_part rq"
  by (simp add: unless_header_def)

lemma fixed_insert [simp]: "fixed_part (insert_unless_header kv rq) = fixed_part rq"
  by (simp add: insert_unless_header_def fixed_part_def)

lemma fixed_if: "fixed_part a = fixed_part rq \<Longrightarrow> fixed_part b = fixed_part rq \<Longrightarrow> fixed_part (if c then a else b) = fixed_part rq"
  by simp

lemma fixed_prepare:
  fixes rq :: "('u, 'p) ClientRequest"
  shows "fixed_part (prepare_headers cli cc rq) = fixed_part rq"
proof -
  have "fixed_part (connection_headers cli cc rq) = fixed_part rq" for rq :: "('u, 'p) ClientRequest"
    unfolding connection_headers_def Let_def by (intro fixed_if) (simp_all only: fixed_unless_header fixed_if)
  moreover have "fixed_part (content_headers rq) = fixed_part rq" for rq :: "('u, 'p) ClientRequest"
    unfolding content_headers_def by (intro fixed_if) simp_all
  moreover have "fixed_part (authentication_headers cli rq) = fixed_part rq" for rq :: "('u, 'p) ClientRequest"
    unfolding authentication_headers_def Let_def by (intro fixed_if) (simp_all only: fixed_insert fixed_if)
  ultimately show ?thesis by (simp add: prepare_headers_def)
qed

lemma fixed_defaults: "fixed_part (insert_default_headers cli rq) = fixed_part rq"
proof -
  have "fixed_part (fold insert_unless_header h rq) = fixed_part rq" for h
    by (induction h arbitrary: rq) simp_all
  then show ?thesis by (simp add: insert_default_headers_def)
qed

lemma write_body_returns:
  assumes "cr_content_provider (x_req x) = None"
  shows "\<exists>r t y. write_request_body ready s x = Some (r, t, y) \<and> fixed_part (x_req y) = fixed_part (x_req x)"
proof (cases "rq_body (x_req x) = []")
  case True
  have c: "\<exists>r. client_chunked_loop ready 0 0 True None s = Some (r, None, s)"
    by (subst client_chunked_loop.simps) (simp add: call_provider_def)
  have l: "\<exists>r. client_content_loop ready 0 e 0 None s = Some (r, None, s)" for e
    by (subst client_content_loop.simps) (simp add: call_provider_def)
  have "\<exists>r. Client_write_content_with_provider ready (x_req x) s = Some (r, None, s)"
    using c l assms by (cases "cr_is_chunked (x_req x)") (simp_all add: Client_write_content_with_provider_def)
  then obtain r where w: "Client_write_content_with_provider ready (x_req x) s = Some (r, None, s)" ..
  show ?thesis using True w assms by (cases r) (auto simp: write_request_body_def fixed_part_def)
next
  case False
  obtain ok t where "write_data (rq_body (x_req x)) s = (ok, t)" by fastforce
  then show ?thesis using False by (cases ok) (auto simp: write_request_body_def)
qed

lemma write_request_returns:
  assumes "cr_content_provider (x_req x) = None"
  shows "\<exists>r t y. Client_write_request cli ready cc s x = Some (r, t, y) \<and> fixed_part (x_req y) = fixed_part (x_req x)"
proof -
  let ?rq = "prepare_headers cli cc (x_req x)"
  obtain h d where c: "collect_head cli ?rq = (h, d)" by fastforce
  let ?x = "x\<lparr>x_req := ?rq\<lparr>rq_headers := h\<rparr>\<rparr>"
  have f: "fixed_part (x_req ?x) = fixed_part (x_req x)"
    using fixed_prepare [of cli cc "x_req x"] by (simp add: fixed_part_def)
  obtain ok t where w: "write_data d s = (ok, t)" by fastforce
  show ?thesis
  proof (cases ok)
    case True
    have "\<exists>r t' y. write_request_body ready t ?x = Some (r, t', y) \<and> fixed_part (x_req y) = fixed_part (x_req ?x)"
      by (rule write_body_returns) (use f assms in \<open>simp add: fixed_part_def\<close>)
    then show ?thesis using f True by (simp add: Client_write_request_def c w Let_def)
  next
    case False
    then show ?thesis using f by (simp add: Client_write_request_def c w Let_def)
  qed
qed

lemma response_keeps_request:
  assumes "read_response cli s x = (ret, t, y)"
  shows "x_req y = x_req x"
proof -
  have h: "x_req z = x_req x" if "call_response_handler redirect x = (b, z)" for redirect b z and x :: "('a, 'b) exchange"
    using that by (auto simp: call_response_handler_def split: option.splits if_splits prod.splits bool.splits)
  have b: "x_req y = x_req x" if "read_response_body cli s x = (ret, t, y)" for s and x :: "('a, 'b) exchange"
  proof -
    obtain b z where c: "call_response_handler (is_redirect cli (x_res x)) x = (b, z)" by fastforce
    show ?thesis
      using that h [OF c] unfolding read_response_body_def Let_def c
      by (cases b) (auto split: if_splits prod.splits)
  qed
  obtain b s1 rs where l: "read_response_line (rq_method (x_req x)) s (x_res x) = (b, s1, rs)" by (rule prod_cases3)
  obtain b2 h s2 where g: "read_headers s1 (rs_headers rs) = (b2, h, s2)" by (rule prod_cases3)
  show ?thesis
    using assms b [of s2 "x\<lparr>x_res := rs\<lparr>rs_headers := h\<rparr>\<rparr>"] unfolding read_response_def l
    by (cases b; cases b2) (auto simp: g Let_def split: if_splits)
qed

lemma exchange_returns:
  assumes "cr_content_provider (x_req x) = None"
  shows "\<exists>r d y. exchange_on net k cli cc s x = Some (r, d, y) \<and> fixed_part (x_req y) = fixed_part (x_req x)"
proof (cases "rq_path (x_req x) = []")
  case False
  let ?x = "x\<lparr>x_req := proxy_path cli (x_req x)\<rparr>"
  have f: "fixed_part (x_req ?x) = fixed_part (x_req x)" by (simp add: proxy_path_def fixed_part_def)
  then obtain r t y where w: "Client_write_request cli (net_writable net k) cc s ?x = Some (r, t, y)"
    and y: "fixed_part (x_req y) = fixed_part (x_req x)"
    using write_request_returns [of ?x cli "net_writable net k" cc s] assms by (auto simp: fixed_part_def)
  obtain ret t2 z where rr: "read_response cli t y = (ret, t2, z)" by (rule prod_cases3)
  have z: "fixed_part (x_req z) = fixed_part (x_req x)" using response_keeps_request [OF rr] y by simp
  have "\<exists>r t z. Client_process_request cli (net_writable net k) cc s ?x = Some (r, t, z) \<and> fixed_part (x_req z) = fixed_part (x_req x)"
    using w rr y z by (cases r) (auto simp: Client_process_request_def split: bool.splits)
  then show ?thesis using False by (auto simp: exchange_on_def fixed_part_def)
qed (simp add: exchange_on_def)

lemma redirect_settles:
  assumes "settles q f" and "cr_content_provider (x_req x) = None" and "cr_redirect_count (x_req x) < Suc q"
  shows "settled (Suc q) (Client_redirect f x cli n)"
proof -
  have stay: "settled (Suc q) (Some (r, x\<lparr>x_err := e, x_user := u\<rparr>, c, m))" for r e u c m
    by (rule settledI) (use assms(2,3) in simp_all)
  have d: "settled (Suc q) (detail_redirect f path loc x cli n)" if "cr_redirect_count (x_req x) \<noteq> 0" for path loc cli n
  proof -
    let ?x = "x\<lparr>x_req := redirected_request path (x_res x) (x_req x), x_res := new_ClientResponse\<rparr>"
    have "cr_content_provider (redirected_request path (x_res x) (x_req x)) = None"
      using assms(2) by (simp add: redirected_request_def Let_def)
    then have "settled q (f ?x cli n)"
      using assms(1,3) that unfolding settles_def by (simp add: redirected_count)
    then obtain r y cli' n' where f: "f ?x cli n = Some (r, y, cli', n')" and y: "cr_content_provider (x_req y) = None" "cr_redirect_count (x_req y) < q"
      by (auto simp: settled_def)
    show ?thesis
    proof (cases "r = Inr True")
      case True
      then show ?thesis using f y by (simp add: detail_redirect_def settled_def)
    qed (use f stay in \<open>simp add: detail_redirect_failed\<close>)
  qed
  have s: "settled (Suc q) (Some (r, x, cli, n))" for r cli n
    using stay [where e = "x_err x" and u = "x_user x"] by simp
  have s': "settled (Suc q) (Some (Inr False, x\<lparr>x_err := e\<rparr>, cli, n))" for e
    using stay [where u = "x_user x"] by simp
  have o: "settled (Suc q) (case detail_redirect f path loc x c n of
      Some (r, x, other, n) \<Rightarrow> Some (r, x, cli, Client_destroy other n) | None \<Rightarrow> None)"
    if "cr_redirect_count (x_req x) \<noteq> 0" for path loc c
    using d [OF that, of path loc c n] by (auto simp: settled_def)
  show ?thesis
  proof (cases "cr_redirect_count (x_req x) = 0")
    case False
    then show ?thesis
      unfolding Client_redirect_def Let_def if_not_P [OF False]
      using s d o by (simp split: option.split sum.split)
  qed (use s' in \<open>simp add: Client_redirect_def\<close>)
qed

lemma handle_request_settles:
  assumes "settles q f" and "cr_content_provider (x_req x) = None" and "cr_redirect_count (x_req x) < Suc q"
  shows "settled (Suc q) (Client_handle_request f net k cc s x cli n)"
proof -
  obtain r d y where e: "exchange_on net k cli cc s x = Some (r, d, y)" and y: "fixed_part (x_req y) = fixed_part (x_req x)"
    using exchange_returns [OF assms(2)] by blast
  have s: "settled (Suc q) (Some (r, y, c, m))" for r c m
    by (rule settledI) (use y assms(2,3) in \<open>simp_all add: fixed_part_def\<close>)
  have rd: "settled (Suc q) (Client_redirect f (y\<lparr>x_req := x_req x\<rparr>) c m)" for c m
    by (rule redirect_settles [OF assms(1)]) (use assms(2,3) in simp_all)
  define n1 where "n1 = n\<lparr>n_sent := n_sent n @ [(cl_socket cli, d)]\<rparr>"
  obtain c2 n2 where e2: "(if net_stopped net k then Client_stop cli n1 else (cli, n1)) = (c2, n2)" by fastforce
  obtain c3 n3 where e3: "(if says_close (x_res y) then Client_close_socket c2 n2 else (c2, n2)) = (c3, n3)" by fastforce
  show ?thesis
    unfolding Client_handle_request_def e Let_def option.case prod.case n1_def [symmetric] e2 e3
    using s rd by (simp split: if_split)
qed

lemma send_once_settles:
  assumes "settles q f" and "cr_content_provider (x_req x) = None" and "cr_redirect_count (x_req x) < Suc q"
  shows "settled (Suc q) (Client_send_once f net x cli n)"
proof -
  obtain ok err c1 n1 where e: "ensure_socket net cli (x_err x) n = (ok, err, c1, n1)" by (rule prod_cases4)
  show ?thesis
  proof (cases ok)
    case True
    define x1 where "x1 = x\<lparr>x_req := insert_default_headers (mark_in_flight net c1) (x_req x), x_err := err\<rparr>"
    have "fixed_part (x_req x1) = fixed_part (x_req x)" by (simp add: x1_def fixed_defaults)
    then have "settled (Suc q) (Client_handle_request f net k cc s x1 c m)" for k cc s c m
      using handle_request_settles [OF assms(1)] assms(2,3) by (simp add: fixed_part_def)
    then obtain r y c2 n2 where h: "Client_handle_request f net (n_calls n1) (\<not> cl_keep_alive (mark_in_flight net c1))
          (client_stream net (n_calls n1)) x1 (mark_in_flight net c1) (n1\<lparr>n_calls := Suc (n_calls n1)\<rparr>) = Some (r, y, c2, n2)"
      and y: "cr_content_provider (x_req y) = None" "cr_redirect_count (x_req y) < Suc q"
      unfolding settled_def by blast
    obtain c3 n3 where l: "leave_request (\<not> cl_keep_alive (mark_in_flight net c1)) (r = Inr True) c2 n2 = (c3, n3)" by fastforce
    show ?thesis
      unfolding Client_send_once_def e Let_def using True y by (simp add: x1_def [symmetric] h l settled_def)
  next
    case False
    then show ?thesis using e assms(2,3) by (simp add: Client_send_once_def settled_def)
  qed
qed

lemma send_with_settles:
  assumes "settles q f"
  shows "settles (Suc q) (Client_send_with f net)"
  unfolding settles_def
proof (intro allI impI)
  fix x cli n
  assume x: "cr_content_provider (x_req (x :: ('a, 'b) exchange)) = None" "cr_redirect_count (x_req x) < Suc q"
  from send_once_settles [OF assms x] obtain r y c m where o: "Client_send_once f net x cli n = Some (r, y, c, m)"
    and y: "cr_content_provider (x_req y) = None" "cr_redirect_count (x_req y) < Suc q"
    unfolding settled_def by blast
  show "settled (Suc q) (Client_send_with f net x cli n)"
    using send_once_settles [OF assms y, of net c m] y
    by (cases r) (auto simp: Client_send_with_def o intro!: settledI)
qed

lemma send_upto_settles: "settles d (Client_send_upto d net)"
proof (induction d)
  case 0
  show ?case by (simp add: settles_def)
next
  case (Suc d)
  have "Client_send_upto (Suc d) net = Client_send_with (Client_send_upto d net) net" by (intro ext) simp
  then show ?case using send_with_settles [OF Suc.IH] by simp
qed

lemma send_returns:
  assumes "cr_content_provider (x_req x) = None"
  shows "\<exists>r y cli' n'. Client_send net x cli n = Some (r, y, cli', n')"
proof -
  have "settled (Suc (cr_redirect_count (x_req x))) (Client_send net x cli n)"
    using send_upto_settles [of "Suc (cr_redirect_count (x_req x))" net] assms
    unfolding settles_def Client_send_def by blast
  then show ?thesis by (auto simp: settled_def)
qed

text \<open>C28: No call of \<open>send\<close> leaks a socket, redirections to other servers included: of the sockets that are open afterwards, those that
  the client did not have are the ones that others had before, the number of requests in flight is what it was, and the client's own
  socket is closed unless the client keeps connections alive and the request succeeded. No more requests are made than the count
  of redirections allows.\<close>

theorem client_sockets:
  assumes "Client_send net x cli n = Some (r, y, cli', n')" and "no_ssl net" and "x_err x = Error_Success"
    and "distinct (n_open n)" and "\<forall>k \<in> set (n_open n). k < n_connects n" and "set_option (cl_socket cli) \<subseteq> set (n_open n)"
  shows "distinct (n_open n') \<and> set_option (cl_socket cli') \<subseteq> set (n_open n')
    \<and> set (n_open n') - set_option (cl_socket cli') = set (n_open n) - set_option (cl_socket cli)
    \<and> cl_in_flight cli' = cl_in_flight cli
    \<and> (cl_socket cli' \<noteq> None \<longrightarrow> cl_keep_alive cli \<and> r = Inr True)
    \<and> n_calls n' \<le> n_calls n + Suc (cr_redirect_count (x_req x))"
proof -
  let ?R = "set (n_open n) - set_option (cl_socket cli)"
  let ?f = "Client_send_upto (cr_redirect_count (x_req x)) net"
  have own: "owns ?R cli n" using assms(4-6) by (auto simp: owns_def)
  have s: "safe_sender ?f" by (rule send_upto_safe [OF assms(2)])
  have err: "x_err x \<noteq> retry" using assms(3) by simp
  have o: "Client_send_once ?f net x cli n = Some (r, y, cli', n')"
    using assms(1) send_with_once [OF s assms(2) own err] by (simp add: Client_send_def)
  have "served ?R cli n (Suc (cr_redirect_count (x_req x))) (Some (r, y, cli', n'))"
    using send_once_served(1) [OF s assms(2) own err] o by metis
  then have a: "owns ?R cli' n'" "same_client cli cli'" "n_calls n' \<le> n_calls n + Suc (cr_redirect_count (x_req x))"
    by (simp_all add: served_Some)
  have "distinct (n_open n') \<and> set_option (cl_socket cli') \<subseteq> set (n_open n') \<and> set (n_open n') - set_option (cl_socket cli') = ?R"
    using a(1) by (auto simp: owns_def)
  moreover have "cl_socket cli' \<noteq> None \<longrightarrow> cl_keep_alive cli \<and> r = Inr True"
    using send_once_served(2) [OF s assms(2) own err o] by (cases "cl_keep_alive cli \<and> r = Inr True") simp_all
  ultimately show ?thesis using a(2,3) by (simp add: same_client_def)
qed

text \<open>A network where the first server redirects to another one, which answers.\<close>

definition demo_network :: network where
  "demo_network =
     \<lparr>net_thread = 1, net_connect = (\<lambda>k host ip port. Connected), net_alive = (\<lambda>k. True),
      net_arrivals = (\<lambda>k. ([if k = 0 then ''HTTP/1.1 302 Found'' @ crlf @ ''Location: http://other/'' @ crlf @ ''Content-Length: 0'' @ crlf @ crlf
                            else ''HTTP/1.1 200 OK'' @ crlf @ ''Content-Length: 2'' @ crlf @ crlf @ ''ab''], False)),
      net_plan = (\<lambda>k. []), net_writable = (\<lambda>k i. True), net_stopped = (\<lambda>k. False)\<rparr>"

definition demo_net_state :: net_state where
  "demo_net_state = \<lparr>n_calls = 0, n_connects = 4, n_open = [3], n_sent = []\<rparr>"

definition following_client :: ClientImpl where
  "following_client = (new_ClientImpl ''h'' 80)\<lparr>cl_follow_location := True\<rparr>"

definition demo_get :: "(unit, unit) exchange" where
  "demo_get = demo_exchange (new_ClientRequest\<lparr>rq_method := ''GET'', rq_path := ''/''\<rparr>)"

lemma demo_facts:
  "no_ssl demo_network" "x_err demo_get = Error_Success" "cr_content_provider (x_req demo_get) = None" "cr_redirect_count (x_req demo_get) = 20"
  "cl_socket following_client = None" "\<not> cl_keep_alive following_client" "cl_in_flight following_client = 0"
  by (simp_all add: no_ssl_def demo_network_def demo_get_def demo_exchange_def new_ClientRequest_def following_client_def
      new_ClientImpl_def new_ClientImpl_with_cert_def Let_def Request.defs new_Request_def)

theorem client_sockets_witness:
  "\<exists>r y cli' n'. Client_send demo_network demo_get following_client demo_net_state = Some (r, y, cli', n')
     \<and> cl_socket cli' = None \<and> set (n_open n') = {3} \<and> n_calls n' \<le> 21"
proof -
  obtain r y cli' n' where s: "Client_send demo_network demo_get following_client demo_net_state = Some (r, y, cli', n')"
    using send_returns [OF demo_facts(3)] by blast
  show ?thesis
    using client_sockets [OF s demo_facts(1,2)] s by (auto simp: demo_facts demo_net_state_def)
qed

text \<open>A request without a content provider returns, whatever the network, the server's redirections and the callbacks do, when on every
  connection only finitely many segments arrive (as in \<open>network\<close>): the depth that the count of redirections gives is enough.\<close>

theorem client_send_returns:
  assumes "cr_content_provider (x_req x) = None"
  shows "\<exists>r y cli' n'. Client_send net x cli n = Some (r, y, cli', n')"
  by (rule send_returns [OF assms])

theorem client_send_returns_witness:
  "\<exists>r y cli' n'. Client_send demo_network demo_get following_client demo_net_state = Some (r, y, cli', n')"
  using client_send_returns [OF demo_facts(3)] .

end
