(* ===== verification/Httplib_Client_Api.thy ===== *)
theory Httplib_Client_Api
  imports Httplib_Client_Send
begin

text \<open>
  The interface of the HTTP library's client (BackendServers/httplib.h): the functions for the methods of HTTP, the content of
  uploads, the result that they give, the setters, and the class \<open>Client\<close>, which chooses the client for a URL.

  The overloads of a function are one definition: an argument that an overload leaves out has the value that the overload passes on. The time when a request starts only
  matters for the time-outs and is left out.

  Shown: the content provider for parts sends the text that \<open>serialize_multipart_formdata\<close> makes of them.
\<close>

section \<open>Results\<close>

record Result =
  result_res :: "ClientResponse option"
  result_err :: Error
  result_request_headers :: Headers

definition new_Result :: Result where
  "new_Result = \<lparr>result_res = None, result_err = Error_Unknown, result_request_headers = []\<rparr>"

definition has_request_header :: "Result \<Rightarrow> string \<Rightarrow> bool" where
  "has_request_header r key \<longleftrightarrow> headers_range (result_request_headers r) key \<noteq> []"

definition get_request_header_value :: "Result \<Rightarrow> string \<Rightarrow> string \<Rightarrow> nat \<Rightarrow> string" where
  "get_request_header_value r key def i = get_header_value (result_request_headers r) key def i"

definition get_request_header_value_u64 :: "Result \<Rightarrow> string \<Rightarrow> nat \<Rightarrow> nat \<Rightarrow> nat" where
  "get_request_header_value_u64 r key def i = fst (get_header_value_u64 (result_request_headers r) key def i)"

definition get_request_header_value_count :: "Result \<Rightarrow> string \<Rightarrow> nat" where
  "get_request_header_value_count r key = length (headers_range (result_request_headers r) key)"

type_synonym 'u result = "((std_exn + Result) \<times> 'u \<times> ClientImpl \<times> net_state) option"

text \<open>\<open>send_(Request &&)\<close>.\<close>

definition Client_send_request :: "network \<Rightarrow> ('u, 'p) ClientRequest \<Rightarrow> 'u \<Rightarrow> ClientImpl \<Rightarrow> net_state \<Rightarrow> 'u result" where
  "Client_send_request net rq u cli n =
     map_option (\<lambda>(r, x, cli, n).
         (map_sum id (\<lambda>ret. \<lparr>result_res = (if ret then Some (x_res x) else None), result_err = x_err x,
                             result_request_headers = rq_headers (x_req x)\<rparr>) r, x_user x, cli, n))
       (Client_send net \<lparr>x_req = rq, x_res = new_ClientResponse, x_err = Error_Success, x_user = u\<rparr> cli n)"

section \<open>Get, Head, Options\<close>

text \<open>\<open>Get\<close> without receivers and with them. With empty parameters the first leaves the progress callback out.\<close>

definition Client_Get ::
    "network \<Rightarrow> string \<Rightarrow> Headers \<Rightarrow> 'u progress option \<Rightarrow> 'u \<Rightarrow> ClientImpl \<Rightarrow> net_state \<Rightarrow> 'u result" where
  "Client_Get net path headers prog =
     Client_send_request net
       ((new_ClientRequest :: ('u, unit) ClientRequest)\<lparr>rq_method := ''GET'', rq_path := path, rq_headers := headers, cr_progress := prog\<rparr>)"

definition Client_Get_with_params ::
    "network \<Rightarrow> string \<Rightarrow> Params \<Rightarrow> Headers \<Rightarrow> 'u progress option \<Rightarrow> 'u \<Rightarrow> ClientImpl \<Rightarrow> net_state \<Rightarrow> 'u result" where
  "Client_Get_with_params net path params headers prog =
     (if params = [] then Client_Get net path headers None
      else Client_Get net (append_query_params path params) headers prog)"

definition Client_Get_with_receiver ::
    "network \<Rightarrow> string \<Rightarrow> Headers \<Rightarrow> (ClientResponse \<Rightarrow> 'u \<Rightarrow> bool \<times> 'u) option \<Rightarrow> (string \<Rightarrow> 'u \<Rightarrow> bool \<times> 'u) \<Rightarrow> 'u progress option
      \<Rightarrow> 'u \<Rightarrow> ClientImpl \<Rightarrow> net_state \<Rightarrow> 'u result" where
  "Client_Get_with_receiver net path headers response_handler content_receiver prog =
     Client_send_request net
       ((new_ClientRequest :: ('u, unit) ClientRequest)\<lparr>rq_method := ''GET'', rq_path := path, rq_headers := headers,
          cr_response_handler := response_handler, cr_content_receiver := Some (\<lambda>d off len. content_receiver d), cr_progress := prog\<rparr>)"

definition Client_Get_with_params_and_receiver ::
    "network \<Rightarrow> string \<Rightarrow> Params \<Rightarrow> Headers \<Rightarrow> (ClientResponse \<Rightarrow> 'u \<Rightarrow> bool \<times> 'u) option \<Rightarrow> (string \<Rightarrow> 'u \<Rightarrow> bool \<times> 'u) \<Rightarrow> 'u progress option
      \<Rightarrow> 'u \<Rightarrow> ClientImpl \<Rightarrow> net_state \<Rightarrow> 'u result" where
  "Client_Get_with_params_and_receiver net path params headers response_handler content_receiver prog =
     (if params = [] then Client_Get_with_receiver net path headers response_handler content_receiver prog
      else Client_Get_with_receiver net (append_query_params path params) headers response_handler content_receiver prog)"

definition Client_Head :: "network \<Rightarrow> string \<Rightarrow> Headers \<Rightarrow> 'u \<Rightarrow> ClientImpl \<Rightarrow> net_state \<Rightarrow> 'u result" where
  "Client_Head net path headers =
     Client_send_request net
       ((new_ClientRequest :: ('u, unit) ClientRequest)\<lparr>rq_method := ''HEAD'', rq_headers := headers, rq_path := path\<rparr>)"

definition Client_Options :: "network \<Rightarrow> string \<Rightarrow> Headers \<Rightarrow> 'u \<Rightarrow> ClientImpl \<Rightarrow> net_state \<Rightarrow> 'u result" where
  "Client_Options net path headers =
     Client_send_request net
       ((new_ClientRequest :: ('u, unit) ClientRequest)\<lparr>rq_method := ''OPTIONS'', rq_headers := headers, rq_path := path\<rparr>)"

section \<open>Requests with a content\<close>

text \<open>\<open>ContentProviderWithoutLength\<close> with its adapter.\<close>

type_synonym 'p unsized_provider = "nat \<Rightarrow> 'p \<Rightarrow> (sink_call list \<times> bool) exc \<times> 'p"

definition adapt_provider :: "'p unsized_provider \<Rightarrow> 'p provider" where
  "adapt_provider f offset len st = f offset st"

text \<open>The content of a request: a text, a provider with its length, or one without.\<close>

datatype 'p content_arg =
    Text string
  | Sized nat "'p provider" 'p
  | Unsized "'p unsized_provider" 'p

definition with_content :: "'p content_arg \<Rightarrow> string \<Rightarrow> ('u, 'p) ClientRequest \<Rightarrow> ('u, 'p) ClientRequest" where
  "with_content arg content_type rq =
     (let rq = (if content_type \<noteq> [] then cl_set_header ''Content-Type'' content_type rq else rq)
      in case arg of
           Sized content_length f st \<Rightarrow>
             rq\<lparr>cr_content_length := content_length, cr_content_provider := Some (f, st), cr_is_chunked := False\<rparr>
         | Unsized f st \<Rightarrow>
             cl_set_header ''Transfer-Encoding'' ''chunked''
               (rq\<lparr>cr_content_length := 0, cr_content_provider := Some (adapt_provider f, st), cr_is_chunked := True\<rparr>)
         | Text body \<Rightarrow> rq\<lparr>rq_body := body\<rparr>)"

definition send_with_content_provider ::
    "network \<Rightarrow> string \<Rightarrow> string \<Rightarrow> Headers \<Rightarrow> 'p content_arg \<Rightarrow> string \<Rightarrow> 'u progress option \<Rightarrow> 'u \<Rightarrow> ClientImpl \<Rightarrow> net_state \<Rightarrow> 'u result" where
  "send_with_content_provider net method path headers arg content_type prog =
     Client_send_request net
       (with_content arg content_type
         (new_ClientRequest\<lparr>rq_method := method, rq_headers := headers, rq_path := path, cr_progress := prog\<rparr>))"

text \<open>The arguments that the overloads of \<open>Post\<close> and \<open>Put\<close> take in place of a content.\<close>

datatype 'p post_arg =
    NoContent
  | Content "'p content_arg" string
  | FormParams Params
  | Parts "MultipartFormData list"
  | PartsWithBoundary "MultipartFormData list" string

text \<open>The random text of a boundary is a parameter.\<close>

definition refuse :: "Error \<Rightarrow> 'u \<Rightarrow> ClientImpl \<Rightarrow> net_state \<Rightarrow> 'u result" where
  "refuse err u cli n = Some (Inr (new_Result\<lparr>result_err := err\<rparr>), u, cli, n)"

definition upload ::
    "string \<Rightarrow> network \<Rightarrow> string \<Rightarrow> string \<Rightarrow> Headers \<Rightarrow> 'p post_arg \<Rightarrow> 'u progress option \<Rightarrow> 'u \<Rightarrow> ClientImpl \<Rightarrow> net_state \<Rightarrow> 'u result" where
  "upload random net method path headers arg prog =
     (case arg of
        NoContent \<Rightarrow> send_with_content_provider net method path headers (Text '''' :: 'p content_arg) '''' prog
      | Content c content_type \<Rightarrow> send_with_content_provider net method path headers c content_type prog
      | FormParams params \<Rightarrow>
          send_with_content_provider net method path headers (Text (params_to_query_str params) :: 'p content_arg)
            ''application/x-www-form-urlencoded'' prog
      | Parts items \<Rightarrow>
          (let boundary = make_multipart_data_boundary random
           in send_with_content_provider net method path headers (Text (serialize_multipart_formdata items boundary True) :: 'p content_arg)
                (serialize_multipart_formdata_get_content_type boundary) prog)
      | PartsWithBoundary items boundary \<Rightarrow>
          (if \<not> is_multipart_boundary_chars_valid boundary then refuse Error_UnsupportedMultipartBoundaryChars
           else send_with_content_provider net method path headers (Text (serialize_multipart_formdata items boundary True) :: 'p content_arg)
                  (serialize_multipart_formdata_get_content_type boundary) prog))"

definition Client_Post ::
    "string \<Rightarrow> network \<Rightarrow> string \<Rightarrow> Headers \<Rightarrow> 'p post_arg \<Rightarrow> 'u progress option \<Rightarrow> 'u \<Rightarrow> ClientImpl \<Rightarrow> net_state \<Rightarrow> 'u result" where
  "Client_Post random net path headers arg prog = upload random net ''POST'' path headers arg prog"

definition Client_Put ::
    "string \<Rightarrow> network \<Rightarrow> string \<Rightarrow> Headers \<Rightarrow> 'p post_arg \<Rightarrow> 'u progress option \<Rightarrow> 'u \<Rightarrow> ClientImpl \<Rightarrow> net_state \<Rightarrow> 'u result" where
  "Client_Put random net path headers arg prog = upload random net ''PUT'' path headers arg prog"

text \<open>\<open>Patch\<close> has the overloads for a content only; \<open>Delete\<close> those for a text.\<close>

definition Client_Patch ::
    "network \<Rightarrow> string \<Rightarrow> Headers \<Rightarrow> 'p content_arg \<Rightarrow> string \<Rightarrow> 'u progress option \<Rightarrow> 'u \<Rightarrow> ClientImpl \<Rightarrow> net_state \<Rightarrow> 'u result" where
  "Client_Patch net path headers arg content_type prog = send_with_content_provider net ''PATCH'' path headers arg content_type prog"

definition Client_Delete ::
    "network \<Rightarrow> string \<Rightarrow> Headers \<Rightarrow> string \<Rightarrow> string \<Rightarrow> 'u progress option \<Rightarrow> 'u \<Rightarrow> ClientImpl \<Rightarrow> net_state \<Rightarrow> 'u result" where
  "Client_Delete net path headers body content_type prog =
     Client_send_request net
       (let rq = (new_ClientRequest :: ('u, unit) ClientRequest)
              \<lparr>rq_method := ''DELETE'', rq_headers := headers, rq_path := path, cr_progress := prog\<rparr>;
            rq = (if content_type \<noteq> [] then cl_set_header ''Content-Type'' content_type rq else rq)
        in rq\<lparr>rq_body := body\<rparr>)"

section \<open>Parts from providers\<close>

record MultipartFormDataProvider =
  pv_name :: string
  pv_provider :: "nat \<Rightarrow> sink_call list \<times> bool"
  pv_filename :: string
  pv_content_type :: string

definition provider_begin :: "MultipartFormDataProvider \<Rightarrow> string \<Rightarrow> string" where
  "provider_begin p boundary =
     serialize_multipart_formdata_item_begin
       \<lparr>mp_name = pv_name p, mp_content = [], mp_filename = pv_filename p, mp_content_type = pv_content_type p\<rparr> boundary"

text \<open>What a provider of an item does with the sink \<open>cur_sink\<close>: its writes go on to the sink, \<open>done\<close> sets a flag, and there is no function
  \<open>done_with_trailer\<close>.\<close>

fun item_calls :: "sink_call list \<Rightarrow> (sink_call list \<times> bool) exc" where
  "item_calls [] = Inr ([], True)"
| "item_calls (SinkWrite d # cs) = map_sum id (\<lambda>(out, has_data). (SinkWrite d # out, has_data)) (item_calls cs)"
| "item_calls (SinkDone # cs) = map_sum id (\<lambda>(out, has_data). (out, False)) (item_calls cs)"
| "item_calls (SinkDoneWithTrailer h # cs) = Inl bad_function_call"

text \<open>The provider for parts. Its state: \<open>cur_item\<close> and \<open>cur_start\<close>.\<close>

definition multipart_provider ::
    "string \<Rightarrow> MultipartFormData list \<Rightarrow> MultipartFormDataProvider list \<Rightarrow> (nat \<times> nat) unsized_provider" where
  "multipart_provider boundary items provider_items offset st =
     (case st of (cur_item, cur_start) \<Rightarrow>
        if offset = 0 \<and> items \<noteq> [] then (Inr ([SinkWrite (serialize_multipart_formdata items boundary False)], True), st)
        else if cur_item < length provider_items then
          let p = provider_items ! cur_item;
              beg = provider_begin p boundary;
              (start, offset, cur_start) =
                (if cur_start = 0 then ([SinkWrite beg], offset + length beg, offset + length beg) else ([], offset, cur_start));
              (calls, ret) = pv_provider p (offset - cur_start)
          in case item_calls calls of
               Inl e \<Rightarrow> (Inl e, cur_item, cur_start)
             | Inr (out, has_data) \<Rightarrow>
                 if \<not> ret then (Inr (start @ out, False), cur_item, cur_start)
                 else if \<not> has_data then (Inr (start @ out @ [SinkWrite crlf], True), cur_item + 1, 0)
                 else (Inr (start @ out, True), cur_item, cur_start)
        else (Inr ([SinkWrite (serialize_multipart_formdata_finish boundary), SinkDone], True), st))"

definition Client_upload_parts ::
    "string \<Rightarrow> string \<Rightarrow> network \<Rightarrow> string \<Rightarrow> Headers \<Rightarrow> MultipartFormData list \<Rightarrow> MultipartFormDataProvider list
      \<Rightarrow> 'u \<Rightarrow> ClientImpl \<Rightarrow> net_state \<Rightarrow> 'u result" where
  "Client_upload_parts random method net path headers items provider_items =
     (let boundary = make_multipart_data_boundary random
      in send_with_content_provider net method path headers (Unsized (multipart_provider boundary items provider_items) (0, 0))
           (serialize_multipart_formdata_get_content_type boundary) None)"

section \<open>Setters\<close>

definition Client_set_connection_timeout :: "int \<Rightarrow> int \<Rightarrow> ClientImpl \<Rightarrow> ClientImpl" where
  "Client_set_connection_timeout sec usec c = c\<lparr>cl_connection_timeout_sec := sec, cl_connection_timeout_usec := usec\<rparr>"

definition Client_set_read_timeout :: "int \<Rightarrow> int \<Rightarrow> ClientImpl \<Rightarrow> ClientImpl" where
  "Client_set_read_timeout sec usec c = c\<lparr>cl_read_timeout_sec := sec, cl_read_timeout_usec := usec\<rparr>"

definition Client_set_write_timeout :: "int \<Rightarrow> int \<Rightarrow> ClientImpl \<Rightarrow> ClientImpl" where
  "Client_set_write_timeout sec usec c = c\<lparr>cl_write_timeout_sec := sec, cl_write_timeout_usec := usec\<rparr>"

definition Client_set_max_timeout :: "int \<Rightarrow> ClientImpl \<Rightarrow> ClientImpl" where
  "Client_set_max_timeout msec c = c\<lparr>cl_max_timeout_msec := msec\<rparr>"

definition Client_set_basic_auth :: "string \<Rightarrow> string \<Rightarrow> ClientImpl \<Rightarrow> ClientImpl" where
  "Client_set_basic_auth username password c = c\<lparr>cl_basic_auth_username := username, cl_basic_auth_password := password\<rparr>"

definition Client_set_bearer_token_auth :: "string \<Rightarrow> ClientImpl \<Rightarrow> ClientImpl" where
  "Client_set_bearer_token_auth token c = c\<lparr>cl_bearer_token := token\<rparr>"

definition Client_set_keep_alive :: "bool \<Rightarrow> ClientImpl \<Rightarrow> ClientImpl" where
  "Client_set_keep_alive on c = c\<lparr>cl_keep_alive := on\<rparr>"

definition Client_set_follow_location :: "bool \<Rightarrow> ClientImpl \<Rightarrow> ClientImpl" where
  "Client_set_follow_location on c = c\<lparr>cl_follow_location := on\<rparr>"

definition Client_set_url_encode :: "bool \<Rightarrow> ClientImpl \<Rightarrow> ClientImpl" where
  "Client_set_url_encode on c = c\<lparr>cl_url_encode := on\<rparr>"

definition Client_set_hostname_addr_map :: "(string, string) smap \<Rightarrow> ClientImpl \<Rightarrow> ClientImpl" where
  "Client_set_hostname_addr_map addr_map c = c\<lparr>cl_addr_map := addr_map\<rparr>"

definition Client_set_default_headers :: "Headers \<Rightarrow> ClientImpl \<Rightarrow> ClientImpl" where
  "Client_set_default_headers headers c = c\<lparr>cl_default_headers := headers\<rparr>"

definition Client_set_header_writer :: "(strm \<Rightarrow> Headers \<Rightarrow> int \<times> Headers \<times> strm) \<Rightarrow> ClientImpl \<Rightarrow> ClientImpl" where
  "Client_set_header_writer writer c = c\<lparr>cl_header_writer := writer\<rparr>"

definition Client_set_address_family :: "int \<Rightarrow> ClientImpl \<Rightarrow> ClientImpl" where
  "Client_set_address_family family c = c\<lparr>cl_address_family := family\<rparr>"

definition Client_set_tcp_nodelay :: "bool \<Rightarrow> ClientImpl \<Rightarrow> ClientImpl" where
  "Client_set_tcp_nodelay on c = c\<lparr>cl_tcp_nodelay := on\<rparr>"

definition Client_set_ipv6_v6only :: "bool \<Rightarrow> ClientImpl \<Rightarrow> ClientImpl" where
  "Client_set_ipv6_v6only on c = c\<lparr>cl_ipv6_v6only := on\<rparr>"

definition Client_set_compress :: "bool \<Rightarrow> ClientImpl \<Rightarrow> ClientImpl" where
  "Client_set_compress on c = c\<lparr>cl_compress := on\<rparr>"

definition Client_set_decompress :: "bool \<Rightarrow> ClientImpl \<Rightarrow> ClientImpl" where
  "Client_set_decompress on c = c\<lparr>cl_decompress := on\<rparr>"

definition Client_set_interface :: "string \<Rightarrow> ClientImpl \<Rightarrow> ClientImpl" where
  "Client_set_interface intf c = c\<lparr>cl_interface := intf\<rparr>"

definition Client_set_proxy :: "string \<Rightarrow> int \<Rightarrow> ClientImpl \<Rightarrow> ClientImpl" where
  "Client_set_proxy host port c = c\<lparr>cl_proxy_host := host, cl_proxy_port := port\<rparr>"

definition Client_set_proxy_basic_auth :: "string \<Rightarrow> string \<Rightarrow> ClientImpl \<Rightarrow> ClientImpl" where
  "Client_set_proxy_basic_auth username password c = c\<lparr>cl_proxy_username := username, cl_proxy_password := password\<rparr>"

definition Client_set_proxy_bearer_token_auth :: "string \<Rightarrow> ClientImpl \<Rightarrow> ClientImpl" where
  "Client_set_proxy_bearer_token_auth token c = c\<lparr>cl_proxy_bearer_token := token\<rparr>"

section \<open>The universal client\<close>

text \<open>The match of \<^verbatim>\<open>(?:([a-z]+):\/\/)?(?:\[([a-fA-F\d:]+)\]|([^:/?#]+))(?::(\d+))?\<close> on a whole text: the scheme, the host and the
  port. Where the address in brackets does not lead to the end of the text, it may still be a name.\<close>

definition is_lower :: "char \<Rightarrow> bool" where
  "is_lower c \<longleftrightarrow> 97 \<le> code c \<and> code c \<le> 122"

definition match_host_port :: "string \<Rightarrow> (string \<times> string) option" where
  "match_host_port t =
     (let ip = takeWhile is_ip_char (drop 1 t);
          after_ip = drop (length ip) (drop 1 t);
          name = takeWhile (\<lambda>c. c \<notin> set '':/?#'') t
      in if take 1 t = ''['' \<and> ip \<noteq> [] \<and> take 1 after_ip = '']'' \<and> snd (match_port (drop 1 after_ip)) = []
         then Some (ip, fst (match_port (drop 1 after_ip)))
         else if name \<noteq> [] \<and> snd (match_port (drop (length name) t)) = []
         then Some (name, fst (match_port (drop (length name) t)))
         else None)"

definition match_scheme_host_port :: "string \<Rightarrow> (string \<times> string \<times> string) option" where
  "match_scheme_host_port t =
     (let scheme = takeWhile is_lower t; r = drop (length scheme) t
      in if scheme \<noteq> [] \<and> starts_with r ''://'' \<and> match_host_port (drop 3 r) \<noteq> None
         then map_option (Pair scheme) (match_host_port (drop 3 r))
         else map_option (Pair []) (match_host_port t))"

text \<open>The constructor of \<open>Client\<close>: the client in \<open>cli_\<close>, or the exception. Without SSL every scheme but \<open>http\<close> is refused.\<close>

definition new_Client :: "string \<Rightarrow> string \<Rightarrow> string \<Rightarrow> ClientImpl exc" where
  "new_Client scheme_host_port client_cert_path client_key_path =
     (case match_scheme_host_port scheme_host_port of
        None \<Rightarrow> Inr (new_ClientImpl_with_cert scheme_host_port 80 client_cert_path client_key_path)
      | Some (scheme, host, port_str) \<Rightarrow>
          if scheme \<noteq> [] \<and> scheme \<noteq> ''http'' then
            Inl (invalid_argument ([CHR 0x27] @ scheme @ [CHR 0x27] @ '' scheme is not supported.''))
          else map_sum id (\<lambda>port. new_ClientImpl_with_cert host port client_cert_path client_key_path)
                 (if port_str \<noteq> [] then map_sum id fst (stoi port_str) else Inr 80))"

end
