(* ===== verification/Httplib_Client_Parts.thy ===== *)
theory Httplib_Client_Parts
  imports Httplib_Client_Api
begin

text \<open>
  Uploads of parts by the HTTP library's client (BackendServers/httplib.h, \<open>get_multipart_content_provider\<close>): the provider, a state machine that is called
  until it says that it is done, sends in chunks the very text that \<open>serialize_multipart_formdata\<close> makes of the parts, those
  whose content a provider of the caller gives included; the library's own reader of chunks gets that text back.
\<close>

section \<open>Rounds of the loop\<close>

lemma chunk_sink_writes:
  "[] \<notin> set ws \<Longrightarrow> wr_plan s = [] \<Longrightarrow>
   chunk_sink (map SinkWrite ws @ cs) offset da True s
     = chunk_sink cs (offset + length (concat ws)) (ws \<noteq> [] \<or> da) True (s\<lparr>outbuf := outbuf s @ concat (map chunk_text ws)\<rparr>)"
  by (induction ws arbitrary: offset da s) (auto simp: add.assoc)

lemma round_continues:
  assumes "f offset st = (Inr (map SinkWrite ws, True), st')" and "[] \<notin> set ws" and "wr_plan s = []" and "ready i"
  shows "client_chunked_loop ready i offset True (Some (adapt_provider f, st)) s
    = client_chunked_loop ready (Suc i) (offset + length (concat ws)) True (Some (adapt_provider f, st'))
        (s\<lparr>outbuf := outbuf s @ concat (map chunk_text ws)\<rparr>)"
proof -
  have "chunk_sink (map SinkWrite ws) offset True True s
      = (offset + length (concat ws), True, True, s\<lparr>outbuf := outbuf s @ concat (map chunk_text ws)\<rparr>)"
    using chunk_sink_writes [OF assms(2,3), of "[]" offset True] by simp
  then show ?thesis
    using assms(1,4) by (subst client_chunked_loop.simps) (simp add: call_provider_def adapt_provider_def)
qed

lemma last_round:
  assumes "f offset st = (Inr (map SinkWrite ws @ [SinkDone], True), st')" and "[] \<notin> set ws" and "wr_plan s = []" and "ready i"
  shows "client_chunked_loop ready i offset True (Some (adapt_provider f, st)) s
    = Some (Inr Error_Success, Some (adapt_provider f, st'),
        s\<lparr>outbuf := outbuf s @ concat (map chunk_text ws) @ ''0'' @ crlf @ crlf\<rparr>)"
proof -
  have "chunk_sink (map SinkWrite ws @ [SinkDone]) offset True True s
      = (offset + length (concat ws), False, True, s\<lparr>outbuf := outbuf s @ concat (map chunk_text ws) @ ''0'' @ crlf @ crlf\<rparr>)"
    using assms(3) by (simp add: chunk_sink_writes [OF assms(2,3)] done_with_trailer_def)
  moreover have "client_chunked_loop ready (Suc i) o' False prov s' = Some (Inr Error_Success, prov, s')" for o' s' and prov :: "'a content"
    by (subst client_chunked_loop.simps) simp
  ultimately show ?thesis
    using assms(1,4) by (subst client_chunked_loop.simps) (simp add: call_provider_def adapt_provider_def)
qed

section \<open>The provider of parts\<close>

text \<open>A caller's provider that gives a content piece by piece, at the offsets where the pieces start, and then says that it is done.\<close>

definition gives :: "MultipartFormDataProvider \<Rightarrow> string list \<Rightarrow> bool" where
  "gives p ds \<longleftrightarrow> [] \<notin> set ds \<and> pv_provider p (length (concat ds)) = ([SinkDone], True)
     \<and> (\<forall>j < length ds. pv_provider p (length (concat (take j ds))) = ([SinkWrite (ds ! j)], True))"

definition item_of :: "MultipartFormDataProvider \<Rightarrow> string list \<Rightarrow> MultipartFormData" where
  "item_of p ds = \<lparr>mp_name = pv_name p, mp_content = concat ds, mp_filename = pv_filename p, mp_content_type = pv_content_type p\<rparr>"

text \<open>The chunks of the parts from number \<open>k\<close> on.\<close>

fun part_chunks :: "string \<Rightarrow> (MultipartFormDataProvider \<times> string list) list \<Rightarrow> string list" where
  "part_chunks boundary [] = [serialize_multipart_formdata_finish boundary]"
| "part_chunks boundary ((p, ds) # ps) = provider_begin p boundary # ds @ crlf # part_chunks boundary ps"

lemma part_chunks_text:
  "concat (part_chunks boundary ps) = serialize_multipart_formdata (map (\<lambda>(p, ds). item_of p ds) ps) boundary True"
  by (induction boundary ps rule: part_chunks.induct)
     (simp_all add: serialize_multipart_formdata_def item_of_def provider_begin_def serialize_multipart_formdata_item_begin_def)

lemma begin_not_empty: "provider_begin p boundary \<noteq> []"
  by (simp add: provider_begin_def serialize_multipart_formdata_item_begin_def)

lemma part_chunks_not_empty: "\<forall>(p, ds) \<in> set ps. gives p ds \<Longrightarrow> [] \<notin> set (part_chunks boundary ps)"
  by (induction boundary ps rule: part_chunks.induct)
     (auto simp: begin_not_empty [symmetric] gives_def crlf_def serialize_multipart_formdata_finish_def)

text \<open>What is left to send, and that it is sent.\<close>

definition sends :: "(nat \<Rightarrow> bool) \<Rightarrow> 'p unsized_provider \<Rightarrow> nat \<Rightarrow> 'p \<Rightarrow> string list \<Rightarrow> bool" where
  "sends ready f offset st cs \<longleftrightarrow>
     (\<forall>i s. wr_plan s = [] \<longrightarrow>
        (\<exists>st'. client_chunked_loop ready i offset True (Some (adapt_provider f, st)) s
           = Some (Inr Error_Success, Some (adapt_provider f, st'), s\<lparr>outbuf := outbuf s @ concat (map chunk_text cs) @ ''0'' @ crlf @ crlf\<rparr>)))"

lemma sends_step:
  assumes "f offset st = (Inr (map SinkWrite ws, True), st')" and "[] \<notin> set ws" and "\<forall>i. ready i"
    and "sends ready f (offset + length (concat ws)) st' cs"
  shows "sends ready f offset st (ws @ cs)"
  unfolding sends_def
proof (intro allI impI)
  fix i and s :: strm
  assume w: "wr_plan s = []"
  let ?s = "s\<lparr>outbuf := outbuf s @ concat (map chunk_text ws)\<rparr>"
  have "wr_plan ?s = []" using w by simp
  then obtain st2 where "client_chunked_loop ready (Suc i) (offset + length (concat ws)) True (Some (adapt_provider f, st')) ?s
      = Some (Inr Error_Success, Some (adapt_provider f, st2), ?s\<lparr>outbuf := outbuf ?s @ concat (map chunk_text cs) @ ''0'' @ crlf @ crlf\<rparr>)"
    using assms(4) unfolding sends_def by blast
  then show "\<exists>st'. client_chunked_loop ready i offset True (Some (adapt_provider f, st)) s
      = Some (Inr Error_Success, Some (adapt_provider f, st'), s\<lparr>outbuf := outbuf s @ concat (map chunk_text (ws @ cs)) @ ''0'' @ crlf @ crlf\<rparr>)"
    using round_continues [of f offset st ws st' s ready i] assms(1-3) w by simp
qed

lemma sends_last:
  assumes "f offset st = (Inr (map SinkWrite ws @ [SinkDone], True), st')" and "[] \<notin> set ws" and "\<forall>i. ready i"
  shows "sends ready f offset st ws"
  unfolding sends_def using last_round [where f = f and ws = ws, OF assms(1,2)] assms(3) by blast


section \<open>The parts in their order\<close>

text \<open>The provider in each of its states.\<close>

lemma provider_end:
  assumes "k = length pvs" and "offset \<noteq> 0 \<or> items = []"
  shows "multipart_provider bd items pvs offset (k, c) = (Inr (map SinkWrite [serialize_multipart_formdata_finish bd] @ [SinkDone], True), (k, c))"
  using assms by (auto simp: multipart_provider_def)

lemma provider_items:
  "items \<noteq> [] \<Longrightarrow> multipart_provider bd items pvs 0 (k, c) = (Inr (map SinkWrite [serialize_multipart_formdata items bd False], True), (k, c))"
  by (simp add: multipart_provider_def)

lemma provider_piece:
  assumes "k < length pvs" and "gives (pvs ! k) ds" and "c \<noteq> 0" and "j < length ds" and "offset = c + length (concat (take j ds))"
  shows "multipart_provider bd items pvs offset (k, c) = (Inr (map SinkWrite [ds ! j], True), (k, c))"
  using assms by (simp add: multipart_provider_def gives_def)

lemma provider_done:
  assumes "k < length pvs" and "gives (pvs ! k) ds" and "c \<noteq> 0" and "offset = c + length (concat ds)"
  shows "multipart_provider bd items pvs offset (k, c) = (Inr (map SinkWrite [crlf], True), (Suc k, 0))"
  using assms by (simp add: multipart_provider_def gives_def)

lemma provider_first:
  assumes "k < length pvs" and "gives (pvs ! k) ds" and "offset \<noteq> 0 \<or> items = []" and "beg = provider_begin (pvs ! k) bd"
  shows "multipart_provider bd items pvs offset (k, 0)
    = (if ds = [] then (Inr (map SinkWrite [beg, crlf], True), (Suc k, 0))
       else (Inr (map SinkWrite [beg, hd ds], True), (k, offset + length beg)))"
proof -
  have "pv_provider (pvs ! k) 0 = (if ds = [] then ([SinkDone], True) else ([SinkWrite (hd ds)], True))"
    using assms(2) by (cases ds) (auto simp: gives_def)
  then show ?thesis using assms(1,3,4) by (simp add: multipart_provider_def Let_def)
qed

text \<open>The rest of an item, and then what follows.\<close>

lemma sends_pieces:
  assumes "k < length pvs" and "gives (pvs ! k) ds" and "c \<noteq> 0" and "\<forall>i. ready i"
    and "\<And>offset. offset \<noteq> 0 \<Longrightarrow> sends ready (multipart_provider bd items pvs) offset (Suc k, 0) cs"
    and "j \<le> length ds"
  shows "sends ready (multipart_provider bd items pvs) (c + length (concat (take j ds))) (k, c) (drop j ds @ crlf # cs)"
  using assms(6)
proof (induction j rule: inc_induct)
  case base
  have "sends ready (multipart_provider bd items pvs) (c + length (concat ds)) (k, c) ([crlf] @ cs)"
    by (rule sends_step [OF provider_done [OF assms(1-3) refl] _ assms(4) assms(5)]) (simp_all add: crlf_def)
  then show ?case by simp
next
  case (step j)
  have t: "c + length (concat (take (Suc j) ds)) = c + length (concat (take j ds)) + length (concat [ds ! j])"
    using step.hyps by (simp add: take_Suc_conv_app_nth)
  have "ds ! j \<in> set ds" using step.hyps by simp
  then have "[] \<notin> set [ds ! j]" using assms(2) by (auto simp: gives_def)
  from sends_step [OF provider_piece [OF assms(1-3) step.hyps(2) refl] this assms(4) step.IH [unfolded t]]
  have "sends ready (multipart_provider bd items pvs) (c + length (concat (take j ds))) (k, c) ([ds ! j] @ drop (Suc j) ds @ crlf # cs)" .
  then show ?case using Cons_nth_drop_Suc [OF step.hyps(2)] by (metis append_Cons append_Nil)
qed

lemma sends_parts:
  assumes "\<forall>i. ready i"
  shows "pvs = before @ map fst ps \<Longrightarrow> \<forall>(p, ds) \<in> set ps. gives p ds \<Longrightarrow> offset \<noteq> 0 \<or> items = [] \<Longrightarrow>
    sends ready (multipart_provider bd items pvs) offset (length before, 0) (part_chunks bd ps)"
proof (induction ps arbitrary: before offset)
  case Nil
  have "[] \<notin> set [serialize_multipart_formdata_finish bd]" by (simp add: serialize_multipart_formdata_finish_def)
  from sends_last [where f = "multipart_provider bd items pvs" and offset = offset and st = "(length before, 0)" and ready = ready,
      OF provider_end this assms] Nil
  show ?case by simp
next
  case (Cons pd ps)
  obtain p ds where pd: "pd = (p, ds)" by fastforce
  have k: "length before < length pvs" "pvs ! length before = p" and g: "gives (pvs ! length before) ds"
    using Cons.prems(1,2) pd by auto
  let ?f = "multipart_provider bd items pvs" and ?b = "provider_begin p bd"
  have later: "sends ready ?f offset' (Suc (length before), 0) (part_chunks bd ps)" if "offset' \<noteq> 0" for offset'
    using Cons.IH [of "before @ [p]" offset'] Cons.prems(1,2) pd that by simp
  note first = provider_first [OF k(1) g Cons.prems(3) refl, unfolded k(2)]
  have b: "?b \<noteq> []" by (rule begin_not_empty)
  show ?case
  proof (cases ds)
    case Nil
    have "sends ready ?f offset (length before, 0) ([?b, crlf] @ part_chunks bd ps)"
      by (rule sends_step [OF _ _ assms later]) (use first Nil b in \<open>simp_all add: crlf_def\<close>)
    then show ?thesis using Nil pd by simp
  next
    case (Cons d es)
    have "[] \<notin> set [?b, d]" using b g Cons by (auto simp: gives_def)
    moreover have "sends ready ?f (offset + length (concat [?b, d])) (length before, offset + length ?b) (drop 1 ds @ crlf # part_chunks bd ps)"
      using sends_pieces [OF k(1) g _ assms later, of "offset + length ?b" 1] Cons b by (simp add: add.assoc)
    moreover have "?f offset (length before, 0) = (Inr (map SinkWrite [?b, d], True), (length before, offset + length ?b))"
      using first Cons by simp
    ultimately have "sends ready ?f offset (length before, 0) ([?b, d] @ drop 1 ds @ crlf # part_chunks bd ps)"
      by (intro sends_step [where f = ?f and ws = "[?b, d]" and st' = "(length before, offset + length ?b)"] assms)
    then show ?thesis using Cons pd by simp
  qed
qed

lemma sends_all:
  assumes "\<forall>i. ready i" and "\<forall>(p, ds) \<in> set ps. gives p ds"
  shows "\<exists>cs. sends ready (multipart_provider bd items (map fst ps)) 0 (0, 0) cs \<and> [] \<notin> set cs
    \<and> concat cs = serialize_multipart_formdata (items @ map (\<lambda>(p, ds). item_of p ds) ps) bd True"
proof (cases items)
  case Nil
  show ?thesis
    using sends_parts [OF assms(1), where pvs = "map fst ps" and before = "[]" and ps = ps and offset = 0 and items = items and bd = bd] Nil assms(2) part_chunks_not_empty [OF assms(2)]
    by (auto simp: part_chunks_text)
next
  case (Cons j js)
  let ?t = "serialize_multipart_formdata items bd False"
  have t: "?t \<noteq> []" using Cons by (simp add: serialize_multipart_formdata_def serialize_multipart_formdata_item_begin_def)
  have "sends ready (multipart_provider bd items (map fst ps)) (0 + length (concat [?t])) (0, 0) (part_chunks bd ps)"
    using sends_parts [OF assms(1), where pvs = "map fst ps" and before = "[]" and ps = ps and offset = "length ?t" and items = items and bd = bd] assms(2) t by simp
  then have "sends ready (multipart_provider bd items (map fst ps)) 0 (0, 0) ([?t] @ part_chunks bd ps)"
    using t provider_items [of items bd "map fst ps" 0 0] Cons
    by (intro sends_step [where ws = "[?t]" and st' = "(0, 0)"] assms(1)) simp_all
  moreover have "concat ([?t] @ part_chunks bd ps) = serialize_multipart_formdata (items @ map (\<lambda>(p, ds). item_of p ds) ps) bd True"
    by (simp add: part_chunks_text) (simp add: serialize_multipart_formdata_def)
  ultimately show ?thesis using t part_chunks_not_empty [OF assms(2)] by (metis (no_types) Un_iff list.set_intros(1) list.set(1) set_append empty_iff set_ConsD)
qed

section \<open>What goes over the wire\<close>

text \<open>C33: An upload of parts, given as texts or by providers that give a content piece by piece, sends chunks that are never empty, then the
  end of the chunks; together they are the text that \<open>serialize_multipart_formdata\<close> makes of the parts, each provider's pieces being one
  content. The library's own reader of chunks gets that text back, however the bytes arrive.\<close>

theorem client_sends_parts:
  assumes "\<forall>(p, ds) \<in> set ps. gives p ds" and "wr_plan s = []" and "\<forall>i. ready i"
    and "body = serialize_multipart_formdata (items @ map (\<lambda>(p, ds). item_of p ds) ps) bd True" and "length body < 2 ^ 64 - 1"
  shows "\<exists>prov wire. Client_write_content_with_provider ready
        (with_content (Unsized (multipart_provider bd items (map fst ps)) (0, 0)) content_type rq) s
      = Some (Inr Error_Success, prov, s\<lparr>outbuf := outbuf s @ wire\<rparr>)
    \<and> (\<forall>t h rest. strm_ok t \<and> avail t = wire @ rest \<longrightarrow>
        (\<exists>t'. read_content_chunked h app [] t = (True, h, body, t') \<and> avail t' = rest))"
proof -
  let ?f = "multipart_provider bd items (map fst ps)"
  obtain cs where cs: "sends ready ?f 0 (0, 0) cs" "[] \<notin> set cs" "concat cs = body"
    using sends_all [OF assms(3,1), of bd items] assms(4) by blast
  let ?wire = "concat (map chunk_text cs) @ ''0'' @ crlf @ crlf"
  obtain st' where "client_chunked_loop ready 0 0 True (Some (adapt_provider ?f, (0, 0))) s
      = Some (Inr Error_Success, Some (adapt_provider ?f, st'), s\<lparr>outbuf := outbuf s @ ?wire\<rparr>)"
    using cs(1) assms(2) unfolding sends_def by blast
  then have "Client_write_content_with_provider ready (with_content (Unsized ?f (0, 0)) content_type rq) s
      = Some (Inr Error_Success, Some (adapt_provider ?f, st'), s\<lparr>outbuf := outbuf s @ ?wire\<rparr>)"
    by (simp add: Client_write_content_with_provider_def with_content_def Let_def cl_set_header_def)
  moreover have "\<exists>t'. read_content_chunked h app [] t = (True, h, body, t') \<and> avail t' = rest"
    if t: "strm_ok t" "avail t = ?wire @ rest" for t h rest
  proof -
    have small: "d \<noteq> [] \<and> length d < 2 ^ 64 - 1" if "d \<in> set cs" for d
    proof -
      have "length d \<le> length (concat cs)" using that member_le_sum_list [of "length d" "map length cs"] by (simp add: length_concat)
      then show ?thesis using that cs(2,3) assms(5) by auto
    qed
    have "avail t = concat (map chunk_text cs) @ ''0'' @ crlf @ crlf @ rest" using t(2) by simp
    from read_chunked_app [OF t(1) this small, where headers = h and st = "[]"] cs(3) show ?thesis by (auto simp: avail_def)
  qed
  ultimately show ?thesis by blast
qed

definition demo_part :: MultipartFormDataProvider where
  "demo_part = \<lparr>pv_name = ''k'', pv_provider = (\<lambda>off. if off = 0 then ([SinkWrite ''v''], True)
      else if off = 1 then ([SinkWrite ''wx''], True) else ([SinkDone], True)), pv_filename = [], pv_content_type = []\<rparr>"

theorem client_sends_parts_witness:
  "\<exists>prov wire. Client_write_content_with_provider (\<lambda>_. True)
        (with_content (Unsized (multipart_provider ''b'' [] [demo_part]) (0, 0)) [] (new_ClientRequest :: (unit, nat \<times> nat) ClientRequest)) new_BufferStream
      = Some (Inr Error_Success, prov, new_BufferStream\<lparr>outbuf := wire\<rparr>)
    \<and> (\<forall>t h rest. strm_ok t \<and> avail t = wire @ rest \<longrightarrow>
        (\<exists>t'. read_content_chunked h app [] t
          = (True, h, ''--b'' @ crlf @ ''Content-Disposition: form-data; name='' @ dquote ''k'' @ crlf @ crlf @ ''vwx'' @ crlf @ ''--b--'' @ crlf, t')
          \<and> avail t' = rest))"
proof -
  have g: "\<forall>(p, ds) \<in> set [(demo_part, [''v'', ''wx''])]. gives p ds"
    by (auto simp: gives_def demo_part_def less_Suc_eq)
  show ?thesis
    using client_sends_parts [where ps = "[(demo_part, [''v'', ''wx''])]" and s = new_BufferStream and ready = "\<lambda>_. True"
        and items = "[]" and bd = "''b''" and content_type = "[]" and rq = new_ClientRequest, OF g _ _ refl]
    by (simp add: new_BufferStream_def serialize_multipart_formdata_def serialize_multipart_formdata_item_begin_def
        serialize_multipart_formdata_finish_def item_of_def demo_part_def crlf_def dquote_def)
qed

end
