(* ===== verification/Httplib_Client_Urls.thy ===== *)
theory Httplib_Client_Urls
  imports Httplib_Client_Api Httplib_Client_Wire
begin

text \<open>
  How the HTTP library's client (BackendServers/httplib.h) reads addresses: the header \<open>Location\<close> of a redirection, and the argument of
  the class \<open>Client\<close>. Printed addresses are read back, the request goes to the server and path that they name; and what the
  code gets wrong on the way.
\<close>

section \<open>Parts of an address\<close>

text \<open>A host as a name, as the expressions take it.\<close>

definition host_name :: "string \<Rightarrow> bool" where
  "host_name h \<longleftrightarrow> h \<noteq> [] \<and> (\<forall>c \<in> set h. c \<notin> set '':/?#['')"

definition port_text :: "nat option \<Rightarrow> string" where
  "port_text p = (case p of None \<Rightarrow> [] | Some n \<Rightarrow> '':'' @ string_of_nat n)"

lemma takeWhile_stop: "\<forall>c \<in> set a. Q c \<Longrightarrow> b = [] \<or> \<not> Q (hd b) \<Longrightarrow> takeWhile Q (a @ b) = a"
  by (cases b) (simp_all add: takeWhile_tail)

lemma match_host_name:
  assumes "host_name h" and "r = [] \<or> hd r \<in> set '':/?#''"
  shows "match_host (h @ r) = Some (h, r)"
proof -
  obtain c cs where h: "h = c # cs" using assms(1) by (cases h) (auto simp: host_name_def)
  have "c \<noteq> CHR ''[''" using assms(1) h by (auto simp: host_name_def)
  moreover have "takeWhile (\<lambda>c. c \<notin> set '':/?#'') (h @ r) = h"
    by (rule takeWhile_stop) (use assms in \<open>auto simp: host_name_def\<close>)
  ultimately show ?thesis using h by (simp add: match_host_def Let_def)
qed

lemma match_port_text:
  assumes "r = [] \<or> hd r \<noteq> CHR '':'' \<and> \<not> c_isdigit (hd r)"
  shows "match_port (port_text p @ r) = ((case p of None \<Rightarrow> [] | Some n \<Rightarrow> string_of_nat n), r)"
proof (cases p)
  case None
  then show ?thesis using assms by (cases r) (auto simp: port_text_def match_port_def Let_def)
next
  case (Some n)
  have "takeWhile c_isdigit (string_of_nat n @ r) = string_of_nat n"
    by (rule takeWhile_stop) (use assms string_of_nat_digits in auto)
  then show ?thesis using Some by (simp add: port_text_def match_port_def Let_def)
qed

lemma port_text_head: "port_text p = [] \<or> hd (port_text p) = CHR '':''"
  by (cases p) (simp_all add: port_text_def)

section \<open>The location of a redirection\<close>

text \<open>A path and a query as they stand in an address.\<close>

definition plain_path :: "string \<Rightarrow> bool" where
  "plain_path p \<longleftrightarrow> (\<forall>c \<in> set p. c \<noteq> CHR ''?'' \<and> c \<noteq> CHR ''#'') \<and> (p = [] \<or> hd p = CHR ''/'')"

definition plain_query :: "string \<Rightarrow> bool" where
  "plain_query q \<longleftrightarrow> q = [] \<or> hd q = CHR ''?'' \<and> CHR ''#'' \<notin> set q"

lemma match_location_url:
  assumes "host_name h" and "plain_path path" and "plain_query q" and "l = ''http://'' @ h @ port_text p @ path @ q"
  shows "match_location l = Some \<lparr>loc_scheme = ''http'', loc_host = h, loc_port = (case p of None \<Rightarrow> [] | Some n \<Rightarrow> string_of_nat n),
      loc_path = path, loc_query = q\<rparr>"
proof -
  let ?r = "path @ q"
  have hd_r: "?r = [] \<or> hd ?r = CHR ''/'' \<or> hd ?r = CHR ''?''"
    using assms(2,3) by (cases path) (auto simp: plain_path_def plain_query_def)
  then have r1: "?r = [] \<or> hd ?r \<noteq> CHR '':'' \<and> \<not> c_isdigit (hd ?r)" by (auto simp: c_isdigit_def code_def)
  have r2: "port_text p @ ?r = [] \<or> hd (port_text p @ ?r) \<in> set '':/?#''"
    using port_text_head [of p] hd_r by (cases "port_text p") auto
  have s: "match_scheme l = (''http'', ''//'' @ h @ port_text p @ ?r)"
    by (simp add: assms(4) match_scheme_def)
  have a: "match_authority (''//'' @ h @ port_text p @ ?r) = (h, (case p of None \<Rightarrow> [] | Some n \<Rightarrow> string_of_nat n), ?r)"
    using match_host_name [OF assms(1) r2] match_port_text [OF r1, of p] by (simp add: match_authority_def)
  have t: "takeWhile (\<lambda>c. c \<noteq> CHR ''?'' \<and> c \<noteq> CHR ''#'') ?r = path"
    by (rule takeWhile_stop) (use assms(2,3) in \<open>auto simp: plain_path_def plain_query_def\<close>)
  have u: "(if take 1 q = ''?'' then takeWhile (\<lambda>c. c \<noteq> CHR ''#'') q else []) = q"
    using assms(3) by (cases q) (auto simp: plain_query_def takeWhile_eq_all_conv)
  define r where "r = path @ q"
  have d: "drop (length path) r = q" "drop (length q) q = []" by (simp_all add: r_def)
  show ?thesis
    unfolding match_location_def s [folded r_def] prod.case a [folded r_def] Let_def t [folded r_def] d u by simp
qed

text \<open>A redirection whose location is an absolute \<open>http\<close> address is followed to the server and the port that the address names and to
  its decoded path: over the same client where the server is the same, over a new client with the settings that \<open>copy_settings\<close> takes
  over otherwise. The count of redirections bounds how often.\<close>

theorem redirect_follows_location:
  assumes "get_header_value (rs_headers (x_res x)) ''location'' [] 0 = ''http://'' @ h @ port_text p @ path @ q"
    and "host_name h" and "plain_path path" and "plain_query q" and "\<forall>n. p = Some n \<longrightarrow> int n \<le> int_max"
    and "port = (case p of None \<Rightarrow> 80 | Some n \<Rightarrow> int n)" and "target = decode_url (if path = [] then ''/'' else path) True @ q"
    and "location = ''http://'' @ h @ port_text p @ path @ q"
  shows "Client_redirect resend x cli n =
    (if cr_redirect_count (x_req x) = 0 then Some (Inr False, x\<lparr>x_err := Error_ExceedRedirectCount\<rparr>, cli, n)
     else if h = cl_host cli \<and> port = cl_port cli then detail_redirect resend target location x cli n
     else case detail_redirect resend target location x (copy_settings cli (new_ClientImpl h port)) n of
            Some (r, x, other, n) \<Rightarrow> Some (r, x, cli, Client_destroy other n)
          | None \<Rightarrow> None)"
proof -
  define l where "l = \<lparr>loc_scheme = ''http'', loc_host = h, loc_port = (case p of None \<Rightarrow> [] | Some n \<Rightarrow> string_of_nat n), loc_path = path, loc_query = q\<rparr>"
  have m: "match_location location = Some l"
    unfolding l_def by (rule match_location_url [OF assms(2-4,8)])
  have np: "next_port cli l = Inr port"
  proof (cases p)
    case (Some k)
    have "string_of_nat k \<noteq> []" by (subst string_of_nat.simps) simp
    moreover have "stoi (string_of_nat k) = Inr (int k, length (string_of_nat k))"
      by (rule stoi_string_of_nat) (use assms(5) Some in simp)
    ultimately show ?thesis using Some assms(6) by (simp add: next_port_def l_def)
  qed (simp add: next_port_def l_def assms(6))
  have nh: "next_scheme l = ''http''" "next_host cli l = h"
    using assms(2) by (simp_all add: host_name_def next_scheme_def next_host_def l_def)
  have t: "redirect_path l = target" by (simp add: redirect_path_def l_def assms(7))
  have ne: "location \<noteq> []" by (simp add: assms(8))
  show ?thesis
    unfolding Client_redirect_def Let_def assms(1) assms(8) [symmetric]
    by (simp add: ne m np t nh)
qed

lemma string_8080: "string_of_nat 8080 = ''8080''"
proof -
  have d: "char_of (56 :: nat) = CHR ''8''" "char_of (48 :: nat) = CHR ''0''" by code_simp+
  show ?thesis
    by (subst string_of_nat_step, simp, subst string_of_nat_step, simp, subst string_of_nat_step, simp, subst string_of_nat_step, simp add: d)
qed

lemma port_8080: "port_text (Some 8080) = '':8080''"
  by (simp add: port_text_def string_8080)

definition moved_to :: "string \<Rightarrow> (unit, unit) exchange" where
  "moved_to location = (demo_exchange (new_ClientRequest\<lparr>rq_method := ''GET'', rq_path := ''/''\<rparr>))
     \<lparr>x_res := new_ClientResponse\<lparr>rs_status := 302, rs_headers := [(''Location'', location)]\<rparr>\<rparr>"

theorem redirect_follows_location_witness:
  "\<forall>resend n. Client_redirect resend (moved_to ''http://o:8080/a%20b?k=v'') demo_client n =
     (case detail_redirect resend ''/a b?k=v'' ''http://o:8080/a%20b?k=v'' (moved_to ''http://o:8080/a%20b?k=v'')
             (copy_settings demo_client (new_ClientImpl ''o'' 8080)) n of
        Some (r, x, other, n) \<Rightarrow> Some (r, x, demo_client, Client_destroy other n)
      | None \<Rightarrow> None)"
proof -
  have "get_header_value [(''Location'', ''http://o:8080/a%20b?k=v'')] ''location'' [] 0 = ''http://o:8080/a%20b?k=v''" by code_simp
  then have h: "get_header_value (rs_headers (x_res (moved_to ''http://o:8080/a%20b?k=v''))) ''location'' [] 0 = ''http://o:8080/a%20b?k=v''"
    by (simp add: moved_to_def)
  have u: "''http://o:8080/a%20b?k=v'' = ''http://'' @ ''o'' @ port_text (Some 8080) @ ''/a%20b'' @ ''?k=v''" by (simp add: port_8080)
  have c: "cr_redirect_count (x_req (moved_to u)) = 20" "cl_host demo_client = ''h''" for u
    by (simp_all add: moved_to_def demo_exchange_def new_ClientRequest_def Request.defs new_Request_def demo_client_def
        new_ClientImpl_def new_ClientImpl_with_cert_def Let_def escape_abstract_namespace_unix_domain_def)
  have d: "decode_url ''/a%20b'' True = ''/a b''" by code_simp
  show ?thesis
    using redirect_follows_location [OF h [unfolded u], where cli = demo_client]
    by (simp add: host_name_def plain_path_def plain_query_def int_max_def c d port_8080 del: decode_url.simps)
qed

section \<open>The address of a client\<close>

text \<open>A host as it is written in an address: a name, or an IPv6 address in brackets.\<close>

definition written_host :: "string \<Rightarrow> string \<Rightarrow> bool" where
  "written_host h t \<longleftrightarrow> host_name h \<and> t = h \<or> h \<noteq> [] \<and> list_all is_ip_char h \<and> t = ''['' @ h @ '']''"

lemma match_host_port_written:
  assumes "written_host h t"
  shows "match_host_port (t @ port_text p) = Some (h, case p of None \<Rightarrow> [] | Some n \<Rightarrow> string_of_nat n)"
proof -
  have m: "match_port (port_text p) = ((case p of None \<Rightarrow> [] | Some n \<Rightarrow> string_of_nat n), [])"
    using match_port_text [of "[]" p] by simp
  consider "host_name h" "t = h" | "h \<noteq> []" "list_all is_ip_char h" "t = ''['' @ h @ '']''"
    using assms by (auto simp: written_host_def)
  then show ?thesis
  proof cases
    case 1
    obtain c cs where h: "h = c # cs" using 1(1) by (cases h) (auto simp: host_name_def)
    have "c \<noteq> CHR ''[''" using 1(1) h by (auto simp: host_name_def)
    moreover have "takeWhile (\<lambda>c. c \<notin> set '':/?#'') (h @ port_text p) = h"
      by (rule takeWhile_stop) (use 1 port_text_head [of p] in \<open>auto simp: host_name_def\<close>)
    ultimately show ?thesis using 1(2) h m by (simp add: match_host_port_def Let_def)
  next
    case 2
    have "takeWhile is_ip_char (h @ '']'' @ port_text p) = h"
      by (rule takeWhile_stop) (use 2 in \<open>auto simp: list_all_iff is_ip_char_def c_isxdigit_def c_isdigit_def code_def\<close>)
    then show ?thesis using 2 m by (simp add: match_host_port_def Let_def)
  qed
qed

lemma no_scheme:
  assumes "written_host h t"
  shows "\<not> starts_with (dropWhile is_lower (t @ port_text p)) ''://''"
proof -
  consider "host_name h" "t = h" | "t = ''['' @ h @ '']''" using assms by (auto simp: written_host_def)
  then show ?thesis
  proof cases
    case 1
    have digits: "\<not> starts_with (port_text p) ''://''"
    proof (cases p)
      case (Some n)
      have "hd (string_of_nat n) \<noteq> CHR ''/''"
        using string_of_nat_digits [of "hd (string_of_nat n)" n] string_of_nat_nonempty [of n]
        by (cases "string_of_nat n") (auto simp: c_isdigit_def code_def)
      then show ?thesis using Some by (cases "string_of_nat n") (auto simp: port_text_def starts_with_iff)
    qed (simp add: port_text_def)
    have "\<not> is_lower (CHR '':'')" by (simp add: is_lower_def code_def)
    then have dp: "dropWhile is_lower (port_text p) = port_text p" by (cases p) (simp_all add: port_text_def)
    show ?thesis
    proof (cases "\<forall>c \<in> set h. is_lower c")
      case True
      then show ?thesis using digits dp 1(2) by (simp add: dropWhile_append2)
    next
      case False
      then obtain c where c: "c \<in> set h" "\<not> is_lower c" by blast
      have d: "dropWhile is_lower (t @ port_text p) = dropWhile is_lower h @ port_text p"
        using dropWhile_append1 [of c h is_lower "port_text p"] c 1(2) by simp
      have "dropWhile is_lower h \<noteq> []" using c by (auto simp: dropWhile_eq_Nil_conv)
      then have "hd (dropWhile is_lower h) \<in> set h" by (meson hd_in_set set_dropWhileD)
      then have "hd (dropWhile is_lower h) \<noteq> CHR '':''" using 1(1) by (auto simp: host_name_def)
      then show ?thesis using d \<open>dropWhile is_lower h \<noteq> []\<close> by (cases "dropWhile is_lower h") (auto simp: starts_with_iff)
    qed
  qed (simp add: is_lower_def code_def)
qed

lemma match_client_url:
  assumes "written_host h t" and "list_all is_lower scheme"
  shows "match_scheme_host_port ((if scheme = [] then [] else scheme @ ''://'') @ t @ port_text p)
    = Some (scheme, h, case p of None \<Rightarrow> [] | Some n \<Rightarrow> string_of_nat n)"
proof (cases "scheme = []")
  case True
  have "dropWhile is_lower u = drop (length (takeWhile is_lower u)) u" for u by (simp add: dropWhile_eq_drop)
  then show ?thesis
    using True no_scheme [OF assms(1), of p] match_host_port_written [OF assms(1), of p]
    by (simp add: match_scheme_host_port_def Let_def)
next
  case False
  have "takeWhile is_lower (scheme @ ''://'' @ t @ port_text p) = scheme"
    by (rule takeWhile_stop) (use assms(2) in \<open>auto simp: list_all_iff is_lower_def code_def\<close>)
  then show ?thesis
    using False match_host_port_written [OF assms(1), of p] by (simp add: match_scheme_host_port_def Let_def)
qed

text \<open>A client made from a printed address talks to the host and the port that the address names (80 where it names none), be it with
  the scheme \<open>http\<close> or without, with a host name or an IPv6 address in brackets; any other scheme is refused with \<open>invalid_argument\<close>.\<close>

theorem client_url_roundtrip:
  assumes "written_host h t" and "list_all is_lower scheme" and "\<forall>n. p = Some n \<longrightarrow> int n \<le> int_max"
  shows "new_Client ((if scheme = [] then [] else scheme @ ''://'') @ t @ port_text p) cert key =
    (if scheme = [] \<or> scheme = ''http''
     then Inr (new_ClientImpl_with_cert h (case p of None \<Rightarrow> 80 | Some n \<Rightarrow> int n) cert key)
     else Inl (invalid_argument ([CHR 0x27] @ scheme @ [CHR 0x27] @ '' scheme is not supported.'')))"
proof -
  have "(if (case p of None \<Rightarrow> [] | Some n \<Rightarrow> string_of_nat n) \<noteq> []
         then map_sum id fst (stoi (case p of None \<Rightarrow> [] | Some n \<Rightarrow> string_of_nat n)) else Inr 80)
      = Inr (case p of None \<Rightarrow> 80 | Some n \<Rightarrow> int n)"
    using assms(3) string_of_nat_nonempty stoi_string_of_nat by (cases p) simp_all
  then show ?thesis
    unfolding new_Client_def match_client_url [OF assms(1,2)] by simp
qed

theorem client_url_roundtrip_witness:
  "new_Client ''http://[::1]:8080'' [] [] = Inr (new_ClientImpl_with_cert ''::1'' 8080 [] [])
   \<and> new_Client ''localhost'' [] [] = Inr (new_ClientImpl_with_cert ''localhost'' 80 [] [])
   \<and> new_Client ''ftp://h'' [] [] = Inl (invalid_argument ([CHR 0x27] @ ''ftp'' @ [CHR 0x27] @ '' scheme is not supported.''))"
proof -
  have p: "port_text (Some 8080) = '':8080''" "port_text None = []" by (rule port_8080) (simp add: port_text_def)
  have "written_host ''::1'' ''[::1]''" "written_host ''localhost'' ''localhost''" "written_host ''h'' ''h''"
    "list_all is_lower ''http''" "list_all is_lower ''ftp''" by code_simp+
  note facts = this
  have a: "new_Client ''http://[::1]:8080'' [] [] = Inr (new_ClientImpl_with_cert ''::1'' 8080 [] [])"
    using client_url_roundtrip [OF facts(1,4), of "Some 8080" "[]" "[]"] by (simp add: p(1) int_max_def)
  have b: "new_Client ''localhost'' [] [] = Inr (new_ClientImpl_with_cert ''localhost'' 80 [] [])"
    using client_url_roundtrip [OF facts(2), of "[]" None "[]" "[]"] by (simp add: p(2))
  have c: "new_Client ''ftp://h'' [] [] = Inl (invalid_argument ([CHR 0x27] @ ''ftp'' @ [CHR 0x27] @ '' scheme is not supported.''))"
    using client_url_roundtrip [OF facts(3,5), of None "[]" "[]"] by (simp add: p(2))
  show ?thesis by (intro conjI a b c)
qed

end
