(* ===== verification/Httplib_Client_Gaps.thy ===== *)
theory Httplib_Client_Gaps
  imports Httplib_Client_Urls
begin

text \<open>
  Where the HTTP library's client (BackendServers/httplib.h) does not do what it means to: redirections that are not followed, or are followed
  with the wrong path, settings or content, and chunks that end too early.
\<close>

section \<open>Redirections\<close>

text \<open>\<open>process_request\<close> takes status 304 for no redirection, \<open>handle_request\<close> takes it for one: a client that follows redirections
  fails on every \<open>304 Not Modified\<close>, which has no location.\<close>

lemma not_modified_is_error:
  assumes "exchange_on net k cli cc s x = Some (Inr True, d, y)" and "rs_status (x_res y) = 304" and "\<not> says_close (x_res y)"
    and "get_header_value (rs_headers (x_res y)) ''location'' [] 0 = []" and "cl_follow_location cli" and "\<not> net_stopped net k"
  shows "\<exists>z n'. Client_handle_request resend net k cc s x cli n = Some (Inr False, z, cli, n')"
  using assms by (simp add: Client_handle_request_def Client_redirect_def Let_def)

text \<open>The path of the location is decoded, and encoded again without the characters that have a meaning: an encoded question mark becomes
  the start of a query, a plus becomes a blank.\<close>

lemma redirect_decodes_path:
  "map_option redirect_path (match_location ''/a%3Fb'') = Some ''/a?b''"
  "map_option redirect_path (match_location ''/a+b'') = Some ''/a b''"
  by code_simp+

text \<open>A location that is a relative path is not resolved against the path of the request: it is sent as it is, without a slash in front.\<close>

lemma redirect_relative_path:
  "map_option redirect_path (match_location ''b'') = Some ''b''"
  by code_simp

text \<open>A port in the location that is no \<open>int\<close> makes \<open>stoi\<close> throw, out of the call of \<open>send\<close>.\<close>

lemma redirect_port_throws:
  "next_port cli \<lparr>loc_scheme = ''http'', loc_host = ''h'', loc_port = ''99999999999'', loc_path = [], loc_query = []\<rparr>
    = Inl (out_of_range ''stoi'')"
  by (simp add: next_port_def stoi_eval)

text \<open>After status 303 the request becomes a \<open>GET\<close> without its header and body, but it keeps its content provider and sends the content
  again; for a provider without a length there is no field that announces the chunks.\<close>

lemma see_other_keeps_provider:
  assumes "rs_status rs = 303" and "rq_method rq = ''POST''"
  shows "rq_method (redirected_request path rs rq) = ''GET''" and "rq_headers (redirected_request path rs rq) = []"
    and "cr_content_provider (redirected_request path rs rq) = cr_content_provider rq"
    and "cr_is_chunked (redirected_request path rs rq) = cr_is_chunked rq"
  using assms by (simp_all add: redirected_request_def Let_def)

text \<open>What the client for another server takes over: the credentials, which it then sends there, as well as the fields of the request; but
  not the default headers, the addresses of hosts, the header writer, and the microseconds of the connection time-out.\<close>

lemma redirect_sends_credentials:
  "cl_basic_auth_password (copy_settings cli c) = cl_basic_auth_password cli" "cl_bearer_token (copy_settings cli c) = cl_bearer_token cli"
  "rs_status rs \<noteq> 303 \<Longrightarrow> rq_headers (redirected_request path rs rq) = rq_headers rq"
  by (simp_all add: copy_settings_def redirected_request_def Let_def)

lemma copy_settings_leaves_out:
  "cl_default_headers (copy_settings cli c) = cl_default_headers c" "cl_addr_map (copy_settings cli c) = cl_addr_map c"
  "cl_connection_timeout_usec (copy_settings cli c) = cl_connection_timeout_usec c" "cl_header_writer (copy_settings cli c) = cl_header_writer c"
  by (simp_all add: copy_settings_def)

text \<open>A call of \<open>stop\<close> while a response is read is forgotten when the response is a redirection: the next request clears the flag.\<close>

lemma stop_forgotten:
  "ensure_socket net cli err n = (ok, err', cli', n') \<Longrightarrow> \<not> cl_should_be_closed cli'"
  by (auto simp: ensure_socket_def Client_close_socket_def create_and_connect_socket_def Let_def
      split: if_splits option.splits prod.splits connect_result.splits)

section \<open>Requests\<close>

text \<open>With empty parameters the progress callback is dropped.\<close>

lemma empty_params_drop_progress:
  "Client_Get_with_params net path [] headers (Some p) = Client_Get net path headers None"
  by (simp add: Client_Get_with_params_def fun_eq_iff)

text \<open>A provider without a length that writes an empty piece ends the content: \<open>true\<close> is returned, and the end of the chunks is never sent, so that the
  server waits for more.\<close>

lemma empty_piece_ends_upload:
  assumes "f offset st = (Inr ([SinkWrite []], True), st')" and "ready i"
  shows "client_chunked_loop ready i offset True (Some (adapt_provider f, st)) s = Some (Inr Error_Success, Some (adapt_provider f, st'), s)"
proof -
  have "client_chunked_loop ready (Suc i) offset False prov s = Some (Inr Error_Success, prov, s)" for prov :: "'a content"
    by (subst client_chunked_loop.simps) simp
  then show ?thesis
    using assms by (subst client_chunked_loop.simps) (simp add: call_provider_def adapt_provider_def)
qed

end
