(* ===== verification/Spec2Isabelle.thy ===== *)
theory Spec2Isabelle
  imports Prelude Cpp_Strings Cpp_Streams App_Config Url_Utils Config_Loader Utc_Time
    Cache_Interface InMemory_Cache Redis_Cache Circuit_Breaker Console_Logger Udp_Sender Statsd_Client
    Http_Types Company_Info Client_Session Backendify_Service Server_Session Http_Server Backend_Api
    Main_Program Httplib_Text Httplib_Messages Httplib_Ranges Httplib_Stream Httplib_Router Httplib_Multipart
    Httplib_Formdata Httplib_Server Httplib_Answers Httplib_Pool Httplib_Connection Backend_Server
    Httplib_Client Httplib_Client_Wire Httplib_Exchange Httplib_Client_Send Httplib_Client_Safety Httplib_Client_Api
    Httplib_Client_Parts Httplib_Client_Urls Httplib_Client_Gaps
begin

text \<open>
  Backendify, a verification development.

  The program (under src/) is an HTTP facade: a client asks
  \<open>GET /company?id=..&country_iso=..\<close>, the service finds the backend configured for the country,
  asks it, translates its answer (two formats, V1 and V2) into one uniform JSON object, caches the
  object for a day and sends it. A backend that fails is avoided for a while (circuit breaker);
  metrics go to a StatsD server by UDP.

  \<^bold>\<open>Parts, and the theories that model them.\<close>

  \<^item> \<open>Prelude\<close>: exceptions as values (\<open>'a exc\<close>), 32-bit \<open>int\<close> arithmetic, \<open>std::unordered_map\<close>
    (\<open>umap\<close>) and \<open>std::map\<close> (\<open>smap\<close>) as association lists. \<open>Cpp_Strings\<close>, \<open>Cpp_Streams\<close>: what the
    program uses of the standard library on strings (\<open>find\<close>, \<open>stoi\<close>, \<open>to_string\<close>, C strings) and on
    \<open>istringstream\<close>.
  \<^item> \<open>App_Config\<close> (config/AppConfig.hpp, models/BackendUrlInfo.hpp): the record \<open>AppConfig\<close>, its
    defaults and deduced values. \<open>Config_Loader\<close> (utils/Utils.hpp: \<open>stringToInt\<close>, \<open>trim\<close>,
    \<open>parseArguments\<close>, \<open>loadConfiguration\<close>): every key of the configuration file with its guards and
    failures. Shown: which countries a loaded configuration knows, when start-up fails, that a printed
    integer setting is read back, and what the multiplication of hours does when it overflows.
  \<^item> \<open>Url_Utils\<close> (utils/Utils.hpp: \<open>parseUrl\<close>, \<open>urlDecode\<close>): round trips in both directions, and that
    nothing but an \<open>http\<close> or \<open>https\<close> address is accepted.
  \<^item> \<open>Utc_Time\<close> (utils/Utils.hpp: \<open>timegm_custom\<close>, \<open>isUTCTimeInFuture\<close>): the decision on a well-formed
    stamp agrees with the calendar within the range of the clock, and where it does not.
  \<^item> \<open>Cache_Interface\<close> (interfaces/CacheInterface.hpp): the contract of a cache as the locale
    \<open>cache_store\<close>, with what a client may conclude about whole runs. \<open>InMemory_Cache\<close>
    (cache/InMemoryCache): two hash maps and a list with addresses as iterators; interprets the
    locale, refines a plain list of entries in order of use, keeps its invariant and bound.
    \<open>Redis_Cache\<close> (cache/RedisCache): the five methods over the parameter \<open>redisCommand\<close>; under the
    documented effect of the commands (\<open>redis_laws\<close>) they implement a map.
  \<^item> \<open>Circuit_Breaker\<close> (core/CircuitBreaker): a backend is avoided exactly for the configured time
    after its last failure. \<open>Console_Logger\<close> (logging/ConsoleLogger): level filter, singleton.
  \<^item> \<open>Udp_Sender\<close> (third_party/UDPSender.hpp): batches, the sending thread and the callers as a step
    relation; what was sent, in order, for every interleaving. \<open>Statsd_Client\<close> (metrics/): the text
    of the metrics and the two clients of the interface.
  \<^item> \<open>Http_Types\<close>: requests, responses and error codes as data. \<open>Company_Info\<close> (models/CompanyInfo.hpp;
    \<open>parseBackendResponse\<close>, \<open>constructV1Json\<close>, \<open>constructV2Json\<close> of core/Backendify.cpp): the
    translation of an answer. \<open>Client_Session\<close> (core/AsyncHttpClientSession.hpp): one call of a
    backend as a state machine that completes exactly once.
  \<^item> \<open>Backendify_Service\<close> (core/Backendify): \<open>processCompanyRequest\<close> with all its branches, the
    completion of a backend call and \<open>/status\<close>; the functional behaviour of each branch and outcome, and
    what later requests get (an answer is served from the cache through any run of the service, a failed
    backend is not called again). The time an answer is cached, a day, is written into the code.
  \<^item> \<open>Server_Session\<close> (core/HttpServerSession): one connection as a state machine: it never reads and
    owes an answer at the same time, ends once, and answers each request at most once, in order.
    \<open>Http_Server\<close> (core/BeastHttpServer): accepting, and the set of live sessions.
  \<^item> \<open>Main_Program\<close> (main.cpp): the choice of components, start-up with its exit code or,
    once the I/O threads run, its termination by \<open>std::terminate\<close>; shutdown, and
    what an exception does to the event-loop threads. \<open>Backend_Api\<close> (BackendServers/BackendApi.cpp):
    the backend used in tests.
  \<^item> The HTTP library of the test backend (BackendServers/httplib.h, a single header). \<open>Httplib_Text\<close>: names without case and their hash,
    the grammar of header fields, hexadecimal, UTF-8, base64, paths, percent encoding, splitting and trimming. \<open>Httplib_Messages\<close>: headers,
    requests, responses and their setters, status and content type tables, header lines, query strings, multipart
    texts. \<open>Httplib_Ranges\<close>: the header \<open>Range\<close>, its check against a content, partial contents. \<open>Httplib_Stream\<close>: streams, the line
    reader, bodies with a length, in chunks or up to the end, and content providers. \<open>Httplib_Router\<close>: the matchers of paths, the
    class \<open>Server\<close> with its registration functions, the dispatcher (the locale \<open>path_matcher\<close>). \<open>Httplib_Multipart\<close>: the parser of
    multipart bodies over its in-place buffer, which implements a text (the locale \<open>text_buffer\<close>); \<open>Httplib_Formdata\<close>: a printed body is taken apart again
    however it is cut into pieces.
  \<^item> \<open>Httplib_Server\<close>: the answer to a request, from the request line to the last byte of the response: \<open>parse_request_line\<close>,
    \<open>read_content\<close>, \<open>handle_file_request\<close>, \<open>routing\<close>, \<open>apply_ranges\<close>, \<open>write_response_core\<close>, \<open>process_request\<close>. \<open>Httplib_Answers\<close>: what then is on the
    wire: responses are framed correctly, malformed requests and exceptions of handlers are answered, and where the code fails to do so.
    \<open>Httplib_Connection\<close>: \<open>SocketStream\<close> (the locale \<open>byte_source\<close>, interpreted for it and for the kernel's stream), \<open>keep_alive\<close>, the requests of a connection,
    \<open>bind\<close>, \<open>listen\<close> and \<open>stop\<close>. \<open>Httplib_Pool\<close>: the thread pool as a step relation.
  \<^item> \<open>Backend_Server\<close>: the test backend registers its routes with the library's server; what a client gets on the wire is what
    \<open>Backend_Api\<close> says.
  \<^item> The HTTP library's client (class \<open>ClientImpl\<close> of BackendServers/httplib.h). \<open>Httplib_Client\<close>: its settings, how a request is written and its response
    read; \<open>Httplib_Client_Wire\<close>: one exchange is correct for every framing of the response. \<open>Httplib_Client_Send\<close>: \<open>send\<close> with the socket, the requests in
    flight, \<open>stop\<close> and redirections; \<open>Httplib_Client_Safety\<close>: no socket is leaked, the number of requests is bounded, \<open>send\<close> returns
    (what arrives on one connection is a finite list of segments).
    \<open>Httplib_Client_Api\<close>: \<open>Get\<close>, \<open>Post\<close> and the other functions of the interface, uploads, setters, the choice of a client by address.
    \<open>Httplib_Client_Parts\<close>: the provider for parts, a state machine, sends the text of \<open>serialize_multipart_formdata\<close>. \<open>Httplib_Client_Urls\<close>: redirections and
    clients go where the printed address names. \<open>Httplib_Client_Gaps\<close>: where the code does otherwise than it means to. \<open>Httplib_Exchange\<close>: client and test backend together.

  This theory holds what spans components: in every run of the service the in-memory cache stays
  within its bound and holds only what its own operations stored (\<open>service_cache_bounded\<close>), every
  call goes to a configured backend (\<open>backend_calls_configured\<close>), and different companies may share
  a Redis entry (\<open>redis_nul_key_collision\<close>).

  \<^bold>\<open>How code becomes definitions.\<close> An object is a record, a method a function that returns the new
  record. A reading of a clock is an argument, in nanoseconds. Code under one mutex, and a completion
  handler on a strand, is one step; interleavings are runs of an \<open>inductive\<close> step relation. The
  networking library is the environment of these relations: it completes every pending operation once,
  with any result. A thrown exception is \<open>Inl\<close>. \<open>int\<close> is an \<open>int\<close> with \<open>int32\<close> where the code computes,
  ports are words of 16 bits.

  \<^bold>\<open>Parameters.\<close> hiredis (\<open>redisCommand\<close>, \<open>redisConnect\<close>), nlohmann::json (\<open>json_lib\<close>), the sockets of the
  UDP sender (\<open>sockets\<close>), the file system, the number of cores, a request after it was moved from
  (\<open>moved_from\<close>) and the value of the uninitialised \<open>suffix\<close>; for the HTTP library the expression engine (\<open>regex_engine\<close>), the handlers of the
  application, the pieces in which bytes arrive and the sizes that writes take (\<open>strm\<close>), the file system, the random boundary and the answers of the sockets
  while a response is written (\<open>environment\<close>), and the results of \<open>select\<close>, the clock and \<open>accept\<close>; for its
  client the record \<open>network\<close> (which attempts to connect succeed, what arrives on each stream, when another thread calls \<open>stop\<close>). Hypotheses about them are named and their
  witnesses give a concrete instance.

  \<^bold>\<open>Loops and fuel.\<close> Every loop is a structural recursion or has a termination proof, except
  the digit reader of the stream model, \<open>skip_digits\<close>, whose fuel is one more than the length of its
  input: each round consumes a character, and \<open>Client_send_upto\<close>, which calls itself for redirections: the count of redirections in the request, plus one, is enough
  (\<open>send_returns\<close>). The loops of the HTTP library that end only when a content provider, the clock or
  another thread lets them are \<open>partial_function (option)\<close>: \<open>None\<close> is a loop that does not end, and the properties show the result \<open>Some\<close>. Headers are a list with the
  newest entry first, which is the order in which the hash table of the library is taken to list them.

  \<^bold>\<open>Not modelled.\<close> The text of log lines, the Windows branches, header fields with constant values other
  than those listed in \<open>response\<close>, running out of memory (and so the \<open>catch\<close> clause of
  \<open>processCompanyRequest\<close>, which nothing else reaches). Of the HTTP library: the SSL classes and compression (the build of the test
  backend switches them off), the wrappers of system calls (sockets, \<open>select\<close>, \<open>mmap\<close>, name resolution), the measuring of time-outs, the class \<open>Client\<close> where it only hands
  its calls on to \<open>ClientImpl\<close>, assertions, the logger, the socket options, a peer of the client that sends without end on one connection, and the function \<open>is_connection_closed\<close> of a request.
\<close>

section \<open>The cache of a running service\<close>

text \<open>The handlers touch the cache through \<open>get\<close> and \<open>set\<close> only.\<close>

lemma process_cache:
  "cache (snd (processCompanyRequest W config clk rq t b)) = cache b
   \<or> (\<exists>k. cache (snd (processCompanyRequest W config clk rq t b)) = snd (cache_get (redisCommand W) (clk 0) (clk 1) k (cache b)))"
proof -
  let ?k = "param ''id'' (parse_query (query_params (req_target rq))) @ '':''
    @ upper (param ''country_iso'' (parse_query (query_params (req_target rq))))"
  have "cache (snd (processCompanyRequest W config clk rq t b)) \<in>
      {cache b, snd (cache_get (redisCommand W) (clk 0) (clk 1) ?k (cache b))}"
    by (auto simp: processCompanyRequest_def Let_def checkCacheAndRespond_def callBackendApi_def count_def
        split: option.splits prod.splits sum.splits)
  then show ?thesis by blast
qed

lemma completed_cache_step:
  "cache (snd (session_completed W config now rd1 rd2 weak cap br ec b)) = cache b
   \<or> (\<exists>k v. cache (snd (session_completed W config now rd1 rd2 weak cap br ec b))
        = snd (cache_set (redisCommand W) now k v 86400 (cache b)))"
  by (auto simp: session_completed_def backend_completed_def backend_ok_def Let_def
      handleBackendServerErrorResponse_def count_def split: prod.splits sum.splits option.splits)

text \<open>A cache that any sequence of operations has made from an empty one.\<close>

definition made_cache :: "int \<Rightarrow> nat \<Rightarrow> InMemoryCache \<Rightarrow> bool" where
  "made_cache ttl n c \<longleftrightarrow> (\<exists>ops. c = run_ops mem_step ops (new_cache ttl n))"

lemma made_step: "made_cache ttl n c \<Longrightarrow> made_cache ttl n (mem_step x c)"
  unfolding made_cache_def by (metis run_ops.simps(2))

lemma made_cache_get:
  "made_cache ttl n c \<Longrightarrow> \<exists>c'. snd (cache_get cmd t1 t2 k (Mem c)) = Mem c' \<and> made_cache ttl n c'"
  using made_step [of ttl n c "OpGet t1 t2 k"] by (auto split: prod.split)

lemma made_cache_set:
  "made_cache ttl n c \<Longrightarrow> \<exists>c'. snd (cache_set cmd t k v d (Mem c)) = Mem c' \<and> made_cache ttl n c'"
  using made_step [of ttl n c "OpSet t k v d"] by (auto split: prod.split)

lemma service_cache_made:
  assumes "service_run W config b0 m b" and "cache b0 = Mem (new_cache ttl n)"
  shows "\<exists>c. cache b = Mem c \<and> made_cache ttl n c"
  using assms(1)
proof (induction rule: service_run.induct)
  case service_start
  then show ?case using assms(2) unfolding made_cache_def by (metis run_ops.simps(1))
next
  case (service_request m b clk rq t k session cap b')
  then show ?case using process_cache [of W config clk rq t b] made_cache_get by (metis snd_conv)
next
  case (service_answer m b clk rq t r b')
  then show ?case using process_cache [of W config clk rq t b] made_cache_get by (metis snd_conv)
next
  case (service_complete m b now rd1 rd2 cap br ec)
  then show ?case
    using completed_cache_step [of W config now rd1 rd2 captured_weak_ptr cap br ec b] made_cache_set by metis
qed

section \<open>Properties\<close>

text \<open>C13: The in-memory cache of a started program never holds more entries than configured (one, when 0
  is configured), whatever requests come and whatever the backends answer, in whatever order; its
  containers stay consistent.\<close>

theorem service_cache_bounded:
  assumes "main_start E args = Inr p" and "cache (prog_service p) = Mem c0"
    and "service_run W (prog_config p) (prog_service p) m b"
  shows "\<exists>c. cache b = Mem c \<and> cache_inv c
    \<and> umap_size (cache_map c) \<le> max 1 (size_of_int (in_memory_cache_max_size (prog_config p)))"
proof -
  have "cache (prog_service p) = Mem (new_cache (in_memory_cache_ttl (prog_config p))
      (size_of_int (in_memory_cache_max_size (prog_config p))))"
    using main_start_Inr [OF assms(1)] assms(2) by (auto simp: initializeCache_def Let_def split: if_splits)
  from service_cache_made [OF assms(3) this] show ?thesis
    unfolding made_cache_def using reachable_inv by metis
qed

theorem service_cache_bounded_witness:
  "\<exists>p c. main_start demo_env [] = Inr p \<and> cache (prog_service p) = Mem c \<and> umap_size (cache_map c) \<le> 10000"
proof -
  obtain p where p: "main_start demo_env [] = Inr p" using demo_main by blast
  have c: "loadConfiguration (\<lambda>_. None) 4 [] = Inr (prog_config p)"
    using main_start_Inr [OF p] by (simp add: demo_env_def parseArguments_def)
  have "prog_config p = updateDeductions 4 default_config"
    using c by (simp add: loadConfiguration_def config_paths_def)
  then have m: "in_memory_cache_max_size (prog_config p) = 10000"
    by (simp add: updateDeductions_def default_config_def Let_def)
  obtain c where k: "cache (prog_service p) = Mem c"
    using main_start_Inr [OF p]
    by (auto simp: initializeCache_def demo_env_def new_redis_cache_def redis_connect_def isConnected_def)
  have "service_run demo_world (prog_config p) (prog_service p) 0 (prog_service p)" by (rule service_start)
  from service_cache_bounded [OF p k this] p k m show ?thesis
    by (auto simp: size_of_int_def)
qed

text \<open>C23: With a configuration that was loaded from the command line, every backend call goes over plain
  HTTP to one of the addresses given there, on a valid port: the branch that reports HTTPS as not
  supported is never taken.\<close>

theorem backend_calls_configured:
  assumes "loadConfiguration fs hw args = Inr config"
  shows "fst (processCompanyRequest W config clk rq t b) \<noteq> Posted ec cap
    \<and> (fst (processCompanyRequest W config clk rq t b) = Started n session cap \<longrightarrow>
        (\<exists>country info. map_of (country_backend_map config) country = Some info \<and> country_entry_ok (country, info)
          \<and> cs_host session = backend_host info \<and> cs_port session = string_of_int (backend_port info)
          \<and> 0 < backend_port info \<and> backend_port info \<le> 65535 \<and> backend_url_copy cap = url info))"
proof -
  have ok: "country_entry_ok (k, info)" "\<not> is_https info" "0 < backend_port info" "backend_port info \<le> 65535"
    if "map_of (country_backend_map config) k = Some info" for k info
  proof -
    show "country_entry_ok (k, info)"
      using loaded_countries [OF assms] map_of_SomeD [OF that] by blast
    then show "\<not> is_https info" "0 < backend_port info" "backend_port info \<le> 65535"
      by (simp_all add: country_entry_ok_def url_info_ok_def)
  qed
  show ?thesis
  proof (intro conjI impI)
    show "fst (processCompanyRequest W config clk rq t b) \<noteq> Posted ec cap"
      using ok(2) by (auto simp: processCompanyRequest_def Let_def checkCacheAndRespond_def callBackendApi_def
          findBackendInfo_def split: option.splits prod.splits if_splits)
    assume "fst (processCompanyRequest W config clk rq t b) = Started n session cap"
    then obtain k info where "map_of (country_backend_map config) k = Some info"
      "cs_host session = backend_host info" "cs_port session = string_of_int (backend_port info)"
      "backend_url_copy cap = url info"
      by (auto simp: processCompanyRequest_def Let_def checkCacheAndRespond_def callBackendApi_def findBackendInfo_def
          client_start_def do_resolve_def new_client_session_def split: option.splits prod.splits if_splits)
    then show "\<exists>country info. map_of (country_backend_map config) country = Some info \<and> country_entry_ok (country, info)
          \<and> cs_host session = backend_host info \<and> cs_port session = string_of_int (backend_port info)
          \<and> 0 < backend_port info \<and> backend_port info \<le> 65535 \<and> backend_url_copy cap = url info"
      using ok by blast
  qed
qed

theorem backend_calls_configured_witness:
  "\<exists>config. loadConfiguration (\<lambda>_. None) 4 [] = Inr config
    \<and> (\<forall>ec cap. fst (processCompanyRequest demo_world config (\<lambda>_. 5) demo_request 0 demo_service) \<noteq> Posted ec cap)"
proof -
  obtain config where l: "loadConfiguration (\<lambda>_. None) 4 [] = Inr config"
    by (simp add: loadConfiguration_def config_paths_def)
  show ?thesis using l backend_calls_configured [OF l] by blast
qed

text \<open>With Redis as the cache, a NUL byte in the id ends the cache key early, before the country: the
  answer stored for one company is then served for every other id with the same beginning, in any
  country.\<close>

theorem redis_nul_key_collision:
  assumes "redis_laws (redisCommand W) db" and "cache b = Redis r" and "isConnected r"
    and "backend_completed W config now rd1 rd2 cap br ec b = (Inr res, b')" and "res_result res = 200"
    and "cache_key_copy cap = x @ [CHR 0x00] @ y @ '':'' @ upper country"
    and "CHR 0x00 \<notin> set x" and "country' \<noteq> []"
    and "req_target rq = company_target (x @ [CHR 0x00] @ z) country'"
  shows "fst (processCompanyRequest W config clk rq t b') = Answer (Some (cached_response (c_str (res_body res))))"
proof -
  have key: "c_str (x @ [CHR 0x00] @ u) = x" for u
    unfolding c_str_def using assms(7) by (simp add: takeWhile_append_stop) (rule takeWhile_append_stop, auto)
  obtain ctx where ctx: "redis_context r = Some ctx" using assms(3) by (auto simp: isConnected_def)
  let ?ctx' = "snd (redisCommand W (set_argv (cache_key_copy cap) (res_body res) 86400) ctx)"
  have c: "cache b' = Redis (r\<lparr>redis_context := Some ?ctx'\<rparr>)"
    using completed_cache [OF assms(4,5)] assms(2) by (simp add: redis_run(1) [OF assms(1) ctx])
  have "db ?ctx' x = Some (c_str (res_body res))"
    using key [of "y @ '':'' @ upper country"] by (simp add: redis_db(1) [OF assms(1)] assms(6))
  moreover have "redis_context (r\<lparr>redis_context := Some ?ctx'\<rparr>) = Some ?ctx'" by simp
  ultimately have "fst (cache_get (redisCommand W) (clk 0) (clk 1) ((x @ [CHR 0x00] @ z) @ '':'' @ upper country')
      (cache b')) = Some (c_str (res_body res))"
    using key [of "z @ '':'' @ upper country'"] redis_run(2) [OF assms(1), of "r\<lparr>redis_context := Some ?ctx'\<rparr>" ?ctx']
    by (simp add: c)
  then show ?thesis by (intro cache_hit [OF _ assms(8,9)]) simp_all
qed

theorem redis_nul_key_collision_witness:
  "\<exists>b'. snd (backend_completed demo_world demo_config 1 (CHR ''x'', 0) (CHR ''x'', 0)
        (demo_capture\<lparr>cache_key_copy := ''7'' @ [CHR 0x00] @ ''a'' @ '':'' @ upper ''us''\<rparr>) demo_answer no_error
        (demo_service\<lparr>cache := Redis \<lparr>redis_context = Some []\<rparr>\<rparr>)) = b'
    \<and> fst (processCompanyRequest demo_world demo_config (\<lambda>_. 5)
        (demo_request\<lparr>req_target := company_target (''7'' @ [CHR 0x00] @ ''b'') ''de''\<rparr>) 0 b')
      = Answer (Some (cached_response ''{}''))"
proof -
  let ?r = "\<lparr>redis_context = Some ([] :: (string, string) umap)\<rparr>"
  let ?b = "demo_service\<lparr>cache := Redis ?r\<rparr>"
  let ?cap = "demo_capture\<lparr>cache_key_copy := ''7'' @ [CHR 0x00] @ ''a'' @ '':'' @ upper ''us''\<rparr>"
  let ?rq = "demo_request\<lparr>req_target := company_target (''7'' @ [CHR 0x00] @ ''b'') ''de''\<rparr>"
  let ?res = "prepare_payload (set_body ''{}'' (response_for demo_request))"
  obtain b' where b: "backend_completed demo_world demo_config 1 (CHR ''x'', 0) (CHR ''x'', 0) ?cap demo_answer no_error ?b
      = (Inr ?res, b')"
    using demo_completed_any [of ?b ?cap demo_config 1 "(CHR ''x'', 0)" "(CHR ''x'', 0)"]
    by (auto simp: demo_service_def demo_capture_def)
  have laws: "redis_laws (redisCommand demo_world) umap_find" by (simp add: demo_world_def ref_redis_laws)
  have c: "cache ?b = Redis ?r" "isConnected ?r" "res_result ?res = 200"
      "cache_key_copy ?cap = ''7'' @ [CHR 0x00] @ ''a'' @ '':'' @ upper ''us''" "CHR 0x00 \<notin> set ''7''" "''de'' \<noteq> []"
      "req_target ?rq = company_target (''7'' @ [CHR 0x00] @ ''b'') ''de''"
    by (simp_all add: isConnected_def response_for_def empty_response_def)
  from redis_nul_key_collision [OF laws c(1,2) b c(3-7), of "\<lambda>_. 5" 0] b show ?thesis
    by (simp add: c_str_def)
qed

end
